(* ===== verification/Omf_Prelude.thy ===== *)
theory Omf_Prelude
  imports Main "HOL-Library.Word" "HOL-Library.Product_Lexorder"
begin

text \<open>
  What the components of the development share: the machine types, the sum type of fallible
  results with its combinators, decimal and hexadecimal printing for error messages, and
  generic lemmas on lists and words.

  A Rust integer of \<open>w\<close> bits is a \<open>w word\<close>; a signed one is the word of the same bits, read
  with \<open>sint\<close>. A \<open>usize\<close> is a \<open>nat\<close> with the 64-bit bound written out wherever the code
  checks for overflow. An \<open>f32\<close> or \<open>f64\<close> is its IEEE 754 bit pattern, which is what
  \<open>to_le_bytes\<close> and \<open>from_le_bytes\<close> move. A fallible result is \<open>'e + 'a\<close>, \<open>Inl\<close> for \<open>Err\<close>
  and \<open>Inr\<close> for \<open>Ok\<close>.
\<close>

unbundle bit_operations_syntax

section \<open>Machine types\<close>

type_synonym u8 = "8 word"
type_synonym u16 = "16 word"
type_synonym u32 = "32 word"
type_synonym u64 = "64 word"
type_synonym i32 = "32 word"
type_synonym f32 = "32 word"
type_synonym f64 = "64 word"
type_synonym usize = nat
type_synonym bytes = "8 word list"
type_synonym point3 = "32 word \<times> 32 word \<times> 32 word"

abbreviation usize_limit :: nat where
  "usize_limit \<equiv> 2 ^ 64"

abbreviation usize_max :: nat where
  "usize_max \<equiv> 2 ^ 64 - 1"

text \<open>Proof rules the components add to as they are introduced.\<close>

named_theorems wire_simps \<open>what an encoder appends to its buffer\<close>
named_theorems reads_intros \<open>which bytes a sequential read consumes\<close>
named_theorems layout_simps \<open>unfolding of fixed-layout records into byte lists\<close>

section \<open>Fallible results\<close>

text \<open>\<open>rbind\<close> is the \<open>?\<close> operator: stop at the first error.\<close>

fun rbind :: "'e + 'a \<Rightarrow> ('a \<Rightarrow> 'e + 'b) \<Rightarrow> 'e + 'b" where
  "rbind (Inl e) f = Inl e"
| "rbind (Inr x) f = f x"

definition rmap :: "('a \<Rightarrow> 'b) \<Rightarrow> 'e + 'a \<Rightarrow> 'e + 'b" where
  "rmap f r = rbind r (\<lambda>x. Inr (f x))"

fun map_err :: "('e \<Rightarrow> 'f) \<Rightarrow> 'e + 'a \<Rightarrow> 'f + 'a" where
  "map_err f (Inl e) = Inl (f e)"
| "map_err f (Inr x) = Inr x"

fun ok_or :: "'e \<Rightarrow> 'a option \<Rightarrow> 'e + 'a" where
  "ok_or e None = Inl e"
| "ok_or e (Some x) = Inr x"

fun is_ok :: "'e + 'a \<Rightarrow> bool" where
  "is_ok (Inl e) = False"
| "is_ok (Inr x) = True"

text \<open>A loop that pushes \<open>f x?\<close> for every \<open>x\<close>.\<close>

fun rmapM :: "('a \<Rightarrow> 'e + 'b) \<Rightarrow> 'a list \<Rightarrow> 'e + 'b list" where
  "rmapM f [] = Inr []"
| "rmapM f (x # xs) = rbind (f x) (\<lambda>y. rbind (rmapM f xs) (\<lambda>ys. Inr (y # ys)))"

lemma rbind_Inr_iff:
  "rbind r f = Inr y \<longleftrightarrow> (\<exists>x. r = Inr x \<and> f x = Inr y)"
  by (cases r) auto

text \<open>Evaluation goes left to right: the continuation is left alone until its argument is a value.\<close>

lemma rbind_cong: "r = s \<Longrightarrow> rbind r f = rbind s f"
  by simp

lemma rbind_assoc: "rbind (rbind r f) g = rbind r (\<lambda>x. rbind (f x) g)"
  by (cases r) auto

lemma rbind_if: "rbind (if c then a else b) f = (if c then rbind a f else rbind b f)"
  by simp

lemma rmap_simps [simp]: "rmap f (Inl e) = Inl e" "rmap f (Inr x) = Inr (f x)"
  by (simp_all add: rmap_def)

lemma rmapM_append:
  "rmapM f (xs @ ys) = rbind (rmapM f xs) (\<lambda>as. rbind (rmapM f ys) (\<lambda>bs. Inr (as @ bs)))"
proof (induction xs)
  case Nil
  show ?case by (cases "rmapM f ys") auto
qed (simp add: rbind_assoc)

lemma rmapM_map: "rmapM f (map g xs) = rmapM (\<lambda>x. f (g x)) xs"
  by (induction xs) auto

lemma rmapM_Inr: "(\<And>x. x \<in> set xs \<Longrightarrow> f x = Inr (g x)) \<Longrightarrow> rmapM f xs = Inr (map g xs)"
  by (induction xs) auto

lemma rmapM_length: "rmapM f xs = Inr ys \<Longrightarrow> length ys = length xs"
  by (induction xs arbitrary: ys) (auto simp: rbind_Inr_iff)

lemma rmapM_nth: "rmapM f xs = Inr ys \<Longrightarrow> i < length xs \<Longrightarrow> f (xs ! i) = Inr (ys ! i)"
  by (induction xs arbitrary: ys i) (auto simp: rbind_Inr_iff nth_Cons split: nat.splits)

lemma is_ok_iff: "is_ok r \<longleftrightarrow> (\<exists>x. r = Inr x)"
  by (cases r) auto

section \<open>Numbers in messages\<close>

text \<open>\<open>{}\<close> of an unsigned integer, and \<open>{:#x}\<close> and its zero-padded forms.\<close>

definition digit_char :: "nat \<Rightarrow> char" where
  "digit_char d = (''0123456789abcdef'' ! d)"

fun show_base :: "nat \<Rightarrow> nat \<Rightarrow> string" where
  "show_base b n =
     (if b < 2 \<or> n < b then [digit_char (n mod 16)]
      else show_base b (n div b) @ [digit_char (n mod b)])"

declare show_base.simps [simp del]

definition show_nat :: "nat \<Rightarrow> string" where
  "show_nat n = show_base 10 n"

definition show_hex :: "nat \<Rightarrow> string" where
  "show_hex n = ''0x'' @ show_base 16 n"

definition show_hex_pad :: "nat \<Rightarrow> nat \<Rightarrow> string" where
  "show_hex_pad width n =
     (let ds = show_base 16 n
      in ''0x'' @ replicate (width - 2 - length ds) CHR ''0'' @ ds)"

section \<open>Checked and saturating \<open>usize\<close> arithmetic\<close>

definition usize_checked_add :: "usize \<Rightarrow> usize \<Rightarrow> usize option" where
  "usize_checked_add a b = (if a + b < usize_limit then Some (a + b) else None)"

definition usize_checked_mul :: "usize \<Rightarrow> usize \<Rightarrow> usize option" where
  "usize_checked_mul a b = (if a * b < usize_limit then Some (a * b) else None)"

definition div_ceil :: "nat \<Rightarrow> nat \<Rightarrow> nat" where
  "div_ceil a b = (if a mod b = 0 then a div b else a div b + 1)"

lemma div_ceil_8: "div_ceil n 8 = (n + 7) div 8"
proof -
  define q r where "q = n div 8" and "r = n mod 8"
  have n: "n = r + 8 * q" and r: "r < 8" by (simp_all add: q_def r_def)
  have "(n + 7) div 8 = (r + 7) div 8 + q" by (simp add: n)
  also have "(r + 7) div 8 = (if r = 0 then 0 else 1)"
    using r by (auto intro!: div_nat_eqI)
  finally show ?thesis by (simp add: div_ceil_def q_def r_def)
qed

lemma div_ceil_8_bound: "i < n \<Longrightarrow> i div 8 < div_ceil n 8"
  unfolding div_ceil_8 by (simp add: less_mult_imp_div_less)

section \<open>Lists\<close>

lemma fold_append_map: "fold (\<lambda>x w. w @ g x) xs w = w @ concat (map g xs)"
  by (induction xs arbitrary: w) auto

lemma upt_split: "k \<le> n \<Longrightarrow> [0..<n] = [0..<k] @ [k..<n]"
  using upt_add_eq_append [of 0 k "n - k"] by simp

lemma length_2: "length xs = 2 \<Longrightarrow> \<exists>a b. xs = [a, b]"
  by (auto simp: length_Suc_conv numeral_2_eq_2)

lemma length_concat_const:
  "(\<And>x. x \<in> set xs \<Longrightarrow> length (f x) = n) \<Longrightarrow> length (concat (map f xs)) = n * length xs"
  by (induction xs) auto

lemma take_drop_append_exact:
  "off = length a \<Longrightarrow> n = length b \<Longrightarrow> take n (drop off (a @ b @ c)) = b"
  by simp

text \<open>\<open>chunks_exact\<close>: the full chunks of \<open>n\<close> elements, the remainder left out.\<close>

function chunks_exact :: "nat \<Rightarrow> 'a list \<Rightarrow> 'a list list" where
  "chunks_exact n xs =
     (if n = 0 \<or> length xs < n then [] else take n xs # chunks_exact n (drop n xs))"
  by pat_completeness auto
termination
  by (relation "measure (\<lambda>(n, xs). length xs)") (simp_all, linarith)

declare chunks_exact.simps [simp del]

lemma chunks_exact_Nil [simp]: "chunks_exact n [] = []"
  by (subst chunks_exact.simps) auto

lemma chunks_exact_Cons:
  "0 < n \<Longrightarrow> length a = n \<Longrightarrow> chunks_exact n (a @ xs) = a # chunks_exact n xs"
  by (subst chunks_exact.simps) simp

lemma chunks_exact_concat:
  assumes "0 < n" and "\<And>x. x \<in> set xs \<Longrightarrow> length (f x) = n"
  shows "chunks_exact n (concat (map f xs)) = map f xs"
  using assms(2)
proof (induction xs)
  case (Cons x xs)
  then show ?case using assms(1) by (simp add: chunks_exact_Cons)
qed simp

lemma chunks_exact_lengths: "c \<in> set (chunks_exact n xs) \<Longrightarrow> length c = n"
proof (induction n xs rule: chunks_exact.induct)
  case (1 n xs)
  then show ?case by (subst (asm) chunks_exact.simps) (auto split: if_splits)
qed

lemma concat_chunks_exact:
  "0 < n \<Longrightarrow> n dvd length xs \<Longrightarrow> concat (chunks_exact n xs) = xs"
proof (induction n xs rule: chunks_exact.induct)
  case (1 n xs)
  show ?case
  proof (cases "length xs < n")
    case True
    with 1 have "xs = []" by (auto dest: dvd_imp_le)
    then show ?thesis by simp
  next
    case False
    with 1 have "n dvd length (drop n xs)" by (simp add: dvd_diff_nat)
    with 1 False have "concat (chunks_exact n (drop n xs)) = drop n xs" by simp
    then show ?thesis using False 1 by (subst chunks_exact.simps) simp
  qed
qed

lemma length_chunks_exact: "0 < n \<Longrightarrow> length (chunks_exact n xs) = length xs div n"
proof (induction n xs rule: chunks_exact.induct)
  case (1 n xs)
  show ?case
  proof (cases "length xs < n")
    case True
    then show ?thesis by (subst chunks_exact.simps) simp
  next
    case False
    with 1 show ?thesis
      by (subst chunks_exact.simps) (simp add: le_div_geq)
  qed
qed

text \<open>Replace the first element that satisfies \<open>P\<close>, or push at the end: the
  \<open>iter_mut().find\<close> idiom of the tables.\<close>

fun replace_or_push :: "('a \<Rightarrow> bool) \<Rightarrow> 'a \<Rightarrow> 'a list \<Rightarrow> 'a list" where
  "replace_or_push P y [] = [y]"
| "replace_or_push P y (x # xs) = (if P x then y # xs else x # replace_or_push P y xs)"

lemma find_replace_or_push:
  "P y \<Longrightarrow> find P (replace_or_push P y xs) = Some y"
  by (induction xs) auto

lemma find_replace_or_push_other:
  assumes "\<not> Q y" and "\<And>x. P x \<Longrightarrow> \<not> Q x"
  shows "find Q (replace_or_push P y xs) = find Q xs"
  using assms by (induction xs) auto

lemma set_replace_or_push: "set (replace_or_push P y xs) \<subseteq> insert y (set xs)"
  by (induction xs) auto

lemma length_replace_or_push:
  "length (replace_or_push P y xs) = (if \<exists>x \<in> set xs. P x then length xs else Suc (length xs))"
  by (induction xs) auto

lemma replace_or_push_unique:
  assumes "distinct (map k xs)"
  shows "distinct (map k (replace_or_push (\<lambda>x. k x = k y) y xs))"
  using assms
proof (induction xs)
  case (Cons x xs)
  then show ?case
    using set_replace_or_push [of "\<lambda>x. k x = k y" y xs] by (auto simp: image_iff)
qed simp

lemma count_set_bits_nth:
  "filter P xs = map (\<lambda>i. xs ! i) (filter (\<lambda>i. P (xs ! i)) [0..<length xs])"
proof (induction xs rule: rev_induct)
  case (snoc x xs)
  have "filter (\<lambda>i. P ((xs @ [x]) ! i)) [0..<length xs] = filter (\<lambda>i. P (xs ! i)) [0..<length xs]"
    by (rule filter_cong) (auto simp: nth_append)
  moreover have "map ((!) (xs @ [x])) (filter (\<lambda>i. P (xs ! i)) [0..<length xs])
      = map ((!) xs) (filter (\<lambda>i. P (xs ! i)) [0..<length xs])"
    by (rule map_cong) (auto simp: nth_append)
  ultimately show ?case using snoc by simp
qed simp

section \<open>Words\<close>

lemma unat_lt_256 [simp]: "unat (b :: u8) < 256"
  using unsigned_less [of b] by simp

lemma unat_lt_65536 [simp]: "unat (b :: u16) < 65536"
  using unsigned_less [of b] by simp

lemma unat_of_nat_u16: "n < 65536 \<Longrightarrow> unat (word_of_nat n :: u16) = n"
  by (simp add: unat_of_nat take_bit_nat_eq_self)

lemma unat_of_nat_u32: "n < 2 ^ 32 \<Longrightarrow> unat (word_of_nat n :: u32) = n"
  by (simp add: unat_of_nat take_bit_nat_eq_self)

lemma unat_of_nat_u8: "n < 256 \<Longrightarrow> unat (word_of_nat n :: u8) = n"
  by (simp add: unat_of_nat take_bit_nat_eq_self)

lemma unat_of_nat_u64: "n < 2 ^ 64 \<Longrightarrow> unat (word_of_nat n :: u64) = n"
  by (simp add: unat_of_nat take_bit_nat_eq_self)

end
