(* ===== verification/Omf_Error.thy ===== *)
theory Omf_Error
  imports Omf_Prelude
begin

text \<open>
  The failure modes of the map container (\<open>crates/map-format/src/error.rs\<close>): one constructor
  per variant of \<open>MapError\<close>, with the variant's fields in their order. A \<open>u64\<close> offset that the
  code obtains from a \<open>usize\<close> is a \<open>nat\<close>.
\<close>

datatype map_error =
    Io string
  | BadMagic bytes bytes
  | UnsupportedVersion u16 u16
  | HeaderCrc u32 u32
  | ChunkCrc u16 u8 u32 u32 u32
  | FileHash bytes bytes
  | Truncated nat usize usize
  | UnsupportedCodec u8 u16 u8 u32
  | MissingTlv u32 string
  | Invalid string
  | LayerNotFound u16
  | StaleDerived u16 string
  | NotACellLayer u16 string
  | PatchBaseMismatch u64 u64
  | PatchDerivedLayer u16
  | OpenFile string map_error

type_synonym 'a result = "map_error + 'a"

definition invalid :: "string \<Rightarrow> map_error" where
  "invalid msg = Invalid msg"

definition with_path :: "map_error \<Rightarrow> string \<Rightarrow> map_error" where
  "with_path e path = OpenFile path e"

fun is_recoverable :: "map_error \<Rightarrow> bool" where
  "is_recoverable (UnsupportedCodec _ _ _ _) = True"
| "is_recoverable (ChunkCrc _ _ _ _ _) = True"
| "is_recoverable (StaleDerived _ _) = True"
| "is_recoverable (LayerNotFound _) = True"
| "is_recoverable _ = False"

end
