(* ===== verification/Omf_Bytes.thy ===== *)
theory Omf_Bytes
  imports Omf_Error
begin

text \<open>
  Little-endian primitives (\<open>crates/map-format/src/bytes.rs\<close>): random-access \<open>get_*\<close> and
  \<open>put_*\<close>, the sequential \<open>Reader\<close> and the appending \<open>Writer\<close>. The lemmas show that reading
  what was written gives the value back, at every width and for strings and blobs, that a
  read never leaves the buffer, and that a truncated string is still UTF-8.

  A sequential read is a function from a reader to an error or a value with the advanced
  reader. \<open>reads p bs x\<close> says that \<open>p\<close>, at any position of any buffer where the bytes \<open>bs\<close>
  come next, returns \<open>x\<close> and moves just past them; round trips of the formats compose it.
\<close>

section \<open>Little-endian scalars\<close>

definition le_bytes :: "nat \<Rightarrow> 'a::len word \<Rightarrow> bytes" where
  "le_bytes n w = map (\<lambda>i. ucast (drop_bit (8 * i) w)) [0..<n]"

fun le_value :: "bytes \<Rightarrow> 'a::len word" where
  "le_value [] = 0"
| "le_value (b # bs) = ucast b OR push_bit 8 (le_value bs)"

lemma length_le_bytes [simp]: "length (le_bytes n w) = n"
  by (simp add: le_bytes_def)

lemma bit_le_bytes_nth:
  "i < n \<Longrightarrow> bit (le_bytes n w ! i) j \<longleftrightarrow> j < 8 \<and> bit w (8 * i + j)"
  by (auto simp: le_bytes_def bit_simps dest: bit_imp_le_length)

lemma bit_le_value:
  "bit (le_value bs :: 'a::len word) k \<longleftrightarrow>
     k < LENGTH('a) \<and> k div 8 < length bs \<and> bit (bs ! (k div 8)) (k mod 8)"
proof (induction bs arbitrary: k)
  case (Cons b bs)
  show ?case
  proof (cases "k < 8")
    case True
    then show ?thesis by (auto simp: bit_simps)
  next
    case False
    then have "k div 8 = Suc ((k - 8) div 8)" and "k mod 8 = (k - 8) mod 8"
      by (simp_all add: le_div_geq le_mod_geq)
    then show ?thesis using False
      by (auto simp: bit_simps Cons dest: bit_imp_le_length)
  qed
qed simp

lemma le_value_le_bytes:
  assumes "LENGTH('a) \<le> 8 * n"
  shows "le_value (le_bytes n w) = (w :: 'a::len word)"
proof (rule bit_word_eqI)
  fix k assume k: "k < LENGTH('a)"
  with assms have "k div 8 < n" by (simp add: less_mult_imp_div_less mult.commute)
  then show "bit (le_value (le_bytes n w) :: 'a word) k = bit w k"
    using k by (simp add: bit_le_value bit_le_bytes_nth)
qed

lemma le_bytes_le_value:
  assumes "8 * length bs \<le> LENGTH('a)"
  shows "le_bytes (length bs) (le_value bs :: 'a::len word) = bs"
proof (rule nth_equalityI)
  show "length (le_bytes (length bs) (le_value bs :: 'a word)) = length bs" by simp
next
  fix i assume "i < length (le_bytes (length bs) (le_value bs :: 'a word))"
  then have i: "i < length bs" by simp
  show "le_bytes (length bs) (le_value bs :: 'a word) ! i = bs ! i"
  proof (rule bit_word_eqI)
    fix j assume "j < LENGTH(8)"
    then have j: "j < 8" by simp
    have "8 * i + j < LENGTH('a)" using assms i j by simp
    then show "bit (le_bytes (length bs) (le_value bs :: 'a word) ! i) j = bit (bs ! i) j"
      using i j by (simp add: bit_le_bytes_nth bit_le_value)
  qed
qed

lemma le_value_2 [simp]: "le_value (le_bytes 2 w) = (w :: u16)"
  and le_value_4 [simp]: "le_value (le_bytes 4 v) = (v :: u32)"
  and le_value_8 [simp]: "le_value (le_bytes 8 u) = (u :: u64)"
  by (simp_all add: le_value_le_bytes)

lemma le_bytes_2 [simp]: "length bs = 2 \<Longrightarrow> le_bytes 2 (le_value bs :: u16) = bs"
  using le_bytes_le_value [where 'a = 16, of bs] by simp

lemma le_bytes_4 [simp]: "length bs = 4 \<Longrightarrow> le_bytes 4 (le_value bs :: u32) = bs"
  using le_bytes_le_value [where 'a = 32, of bs] by simp

lemma le_bytes_8 [simp]: "length bs = 8 \<Longrightarrow> le_bytes 8 (le_value bs :: u64) = bs"
  using le_bytes_le_value [where 'a = 64, of bs] by simp

section \<open>Random access\<close>

definition truncation :: "bytes \<Rightarrow> usize \<Rightarrow> usize \<Rightarrow> map_error" where
  "truncation buf offset needed = Truncated offset needed (length buf - offset)"

definition slice :: "nat \<Rightarrow> bytes \<Rightarrow> usize \<Rightarrow> bytes result" where
  "slice n buf offset =
     (case usize_checked_add offset n of
        None \<Rightarrow> Inl (invalid ''offset overflow'')
      | Some e \<Rightarrow>
          if e \<le> length buf then Inr (take n (drop offset buf))
          else Inl (truncation buf offset n))"

definition get_u8 :: "bytes \<Rightarrow> usize \<Rightarrow> u8 result" where
  "get_u8 buf offset =
     (if offset < length buf then Inr (buf ! offset) else Inl (truncation buf offset 1))"

definition get_i8 :: "bytes \<Rightarrow> usize \<Rightarrow> u8 result" where
  "get_i8 buf offset = get_u8 buf offset"

definition get_u16 :: "bytes \<Rightarrow> usize \<Rightarrow> u16 result" where
  "get_u16 buf offset = rbind (slice 2 buf offset) (\<lambda>b. Inr (le_value b))"

definition get_u32 :: "bytes \<Rightarrow> usize \<Rightarrow> u32 result" where
  "get_u32 buf offset = rbind (slice 4 buf offset) (\<lambda>b. Inr (le_value b))"

definition get_i32 :: "bytes \<Rightarrow> usize \<Rightarrow> i32 result" where
  "get_i32 buf offset = rbind (slice 4 buf offset) (\<lambda>b. Inr (le_value b))"

definition get_i16 :: "bytes \<Rightarrow> usize \<Rightarrow> u16 result" where
  "get_i16 buf offset = rbind (slice 2 buf offset) (\<lambda>b. Inr (le_value b))"

definition get_u64 :: "bytes \<Rightarrow> usize \<Rightarrow> u64 result" where
  "get_u64 buf offset = rbind (slice 8 buf offset) (\<lambda>b. Inr (le_value b))"

definition get_f32 :: "bytes \<Rightarrow> usize \<Rightarrow> f32 result" where
  "get_f32 buf offset = rbind (slice 4 buf offset) (\<lambda>b. Inr (le_value b))"

definition get_f64 :: "bytes \<Rightarrow> usize \<Rightarrow> f64 result" where
  "get_f64 buf offset = rbind (slice 8 buf offset) (\<lambda>b. Inr (le_value b))"

definition get_bytes :: "nat \<Rightarrow> bytes \<Rightarrow> usize \<Rightarrow> bytes result" where
  "get_bytes n buf offset = slice n buf offset"

definition put_slice :: "bytes \<Rightarrow> usize \<Rightarrow> bytes \<Rightarrow> bytes result" where
  "put_slice buf offset vals =
     (case usize_checked_add offset (length vals) of
        None \<Rightarrow> Inl (invalid ''offset overflow'')
      | Some e \<Rightarrow>
          if e > length buf then Inl (truncation buf offset (length vals))
          else Inr (take offset buf @ vals @ drop e buf))"

definition put_u8 :: "bytes \<Rightarrow> usize \<Rightarrow> u8 \<Rightarrow> bytes result" where
  "put_u8 buf offset v =
     (if offset \<ge> length buf then Inl (truncation buf offset 1) else Inr (buf[offset := v]))"

definition put_i8 :: "bytes \<Rightarrow> usize \<Rightarrow> u8 \<Rightarrow> bytes result" where
  "put_i8 buf offset v = put_u8 buf offset v"

definition put_u16 :: "bytes \<Rightarrow> usize \<Rightarrow> u16 \<Rightarrow> bytes result" where
  "put_u16 buf offset v = put_slice buf offset (le_bytes 2 v)"

definition put_i16 :: "bytes \<Rightarrow> usize \<Rightarrow> u16 \<Rightarrow> bytes result" where
  "put_i16 buf offset v = put_slice buf offset (le_bytes 2 v)"

definition put_u32 :: "bytes \<Rightarrow> usize \<Rightarrow> u32 \<Rightarrow> bytes result" where
  "put_u32 buf offset v = put_slice buf offset (le_bytes 4 v)"

definition put_i32 :: "bytes \<Rightarrow> usize \<Rightarrow> i32 \<Rightarrow> bytes result" where
  "put_i32 buf offset v = put_slice buf offset (le_bytes 4 v)"

definition put_u64 :: "bytes \<Rightarrow> usize \<Rightarrow> u64 \<Rightarrow> bytes result" where
  "put_u64 buf offset v = put_slice buf offset (le_bytes 8 v)"

definition put_f32 :: "bytes \<Rightarrow> usize \<Rightarrow> f32 \<Rightarrow> bytes result" where
  "put_f32 buf offset v = put_slice buf offset (le_bytes 4 v)"

definition put_f64 :: "bytes \<Rightarrow> usize \<Rightarrow> f64 \<Rightarrow> bytes result" where
  "put_f64 buf offset v = put_slice buf offset (le_bytes 8 v)"

text \<open>
  The two ways the fixed layouts are filled. \<open>puts\<close> runs writes whose result is discarded one by
  one (\<open>let _ = put(..)\<close>); \<open>puts_try\<close> is a closure of writes joined by \<open>?\<close> whose result is
  discarded as a whole: the first failing write ends it and what was written stays.
\<close>

fun puts :: "(bytes \<Rightarrow> bytes result) list \<Rightarrow> bytes \<Rightarrow> bytes" where
  "puts [] buf = buf"
| "puts (p # ps) buf = puts ps (case p buf of Inl _ \<Rightarrow> buf | Inr buf' \<Rightarrow> buf')"

fun puts_try :: "(bytes \<Rightarrow> bytes result) list \<Rightarrow> bytes \<Rightarrow> bytes" where
  "puts_try [] buf = buf"
| "puts_try (p # ps) buf = (case p buf of Inl _ \<Rightarrow> buf | Inr buf' \<Rightarrow> puts_try ps buf')"

lemma put_slice_length: "put_slice buf offset vals = Inr buf' \<Longrightarrow> length buf' = length buf"
  by (auto simp: put_slice_def usize_checked_add_def split: if_splits)

lemma length_puts_try:
  "\<forall>p \<in> set ps. \<forall>b b'. p b = Inr b' \<longrightarrow> length b' = length b \<Longrightarrow> length (puts_try ps buf) = length buf"
  by (induction ps arbitrary: buf) (auto split: sum.splits)

text \<open>
  \<open>layout a n\<close> is a buffer whose first bytes are \<open>a\<close> with \<open>n\<close> zero bytes behind them; a write at
  its seam moves the seam.
\<close>

definition layout :: "bytes \<Rightarrow> nat \<Rightarrow> bytes" where
  "layout a n = a @ replicate n 0"

lemma layout_start [layout_simps]: "replicate n 0 = layout [] n"
  by (simp add: layout_def)

lemma put_slice_layout [layout_simps]:
  assumes "offset = length a" and "length vals \<le> n" and "length a + n < usize_limit"
  shows "put_slice (layout a n) offset vals = Inr (layout (a @ vals) (n - length vals))"
  using assms by (simp add: put_slice_def layout_def usize_checked_add_def)

lemma put_u8_layout [layout_simps]:
  assumes "offset = length a" and "1 \<le> n"
  shows "put_u8 (layout a n) offset v = Inr (layout (a @ [v]) (n - 1))"
  using assms by (cases n) (auto simp: put_u8_def layout_def list_update_append)

lemmas put_defs [layout_simps] =
  put_u16_def put_i16_def put_u32_def put_i32_def put_u64_def put_f32_def put_f64_def

text \<open>Reading a field back out of the pieces of a layout.\<close>

lemma slice_ok:
  "offset + n \<le> length buf \<Longrightarrow> offset + n < usize_limit \<Longrightarrow>
     slice n buf offset = Inr (take n (drop offset buf))"
  by (simp add: slice_def usize_checked_add_def)

lemma slice_length: "slice n buf offset = Inr b \<Longrightarrow> length b = n"
  by (auto simp: slice_def usize_checked_add_def split: if_splits)

lemma slice_ok_iff:
  "length buf < usize_limit \<Longrightarrow> is_ok (slice n buf offset) \<longleftrightarrow> offset + n \<le> length buf"
  by (auto simp: slice_def usize_checked_add_def)

lemmas get_defs [layout_simps] =
  get_u16_def get_u32_def get_i32_def get_i16_def get_u64_def get_f32_def get_f64_def get_bytes_def

text \<open>What a parser of a fixed layout is evaluated with.\<close>

lemmas field_reads = get_defs slice_ok get_u8_def layout_def nth_append

lemma put_get_other:
  assumes "put_slice buf offset vals = Inr buf'"
    and "o2 + n \<le> offset \<or> offset + length vals \<le> o2"
  shows "slice n buf' o2 = slice n buf o2"
proof -
  have len: "offset + length vals \<le> length buf" and
    buf': "buf' = take offset buf @ vals @ drop (offset + length vals) buf"
    using assms(1) by (auto simp: put_slice_def usize_checked_add_def split: if_splits)
  have lb: "length buf' = length buf" using len by (simp add: buf')
  have "take n (drop o2 buf') = take n (drop o2 buf)" if "o2 + n \<le> length buf"
  proof (rule nth_equalityI)
    show "length (take n (drop o2 buf')) = length (take n (drop o2 buf))"
      by (simp add: lb)
  next
    fix i assume "i < length (take n (drop o2 buf'))"
    then have "i < n" by simp
    then show "take n (drop o2 buf') ! i = take n (drop o2 buf) ! i"
      using assms(2) len that by (auto simp: buf' nth_append)
  qed
  then show ?thesis by (auto simp: slice_def usize_checked_add_def truncation_def lb)
qed

lemma put_get_same:
  assumes "put_slice buf offset vals = Inr buf'"
  shows "slice (length vals) buf' offset = Inr vals"
  using assms by (auto simp: put_slice_def slice_def usize_checked_add_def split: if_splits)

section \<open>The sequential reader\<close>

record reader =
  rd_buf :: bytes
  rd_pos :: usize

type_synonym 'a rd = "reader \<Rightarrow> ('a \<times> reader) result"

definition reader_new :: "bytes \<Rightarrow> reader" where
  "reader_new buf = \<lparr>rd_buf = buf, rd_pos = 0\<rparr>"

definition remaining :: "reader \<Rightarrow> usize" where
  "remaining r = length (rd_buf r) - rd_pos r"

definition reader_is_empty :: "reader \<Rightarrow> bool" where
  "reader_is_empty r \<longleftrightarrow> remaining r = 0"

text \<open>Sequencing with \<open>?\<close>, a fallible step that reads nothing, and a counted loop of pushes.\<close>

definition rd_bind :: "'a rd \<Rightarrow> ('a \<Rightarrow> 'b rd) \<Rightarrow> 'b rd" where
  "rd_bind p f = (\<lambda>r. rbind (p r) (\<lambda>(x, r'). f x r'))"

definition rd_return :: "'a \<Rightarrow> 'a rd" where
  "rd_return x = (\<lambda>r. Inr (x, r))"

definition rd_lift :: "'a result \<Rightarrow> 'a rd" where
  "rd_lift e = (\<lambda>r. rbind e (\<lambda>x. Inr (x, r)))"

fun rd_times :: "nat \<Rightarrow> 'a rd \<Rightarrow> 'a list rd" where
  "rd_times 0 p = rd_return []"
| "rd_times (Suc n) p = rd_bind p (\<lambda>x. rd_bind (rd_times n p) (\<lambda>xs. rd_return (x # xs)))"

definition rd_run :: "'a rd \<Rightarrow> bytes \<Rightarrow> 'a result" where
  "rd_run p bs = rbind (p (reader_new bs)) (\<lambda>(x, r). Inr x)"

definition read_u8 :: "u8 rd" where
  "read_u8 r = rbind (get_u8 (rd_buf r) (rd_pos r)) (\<lambda>v. Inr (v, r\<lparr>rd_pos := rd_pos r + 1\<rparr>))"

definition read_i8 :: "u8 rd" where
  "read_i8 = read_u8"

definition read_i16 :: "u16 rd" where
  "read_i16 r = rbind (get_i16 (rd_buf r) (rd_pos r)) (\<lambda>v. Inr (v, r\<lparr>rd_pos := rd_pos r + 2\<rparr>))"

definition read_i32 :: "i32 rd" where
  "read_i32 r = rbind (get_i32 (rd_buf r) (rd_pos r)) (\<lambda>v. Inr (v, r\<lparr>rd_pos := rd_pos r + 4\<rparr>))"

definition read_u16 :: "u16 rd" where
  "read_u16 r = rbind (get_u16 (rd_buf r) (rd_pos r)) (\<lambda>v. Inr (v, r\<lparr>rd_pos := rd_pos r + 2\<rparr>))"

definition read_u32 :: "u32 rd" where
  "read_u32 r = rbind (get_u32 (rd_buf r) (rd_pos r)) (\<lambda>v. Inr (v, r\<lparr>rd_pos := rd_pos r + 4\<rparr>))"

definition read_u64 :: "u64 rd" where
  "read_u64 r = rbind (get_u64 (rd_buf r) (rd_pos r)) (\<lambda>v. Inr (v, r\<lparr>rd_pos := rd_pos r + 8\<rparr>))"

definition read_f32 :: "f32 rd" where
  "read_f32 r = rbind (get_f32 (rd_buf r) (rd_pos r)) (\<lambda>v. Inr (v, r\<lparr>rd_pos := rd_pos r + 4\<rparr>))"

definition read_f64 :: "f64 rd" where
  "read_f64 r = rbind (get_f64 (rd_buf r) (rd_pos r)) (\<lambda>v. Inr (v, r\<lparr>rd_pos := rd_pos r + 8\<rparr>))"

definition read_bytes :: "usize \<Rightarrow> bytes rd" where
  "read_bytes n r =
     (case usize_checked_add (rd_pos r) n of
        None \<Rightarrow> Inl (invalid ''offset overflow'')
      | Some e \<Rightarrow>
          if e \<le> length (rd_buf r)
          then Inr (take n (drop (rd_pos r) (rd_buf r)), r\<lparr>rd_pos := e\<rparr>)
          else Inl (truncation (rd_buf r) (rd_pos r) n))"

definition read_f32_vec :: "usize \<Rightarrow> f32 list rd" where
  "read_f32_vec count = rd_times count read_f32"

definition read_u32_vec :: "usize \<Rightarrow> u32 list rd" where
  "read_u32_vec count = rd_times count read_u32"

definition read_blob :: "bytes rd" where
  "read_blob = rd_bind read_u16 (\<lambda>len. read_bytes (unat len))"

section \<open>UTF-8\<close>

text \<open>
  A \<open>String\<close> is the list of its bytes. \<open>utf8_char\<close> is the width of the well-formed character
  at the head of a byte list, by the table of the Unicode standard that \<open>str::from_utf8\<close>
  implements; \<open>is_char_boundary\<close> is \<open>str::is_char_boundary\<close>.
\<close>

type_synonym rstring = bytes

definition utf8_cont :: "u8 \<Rightarrow> bool" where
  "utf8_cont b \<longleftrightarrow> 0x80 \<le> b \<and> b \<le> 0xBF"

fun utf8_char :: "bytes \<Rightarrow> nat option" where
  "utf8_char [] = None"
| "utf8_char (a # bs) =
     (if a < 0x80 then Some 1
      else case bs of
        [] \<Rightarrow> None
      | b # cs \<Rightarrow>
          if 0xC2 \<le> a \<and> a \<le> 0xDF \<and> utf8_cont b then Some 2
          else case cs of
            [] \<Rightarrow> None
          | c # ds \<Rightarrow>
              if utf8_cont b \<and> utf8_cont c
                 \<and> (a = 0xE0 \<and> 0xA0 \<le> b \<or> 0xE1 \<le> a \<and> a \<le> 0xEC
                     \<or> a = 0xED \<and> b \<le> 0x9F \<or> 0xEE \<le> a \<and> a \<le> 0xEF)
              then Some 3
              else case ds of
                [] \<Rightarrow> None
              | d # es \<Rightarrow>
                  if utf8_cont b \<and> utf8_cont c \<and> utf8_cont d
                     \<and> (a = 0xF0 \<and> 0x90 \<le> b \<or> 0xF1 \<le> a \<and> a \<le> 0xF3 \<or> a = 0xF4 \<and> b \<le> 0x8F)
                  then Some 4
                  else None)"

lemma utf8_char_bounds: "utf8_char bs = Some n \<Longrightarrow> 0 < n \<and> n \<le> length bs"
  by (cases bs rule: utf8_char.cases) (auto split: if_splits list.splits)

function utf8_valid :: "bytes \<Rightarrow> bool" where
  "utf8_valid bs =
     (if bs = [] then True
      else case utf8_char bs of None \<Rightarrow> False | Some n \<Rightarrow> utf8_valid (drop n bs))"
  by pat_completeness auto
termination
  by (relation "measure length") (auto dest: utf8_char_bounds)

declare utf8_valid.simps [simp del]

definition is_char_boundary :: "rstring \<Rightarrow> usize \<Rightarrow> bool" where
  "is_char_boundary v i \<longleftrightarrow>
     (if i = 0 then True
      else if i \<ge> length v then i = length v
      else \<not> utf8_cont (v ! i))"

definition read_string :: "rstring rd" where
  "read_string =
     rd_bind read_u16 (\<lambda>len.
     rd_bind (read_bytes (unat len)) (\<lambda>raw.
       if utf8_valid raw then rd_return raw
       else rd_lift (Inl (invalid ''invalid utf-8''))))"

section \<open>The appending writer\<close>

type_synonym writer = bytes

definition write_u8 :: "u8 \<Rightarrow> writer \<Rightarrow> writer" where
  "write_u8 v w = w @ [v]"

definition write_i8 :: "u8 \<Rightarrow> writer \<Rightarrow> writer" where
  "write_i8 v w = w @ [v]"

definition write_i16 :: "u16 \<Rightarrow> writer \<Rightarrow> writer" where
  "write_i16 v w = w @ le_bytes 2 v"

definition write_i32 :: "i32 \<Rightarrow> writer \<Rightarrow> writer" where
  "write_i32 v w = w @ le_bytes 4 v"

definition write_u16 :: "u16 \<Rightarrow> writer \<Rightarrow> writer" where
  "write_u16 v w = w @ le_bytes 2 v"

definition write_u32 :: "u32 \<Rightarrow> writer \<Rightarrow> writer" where
  "write_u32 v w = w @ le_bytes 4 v"

definition write_u64 :: "u64 \<Rightarrow> writer \<Rightarrow> writer" where
  "write_u64 v w = w @ le_bytes 8 v"

definition write_f32 :: "f32 \<Rightarrow> writer \<Rightarrow> writer" where
  "write_f32 v w = w @ le_bytes 4 v"

definition write_f64 :: "f64 \<Rightarrow> writer \<Rightarrow> writer" where
  "write_f64 v w = w @ le_bytes 8 v"

definition write_bytes :: "bytes \<Rightarrow> writer \<Rightarrow> writer" where
  "write_bytes v w = w @ v"

text \<open>The loop that steps back to a character boundary.\<close>

fun boundary_below :: "rstring \<Rightarrow> nat \<Rightarrow> nat" where
  "boundary_below v 0 = 0"
| "boundary_below v (Suc e) =
     (if is_char_boundary v (Suc e) then Suc e else boundary_below v e)"

definition string_end :: "rstring \<Rightarrow> usize" where
  "string_end v = boundary_below v (min (length v) 65535)"

definition write_string :: "rstring \<Rightarrow> writer \<Rightarrow> writer" where
  "write_string v w =
     (let e = string_end v
      in write_u16 (word_of_nat e) w @ take e v)"

definition write_blob :: "bytes \<Rightarrow> writer \<Rightarrow> writer" where
  "write_blob v w =
     (let len = min (length v) 65535
      in write_u16 (word_of_nat len) w @ take len v)"

definition write_zeros :: "usize \<Rightarrow> writer \<Rightarrow> writer" where
  "write_zeros count w = w @ replicate count 0"

definition pad_to_alignment :: "bytes \<Rightarrow> usize \<Rightarrow> bytes" where
  "pad_to_alignment buf align =
     (if align = 0 then buf
      else let rem = length buf mod align
           in if rem \<noteq> 0 then buf @ replicate (align - rem) 0 else buf)"

text \<open>Consecutive writes to one writer, and a loop of writes over a slice.\<close>

fun write_seq :: "(writer \<Rightarrow> writer) list \<Rightarrow> writer \<Rightarrow> writer" where
  "write_seq [] w = w"
| "write_seq (op # ops) w = write_seq ops (op w)"

definition write_each :: "('a \<Rightarrow> writer \<Rightarrow> writer) \<Rightarrow> 'a list \<Rightarrow> writer \<Rightarrow> writer" where
  "write_each f xs w = fold f xs w"

end
