(* ===== verification/Omf_Wire.thy ===== *)
theory Omf_Wire
  imports Omf_Bytes
begin

text \<open>
  How the round trips of the formats are put together. \<open>appending\<close> says that a writer step only
  appends; an encoder then is the concatenation of what its steps append to the empty buffer
  (the collection \<open>wire_simps\<close>). \<open>reads\<close> says which bytes a sequential read consumes and what
  it returns (the collection \<open>reads_intros\<close>). A decoder undoes an encoder when its \<open>reads\<close>
  derivation consumes exactly the encoder's pieces.
\<close>

section \<open>Writers append\<close>

definition appending :: "(writer \<Rightarrow> writer) \<Rightarrow> bool" where
  "appending op \<longleftrightarrow> (\<forall>w. op w = w @ op [])"

lemma appendingI: "(\<And>w. op w = w @ bs) \<Longrightarrow> appending op"
  by (simp add: appending_def)

lemma appendingD: "appending op \<Longrightarrow> op w = w @ op []"
  unfolding appending_def by blast

lemma appending_writes [wire_simps]:
  "appending (write_u8 a)" "appending (write_u16 b)" "appending (write_u32 c)"
  "appending (write_u64 d)" "appending (write_f32 e)" "appending (write_f64 f)"
  "appending (write_bytes bs)" "appending (write_string s)" "appending (write_blob bs)"
  "appending (write_zeros n)" "appending (write_i8 a)" "appending (write_i16 b)"
  "appending (write_i32 c)"
  by (simp_all add: appending_def write_i8_def write_i16_def write_i32_def write_u8_def write_u16_def write_u32_def write_u64_def
      write_f32_def write_f64_def write_bytes_def write_string_def write_blob_def
      write_zeros_def Let_def)

lemma appending_write_seq [wire_simps]: "list_all appending ops \<Longrightarrow> appending (write_seq ops)"
proof (induction ops)
  case (Cons op ops)
  then have op: "appending op" and ops: "appending (write_seq ops)" by simp_all
  have "write_seq (op # ops) w = w @ (op [] @ write_seq ops [])" for w
    using appendingD [OF ops, of "op w"] appendingD [OF op, of w] by simp
  then show ?case by (rule appendingI)
qed (simp add: appending_def)

lemma write_each_append [wire_simps]:
  assumes "\<And>x. appending (f x)"
  shows "write_each f xs w = w @ concat (map (\<lambda>x. f x []) xs)"
proof -
  have "f = (\<lambda>x w. w @ f x [])"
  proof (intro ext)
    fix x w
    show "f x w = w @ f x []" by (rule appendingD [OF assms])
  qed
  then have "fold f xs w = fold (\<lambda>x w. w @ f x []) xs w" by (rule arg_cong)
  then show ?thesis by (simp add: write_each_def fold_append_map)
qed

lemma appending_write_each [wire_simps]:
  "(\<And>x. appending (f x)) \<Longrightarrow> appending (write_each f xs)"
  by (rule appendingI) (rule write_each_append)

lemma appending_if [wire_simps]:
  "appending f \<Longrightarrow> appending g \<Longrightarrow> appending (if c then f else g)"
  by simp

definition string_bytes :: "rstring \<Rightarrow> bytes" where
  "string_bytes v = le_bytes 2 (word_of_nat (string_end v) :: u16) @ take (string_end v) v"

definition blob_bytes :: "bytes \<Rightarrow> bytes" where
  "blob_bytes v = le_bytes 2 (word_of_nat (min (length v) 65535) :: u16) @ take 65535 v"

lemma writes_append [wire_simps]:
  "write_u8 a w = w @ [a]" "write_u16 b w = w @ le_bytes 2 b" "write_u32 c w = w @ le_bytes 4 c"
  "write_u64 d w = w @ le_bytes 8 d" "write_f32 e w = w @ le_bytes 4 e"
  "write_f64 f w = w @ le_bytes 8 f" "write_bytes bs w = w @ bs"
  "write_string s w = w @ string_bytes s" "write_blob bs w = w @ blob_bytes bs"
  "write_zeros n w = w @ replicate n 0" "write_i8 a w = w @ [a]"
  "write_i16 b w = w @ le_bytes 2 b" "write_i32 c w = w @ le_bytes 4 c"
  by (simp_all add: write_i8_def write_i16_def write_i32_def write_u8_def write_u16_def write_u32_def write_u64_def write_f32_def
      write_f64_def write_bytes_def write_string_def write_blob_def write_zeros_def
      string_bytes_def blob_bytes_def Let_def min_def)

section \<open>What a read consumes\<close>

definition fits :: "bytes \<Rightarrow> bool" where
  "fits buf \<longleftrightarrow> length buf < usize_limit"

definition rd_at :: "bytes \<Rightarrow> bytes \<Rightarrow> reader" where
  "rd_at pre rest = \<lparr>rd_buf = pre @ rest, rd_pos = length pre\<rparr>"

definition reads :: "'a rd \<Rightarrow> bytes \<Rightarrow> 'a \<Rightarrow> bool" where
  "reads p bs x \<longleftrightarrow>
     (\<forall>pre rest. fits (pre @ bs @ rest) \<longrightarrow> p (rd_at pre (bs @ rest)) = Inr (x, rd_at (pre @ bs) rest))"

lemma readsD:
  "reads p bs x \<Longrightarrow> fits (pre @ bs @ rest) \<Longrightarrow>
     p (rd_at pre (bs @ rest)) = Inr (x, rd_at (pre @ bs) rest)"
  by (simp add: reads_def)

lemma rd_run_reads:
  assumes "reads p bs x" and "fits (bs @ rest)"
  shows "rd_run p (bs @ rest) = Inr x"
  using readsD [OF assms(1), of "[]" rest] assms(2)
  by (simp add: rd_run_def rd_at_def reader_new_def)

lemma rd_run_reads_all:
  "reads p bs x \<Longrightarrow> fits bs \<Longrightarrow> rd_run p bs = Inr x"
  using rd_run_reads [of p bs x "[]"] by simp

lemma remaining_rd_at [simp]: "remaining (rd_at pre rest) = length rest"
  by (simp add: remaining_def rd_at_def)

lemma rd_pos_rd_at [simp]: "rd_pos (rd_at pre rest) = length pre"
  by (simp add: rd_at_def)

lemma rd_buf_rd_at [simp]: "rd_buf (rd_at pre rest) = pre @ rest"
  by (simp add: rd_at_def)

lemma reader_new_rd_at: "reader_new bs = rd_at [] bs"
  by (simp add: reader_new_def rd_at_def)

lemma reads_return: "reads (rd_return x) [] x"
  by (simp add: reads_def rd_return_def)

lemma reads_return_eq: "x = y \<Longrightarrow> reads (rd_return x) [] y"
  by (simp add: reads_return)

lemma reads_bind:
  assumes p: "reads p b1 x" and f: "reads (f x) b2 y"
  shows "reads (rd_bind p f) (b1 @ b2) y"
  unfolding reads_def rd_bind_def
proof (intro allI impI)
  fix pre rest assume fit: "fits (pre @ (b1 @ b2) @ rest)"
  have "p (rd_at pre (b1 @ b2 @ rest)) = Inr (x, rd_at (pre @ b1) (b2 @ rest))"
    using fit by (intro readsD [OF p]) simp
  moreover have "f x (rd_at (pre @ b1) (b2 @ rest)) = Inr (y, rd_at ((pre @ b1) @ b2) rest)"
    using fit by (intro readsD [OF f]) simp
  ultimately show "rbind (p (rd_at pre ((b1 @ b2) @ rest))) (\<lambda>(x, r'). f x r')
      = Inr (y, rd_at (pre @ b1 @ b2) rest)"
    by simp
qed

lemma reads_bind_return:
  "reads p bs x \<Longrightarrow> reads (rd_bind p (\<lambda>x. rd_return (f x))) bs (f x)"
  using reads_bind [OF _ reads_return, of p bs x f] by simp

lemma reads_bind_lift:
  assumes "e = Inr x" and "reads (f x) bs y"
  shows "reads (rd_bind (rd_lift e) f) bs y"
  using assms by (simp add: reads_def rd_bind_def rd_lift_def)

lemma reads_bind_last:
  assumes "reads p bs x" and "reads (f x) [] y"
  shows "reads (rd_bind p f) bs y"
  using reads_bind [of p bs x f "[]" y] assms by simp

lemma reads_if:
  "(c \<Longrightarrow> reads p bs x) \<Longrightarrow> (\<not> c \<Longrightarrow> reads q bs x) \<Longrightarrow> reads (if c then p else q) bs x"
  by simp

lemma rd_slice_at:
  assumes "fits (pre @ bs @ rest)" and "n = length bs"
  shows "slice n (rd_buf (rd_at pre (bs @ rest))) (rd_pos (rd_at pre (bs @ rest))) = Inr bs"
  using assms by (simp add: rd_at_def fits_def slice_ok)

lemma reads_scalar [reads_intros]:
  "reads read_u16 (le_bytes 2 a) a" "reads read_u32 (le_bytes 4 b) b"
  "reads read_u64 (le_bytes 8 c) c" "reads read_f32 (le_bytes 4 d) d"
  "reads read_f64 (le_bytes 8 e) e" "reads read_i16 (le_bytes 2 a) a"
  "reads read_i32 (le_bytes 4 b) b"
  by (simp_all add: read_i16_def read_i32_def reads_def read_u16_def read_u32_def read_u64_def read_f32_def read_f64_def
      get_defs rd_slice_at del: rd_pos_rd_at rd_buf_rd_at)
    (simp_all add: rd_at_def)

lemma reads_u8 [reads_intros]: "reads read_u8 [v] v"
  by (simp add: reads_def read_u8_def get_u8_def rd_at_def)

lemma reads_bind_u8: "reads (f v) bs y \<Longrightarrow> reads (rd_bind read_u8 f) (v # bs) y"
  by (simp add: reads_bind [of read_u8 "[v]" v f bs y, simplified] reads_u8)

lemma reads_i8 [reads_intros]: "reads read_i8 [v] v"
  by (simp add: read_i8_def reads_u8)

lemma reads_bytes [reads_intros]: "n = length bs \<Longrightarrow> reads (read_bytes n) bs bs"
  by (simp add: reads_def read_bytes_def usize_checked_add_def rd_at_def fits_def)

lemma reads_times [reads_intros]:
  assumes "n = length xs" and "\<And>x. x \<in> set xs \<Longrightarrow> reads p (g x) x"
  shows "reads (rd_times n p) (concat (map g xs)) xs"
  using assms
proof (induction xs arbitrary: n)
  case Nil
  then show ?case by (simp add: reads_return)
next
  case (Cons x xs)
  have "reads p (g x) x" and "reads (rd_times (length xs) p) (concat (map g xs)) xs"
    using Cons by simp_all
  then have "reads (rd_bind p (\<lambda>x. rd_bind (rd_times (length xs) p) (\<lambda>xs. rd_return (x # xs))))
      (g x @ concat (map g xs)) (x # xs)"
    by (intro reads_bind) (assumption, rule reads_bind_return [where f = "\<lambda>xs. x # xs"])
  then show ?case using Cons.prems(1) by simp
qed

lemma reads_f32_vec [reads_intros]:
  "n = length xs \<Longrightarrow> reads (read_f32_vec n) (concat (map (le_bytes 4) xs)) xs"
  unfolding read_f32_vec_def by (intro reads_times reads_scalar)

lemma reads_u32_vec [reads_intros]:
  "n = length xs \<Longrightarrow> reads (read_u32_vec n) (concat (map (le_bytes 4) xs)) xs"
  unfolding read_u32_vec_def by (intro reads_times reads_scalar)

text \<open>The rules of a derivation, in the order they are tried.\<close>

lemmas reads_combs = reads_bind_lift reads_bind_u8 reads_bind reads_bind_last reads_return_eq

text \<open>Sequencing is associative, and a parser may take the rest of the buffer as one slice.\<close>

lemma rd_bind_assoc: "rd_bind (rd_bind p f) g = rd_bind p (\<lambda>x. rd_bind (f x) g)"
  by (simp add: rd_bind_def rbind_assoc fun_eq_iff case_prod_unfold)

lemma rd_bind_return: "rd_bind (rd_return x) f = f x"
  by (simp add: rd_bind_def rd_return_def)

lemma rd_run_rest:
  assumes "reads p bs x" and "fits (bs @ rest)"
  shows "rd_run (rd_bind p (\<lambda>x. rd_bind (\<lambda>r. read_bytes (remaining r) r) (\<lambda>b. rd_lift (f x b)))) (bs @ rest)
    = f x rest"
proof -
  have "read_bytes (remaining (rd_at bs rest)) (rd_at bs rest) = Inr (rest, rd_at (bs @ rest) [])"
    using readsD [OF reads_bytes [of "length rest" rest], of bs "[]"] assms(2) by simp
  then show ?thesis
    using readsD [OF assms(1), of "[]" rest] assms(2)
    by (cases "f x rest") (simp_all add: rd_run_def rd_bind_def rd_lift_def reader_new_rd_at)
qed

section \<open>Strings and blobs\<close>

lemma utf8_char_cont:
  assumes "utf8_char bs = Some n" and "0 < k" and "k < n"
  shows "utf8_cont (bs ! k)"
proof -
  consider "k = 1" | "k = 2" | "k = 3"
    using assms utf8_char_bounds [OF assms(1)]
    by (cases bs rule: utf8_char.cases) (force split: if_splits list.splits)+
  then show ?thesis
    using assms
    by cases (cases bs rule: utf8_char.cases; auto split: if_splits list.splits)+
qed

lemma utf8_char_take:
  "utf8_char bs = Some n \<Longrightarrow> n \<le> k \<Longrightarrow> utf8_char (take k bs) = Some n"
  by (cases bs rule: utf8_char.cases)
    (auto split: if_splits list.splits simp: take_Cons split: nat.splits)

lemma is_char_boundary_drop:
  assumes "is_char_boundary v k" and "n < k" and "n \<le> length v"
  shows "is_char_boundary (drop n v) (k - n)"
  using assms by (auto simp: is_char_boundary_def split: if_splits)

text \<open>A valid string cut at a character boundary is a valid string.\<close>

lemma utf8_valid_take:
  "utf8_valid v \<Longrightarrow> is_char_boundary v k \<Longrightarrow> utf8_valid (take k v)"
proof (induction v arbitrary: k rule: utf8_valid.induct)
  case (1 v)
  show ?case
  proof (cases "v = [] \<or> k = 0")
    case True
    then show ?thesis by (auto simp: utf8_valid.simps)
  next
    case False
    then obtain n where n: "utf8_char v = Some n" and rest: "utf8_valid (drop n v)"
      using "1.prems"(1) by (subst (asm) utf8_valid.simps) (auto split: option.splits)
    have "n \<le> k"
    proof (rule ccontr)
      assume "\<not> n \<le> k"
      with False n have "utf8_cont (v ! k)" and "k < length v"
        using utf8_char_cont [of v n k] utf8_char_bounds [OF n] by auto
      with "1.prems"(2) False show False by (simp add: is_char_boundary_def)
    qed
    have "utf8_valid (take (k - n) (drop n v))"
    proof (cases "n = k")
      case True
      then show ?thesis by (simp add: utf8_valid.simps)
    next
      case kn: False
      then have "is_char_boundary (drop n v) (k - n)"
        using "1.prems"(2) \<open>n \<le> k\<close> utf8_char_bounds [OF n] by (auto intro!: is_char_boundary_drop)
      then show ?thesis using "1.IH" [OF _ n rest] False by blast
    qed
    moreover have "drop n (take k v) = take (k - n) (drop n v)" by (simp add: drop_take)
    ultimately show ?thesis
      using utf8_char_take [OF n \<open>n \<le> k\<close>] by (subst utf8_valid.simps) simp
  qed
qed

lemma boundary_below_spec:
  "boundary_below v e \<le> e \<and> is_char_boundary v (boundary_below v e)"
  by (induction e) (auto simp: is_char_boundary_def)

lemma boundary_below_greatest:
  "k \<le> e \<Longrightarrow> is_char_boundary v k \<Longrightarrow> k \<le> boundary_below v e"
  by (induction e) (auto simp: le_Suc_eq)

lemma string_end_le: "string_end v \<le> length v" "string_end v \<le> 65535"
  using boundary_below_spec [of v "min (length v) 65535"] by (auto simp: string_end_def)

lemma string_end_full: "length v \<le> 65535 \<Longrightarrow> string_end v = length v"
  using boundary_below_greatest [of "length v" "min (length v) 65535" v] string_end_le [of v]
  by (simp add: string_end_def is_char_boundary_def)

lemma reads_string_truncated:
  assumes "utf8_valid v"
  shows "reads read_string (string_bytes v) (take (string_end v) v)"
proof -
  have "utf8_valid (take (string_end v) v)"
    using assms boundary_below_spec [of v "min (length v) 65535"]
    by (auto simp: string_end_def intro: utf8_valid_take)
  moreover have "unat (word_of_nat (string_end v) :: u16) = length (take (string_end v) v)"
    using string_end_le [of v] by (simp add: unat_of_nat_u16)
  ultimately show ?thesis
    unfolding read_string_def string_bytes_def
    by (intro reads_bind) (rule reads_scalar, rule reads_bind_last,
        auto intro: reads_intros reads_return)
qed

definition rstring_ok :: "rstring \<Rightarrow> bool" where
  "rstring_ok v \<longleftrightarrow> utf8_valid v \<and> length v \<le> 65535"

lemma reads_string [reads_intros]:
  "rstring_ok v \<Longrightarrow> reads read_string (string_bytes v) v"
  using reads_string_truncated [of v] by (simp add: rstring_ok_def string_end_full)

lemma reads_blob [reads_intros]:
  "length v \<le> 65535 \<Longrightarrow> reads read_blob (blob_bytes v) v"
  unfolding read_blob_def blob_bytes_def
  by (rule reads_bind, rule reads_scalar) (auto intro!: reads_bytes simp: unat_of_nat_u16)

end
