(* ===== verification/Omf_Table.thy ===== *)
theory Omf_Table
  imports Omf_Wire
begin

text \<open>
  What the tables of the format rest on: the binary search and partition point of Rust's slices,
  and three interfaces. \<open>fixed_record\<close> is a record with a fixed-size encoding, \<open>record_store\<close> a
  table with a lookup and an insert-or-replace, \<open>record_store_del\<close> one that also removes. The
  components interpret them on their own operations.
\<close>

section \<open>Binary search of the standard library\<close>

text \<open>
  \<open>slice::binary_search_by\<close>: \<open>gt i\<close> says that the element at \<open>i\<close> compares \<open>Greater\<close>. The loop
  halves \<open>size\<close> and keeps the answer in \<open>base ..< base + size\<close>.
\<close>

function bs_loop :: "(nat \<Rightarrow> bool) \<Rightarrow> nat \<Rightarrow> nat \<Rightarrow> nat" where
  "bs_loop gt base len =
     (if len \<le> 1 then base
      else let half = len div 2; mid = base + half
           in bs_loop gt (if gt mid then base else mid) (len - half))"
  by pat_completeness auto
termination
  by (relation "measure (\<lambda>(gt, base, len). len)") auto

declare bs_loop.simps [simp del]

definition binary_search :: "'k::linorder list \<Rightarrow> 'k \<Rightarrow> nat + nat" where
  "binary_search ks k =
     (if ks = [] then Inl 0
      else let b = bs_loop (\<lambda>i. ks ! i > k) 0 (length ks)
           in if ks ! b = k then Inr b
              else Inl (b + (if ks ! b < k then 1 else 0)))"

definition binary_search_by_key :: "('r \<Rightarrow> 'k::linorder) \<Rightarrow> 'k \<Rightarrow> 'r list \<Rightarrow> nat + nat" where
  "binary_search_by_key key k rs = binary_search (map key rs) k"

definition partition_point :: "('r \<Rightarrow> bool) \<Rightarrow> 'r list \<Rightarrow> nat" where
  "partition_point P rs =
     (if rs = [] then 0
      else let b = bs_loop (\<lambda>i. \<not> P (rs ! i)) 0 (length rs)
           in b + (if P (rs ! b) then 1 else 0))"

text \<open>If \<open>gt\<close> is upward closed, the loop ends at the last index where it fails, or at the start.\<close>

definition gt_closed :: "(nat \<Rightarrow> bool) \<Rightarrow> nat \<Rightarrow> bool" where
  "gt_closed gt n \<longleftrightarrow> (\<forall>i j. i \<le> j \<and> j < n \<and> gt i \<longrightarrow> gt j)"

lemma bs_loop_spec:
  assumes "gt_closed gt n" and "0 < len" and "base = b0 \<or> \<not> gt base"
    and "\<forall>j. base + len \<le> j \<and> j < n \<longrightarrow> gt j" and "base + len \<le> n"
  shows "let b = bs_loop gt base len in
    (b = b0 \<or> \<not> gt b) \<and> base \<le> b \<and> b < base + len \<and> (\<forall>j. b < j \<and> j < n \<longrightarrow> gt j)"
  using assms
proof (induction gt base len rule: bs_loop.induct)
  case (1 gt base len)
  show ?case
  proof (cases "len \<le> 1")
    case True
    with "1.prems" have "bs_loop gt base len = base" and "len = 1"
      by (simp_all add: bs_loop.simps)
    with "1.prems" show ?thesis by (auto simp: Let_def)
  next
    case False
    define half where "half = len div 2"
    define mid where "mid = base + half"
    define base' where "base' = (if gt mid then base else mid)"
    have half: "0 < half" "half < len" using False by (auto simp: half_def)
    have eq: "bs_loop gt base len = bs_loop gt base' (len - half)"
      using False by (subst bs_loop.simps) (simp add: half_def mid_def base'_def Let_def)
    have up: "\<forall>j. base' + (len - half) \<le> j \<and> j < n \<longrightarrow> gt j"
    proof (cases "gt mid")
      case True
      have "mid \<le> base + (len - half)" by (simp add: mid_def half_def)
      have "gt j" if "base + (len - half) \<le> j" "j < n" for j
      proof -
        have "mid \<le> j" using \<open>mid \<le> base + (len - half)\<close> that(1) by (rule le_trans)
        then show ?thesis using True that(2) "1.prems"(1) unfolding gt_closed_def by blast
      qed
      then show ?thesis using True by (simp add: base'_def)
    next
      case False
      then show ?thesis using "1.prems"(4) half by (auto simp: base'_def mid_def)
    qed
    have fit: "base' + (len - half) \<le> base + len" "base \<le> base'"
      using half by (auto simp: base'_def mid_def)
    have start: "base' = b0 \<or> \<not> gt base'"
      using "1.prems"(3) by (auto simp: base'_def)
    have "let b = bs_loop gt base' (len - half) in
      (b = b0 \<or> \<not> gt b) \<and> base' \<le> b \<and> b < base' + (len - half) \<and> (\<forall>j. b < j \<and> j < n \<longrightarrow> gt j)"
    proof (rule "1.IH" [OF False half_def mid_def, folded base'_def])
      show "0 < len - half" using half by simp
      show "base' + (len - half) \<le> n" using fit "1.prems"(5) by simp
    qed (use start up "1.prems"(1) in blast)+
    then show ?thesis using fit by (auto simp: eq Let_def)
  qed
qed

lemma bs_loop_whole:
  assumes "gt_closed gt n" and "0 < n"
  shows "(bs_loop gt 0 n = 0 \<or> \<not> gt (bs_loop gt 0 n)) \<and> bs_loop gt 0 n < n \<and>
    (\<forall>j. bs_loop gt 0 n < j \<and> j < n \<longrightarrow> gt j)"
proof -
  have "\<forall>j. 0 + n \<le> j \<and> j < n \<longrightarrow> gt j" by auto
  from bs_loop_spec [OF assms, of 0 0, OF _ this] show ?thesis by (simp add: Let_def)
qed

lemma gt_closed_sorted: "sorted ks \<Longrightarrow> gt_closed (\<lambda>i. ks ! i > k) (length ks)"
  by (auto simp: gt_closed_def intro: less_le_trans sorted_nth_mono)

lemma binary_search_Inr: "binary_search ks k = Inr i \<Longrightarrow> sorted ks \<Longrightarrow> i < length ks \<and> ks ! i = k"
  using bs_loop_whole [OF gt_closed_sorted, of ks k]
  by (auto simp: binary_search_def Let_def split: if_splits)

lemma binary_search_Inl:
  assumes "binary_search ks k = Inl i" and "sorted ks"
  shows "i \<le> length ks \<and> (\<forall>j < i. ks ! j < k) \<and> (\<forall>j. i \<le> j \<and> j < length ks \<longrightarrow> ks ! j > k)"
proof (cases "ks = []")
  case True
  with assms show ?thesis by (simp add: binary_search_def)
next
  case False
  define b where "b = bs_loop (\<lambda>i. ks ! i > k) 0 (length ks)"
  have b: "(b = 0 \<or> ks ! b \<le> k)" "b < length ks" "\<forall>j. b < j \<and> j < length ks \<longrightarrow> ks ! j > k"
    using bs_loop_whole [OF gt_closed_sorted [OF assms(2)], of k] False
    by (auto simp: b_def not_less)
  have i: "ks ! b \<noteq> k" "i = b + (if ks ! b < k then 1 else 0)"
    using assms(1) False by (auto simp: binary_search_def Let_def b_def split: if_splits)
  show ?thesis
  proof (cases "ks ! b < k")
    case True
    then have "ks ! j < k" if "j < i" for j
    proof -
      have "j \<le> b" using that i True by simp
      then have "ks ! j \<le> ks ! b" using sorted_nth_mono [OF assms(2)] b(2) by blast
      then show ?thesis using True by (rule le_less_trans)
    qed
    moreover have "i = b + 1" using True i by simp
    ultimately show ?thesis using b(2,3) by (simp add: Suc_le_eq)
  next
    case False
    with b i have "b = 0" and "ks ! 0 > k" by auto
    with b i have "ks ! j > k" if "j < length ks" for j
      using that by (cases "j = 0") auto
    with \<open>b = 0\<close> False i show ?thesis by auto
  qed
qed

lemma binary_search_cases:
  assumes "sorted ks"
  obtains (found) i where "binary_search ks k = Inr i" "i < length ks" "ks ! i = k"
    | (absent) i where "binary_search ks k = Inl i" "i \<le> length ks"
        "\<forall>j < i. ks ! j < k" "\<forall>j. i \<le> j \<and> j < length ks \<longrightarrow> ks ! j > k"
  using binary_search_Inr [of ks k] binary_search_Inl [of ks k] assms
  by (cases "binary_search ks k") blast+

lemma partition_point_takeWhile:
  assumes "\<And>i j. i \<le> j \<Longrightarrow> j < length rs \<Longrightarrow> P (rs ! j) \<Longrightarrow> P (rs ! i)"
  shows "partition_point P rs = length (takeWhile P rs)"
proof (cases "rs = []")
  case False
  define b where "b = bs_loop (\<lambda>i. \<not> P (rs ! i)) 0 (length rs)"
  have "gt_closed (\<lambda>i. \<not> P (rs ! i)) (length rs)"
    using assms by (auto simp: gt_closed_def)
  from bs_loop_whole [OF this] False
  have b: "(b = 0 \<or> P (rs ! b))" "b < length rs" "\<forall>j. b < j \<and> j < length rs \<longrightarrow> \<not> P (rs ! j)"
    by (auto simp: b_def)
  have "takeWhile P rs = take (partition_point P rs) rs"
  proof (rule takeWhile_eq_take_P_nth)
    fix i assume "i < partition_point P rs" and "i < length rs"
    then show "P (rs ! i)"
      using b False assms [of i b] by (auto simp: partition_point_def Let_def b_def split: if_splits)
  next
    assume "partition_point P rs < length rs"
    then show "\<not> P (rs ! partition_point P rs)"
      using b False by (auto simp: partition_point_def Let_def b_def split: if_splits)
  qed
  moreover have "partition_point P rs \<le> length rs"
    using b(2) False by (simp add: partition_point_def Let_def b_def)
  ultimately show ?thesis by simp
qed (simp add: partition_point_def)

section \<open>Records of a fixed size\<close>

text \<open>
  \<open>to_bytes\<close> fills a fixed-size array, \<open>from_bytes\<close> reads one from the front of a buffer and
  refuses a shorter one. \<open>wf\<close> says which records the encoding represents.
\<close>

definition read_record :: "nat \<Rightarrow> (bytes \<Rightarrow> 'a result) \<Rightarrow> 'a rd" where
  "read_record n from_b = rd_bind (read_bytes n) (\<lambda>b. rd_lift (from_b b))"

locale fixed_record =
  fixes len :: nat
    and to_bytes :: "'a \<Rightarrow> bytes"
    and from_bytes :: "bytes \<Rightarrow> 'a result"
    and wf :: "'a \<Rightarrow> bool"
  assumes len_pos: "0 < len"
    and to_bytes_length: "length (to_bytes x) = len"
    and from_to_bytes: "wf x \<Longrightarrow> from_bytes (to_bytes x @ rest) = Inr x"
    and from_bytes_short: "length bs < len \<Longrightarrow> from_bytes bs = Inl (Truncated 0 len (length bs))"
begin

lemma from_to_bytes_exact: "wf x \<Longrightarrow> from_bytes (to_bytes x) = Inr x"
  using from_to_bytes [of x "[]"] by simp

lemma from_bytes_ok_length: "from_bytes bs = Inr x \<Longrightarrow> len \<le> length bs"
proof (rule ccontr)
  assume ok: "from_bytes bs = Inr x" and "\<not> len \<le> length bs"
  then have "from_bytes bs = Inl (Truncated 0 len (length bs))"
    by (intro from_bytes_short) simp
  with ok show False by simp
qed

lemma to_bytes_inj: "wf x \<Longrightarrow> wf y \<Longrightarrow> to_bytes x = to_bytes y \<Longrightarrow> x = y"
  by (metis from_to_bytes_exact sum.inject(2))

lemma array_length: "length (concat (map to_bytes xs)) = len * length xs"
  by (rule length_concat_const) (simp add: to_bytes_length)

lemma array_chunks: "chunks_exact len (concat (map to_bytes xs)) = map to_bytes xs"
  by (rule chunks_exact_concat) (simp_all add: len_pos to_bytes_length)

lemma array_roundtrip:
  "list_all wf xs \<Longrightarrow> rmapM from_bytes (chunks_exact len (concat (map to_bytes xs))) = Inr xs"
  unfolding array_chunks by (induction xs) (simp_all add: from_to_bytes_exact)

lemma reads_record: "wf x \<Longrightarrow> reads (read_record len from_bytes) (to_bytes x) x"
  unfolding read_record_def
  by (rule reads_bind_last, rule reads_bytes)
    (simp_all add: to_bytes_length reads_def rd_lift_def from_to_bytes_exact)

lemma reads_records:
  "n = length xs \<Longrightarrow> list_all wf xs \<Longrightarrow>
     reads (rd_times n (read_record len from_bytes)) (concat (map to_bytes xs)) xs"
  by (rule reads_times) (auto simp: list_all_iff intro: reads_record)

end

section \<open>Tables of records\<close>

text \<open>
  A table holds at most one record per key: \<open>lookup\<close> finds it, \<open>upsert\<close> adds or replaces it, and
  \<open>wf\<close> is the table's representation invariant.
\<close>

locale record_store =
  fixes key :: "'r \<Rightarrow> 'k"
    and lookup :: "'t \<Rightarrow> 'k \<Rightarrow> 'r option"
    and upsert :: "'r \<Rightarrow> 't \<Rightarrow> 't"
    and wf :: "'t \<Rightarrow> bool"
  assumes wf_upsert: "wf t \<Longrightarrow> wf (upsert r t)"
    and lookup_upsert: "wf t \<Longrightarrow> lookup (upsert r t) = (lookup t)(key r := Some r)"
begin

lemma lookup_upsert_same: "wf t \<Longrightarrow> lookup (upsert r t) (key r) = Some r"
  by (simp add: lookup_upsert)

lemma lookup_upsert_other: "wf t \<Longrightarrow> k \<noteq> key r \<Longrightarrow> lookup (upsert r t) k = lookup t k"
  by (simp add: lookup_upsert)

lemma wf_fold: "wf t \<Longrightarrow> wf (fold upsert rs t)"
  by (induction rs arbitrary: t) (auto intro: wf_upsert)

lemma lookup_fold:
  "wf t \<Longrightarrow> lookup (fold upsert rs t) = lookup t ++ map_of (map (\<lambda>r. (key r, r)) (rev rs))"
proof (induction rs arbitrary: t)
  case (Cons r rs)
  then show ?case by (simp add: lookup_upsert wf_upsert map_add_upd_left fun_eq_iff map_add_def
      split: option.split)
qed simp

lemma lookup_fold_other:
  "wf t \<Longrightarrow> k \<notin> key ` set rs \<Longrightarrow> lookup (fold upsert rs t) k = lookup t k"
  by (induction rs arbitrary: t) (auto simp: lookup_upsert wf_upsert)

lemma lookup_fold_in:
  "wf t \<Longrightarrow> distinct (map key rs) \<Longrightarrow> r \<in> set rs \<Longrightarrow> lookup (fold upsert rs t) (key r) = Some r"
proof (induction rs arbitrary: t)
  case (Cons q rs)
  show ?case
  proof (cases "r = q")
    case True
    then show ?thesis using Cons.prems
      by (simp add: lookup_fold_other wf_upsert lookup_upsert image_iff)
  next
    case False
    then show ?thesis using Cons by (simp add: wf_upsert)
  qed
qed simp

end

locale record_store_del = record_store key lookup upsert wf
  for key :: "'r \<Rightarrow> 'k" and lookup :: "'t \<Rightarrow> 'k \<Rightarrow> 'r option" and upsert :: "'r \<Rightarrow> 't \<Rightarrow> 't"
    and wf :: "'t \<Rightarrow> bool" +
  fixes delete :: "'k \<Rightarrow> 't \<Rightarrow> 't"
  assumes wf_delete: "wf t \<Longrightarrow> wf (delete k t)"
    and lookup_delete: "wf t \<Longrightarrow> lookup (delete k t) = (lookup t)(k := None)"
begin

lemma delete_upsert: "wf t \<Longrightarrow> lookup (delete (key r) (upsert r t)) = (lookup t)(key r := None)"
  by (simp add: lookup_delete wf_upsert lookup_upsert)

lemma upsert_delete: "wf t \<Longrightarrow> lookup (upsert r (delete (key r) t)) = lookup (upsert r t)"
  by (simp add: lookup_delete wf_delete lookup_upsert)

end

text \<open>Tables kept as lists where \<open>iter().find\<close> looks up and \<open>iter_mut().find\<close> replaces.\<close>

definition find_by :: "('r \<Rightarrow> 'k) \<Rightarrow> 'r list \<Rightarrow> 'k \<Rightarrow> 'r option" where
  "find_by key rs k = List.find (\<lambda>r. key r = k) rs"

definition upsert_by :: "('r \<Rightarrow> 'k) \<Rightarrow> 'r \<Rightarrow> 'r list \<Rightarrow> 'r list" where
  "upsert_by key r rs = replace_or_push (\<lambda>x. key x = key r) r rs"

lemma find_by_upsert_by: "find_by key (upsert_by key r rs) = (find_by key rs)(key r := Some r)"
  by (auto simp: find_by_def upsert_by_def fun_eq_iff find_replace_or_push
      intro: find_replace_or_push_other)

interpretation list_store: record_store key "find_by key" "upsert_by key" "\<lambda>_. True"
  for key :: "'r \<Rightarrow> 'k"
  by unfold_locales (simp_all add: find_by_upsert_by)

section \<open>Sorted tables\<close>

text \<open>A vector kept strictly sorted by a key, with the operations the code builds on the binary
  search: exact lookup, insertion or replacement, and removal.\<close>

definition sorted_by :: "('r \<Rightarrow> 'k::linorder) \<Rightarrow> 'r list \<Rightarrow> bool" where
  "sorted_by key rs \<longleftrightarrow> sorted (map key rs) \<and> distinct (map key rs)"

definition sorted_find :: "('r \<Rightarrow> 'k::linorder) \<Rightarrow> 'r list \<Rightarrow> 'k \<Rightarrow> 'r option" where
  "sorted_find key rs k =
     (case binary_search_by_key key k rs of Inr i \<Rightarrow> Some (rs ! i) | Inl _ \<Rightarrow> None)"

definition insert_at :: "nat \<Rightarrow> 'a \<Rightarrow> 'a list \<Rightarrow> 'a list" where
  "insert_at i x xs = take i xs @ x # drop i xs"

definition remove_at :: "nat \<Rightarrow> 'a list \<Rightarrow> 'a list" where
  "remove_at i xs = take i xs @ drop (Suc i) xs"

definition sorted_upsert :: "('r \<Rightarrow> 'k::linorder) \<Rightarrow> 'r \<Rightarrow> 'r list \<Rightarrow> 'r list" where
  "sorted_upsert key r rs =
     (case binary_search_by_key key (key r) rs of
        Inr i \<Rightarrow> rs[i := r]
      | Inl i \<Rightarrow> insert_at i r rs)"

definition sorted_remove :: "('r \<Rightarrow> 'k::linorder) \<Rightarrow> 'k \<Rightarrow> 'r list \<Rightarrow> 'r list" where
  "sorted_remove key k rs =
     (case binary_search_by_key key k rs of Inr i \<Rightarrow> remove_at i rs | Inl _ \<Rightarrow> rs)"

lemma set_insert_at: "set (insert_at i x xs) = insert x (set xs)"
proof -
  have "set xs = set (take i xs) \<union> set (drop i xs)" by (metis append_take_drop_id set_append)
  then show ?thesis by (auto simp: insert_at_def)
qed

lemma distinct_insert_at:
  assumes "distinct (map f xs)" and "f x \<notin> f ` set xs"
  shows "distinct (map f (insert_at i x xs))"
proof -
  have "distinct (map f (take i xs) @ map f (drop i xs))"
    using assms(1) by (simp flip: map_append)
  moreover have "f x \<notin> f ` set (take i xs)" "f x \<notin> f ` set (drop i xs)"
    using assms(2) by (auto dest: in_set_takeD in_set_dropD)
  ultimately show ?thesis by (simp add: insert_at_def)
qed

lemma sorted_by_inj:
  "sorted_by key rs \<Longrightarrow> x \<in> set rs \<Longrightarrow> y \<in> set rs \<Longrightarrow> key x = key y \<Longrightarrow> x = y"
  by (auto simp: sorted_by_def distinct_map dest: inj_onD)

lemma sorted_by_Nil [simp]: "sorted_by key []"
  by (simp add: sorted_by_def)

lemma search_by_key_cases:
  assumes "sorted_by key rs"
  obtains (found) i where "binary_search_by_key key k rs = Inr i" "i < length rs" "key (rs ! i) = k"
    | (absent) i where "binary_search_by_key key k rs = Inl i" "i \<le> length rs"
        "\<forall>j < i. key (rs ! j) < k" "\<forall>j. i \<le> j \<and> j < length rs \<longrightarrow> key (rs ! j) > k"
proof -
  from assms have "sorted (map key rs)" by (simp add: sorted_by_def)
  then show thesis
    by (rule binary_search_cases [of _ k])
      (auto simp: binary_search_by_key_def intro: found absent)
qed

lemma absent_key:
  assumes "i \<le> length rs" and "\<forall>j < i. key (rs ! j) < (k :: 'k::linorder)"
    and "\<forall>j. i \<le> j \<and> j < length rs \<longrightarrow> key (rs ! j) > k"
  shows "x \<in> set (take i rs) \<Longrightarrow> key x < k" and "x \<in> set (drop i rs) \<Longrightarrow> k < key x"
    and "k \<notin> key ` set rs"
proof -
  show lo: "key x < k" if "x \<in> set (take i rs)" for x
    using that assms(1,2) by (auto simp: in_set_conv_nth)
  show hi: "k < key x" if "x \<in> set (drop i rs)" for x
    using that assms(1,3) by (auto simp: in_set_conv_nth)
  have "set rs = set (take i rs) \<union> set (drop i rs)"
    by (metis append_take_drop_id set_append)
  then show "k \<notin> key ` set rs" using lo hi by fastforce
qed

lemma sorted_find_Some_iff:
  assumes "sorted_by key rs"
  shows "sorted_find key rs k = Some r \<longleftrightarrow> r \<in> set rs \<and> key r = k"
  using assms
proof (cases rule: search_by_key_cases [of key rs k])
  case (found i)
  then show ?thesis using sorted_by_inj [OF assms] by (auto simp: sorted_find_def)
next
  case (absent i)
  then show ?thesis using absent_key(3) [of i rs key k] by (auto simp: sorted_find_def)
qed

lemma sorted_find_eq_find_by:
  assumes "sorted_by key rs"
  shows "sorted_find key rs k = find_by key rs k"
proof (cases "find_by key rs k")
  case None
  then have "\<forall>r \<in> set rs. key r \<noteq> k" by (auto simp: find_by_def find_None_iff)
  then show ?thesis
    using None sorted_find_Some_iff [OF assms, of k] by (cases "sorted_find key rs k") auto
next
  case (Some r)
  then have "r \<in> set rs" and "key r = k" by (auto simp: find_by_def find_Some_iff)
  then show ?thesis using Some sorted_find_Some_iff [OF assms, of k r] by simp
qed

lemma set_sorted_upsert:
  assumes "sorted_by key rs"
  shows "set (sorted_upsert key r rs) = insert r {x \<in> set rs. key x \<noteq> key r}"
  using assms
proof (cases rule: search_by_key_cases [of key rs "key r"])
  case (found i)
  have "distinct rs" using assms by (simp add: sorted_by_def distinct_map)
  then have "set (rs[i := r]) = insert r (set rs - {rs ! i})"
    using found(2) by (rule set_update_distinct)
  then show ?thesis
    using found sorted_by_inj [OF assms, of _ "rs ! i"] by (auto simp: sorted_upsert_def)
next
  case (absent i)
  have "set rs = set (take i rs) \<union> set (drop i rs)"
    by (metis append_take_drop_id set_append)
  moreover have "\<forall>x \<in> set rs. key x \<noteq> key r"
    using absent absent_key(3) [of i rs key "key r"] by (metis image_eqI)
  ultimately show ?thesis using absent by (auto simp: sorted_upsert_def insert_at_def)
qed

lemma sorted_by_upsert:
  assumes "sorted_by key rs"
  shows "sorted_by key (sorted_upsert key r rs)"
  using assms
proof (cases rule: search_by_key_cases [of key rs "key r"])
  case (found i)
  then have "map key (rs[i := r]) = map key rs"
    by (metis list_update_id map_update nth_map)
  then show ?thesis using found assms by (simp add: sorted_upsert_def sorted_by_def)
next
  case (absent i)
  have "sorted (map key (take i rs) @ map key (drop i rs))"
    and "distinct (map key (take i rs) @ map key (drop i rs))"
    using assms by (simp_all add: sorted_by_def flip: map_append)
  moreover have "\<forall>x \<in> set (take i rs). key x < key r"
    using absent_key(1) [OF absent(2-4)] by blast
  moreover have "\<forall>x \<in> set (drop i rs). key r < key x"
    using absent_key(2) [OF absent(2-4)] by blast
  ultimately have "sorted (map key (take i rs) @ key r # map key (drop i rs))"
    and "distinct (map key (take i rs) @ key r # map key (drop i rs))"
    by (auto simp: sorted_append less_imp_le)
  then show ?thesis
    using absent(1) by (simp add: sorted_upsert_def insert_at_def sorted_by_def)
qed

lemma set_sorted_remove:
  assumes "sorted_by key rs"
  shows "set (sorted_remove key k rs) = {x \<in> set rs. key x \<noteq> k}"
    and "sorted_by key (sorted_remove key k rs)"
proof -
  have "set (sorted_remove key k rs) = {x \<in> set rs. key x \<noteq> k} \<and> sorted_by key (sorted_remove key k rs)"
    using assms
  proof (cases rule: search_by_key_cases [of key rs k])
    case (found i)
    have split: "rs = take i rs @ rs ! i # drop (Suc i) rs"
      using found(2) by (simp add: id_take_nth_drop)
    then have "sorted (map key (take i rs @ rs ! i # drop (Suc i) rs))"
      and "distinct (map key (take i rs @ rs ! i # drop (Suc i) rs))"
      using assms by (simp_all add: sorted_by_def)
    moreover have "set rs = set (take i rs) \<union> {rs ! i} \<union> set (drop (Suc i) rs)"
      by (subst split) auto
    moreover have "\<forall>x \<in> set (take i rs) \<union> set (drop (Suc i) rs). key x \<noteq> key (rs ! i)"
      using \<open>distinct _\<close> by (auto simp: image_iff)
    ultimately show ?thesis
      using found by (auto simp: sorted_remove_def remove_at_def sorted_by_def sorted_append)
  next
    case (absent i)
    then show ?thesis using absent_key(3) [of i rs key k] assms
      by (auto simp: sorted_remove_def)
  qed
  then show "set (sorted_remove key k rs) = {x \<in> set rs. key x \<noteq> k}"
    and "sorted_by key (sorted_remove key k rs)" by simp_all
qed

lemma sorted_find_upsert:
  assumes "sorted_by key rs"
  shows "sorted_find key (sorted_upsert key r rs) = (sorted_find key rs)(key r := Some r)"
proof
  fix k
  have "sorted_find key (sorted_upsert key r rs) k = Some v \<longleftrightarrow>
      ((sorted_find key rs)(key r := Some r)) k = Some v" for v
    using assms by (auto simp: sorted_find_Some_iff sorted_by_upsert set_sorted_upsert)
  then show "sorted_find key (sorted_upsert key r rs) k = ((sorted_find key rs)(key r := Some r)) k"
    by (metis option.exhaust)
qed

lemma sorted_find_remove:
  assumes "sorted_by key rs"
  shows "sorted_find key (sorted_remove key k rs) = (sorted_find key rs)(k := None)"
proof
  fix q
  have "sorted_find key (sorted_remove key k rs) q = Some v \<longleftrightarrow>
      ((sorted_find key rs)(k := None)) q = Some v" for v
    using assms by (auto simp: sorted_find_Some_iff set_sorted_remove)
  then show "sorted_find key (sorted_remove key k rs) q = ((sorted_find key rs)(k := None)) q"
    by (metis option.exhaust)
qed

interpretation sorted_store: record_store_del key "sorted_find key" "sorted_upsert key" "sorted_by key"
    "sorted_remove key"
  for key :: "'r \<Rightarrow> 'k::linorder"
  by unfold_locales
    (simp_all add: sorted_by_upsert sorted_find_upsert set_sorted_remove sorted_find_remove)

lemma sorted_by_sort_key: "distinct (map key rs) \<Longrightarrow> sorted_by key (sort_key key rs)"
  by (metis distinct_map distinct_sort set_sort sorted_by_def sorted_sort_key)

lemma sort_key_sorted_by: "sorted_by key rs \<Longrightarrow> sort_key key rs = rs"
  by (simp add: sorted_by_def sort_key_id_if_sorted)

end
