(* ===== verification/Omf_Layer.thy ===== *)
theory Omf_Layer
  imports Omf_Table
begin

text \<open>
  Layer identifiers and descriptors (\<open>crates/map-format/src/layer.rs\<close>). A \<open>LayerId\<close> is its
  \<open>u16\<close>; the enums keep the source's constructors. The 24-byte descriptor is an interpretation
  of \<open>fixed_record\<close>. The floating-point \<open>quantise\<close> and \<open>dequantise\<close> are in \<open>Omf_Raster\<close>: here \<open>scale\<close>
  and \<open>bias\<close> are carried as bit patterns.
\<close>

section \<open>Layer identifiers\<close>

type_synonym layer_id = u16

definition ELEVATION :: layer_id where "ELEVATION = 0x0001"
definition SLOPE :: layer_id where "SLOPE = 0x0002"
definition EDT :: layer_id where "EDT = 0x0003"
definition FEATURE_BASE :: u16 where "FEATURE_BASE = 0x1000"
definition HARD_FORBIDDEN :: layer_id where "HARD_FORBIDDEN = 0x2001"
definition DIRECTION :: layer_id where "DIRECTION = 0x2002"
definition SOFT_MULTIPLIER :: layer_id where "SOFT_MULTIPLIER = 0x2003"
definition REGIONS :: layer_id where "REGIONS = 0x2501"
definition PRM_GRAPH :: layer_id where "PRM_GRAPH = 0x3001"
definition KPATH_LIBRARY :: layer_id where "KPATH_LIBRARY = 0x3002"
definition REGION_INTERFACE :: layer_id where "REGION_INTERFACE = 0x3003"
definition VECTORS :: layer_id where "VECTORS = 0x3004"
definition COST_CACHE :: layer_id where "COST_CACHE = 0x4001"

lemmas layer_ids = ELEVATION_def SLOPE_def EDT_def FEATURE_BASE_def HARD_FORBIDDEN_def
  DIRECTION_def SOFT_MULTIPLIER_def REGIONS_def PRM_GRAPH_def KPATH_LIBRARY_def
  REGION_INTERFACE_def VECTORS_def COST_CACHE_def

definition feature :: "u8 \<Rightarrow> layer_id" where
  "feature index = FEATURE_BASE + ucast index"

definition is_derived :: "layer_id \<Rightarrow> bool" where
  "is_derived l \<longleftrightarrow>
     0x0002 \<le> l \<and> l \<le> 0x0003 \<or> 0x3001 \<le> l \<and> l \<le> 0x3003 \<or> 0x4000 \<le> l \<and> l \<le> 0x4FFF"

definition segment_name :: "layer_id \<Rightarrow> string" where
  "segment_name l =
     (let s = drop_bit 8 l
      in if s = 0x00 then ''terrain''
         else if s = 0x10 then ''feature''
         else if s = 0x20 then ''constraint''
         else if s = 0x25 then ''region''
         else if s = 0x30 then ''graph''
         else if s = 0x40 then ''cache''
         else if s = 0xF0 then ''extension''
         else ''unknown'')"

definition layer_text :: "layer_id \<Rightarrow> string" where
  "layer_text l = show_hex_pad 6 (unat l)"

section \<open>Kinds and element types\<close>

datatype layer_kind = Raster | Vector | Graph | Bitmap | RegionPolygons

fun layer_kind_u8 :: "layer_kind \<Rightarrow> u8" where
  "layer_kind_u8 Raster = 0"
| "layer_kind_u8 Vector = 1"
| "layer_kind_u8 Graph = 2"
| "layer_kind_u8 Bitmap = 3"
| "layer_kind_u8 RegionPolygons = 4"

fun is_chunked :: "layer_kind \<Rightarrow> bool" where
  "is_chunked Raster = True"
| "is_chunked Bitmap = True"
| "is_chunked _ = False"

definition layer_kind_from_u8 :: "u8 \<Rightarrow> layer_kind option" where
  "layer_kind_from_u8 v =
     (if v = 0 then Some Raster
      else if v = 1 then Some Vector
      else if v = 2 then Some Graph
      else if v = 3 then Some Bitmap
      else if v = 4 then Some RegionPolygons
      else None)"

fun layer_kind_name :: "layer_kind \<Rightarrow> string" where
  "layer_kind_name Raster = ''raster''"
| "layer_kind_name Vector = ''vector''"
| "layer_kind_name Graph = ''graph''"
| "layer_kind_name Bitmap = ''bitmap''"
| "layer_kind_name RegionPolygons = ''region''"

datatype dtype = F32 | I32 | I16 | U8 | Bit | F16

fun dtype_u8 :: "dtype \<Rightarrow> u8" where
  "dtype_u8 F32 = 0"
| "dtype_u8 I32 = 1"
| "dtype_u8 I16 = 2"
| "dtype_u8 U8 = 3"
| "dtype_u8 Bit = 4"
| "dtype_u8 F16 = 5"

definition dtype_from_u8 :: "u8 \<Rightarrow> dtype option" where
  "dtype_from_u8 v =
     (if v = 0 then Some F32
      else if v = 1 then Some I32
      else if v = 2 then Some I16
      else if v = 3 then Some U8
      else if v = 4 then Some Bit
      else if v = 5 then Some F16
      else None)"

fun element_size :: "dtype \<Rightarrow> usize" where
  "element_size F32 = 4"
| "element_size I32 = 4"
| "element_size I16 = 2"
| "element_size F16 = 2"
| "element_size U8 = 1"
| "element_size Bit = 1"

fun is_float :: "dtype \<Rightarrow> bool" where
  "is_float F32 = True"
| "is_float F16 = True"
| "is_float _ = False"

lemma layer_kind_from_to [simp]: "layer_kind_from_u8 (layer_kind_u8 k) = Some k"
  by (cases k) (simp_all add: layer_kind_from_u8_def)

lemma dtype_from_to [simp]: "dtype_from_u8 (dtype_u8 d) = Some d"
  by (cases d) (simp_all add: dtype_from_u8_def)

lemma layer_kind_to_from: "layer_kind_from_u8 v = Some k \<Longrightarrow> layer_kind_u8 k = v"
  by (auto simp: layer_kind_from_u8_def split: if_splits)

lemma dtype_to_from: "dtype_from_u8 v = Some d \<Longrightarrow> dtype_u8 d = v"
  by (auto simp: dtype_from_u8_def split: if_splits)

section \<open>The layer descriptor\<close>

record layer_desc =
  ld_layer_id :: layer_id
  ld_kind :: layer_kind
  ld_channels :: u8
  ld_dtype :: dtype
  ld_codec :: u8
  ld_scale :: f32
  ld_bias :: f32
  ld_sparse :: bool

definition f32_one :: f32 where "f32_one = 0x3F800000"

definition layer_desc_size :: usize where "layer_desc_size = 24"

definition layer_desc_new ::
  "layer_id \<Rightarrow> layer_kind \<Rightarrow> u8 \<Rightarrow> dtype \<Rightarrow> u8 \<Rightarrow> layer_desc" where
  "layer_desc_new l kind channels dtype codec =
     \<lparr>ld_layer_id = l, ld_kind = kind, ld_channels = channels, ld_dtype = dtype,
      ld_codec = codec, ld_scale = f32_one, ld_bias = 0, ld_sparse = False\<rparr>"

definition layer_desc_with_quantisation :: "layer_desc \<Rightarrow> f32 \<Rightarrow> f32 \<Rightarrow> layer_desc" where
  "layer_desc_with_quantisation d scale bias = d\<lparr>ld_scale := scale, ld_bias := bias\<rparr>"

definition layer_desc_to_bytes :: "layer_desc \<Rightarrow> bytes" where
  "layer_desc_to_bytes d =
     puts [\<lambda>b. put_u16 b 0 (ld_layer_id d),
           \<lambda>b. put_u8 b 2 (layer_kind_u8 (ld_kind d)),
           \<lambda>b. put_u8 b 3 (ld_channels d),
           \<lambda>b. put_u8 b 4 (dtype_u8 (ld_dtype d)),
           \<lambda>b. put_u8 b 5 (ld_codec d),
           \<lambda>b. put_f32 b 6 (ld_scale d),
           \<lambda>b. put_f32 b 10 (ld_bias d),
           \<lambda>b. put_u8 b 14 (of_bool (ld_sparse d))]
       (replicate 24 0)"

definition layer_desc_from_bytes :: "bytes \<Rightarrow> layer_desc result" where
  "layer_desc_from_bytes buf =
     (if length buf < 24 then Inl (Truncated 0 24 (length buf))
      else
        rbind (get_u16 buf 0) (\<lambda>layer_id.
        rbind (get_u8 buf 2) (\<lambda>kind_raw.
        rbind (ok_or (invalid (''unknown layer kind '' @ show_nat (unat kind_raw)))
                 (layer_kind_from_u8 kind_raw)) (\<lambda>kind.
        rbind (get_u8 buf 4) (\<lambda>dtype_raw.
        rbind (ok_or (invalid (''unknown dtype '' @ show_nat (unat dtype_raw)))
                 (dtype_from_u8 dtype_raw)) (\<lambda>dtype.
        rbind (get_u8 buf 3) (\<lambda>channels.
        rbind (get_u8 buf 5) (\<lambda>codec.
        rbind (get_f32 buf 6) (\<lambda>scale.
        rbind (get_f32 buf 10) (\<lambda>bias.
        rbind (get_u8 buf 14) (\<lambda>sparse.
          Inr \<lparr>ld_layer_id = layer_id, ld_kind = kind, ld_channels = channels,
               ld_dtype = dtype, ld_codec = codec, ld_scale = scale, ld_bias = bias,
               ld_sparse = sparse \<noteq> 0\<rparr>)))))))))))"

lemma layer_desc_layout:
  "layer_desc_to_bytes d =
     layout (le_bytes 2 (ld_layer_id d) @ [layer_kind_u8 (ld_kind d), ld_channels d,
       dtype_u8 (ld_dtype d), ld_codec d] @ le_bytes 4 (ld_scale d) @ le_bytes 4 (ld_bias d)
       @ [of_bool (ld_sparse d)]) 9"
  by (simp add: layer_desc_to_bytes_def layout_simps)

lemma layer_desc_from_to: "layer_desc_from_bytes (layer_desc_to_bytes d @ rest) = Inr d"
  unfolding layer_desc_layout layer_desc_from_bytes_def
  by (simp add: field_reads cong: rbind_cong)

interpretation layer_desc_record:
  fixed_record 24 layer_desc_to_bytes layer_desc_from_bytes "\<lambda>_. True"
proof unfold_locales
  show "length (layer_desc_to_bytes d) = 24" for d
    by (simp add: layer_desc_layout layout_def)
  show "layer_desc_from_bytes (layer_desc_to_bytes d @ rest) = Inr d" for d rest
    by (rule layer_desc_from_to)
  show "length bs < 24 \<Longrightarrow> layer_desc_from_bytes bs = Inl (Truncated 0 24 (length bs))" for bs
    by (simp add: layer_desc_from_bytes_def)
qed simp

end
