(* ===== verification/Omf_Entropy.thy ===== *)
theory Omf_Entropy
  imports Omf_Layer
begin

text \<open>
  Chunk shapes (\<open>crates/map-format/src/codec/mod.rs\<close>) and the entropy coders
  (\<open>codec/entropy.rs\<close>). The zstd and lz4 crates are a record of functions, an argument of
  everything that uses them; \<open>ext_ok\<close> states what the code relies on: decompressing what was
  compressed gives it back. A streaming decoder is the list of the reads it returns, with the
  error that ends it, if any.
\<close>

section \<open>Chunk shapes\<close>

definition MAX_RAW_CHUNK_BYTES :: usize where "MAX_RAW_CHUNK_BYTES = 268435456"

record chunk_shape =
  cs_width :: u32
  cs_height :: u32
  cs_channels :: u8
  cs_dtype :: dtype

definition cell_bytes :: "chunk_shape \<Rightarrow> usize" where
  "cell_bytes s = unat (cs_channels s) * element_size (cs_dtype s)"

definition row_bytes_checked :: "chunk_shape \<Rightarrow> usize option" where
  "row_bytes_checked s =
     (let width = unat (cs_width s)
      in if cs_dtype s = Bit then
           (case usize_checked_mul width (unat (cs_channels s)) of
              None \<Rightarrow> None
            | Some bits \<Rightarrow> map_option (\<lambda>b. b div 8) (usize_checked_add bits 7))
         else usize_checked_mul width (cell_bytes s))"

definition row_bytes :: "chunk_shape \<Rightarrow> usize" where
  "row_bytes s = (case row_bytes_checked s of None \<Rightarrow> usize_max | Some n \<Rightarrow> n)"

definition total_bytes_checked :: "chunk_shape \<Rightarrow> usize option" where
  "total_bytes_checked s =
     (case row_bytes_checked s of
        None \<Rightarrow> None
      | Some row \<Rightarrow> usize_checked_mul row (unat (cs_height s)))"

definition total_bytes :: "chunk_shape \<Rightarrow> usize" where
  "total_bytes s = (case total_bytes_checked s of None \<Rightarrow> usize_max | Some n \<Rightarrow> n)"

definition is_bit_packed :: "chunk_shape \<Rightarrow> bool" where
  "is_bit_packed s \<longleftrightarrow> cs_dtype s = Bit"

text \<open>Within the cap on chunk payloads, no arithmetic of the shape saturates.\<close>

lemma element_size_pos: "0 < element_size d"
  by (cases d) simp_all

lemma element_size_le: "element_size d \<le> 4"
  by (cases d) simp_all

lemma unat_u8_u32: "unat (c :: u8) < 2 ^ 8" "unat (w :: u32) < 2 ^ 32"
  using unsigned_less [of c] unsigned_less [of w] by simp_all

lemma row_bytes_checked_Some:
  "row_bytes_checked s = Some (if cs_dtype s = Bit
     then (unat (cs_width s) * unat (cs_channels s) + 7) div 8
     else unat (cs_width s) * cell_bytes s)"
proof -
  have c: "unat (cs_channels s) \<le> 2 ^ 8" and w: "unat (cs_width s) \<le> 2 ^ 32"
    using unat_u8_u32(1) [of "cs_channels s"] unat_u8_u32(2) [of "cs_width s"] by linarith+
  have "cell_bytes s \<le> 2 ^ 8 * 4"
    unfolding cell_bytes_def by (intro mult_le_mono c element_size_le)
  then have "unat (cs_width s) * cell_bytes s \<le> 2 ^ 32 * (2 ^ 8 * 4)" by (intro mult_le_mono w)
  moreover have "unat (cs_width s) * unat (cs_channels s) \<le> 2 ^ 32 * 2 ^ 8" by (intro mult_le_mono w c)
  ultimately show ?thesis
    by (simp add: row_bytes_checked_def usize_checked_mul_def usize_checked_add_def Let_def)
qed

lemma total_bytes_eq:
  assumes "total_bytes s < usize_max"
  shows "total_bytes_checked s = Some (total_bytes s)"
    and "total_bytes s = row_bytes s * unat (cs_height s)"
  using assms row_bytes_checked_Some [of s]
  by (auto simp: total_bytes_def total_bytes_checked_def row_bytes_def usize_checked_mul_def
      split: option.splits if_splits)

lemma total_bytes_cells:
  assumes "total_bytes s < usize_max" and "\<not> is_bit_packed s"
  shows "total_bytes s = unat (cs_width s) * unat (cs_height s) * cell_bytes s"
  using total_bytes_eq(2) [OF assms(1)] row_bytes_checked_Some [of s] assms(2)
  by (simp add: row_bytes_def is_bit_packed_def algebra_simps)

section \<open>The compression crates\<close>

record ext_crates =
  zstd_compressor :: "int \<Rightarrow> bytes \<Rightarrow> string + (bytes \<Rightarrow> string + bytes)"
  zstd_bulk_compress :: "bytes \<Rightarrow> int \<Rightarrow> string + bytes"
  zstd_decompressor :: "bytes \<Rightarrow> string + (bytes \<Rightarrow> nat \<Rightarrow> string + bytes)"
  zstd_bulk_decompress :: "bytes \<Rightarrow> nat \<Rightarrow> string + bytes"
  zstd_decoder :: "bytes \<Rightarrow> string + (bytes list \<times> string option)"
  lz4_compress_prepend_size :: "bytes \<Rightarrow> bytes"
  lz4_uncompressed_size :: "bytes \<Rightarrow> string + (nat \<times> bytes)"
  lz4_block_decompress :: "bytes \<Rightarrow> nat \<Rightarrow> string + bytes"

definition DEFAULT_ZSTD_LEVEL :: int where "DEFAULT_ZSTD_LEVEL = 3"

definition zstd_plain_ok :: "ext_crates \<Rightarrow> bool" where
  "zstd_plain_ok E \<longleftrightarrow>
     (\<forall>p l c. zstd_bulk_compress E p l = Inr c \<longrightarrow>
        (\<forall>n \<ge> length p. zstd_bulk_decompress E c n = Inr p)
        \<and> (\<exists>reads. zstd_decoder E c = Inr (reads, None) \<and> [] \<notin> set reads \<and> concat reads = p))"

definition zstd_dict_ok :: "ext_crates \<Rightarrow> bool" where
  "zstd_dict_ok E \<longleftrightarrow>
     (\<forall>l d k p c. zstd_compressor E l d = Inr k \<and> k p = Inr c \<longrightarrow>
        (\<exists>u. zstd_decompressor E d = Inr u \<and> (\<forall>n \<ge> length p. u c n = Inr p)))"

definition lz4_ok :: "ext_crates \<Rightarrow> bool" where
  "lz4_ok E \<longleftrightarrow>
     (\<forall>p. length p < 2 ^ 32 \<longrightarrow>
        (\<exists>body. lz4_uncompressed_size E (lz4_compress_prepend_size E p) = Inr (length p, body)
           \<and> lz4_block_decompress E body (length p) = Inr p))"

definition ext_ok :: "ext_crates \<Rightarrow> bool" where
  "ext_ok E \<longleftrightarrow> zstd_plain_ok E \<and> zstd_dict_ok E \<and> lz4_ok E"

text \<open>An instance: nothing is compressed, and the sizes are kept by prefixing.\<close>

definition stored_crates :: ext_crates where
  "stored_crates =
     \<lparr>zstd_compressor = (\<lambda>l d. Inr (\<lambda>p. Inr p)),
      zstd_bulk_compress = (\<lambda>p l. Inr p),
      zstd_decompressor = (\<lambda>d. Inr (\<lambda>c n. if length c \<le> n then Inr c else Inl ''too small'')),
      zstd_bulk_decompress = (\<lambda>c n. if length c \<le> n then Inr c else Inl ''too small''),
      zstd_decoder = (\<lambda>c. Inr (if c = [] then [] else [c], None)),
      lz4_compress_prepend_size = (\<lambda>p. le_bytes 4 (word_of_nat (length p) :: u32) @ p),
      lz4_uncompressed_size =
        (\<lambda>s. if length s < 4 then Inl ''expected another byte''
             else Inr (unat (le_value (take 4 s) :: u32), drop 4 s)),
      lz4_block_decompress = (\<lambda>b n. Inr b)\<rparr>"

lemma stored_crates_ok: "ext_ok stored_crates"
  by (auto simp: ext_ok_def zstd_plain_ok_def zstd_dict_ok_def lz4_ok_def stored_crates_def
      unat_of_nat_u32)

section \<open>Entropy coders\<close>

definition zstd_compress :: "ext_crates \<Rightarrow> bytes \<Rightarrow> bytes option \<Rightarrow> bytes result" where
  "zstd_compress E payload dict =
     (if dict \<noteq> None \<and> dict \<noteq> Some [] then
        rbind (map_err (\<lambda>e. invalid (''zstd dictionary rejected: '' @ e))
                 (zstd_compressor E DEFAULT_ZSTD_LEVEL (the dict))) (\<lambda>compressor.
        map_err (\<lambda>e. invalid (''zstd compression failed: '' @ e)) (compressor payload))
      else map_err (\<lambda>e. invalid (''zstd compression failed: '' @ e))
             (zstd_bulk_compress E payload DEFAULT_ZSTD_LEVEL))"

definition zstd_decompress ::
  "ext_crates \<Rightarrow> bytes \<Rightarrow> usize \<Rightarrow> bytes option \<Rightarrow> bytes result" where
  "zstd_decompress E stored expected_len dict =
     rbind (if dict \<noteq> None \<and> dict \<noteq> Some [] then
              rbind (map_err (\<lambda>e. invalid (''zstd dictionary rejected: '' @ e))
                       (zstd_decompressor E (the dict))) (\<lambda>decompressor.
              map_err (\<lambda>e. invalid (''zstd decompression failed: '' @ e))
                (decompressor stored expected_len))
            else map_err (\<lambda>e. invalid (''zstd decompression failed: '' @ e))
                   (zstd_bulk_decompress E stored expected_len)) (\<lambda>out.
     if length out \<noteq> expected_len
     then Inl (invalid (''zstd frame expanded to '' @ show_nat (length out)
                @ '' byte(s), expected '' @ show_nat expected_len))
     else Inr out)"

definition MAX_META_BYTES :: usize where "MAX_META_BYTES = 67108864"

fun bounded_reads :: "usize \<Rightarrow> bytes list \<Rightarrow> string option \<Rightarrow> bytes \<Rightarrow> bytes result" where
  "bounded_reads max_len [] None out = Inr out"
| "bounded_reads max_len [] (Some e) out = Inl (invalid (''zstd decompression failed: '' @ e))"
| "bounded_reads max_len (r # rs) end out =
     (if r = [] then Inr out
      else if length out + length r > max_len
      then Inl (invalid (''zstd frame expanded beyond the '' @ show_nat max_len @ '' byte bound''))
      else bounded_reads max_len rs end (out @ r))"

definition zstd_decompress_bounded :: "ext_crates \<Rightarrow> bytes \<Rightarrow> usize \<Rightarrow> bytes result" where
  "zstd_decompress_bounded E stored max_len =
     rbind (map_err (\<lambda>e. invalid (''zstd decompression failed: '' @ e)) (zstd_decoder E stored))
       (\<lambda>(reads, end). bounded_reads max_len reads end [])"

definition zstd_decompress_all :: "ext_crates \<Rightarrow> bytes \<Rightarrow> bytes result" where
  "zstd_decompress_all E stored = zstd_decompress_bounded E stored MAX_META_BYTES"

definition lz4_compress :: "ext_crates \<Rightarrow> bytes \<Rightarrow> bytes" where
  "lz4_compress E payload = lz4_compress_prepend_size E payload"

definition lz4_decompress :: "ext_crates \<Rightarrow> bytes \<Rightarrow> usize \<Rightarrow> bytes result" where
  "lz4_decompress E stored expected_len =
     rbind (map_err (\<lambda>e. invalid (''lz4 block header is invalid: '' @ e))
              (lz4_uncompressed_size E stored)) (\<lambda>(declared, body).
     if declared \<noteq> expected_len
     then Inl (invalid (''lz4 block declares '' @ show_nat declared @ '' byte(s), expected ''
                @ show_nat expected_len))
     else map_err (\<lambda>e. invalid (''lz4 decompression failed: '' @ e))
            (lz4_block_decompress E body expected_len))"

lemma map_err_Inr_iff: "map_err f r = Inr x \<longleftrightarrow> r = Inr x"
  by (cases r) simp_all

lemma zstd_roundtrip:
  assumes "ext_ok E" and "zstd_compress E p dict = Inr c" and "length p = n"
  shows "zstd_decompress E c n dict = Inr p"
proof (cases "dict \<noteq> None \<and> dict \<noteq> Some []")
  case True
  then obtain k where "zstd_compressor E DEFAULT_ZSTD_LEVEL (the dict) = Inr k" "k p = Inr c"
    using assms(2) by (auto simp: zstd_compress_def rbind_Inr_iff map_err_Inr_iff)
  then obtain u where "zstd_decompressor E (the dict) = Inr u" "\<forall>n \<ge> length p. u c n = Inr p"
    using assms(1) unfolding ext_ok_def zstd_dict_ok_def by blast
  then show ?thesis using True assms(3) by (simp add: zstd_decompress_def)
next
  case False
  then have "zstd_bulk_compress E p DEFAULT_ZSTD_LEVEL = Inr c"
    using assms(2) by (auto simp: zstd_compress_def map_err_Inr_iff)
  then have "zstd_bulk_decompress E c n = Inr p"
    using assms(1,3) unfolding ext_ok_def zstd_plain_ok_def by blast
  then show ?thesis using False assms(3) by (auto simp: zstd_decompress_def)
qed

lemma bounded_reads_None:
  "length out + length (concat rs) \<le> n \<Longrightarrow> [] \<notin> set rs \<Longrightarrow> bounded_reads n rs None out = Inr (out @ concat rs)"
  by (induction rs arbitrary: out) auto

lemma bounded_reads_bound: "bounded_reads n rs e out = Inr x \<Longrightarrow> length out \<le> n \<Longrightarrow> length x \<le> n"
  by (induction n rs e out rule: bounded_reads.induct) (auto split: if_splits)

lemma zstd_bounded_length: "zstd_decompress_bounded E c n = Inr x \<Longrightarrow> length x \<le> n"
  by (auto simp: zstd_decompress_bounded_def rbind_Inr_iff dest: bounded_reads_bound)

lemma zstd_bounded_roundtrip:
  assumes "ext_ok E" and "zstd_compress E p None = Inr c" and "length p \<le> n"
  shows "zstd_decompress_bounded E c n = Inr p"
proof -
  have "zstd_bulk_compress E p DEFAULT_ZSTD_LEVEL = Inr c"
    using assms(2) by (auto simp: zstd_compress_def map_err_Inr_iff)
  then obtain reads where "zstd_decoder E c = Inr (reads, None)" "[] \<notin> set reads" "concat reads = p"
    using assms(1) unfolding ext_ok_def zstd_plain_ok_def by blast
  then show ?thesis
    using assms(3) by (simp add: zstd_decompress_bounded_def bounded_reads_None)
qed

lemma lz4_roundtrip:
  assumes "ext_ok E" and "length p = n" and "n < 2 ^ 32"
  shows "lz4_decompress E (lz4_compress E p) n = Inr p"
proof -
  obtain body where "lz4_uncompressed_size E (lz4_compress_prepend_size E p) = Inr (length p, body)"
    "lz4_block_decompress E body (length p) = Inr p"
    using assms unfolding ext_ok_def lz4_ok_def by blast
  then show ?thesis using assms(2) by (simp add: lz4_decompress_def lz4_compress_def)
qed

text \<open>A payload that survives a reversible transform survives it behind zstd.\<close>

locale payload_transform =
  fixes fwd :: "bytes \<Rightarrow> bytes" and bwd :: "bytes \<Rightarrow> bytes" and ok :: "bytes \<Rightarrow> bool"
  assumes fwd_length: "ok p \<Longrightarrow> length (fwd p) = length p"
    and bwd_fwd: "ok p \<Longrightarrow> bwd (fwd p) = p"
begin

lemma through_zstd:
  assumes "ext_ok E" and "ok p" and "zstd_compress E (fwd p) dict = Inr c" and "length p = n"
  shows "rmap bwd (zstd_decompress E c n dict) = Inr p"
  using zstd_roundtrip [OF assms(1,3)] fwd_length [OF assms(2)] bwd_fwd [OF assms(2)] assms(4)
  by simp

end

end
