(* ===== verification/Omf_Delta.thy ===== *)
theory Omf_Delta
  imports Omf_Entropy
begin

text \<open>
  The delta codecs (\<open>crates/map-format/src/codec/delta.rs\<close>): rows minus the row above, and
  channels minus channel 0, with wrapping arithmetic on the stored element type. The loops update
  the payload in place, from the last row up when encoding and from the first row down when
  decoding; the lemmas characterise what each loop leaves in every row and element, and
  interpret \<open>payload_transform\<close> on both codecs.
\<close>

section \<open>Differences of elements\<close>

definition unwrap_or :: "'a \<Rightarrow> 'a result \<Rightarrow> 'a" where
  "unwrap_or d r = (case r of Inl _ \<Rightarrow> d | Inr x \<Rightarrow> x)"

definition put_ignored :: "bytes result \<Rightarrow> bytes \<Rightarrow> bytes" where
  "put_ignored r target = (case r of Inl _ \<Rightarrow> target | Inr t \<Rightarrow> t)"

fun subtract_bytes :: "dtype \<Rightarrow> bytes \<Rightarrow> bytes \<Rightarrow> bytes" where
  "subtract_bytes F32 target reference =
     put_ignored (put_u32 target 0
       (unwrap_or 0 (get_u32 target 0) - unwrap_or 0 (get_u32 reference 0))) target"
| "subtract_bytes F16 target reference =
     put_ignored (put_u16 target 0
       (unwrap_or 0 (get_u16 target 0) - unwrap_or 0 (get_u16 reference 0))) target"
| "subtract_bytes I32 target reference =
     put_ignored (put_i32 target 0
       (unwrap_or 0 (get_i32 target 0) - unwrap_or 0 (get_i32 reference 0))) target"
| "subtract_bytes I16 target reference =
     put_ignored (put_i16 target 0
       (unwrap_or 0 (get_i16 target 0) - unwrap_or 0 (get_i16 reference 0))) target"
| "subtract_bytes U8 target reference = target[0 := target ! 0 - reference ! 0]"
| "subtract_bytes Bit target reference = target[0 := target ! 0 - reference ! 0]"

fun add_bytes :: "dtype \<Rightarrow> bytes \<Rightarrow> bytes \<Rightarrow> bytes" where
  "add_bytes I32 target reference =
     put_ignored (put_i32 target 0
       (unwrap_or 0 (get_i32 target 0) + unwrap_or 0 (get_i32 reference 0))) target"
| "add_bytes I16 target reference =
     put_ignored (put_i16 target 0
       (unwrap_or 0 (get_i16 target 0) + unwrap_or 0 (get_i16 reference 0))) target"
| "add_bytes U8 target reference = target[0 := target ! 0 + reference ! 0]"
| "add_bytes Bit target reference = target[0 := target ! 0 + reference ! 0]"
| "add_bytes F32 target reference =
     put_ignored (put_u32 target 0
       (unwrap_or 0 (get_u32 target 0) + unwrap_or 0 (get_u32 reference 0))) target"
| "add_bytes F16 target reference =
     put_ignored (put_u16 target 0
       (unwrap_or 0 (get_u16 target 0) + unwrap_or 0 (get_u16 reference 0))) target"

text \<open>\<open>chunks_exact_mut(elem).zip(chunks_exact(elem))\<close>: the pairs of full elements, in place.\<close>

function zip_chunks :: "(bytes \<Rightarrow> bytes \<Rightarrow> bytes) \<Rightarrow> nat \<Rightarrow> bytes \<Rightarrow> bytes \<Rightarrow> bytes" where
  "zip_chunks f n t r =
     (if n = 0 \<or> length t < n \<or> length r < n then t
      else f (take n t) (take n r) @ zip_chunks f n (drop n t) (drop n r))"
  by pat_completeness auto
termination
  by (relation "measure (\<lambda>(f, n, t, r). length t)") (simp_all, linarith)

declare zip_chunks.simps [simp del]

definition subtract_in_place :: "dtype \<Rightarrow> bytes \<Rightarrow> bytes \<Rightarrow> bytes" where
  "subtract_in_place d target reference = zip_chunks (subtract_bytes d) (element_size d) target reference"

definition add_in_place :: "dtype \<Rightarrow> bytes \<Rightarrow> bytes \<Rightarrow> bytes" where
  "add_in_place d target reference = zip_chunks (add_bytes d) (element_size d) target reference"

lemma length_subtract_bytes [simp]: "length (subtract_bytes d t r) = length t"
  by (cases d) (auto simp: put_ignored_def put_defs dest: put_slice_length split: sum.splits)

lemma length_add_bytes [simp]: "length (add_bytes d t r) = length t"
  by (cases d) (auto simp: put_ignored_def put_defs dest: put_slice_length split: sum.splits)

lemma put_slice_all:
  "length vals = length t \<Longrightarrow> length t < usize_limit \<Longrightarrow> put_slice t 0 vals = Inr vals"
  by (simp add: put_slice_def usize_checked_add_def)

lemma slice_all: "n = length t \<Longrightarrow> n < usize_limit \<Longrightarrow> slice n t 0 = Inr t"
  by (simp add: slice_ok)

lemma add_subtract_bytes:
  assumes "length t = element_size d" and "length r = element_size d"
  shows "add_bytes d (subtract_bytes d t r) r = t"
  using assms
  by (cases d) (auto simp: put_ignored_def unwrap_or_def put_defs get_defs put_slice_all slice_all
      length_Suc_conv)

lemma length_zip_chunks:
  "(\<And>a b. length (f a b) = length a) \<Longrightarrow> length (zip_chunks f n t r) = length t"
proof (induction f n t r rule: zip_chunks.induct)
  case (1 f n t r)
  then show ?case by (subst zip_chunks.simps) auto
qed

lemma zip_chunks_inverse:
  assumes "\<And>a b. length (f a b) = length a"
    and "\<And>a b. length a = n \<Longrightarrow> length b = n \<Longrightarrow> g (f a b) b = a"
  shows "zip_chunks g n (zip_chunks f n t r) r = t"
  using assms
proof (induction f n t r rule: zip_chunks.induct)
  case (1 f n t r)
  show ?case
  proof (cases "n = 0 \<or> length t < n \<or> length r < n")
    case True
    then have "zip_chunks f n t r = t" by (subst zip_chunks.simps) simp
    with True show ?thesis by (subst zip_chunks.simps) simp
  next
    case False
    define u where "u = f (take n t) (take n r)"
    have u: "length u = n" "g u (take n r) = take n t" using 1 False by (simp_all add: u_def)
    have "zip_chunks f n t r = u @ zip_chunks f n (drop n t) (drop n r)"
      using False by (subst zip_chunks.simps) (simp add: u_def)
    moreover have "zip_chunks g n (u @ zip_chunks f n (drop n t) (drop n r)) r =
        g u (take n r) @ zip_chunks g n (zip_chunks f n (drop n t) (drop n r)) (drop n r)"
      using False u(1) by (subst zip_chunks.simps) simp
    ultimately show ?thesis using 1 False u by simp
  qed
qed

lemma length_in_place [simp]:
  "length (subtract_in_place d t r) = length t" "length (add_in_place d t r) = length t"
  by (simp_all add: subtract_in_place_def add_in_place_def length_zip_chunks)

lemma add_subtract_in_place: "add_in_place d (subtract_in_place d t r) r = t"
  unfolding add_in_place_def subtract_in_place_def
  by (rule zip_chunks_inverse) (simp_all add: add_subtract_bytes)

section \<open>Buffers as arrays of equal slots\<close>

definition slot :: "nat \<Rightarrow> bytes \<Rightarrow> nat \<Rightarrow> bytes" where
  "slot n buf k = take n (drop (k * n) buf)"

definition set_slot :: "nat \<Rightarrow> nat \<Rightarrow> bytes \<Rightarrow> bytes \<Rightarrow> bytes" where
  "set_slot n k b buf = take (k * n) buf @ b @ drop (k * n + n) buf"

lemma slot_bound: "k < m \<Longrightarrow> k * n + n \<le> m * n" for k m n :: nat
  using mult_le_mono1 [of "Suc k" m n] by simp

lemma slot_set_slot_same:
  assumes "k * n + n \<le> length buf" and "length b = n"
  shows "slot n (set_slot n k b buf) k = b"
  using assms by (simp add: slot_def set_slot_def)

lemma length_set_slot:
  "k * n + n \<le> length buf \<Longrightarrow> length b = n \<Longrightarrow> length (set_slot n k b buf) = length buf"
  by (simp add: set_slot_def)

lemma slot_set_slot_other:
  assumes "k * n + n \<le> length buf" and "length b = n" and "j \<noteq> k"
  shows "slot n (set_slot n k b buf) j = slot n buf j"
proof (rule nth_equalityI)
  show "length (slot n (set_slot n k b buf) j) = length (slot n buf j)"
    using length_set_slot [OF assms(1,2)] by (simp add: slot_def)
next
  fix i assume "i < length (slot n (set_slot n k b buf) j)"
  then have i: "i < n" "j * n + i < length buf"
    using length_set_slot [OF assms(1,2)] by (auto simp: slot_def)
  have "set_slot n k b buf ! (j * n + i) = buf ! (j * n + i)"
  proof (cases "j < k")
    case True
    then have "j * n + n \<le> k * n" by (rule slot_bound)
    with i assms show ?thesis by (simp add: set_slot_def nth_append)
  next
    case False
    with assms(3) have "k < j" by simp
    then have "k * n + n \<le> j * n" by (rule slot_bound)
    then have "\<not> j * n + i < k * n" "\<not> j * n + i - k * n < n" "k * n + n + (j * n + i - k * n - n) = j * n + i"
      by linarith+
    with i assms show ?thesis by (simp add: set_slot_def nth_append)
  qed
  then show "slot n (set_slot n k b buf) j ! i = slot n buf j ! i"
    using i length_set_slot [OF assms(1,2)] by (simp add: slot_def)
qed

lemma slots_eqI:
  assumes "length a = m * n" and "length b = m * n"
    and "\<And>k. k < m \<Longrightarrow> slot n a k = slot n b k"
  shows "a = b"
proof (rule nth_equalityI)
  fix i assume "i < length a"
  then have i: "i < m * n" using assms(1) by simp
  then have n: "0 < n" by (cases n) auto
  have q: "i div n < m" using i by (simp add: less_mult_imp_div_less)
  have at: "slot n x (i div n) ! (i mod n) = x ! i" if "length x = m * n" for x
  proof -
    have "i div n * n \<le> length x" unfolding that using q by (intro mult_le_mono1) simp
    then show ?thesis using n by (simp add: slot_def)
  qed
  from at [OF assms(1)] at [OF assms(2)] show "a ! i = b ! i" using assms(3) [OF q] by simp
qed (simp add: assms)

section \<open>Rows\<close>

text \<open>One turn of each loop: the row is combined with the one above it, in place.\<close>

definition combine_row :: "(bytes \<Rightarrow> bytes \<Rightarrow> bytes) \<Rightarrow> nat \<Rightarrow> nat \<Rightarrow> bytes \<Rightarrow> bytes" where
  "combine_row f stride row out =
     set_slot stride row (f (slot stride out row) (slot stride out (row - 1))) out"

definition vertical_subtract :: "chunk_shape \<Rightarrow> bytes \<Rightarrow> bytes" where
  "vertical_subtract s payload =
     fold (combine_row (subtract_in_place (cs_dtype s)) (row_bytes s))
       (rev [1..<unat (cs_height s)]) payload"

definition vertical_add :: "chunk_shape \<Rightarrow> bytes \<Rightarrow> bytes" where
  "vertical_add s out =
     fold (combine_row (add_in_place (cs_dtype s)) (row_bytes s)) [1..<unat (cs_height s)] out"

definition vertical_encode :: "ext_crates \<Rightarrow> bytes \<Rightarrow> chunk_shape \<Rightarrow> bytes option \<Rightarrow> bytes result" where
  "vertical_encode E payload s dict = zstd_compress E (vertical_subtract s payload) dict"

definition vertical_decode :: "ext_crates \<Rightarrow> bytes \<Rightarrow> chunk_shape \<Rightarrow> bytes option \<Rightarrow> bytes result" where
  "vertical_decode E stored s dict =
     rbind (zstd_decompress E stored (total_bytes s) dict) (\<lambda>out. Inr (vertical_add s out))"

lemma length_slot: "k < m \<Longrightarrow> length buf = m * n \<Longrightarrow> length (slot n buf k) = n"
  using slot_bound [of k m n] by (simp add: slot_def)

lemma combine_row_slots:
  assumes "\<And>a b. length (f a b) = length a" and "length out = m * n" and "row < m"
  shows "length (combine_row f n row out) = m * n"
    and "slot n (combine_row f n row out) k =
      (if k = row then f (slot n out row) (slot n out (row - 1)) else slot n out k)"
proof -
  have b: "row * n + n \<le> length out" using slot_bound [OF assms(3)] assms(2) by simp
  have l: "length (f (slot n out row) (slot n out (row - 1))) = n"
    using assms length_slot by simp
  show "length (combine_row f n row out) = m * n"
    using length_set_slot [OF b l] assms(2) by (simp add: combine_row_def)
  show "slot n (combine_row f n row out) k =
      (if k = row then f (slot n out row) (slot n out (row - 1)) else slot n out k)"
    using slot_set_slot_same [OF b l] slot_set_slot_other [OF b l, of k] by (simp add: combine_row_def)
qed

lemma subtract_rows:
  assumes f: "\<And>a b. length (f a b) = length a" and "length out = m * n" and "h \<le> m"
  shows "length (fold (combine_row f n) (rev [1..<h]) out) = m * n \<and>
    (\<forall>k. slot n (fold (combine_row f n) (rev [1..<h]) out) k =
      (if 0 < k \<and> k < h then f (slot n out k) (slot n out (k - 1)) else slot n out k))"
  using assms(2,3)
proof (induction h arbitrary: out)
  case (Suc h)
  show ?case
  proof (cases "h = 0")
    case False
    define out' where "out' = combine_row f n h out"
    have "h < m" using Suc.prems(2) by simp
    note step = combine_row_slots [where f = f, OF f Suc.prems(1) this, folded out'_def]
    have "rev [1..<Suc h] = h # rev [1..<h]" using False by simp
    moreover have "length (fold (combine_row f n) (rev [1..<h]) out') = m * n \<and>
      (\<forall>k. slot n (fold (combine_row f n) (rev [1..<h]) out') k =
        (if 0 < k \<and> k < h then f (slot n out' k) (slot n out' (k - 1)) else slot n out' k))"
      using Suc.IH [OF step(1)] Suc.prems(2) by simp
    ultimately show ?thesis using False by (auto simp: step(2) less_Suc_eq out'_def [symmetric])
  qed (use Suc.prems in simp)
qed simp

lemma add_rows:
  assumes "\<And>a b. length (f a b) = length a" and "\<And>a b. g (f a b) b = a"
    and "\<And>a b. length (g a b) = length a" and "length p = m * n" and "length out = m * n"
    and "\<And>k. slot n out k = (if 0 < k \<and> k < m then f (slot n p k) (slot n p (k - 1)) else slot n p k)"
    and "h \<le> m"
  shows "length (fold (combine_row g n) [1..<h] out) = m * n \<and>
    (\<forall>k. slot n (fold (combine_row g n) [1..<h] out) k = (if k < h then slot n p k else slot n out k))"
  using assms(7)
proof (induction h)
  case 0
  then show ?case by (simp add: assms)
next
  case (Suc h)
  show ?case
  proof (cases "h = 0")
    case True
    then show ?thesis using assms(5,6) by auto
  next
    case False
    define out' where "out' = fold (combine_row g n) [1..<h] out"
    have ih: "length out' = m * n" "\<And>k. slot n out' k = (if k < h then slot n p k else slot n out k)"
      using Suc by (simp_all add: out'_def)
    have "h < m" using Suc.prems by simp
    note step = combine_row_slots [where f = g, OF assms(3) ih(1) this]
    have "fold (combine_row g n) [1..<Suc h] out = combine_row g n h out'"
      using False by (simp add: out'_def)
    moreover have "g (slot n out' h) (slot n out' (h - 1)) = slot n p h"
      using False \<open>h < m\<close> by (simp add: ih(2) assms(2,6))
    ultimately show ?thesis using step ih(2) by (auto simp: less_Suc_eq)
  qed
qed

lemma vertical_inverse:
  assumes "length p = row_bytes s * unat (cs_height s)"
  shows "length (vertical_subtract s p) = length p" and "vertical_add s (vertical_subtract s p) = p"
proof -
  let ?m = "unat (cs_height s)" and ?n = "row_bytes s"
  have len: "length p = ?m * ?n" using assms by (simp add: mult.commute)
  note sub = subtract_rows [of "subtract_in_place (cs_dtype s)", OF length_in_place(1) len order_refl,
      folded vertical_subtract_def]
  then show "length (vertical_subtract s p) = length p" using len by simp
  have add: "length (vertical_add s (vertical_subtract s p)) = ?m * ?n \<and>
    (\<forall>k. slot ?n (vertical_add s (vertical_subtract s p)) k =
      (if k < ?m then slot ?n p k else slot ?n (vertical_subtract s p) k))"
    unfolding vertical_add_def
  proof (rule add_rows [of "subtract_in_place (cs_dtype s)"])
    show "length (vertical_subtract s p) = ?m * ?n" using sub by blast
    show "slot ?n (vertical_subtract s p) k =
        (if 0 < k \<and> k < ?m then subtract_in_place (cs_dtype s) (slot ?n p k) (slot ?n p (k - 1))
         else slot ?n p k)" for k
      using sub by blast
  qed (use len in \<open>simp_all add: add_subtract_in_place\<close>)
  show "vertical_add s (vertical_subtract s p) = p"
  proof (rule slots_eqI [of _ ?m ?n])
    show "k < ?m \<Longrightarrow> slot ?n (vertical_add s (vertical_subtract s p)) k = slot ?n p k" for k
      using add by presburger
  qed (use add len in blast)+
qed

interpretation vertical_delta:
  payload_transform "vertical_subtract s" "vertical_add s"
    "\<lambda>p. length p = row_bytes s * unat (cs_height s)" for s
  by unfold_locales (rule vertical_inverse; assumption)+

section \<open>Channels\<close>

definition combine_cell ::
  "(bytes \<Rightarrow> bytes \<Rightarrow> bytes) \<Rightarrow> nat \<Rightarrow> nat \<Rightarrow> nat \<Rightarrow> bytes \<Rightarrow> bytes" where
  "combine_cell f elem channels cell out =
     (let reference = slot elem out (cell * channels)
      in fold (\<lambda>channel out.
           set_slot elem (cell * channels + channel)
             (f (slot elem out (cell * channels + channel)) reference) out) [1..<channels] out)"

definition combine_channels :: "(bytes \<Rightarrow> bytes \<Rightarrow> bytes) \<Rightarrow> chunk_shape \<Rightarrow> bytes \<Rightarrow> bytes" where
  "combine_channels f s out =
     fold (combine_cell f (element_size (cs_dtype s)) (unat (cs_channels s)))
       [0..<unat (cs_width s) * unat (cs_height s)] out"

definition channel_refusal :: "chunk_shape \<Rightarrow> map_error option" where
  "channel_refusal s =
     (if cs_channels s < 2
      then Some (invalid ''channel delta needs at least two channels; use another codec'')
      else if is_bit_packed s
      then Some (invalid ''channel delta is not defined for bit-packed chunks; use run-length coding'')
      else None)"

definition channel_encode :: "ext_crates \<Rightarrow> bytes \<Rightarrow> chunk_shape \<Rightarrow> bytes option \<Rightarrow> bytes result" where
  "channel_encode E payload s dict =
     (case channel_refusal s of
        Some e \<Rightarrow> Inl e
      | None \<Rightarrow> zstd_compress E (combine_channels (subtract_bytes (cs_dtype s)) s payload) dict)"

definition channel_decode :: "ext_crates \<Rightarrow> bytes \<Rightarrow> chunk_shape \<Rightarrow> bytes option \<Rightarrow> bytes result" where
  "channel_decode E stored s dict =
     (case channel_refusal s of
        Some e \<Rightarrow> Inl e
      | None \<Rightarrow>
          rbind (zstd_decompress E stored (total_bytes s) dict)
            (\<lambda>out. Inr (combine_channels (add_bytes (cs_dtype s)) s out)))"

lemma combine_cell_slots:
  fixes ref :: bytes
  assumes f: "\<And>a b. length (f a b) = length a" and "length out = m * c * n" and "cell < m" and "h \<le> c"
  defines "inner \<equiv> fold (\<lambda>channel out. set_slot n (cell * c + channel)
             (f (slot n out (cell * c + channel)) ref) out) [1..<h] out"
  shows "length inner = m * c * n \<and>
    (\<forall>e. slot n inner e =
      (if cell * c < e \<and> e < cell * c + h then f (slot n out e) ref else slot n out e))"
  unfolding inner_def using assms(4)
proof (induction h)
  case (Suc h)
  show ?case
  proof (cases "h = 0")
    case False
    define out' where "out' = fold (\<lambda>channel out. set_slot n (cell * c + channel)
        (f (slot n out (cell * c + channel)) ref) out) [1..<h] out"
    have ih: "length out' = m * c * n" "\<And>e. slot n out' e =
        (if cell * c < e \<and> e < cell * c + h then f (slot n out e) ref else slot n out e)"
      using Suc by (simp_all add: out'_def)
    let ?e = "cell * c + h"
    have "?e < cell * c + c" using Suc.prems by simp
    then have "?e < m * c" using slot_bound [OF assms(3), of c] by linarith
    then have b: "?e * n + n \<le> length out'" and l: "length (f (slot n out' ?e) ref) = n"
      using slot_bound [of ?e "m * c" n] length_slot [of ?e "m * c" out' n] f ih(1) by simp_all
    have "fold (\<lambda>channel out. set_slot n (cell * c + channel)
        (f (slot n out (cell * c + channel)) ref) out) [1..<Suc h] out
      = set_slot n ?e (f (slot n out' ?e) ref) out'"
      using False by (simp add: out'_def)
    then show ?thesis
      using False ih length_set_slot [OF b l] slot_set_slot_same [OF b l]
        slot_set_slot_other [OF b l] by (auto simp: less_Suc_eq)
  qed (use assms in auto)
qed (use assms in auto)

lemma combine_cells:
  assumes f: "\<And>a b. length (f a b) = length a" and "length out = m * c * n" and "h \<le> m" and "0 < c"
  shows "length (fold (combine_cell f n c) [0..<h] out) = m * c * n \<and>
    (\<forall>e. slot n (fold (combine_cell f n c) [0..<h] out) e =
      (if e div c < h \<and> e mod c \<noteq> 0 then f (slot n out e) (slot n out (e div c * c)) else slot n out e))"
  using assms(3)
proof (induction h)
  case (Suc h)
  define out' where "out' = fold (combine_cell f n c) [0..<h] out"
  have ih: "length out' = m * c * n" "\<And>e. slot n out' e =
      (if e div c < h \<and> e mod c \<noteq> 0 then f (slot n out e) (slot n out (e div c * c)) else slot n out e)"
    using Suc by (simp_all add: out'_def)
  have "h < m" using Suc.prems by simp
  note step = combine_cell_slots [where f = f, OF f ih(1) this order_refl, of "slot n out' (h * c)"]
  have fold: "fold (combine_cell f n c) [0..<Suc h] out = combine_cell f n c h out'"
    by (simp add: out'_def)
  have mine: "h * c < e \<and> e < h * c + c \<longleftrightarrow> e div c = h \<and> e mod c \<noteq> 0" for e
  proof
    assume h: "h * c < e \<and> e < h * c + c"
    then have "e div c = h" by (intro div_nat_eqI) (simp_all add: mult.commute)
    with h show "e div c = h \<and> e mod c \<noteq> 0" by (metis add_0_right div_mult_mod_eq less_irrefl)
  next
    assume "e div c = h \<and> e mod c \<noteq> 0"
    then have "e = h * c + e mod c" "e mod c \<noteq> 0" by (metis div_mult_mod_eq, simp)
    moreover have "e mod c < c" using assms(4) by simp
    ultimately show "h * c < e \<and> e < h * c + c" by linarith
  qed
  show ?case
    unfolding fold using step
    by (auto simp: combine_cell_def Let_def mine ih(2) less_Suc_eq assms)
qed (use assms in simp)

lemma channel_inverse:
  assumes "channel_refusal s = None" and "total_bytes s < usize_max" and "length p = total_bytes s"
  shows "length (combine_channels (subtract_bytes (cs_dtype s)) s p) = length p"
    and "combine_channels (add_bytes (cs_dtype s)) s (combine_channels (subtract_bytes (cs_dtype s)) s p) = p"
proof -
  let ?c = "unat (cs_channels s)" and ?n = "element_size (cs_dtype s)"
    and ?m = "unat (cs_width s) * unat (cs_height s)"
  let ?d = "combine_channels (subtract_bytes (cs_dtype s)) s p"
  have bit: "\<not> is_bit_packed s" and c: "0 < ?c"
    using assms(1) by (auto simp: channel_refusal_def word_less_nat_alt split: if_splits)
  have len: "length p = ?m * ?c * ?n"
    using total_bytes_cells [OF assms(2) bit] assms(3) by (simp add: cell_bytes_def)
  note sub = combine_cells [of "subtract_bytes (cs_dtype s)", OF length_subtract_bytes len order_refl c,
      folded combine_channels_def]
  then show ld: "length ?d = length p" using len by simp
  have "length ?d = ?m * ?c * ?n" using ld len by simp
  note add = combine_cells [of "add_bytes (cs_dtype s)", OF length_add_bytes this order_refl c,
      folded combine_channels_def]
  show "combine_channels (add_bytes (cs_dtype s)) s ?d = p"
  proof (rule slots_eqI [of _ "?m * ?c" ?n])
    show "length (combine_channels (add_bytes (cs_dtype s)) s ?d) = ?m * ?c * ?n" using add by simp
    show "length p = ?m * ?c * ?n" by (rule len)
    fix e assume e: "e < ?m * ?c"
    have q: "e div ?c < ?m" using e c by (simp add: less_mult_imp_div_less)
    then have r: "e div ?c * ?c < ?m * ?c" using c by simp
    note length_slot [OF e len] length_slot [OF r len]
    then show "slot ?n (combine_channels (add_bytes (cs_dtype s)) s ?d) e = slot ?n p e"
      using q add sub c by (simp add: add_subtract_bytes)
  qed
qed

interpretation channel_delta:
  payload_transform "combine_channels (subtract_bytes (cs_dtype s)) s"
    "combine_channels (add_bytes (cs_dtype s)) s"
    "\<lambda>p. channel_refusal s = None \<and> total_bytes s < usize_max \<and> length p = total_bytes s" for s
  by unfold_locales (use channel_inverse in blast)+

lemma vertical_roundtrip:
  assumes "ext_ok E" and "length p = total_bytes s" and "total_bytes s < usize_max"
    and "vertical_encode E p s dict = Inr c"
  shows "vertical_decode E c s dict = Inr p"
proof -
  have "length p = row_bytes s * unat (cs_height s)"
    using total_bytes_eq(2) [OF assms(3)] assms(2) by simp
  from vertical_delta.through_zstd [OF assms(1) this, of dict c "total_bytes s"] assms(2,4)
  show ?thesis by (simp add: vertical_encode_def vertical_decode_def rmap_def)
qed

lemma channel_roundtrip:
  assumes "ext_ok E" and "length p = total_bytes s" and "total_bytes s < usize_max"
    and "channel_encode E p s dict = Inr c"
  shows "channel_decode E c s dict = Inr p"
proof -
  have r: "channel_refusal s = None"
    and z: "zstd_compress E (combine_channels (subtract_bytes (cs_dtype s)) s p) dict = Inr c"
    using assms(4) by (auto simp: channel_encode_def split: option.splits)
  from channel_delta.through_zstd [OF assms(1) _ z assms(2)] assms(2,3) r
  show ?thesis by (simp add: channel_decode_def rmap_def)
qed

end
