(* ===== verification/Omf_Sparse.thy ===== *)
theory Omf_Sparse
  imports Omf_Entropy
begin

text \<open>
  The sparse and run-length codecs (\<open>crates/map-format/src/codec/sparse.rs\<close>). The sparse body is
  a validity mask, one bit per cell, and the bytes of the cells with a non-zero byte; the
  run-length body is a list of a value and a 16-bit run. The lemmas give both round trips, that
  the run-length decoder never returns more than it was told to expect, and that the sparse
  decoder's slices stay in range whatever the body holds.
\<close>

section \<open>Sparse chunks\<close>

definition set_mask_bit :: "nat \<Rightarrow> bytes \<Rightarrow> bytes" where
  "set_mask_bit i msk = msk[i div 8 := msk ! (i div 8) OR push_bit (i mod 8) 1]"

definition mask_bit :: "bytes \<Rightarrow> nat \<Rightarrow> bool" where
  "mask_bit msk i \<longleftrightarrow> msk ! (i div 8) AND push_bit (i mod 8) 1 \<noteq> 0"

definition cell_present :: "bytes \<Rightarrow> bool" where
  "cell_present cell \<longleftrightarrow> (\<exists>b \<in> set cell. b \<noteq> 0)"

text \<open>The loop over \<open>payload.chunks_exact(cell_bytes).enumerate()\<close>.\<close>

fun sparse_scan :: "nat \<Rightarrow> bytes list \<Rightarrow> bytes \<Rightarrow> bytes \<Rightarrow> bytes \<times> bytes" where
  "sparse_scan i [] msk vals = (msk, vals)"
| "sparse_scan i (cell # cells) msk vals =
     (if cell_present cell then sparse_scan (Suc i) cells (set_mask_bit i msk) (vals @ cell)
      else sparse_scan (Suc i) cells msk vals)"

definition sparse_refusal :: map_error where
  "sparse_refusal =
     invalid ''sparse coding is not defined for bit-packed chunks; use run-length coding''"

definition sparse_body :: "bytes \<Rightarrow> chunk_shape \<Rightarrow> bytes" where
  "sparse_body payload s =
     (let cells = unat (cs_width s) * unat (cs_height s);
          (msk, vals) = sparse_scan 0 (chunks_exact (cell_bytes s) payload)
                           (replicate (div_ceil cells 8) 0) []
      in write_seq [write_u32 (word_of_nat cells),
                    write_u32 (word_of_nat (length vals div cell_bytes s)),
                    write_bytes msk, write_bytes vals] [])"

definition sparse_encode :: "ext_crates \<Rightarrow> bytes \<Rightarrow> chunk_shape \<Rightarrow> bytes result" where
  "sparse_encode E payload s =
     (if is_bit_packed s then Inl sparse_refusal
      else if cell_bytes s = 0 then Inl (invalid ''chunk shape has zero-sized cells'')
      else if length payload \<noteq> total_bytes s
      then Inl (invalid (''payload length '' @ show_nat (length payload)
                 @ '' does not match chunk shape ('' @ show_nat (total_bytes s) @ '' bytes)''))
      else zstd_compress E (sparse_body payload s) None)"

definition count_ones :: "u8 \<Rightarrow> nat" where
  "count_ones b = length (filter (bit b) [0..<8])"

definition set_slice :: "nat \<Rightarrow> bytes \<Rightarrow> bytes \<Rightarrow> bytes" where
  "set_slice start b buf = take start buf @ b @ drop (start + length b) buf"

text \<open>The loop \<open>for cell in 0..cells\<close>, with its output and value index.\<close>

fun sparse_fill :: "bytes \<Rightarrow> nat \<Rightarrow> bytes \<Rightarrow> nat list \<Rightarrow> bytes \<times> nat \<Rightarrow> bytes \<times> nat" where
  "sparse_fill msk n vals [] st = st"
| "sparse_fill msk n vals (cell # cells) (out, vi) =
     (if mask_bit msk cell
      then sparse_fill msk n vals cells (set_slice (cell * n) (take n (drop (vi * n) vals)) out, vi + 1)
      else sparse_fill msk n vals cells (out, vi))"

text \<open>The part of the decoder that walks the decompressed body.\<close>

definition sparse_read :: "usize \<Rightarrow> usize \<Rightarrow> usize \<Rightarrow> usize \<Rightarrow> bytes rd" where
  "sparse_read cells mask_len cell_len total_len =
     rd_bind read_u32 (\<lambda>stored_cells.
     rd_bind read_u32 (\<lambda>valid_cells.
     if unat stored_cells \<noteq> cells
     then rd_lift (Inl (invalid (''sparse chunk describes '' @ show_nat (unat stored_cells)
                     @ '' cell(s), chunk shape has '' @ show_nat cells)))
     else
     rd_bind (read_bytes mask_len) (\<lambda>msk.
     let set_cells = sum_list (map count_ones msk) in
     if set_cells \<noteq> unat valid_cells
     then rd_lift (Inl (invalid (''sparse chunk mask sets '' @ show_nat set_cells
                     @ '' cell(s) but carries '' @ show_nat (unat valid_cells) @ '' value(s)'')))
     else
     rd_bind (read_bytes (unat valid_cells * cell_len)) (\<lambda>vals.
       rd_return (fst (sparse_fill msk cell_len vals [0..<cells] (replicate total_len 0, 0)))))))"

definition sparse_decode :: "ext_crates \<Rightarrow> bytes \<Rightarrow> chunk_shape \<Rightarrow> bytes result" where
  "sparse_decode E stored s =
     (if is_bit_packed s then Inl sparse_refusal
      else
        rbind (ok_or (invalid ''chunk shape overflows'')
                 (usize_checked_mul (unat (cs_width s)) (unat (cs_height s)))) (\<lambda>cells.
        rbind (ok_or (invalid ''chunk shape overflows'') (total_bytes_checked s)) (\<lambda>total.
        if total > MAX_RAW_CHUNK_BYTES
        then Inl (invalid (''sparse chunk shape demands '' @ show_nat total @ '' byte(s), above the ''
                   @ show_nat MAX_RAW_CHUNK_BYTES @ ''-byte limit''))
        else
        let mask_len = div_ceil cells 8 in
        rbind (ok_or (invalid ''chunk shape overflows'')
                 (case usize_checked_add 8 mask_len of
                    None \<Rightarrow> None | Some v \<Rightarrow> usize_checked_add v total)) (\<lambda>capacity.
        rbind (zstd_decompress_bounded E stored capacity) (\<lambda>body.
        rd_run (sparse_read cells mask_len (cell_bytes s) total) body)))))"

section \<open>The mask\<close>

lemma bit_push_1_u8: "k < 8 \<Longrightarrow> bit (push_bit k 1 :: u8) j \<longleftrightarrow> j = k"
  by (auto simp: bit_simps)

lemma and_push_bit_u8: "k < 8 \<Longrightarrow> (b AND push_bit k 1 \<noteq> 0) \<longleftrightarrow> bit (b :: u8) k"
proof
  assume k: "k < 8" and "b AND push_bit k 1 \<noteq> 0"
  then obtain j where "bit (b AND push_bit k 1) j" by (auto simp: bit_eq_iff)
  with k show "bit b k" by (auto simp: bit_and_iff bit_push_1_u8 simp del: push_bit_of_1)
next
  assume k: "k < 8" and "bit b k"
  then have "bit (b AND push_bit k 1) k" by (simp add: bit_and_iff bit_push_1_u8 del: push_bit_of_1)
  then show "b AND push_bit k 1 \<noteq> 0" by force
qed

lemma mask_bit_iff: "mask_bit msk i \<longleftrightarrow> bit (msk ! (i div 8)) (i mod 8)"
  unfolding mask_bit_def by (rule and_push_bit_u8) simp

lemma length_set_mask_bit [simp]: "length (set_mask_bit i msk) = length msk"
  by (simp add: set_mask_bit_def)

lemma mask_bit_set_mask_bit:
  assumes "i div 8 < length msk"
  shows "mask_bit (set_mask_bit i msk) j \<longleftrightarrow> j = i \<or> mask_bit msk j"
proof (cases "j div 8 = i div 8")
  case True
  have "j = i \<longleftrightarrow> j mod 8 = i mod 8" using True by (metis div_mod_decomp)
  moreover have "bit (msk ! (i div 8) OR push_bit (i mod 8) 1) (j mod 8) \<longleftrightarrow>
      bit (msk ! (i div 8)) (j mod 8) \<or> j mod 8 = i mod 8"
    unfolding bit_or_iff by (subst bit_push_1_u8) simp_all
  ultimately show ?thesis
    using True assms by (auto simp: mask_bit_iff set_mask_bit_def simp del: push_bit_of_1)
next
  case False
  then have "j \<noteq> i" by auto
  with False show ?thesis by (simp add: mask_bit_iff set_mask_bit_def)
qed

lemma mask_bit_zero: "i div 8 < n \<Longrightarrow> \<not> mask_bit (replicate n 0) i"
  by (simp add: mask_bit_iff)

text \<open>The set bits of the mask bytes are the indices the mask accepts.\<close>

lemma count_ones_sum: "sum_list (map count_ones msk) = length (filter (mask_bit msk) [0..<8 * length msk])"
proof (induction msk rule: rev_induct)
  case (snoc b msk)
  have old: "filter (mask_bit (msk @ [b])) [0..<8 * length msk] = filter (mask_bit msk) [0..<8 * length msk]"
    by (rule filter_cong) (auto simp: mask_bit_iff nth_append less_mult_imp_div_less mult.commute)
  have "[8 * length msk..<8 * length msk + 8] = map (\<lambda>k. k + 8 * length msk) [0..<8]"
    by (simp add: map_add_upt add.commute del: upt_conv_Cons_Cons)
  moreover have "filter (\<lambda>k. mask_bit (msk @ [b]) (k + 8 * length msk)) [0..<8] = filter (bit b) [0..<8]"
    by (rule filter_cong) (simp_all add: mask_bit_iff nth_append div_add1_eq)
  ultimately have "length (filter (mask_bit (msk @ [b])) [8 * length msk..<8 * length msk + 8]) = count_ones b"
    unfolding count_ones_def by (simp only: filter_map comp_def length_map)
  moreover have "[0..<8 * length (msk @ [b])] = [0..<8 * length msk] @ [8 * length msk..<8 * length msk + 8]"
    using upt_add_eq_append [of 0 "8 * length msk" 8] by (simp add: algebra_simps)
  ultimately show ?case using snoc old by simp
qed simp

section \<open>The sparse round trip\<close>

lemma sparse_scan_spec:
  assumes "sparse_scan i cells msk vals = (msk', vals')" and "\<forall>j < i + length cells. j div 8 < length msk"
  shows "length msk' = length msk"
    and "vals' = vals @ concat (filter cell_present cells)"
    and "mask_bit msk' j \<longleftrightarrow>
      mask_bit msk j \<or> i \<le> j \<and> j < i + length cells \<and> cell_present (cells ! (j - i))"
proof -
  have "length msk' = length msk \<and> vals' = vals @ concat (filter cell_present cells) \<and>
    (\<forall>j. mask_bit msk' j \<longleftrightarrow>
      mask_bit msk j \<or> i \<le> j \<and> j < i + length cells \<and> cell_present (cells ! (j - i)))"
    using assms
  proof (induction i cells msk vals rule: sparse_scan.induct)
    case (2 i cell cells msk vals)
    have split: "(i \<le> j \<and> j < i + length (cell # cells) \<and> cell_present ((cell # cells) ! (j - i))) \<longleftrightarrow>
      (j = i \<and> cell_present cell) \<or>
      (Suc i \<le> j \<and> j < Suc i + length cells \<and> cell_present (cells ! (j - Suc i)))" for j
      by (cases "j = i") (auto simp: nth_Cons Suc_le_eq split: nat.splits
          dest: le_neq_implies_less simp flip: Suc_diff_Suc)
    show ?case
    proof (cases "cell_present cell")
      case True
      then have "sparse_scan (Suc i) cells (set_mask_bit i msk) (vals @ cell) = (msk', vals')"
        using "2.prems"(1) by simp
      from "2.IH"(1) [OF True this] "2.prems"(2) True show ?thesis
        unfolding split by (simp add: mask_bit_set_mask_bit) blast
    next
      case False
      then have "sparse_scan (Suc i) cells msk vals = (msk', vals')"
        using "2.prems"(1) by simp
      from "2.IH"(2) [OF False this] "2.prems"(2) False show ?thesis
        unfolding split by simp
    qed
  qed auto
  then show "length msk' = length msk" "vals' = vals @ concat (filter cell_present cells)"
    "mask_bit msk' j \<longleftrightarrow>
      mask_bit msk j \<or> i \<le> j \<and> j < i + length cells \<and> cell_present (cells ! (j - i))"
    by blast+
qed

lemma absent_cell: "\<not> cell_present cell \<Longrightarrow> cell = replicate (length cell) 0"
  unfolding cell_present_def by (simp add: replicate_length_same)

text \<open>The loop invariant of the decoder: the cells done so far, then zeros.\<close>

lemma sparse_fill_cells:
  assumes "\<forall>c \<in> set cells. length c = n"
    and "\<And>j. j < length pre + length cells \<Longrightarrow> mask_bit msk j \<longleftrightarrow> cell_present ((pre @ cells) ! j)"
    and "\<forall>c \<in> set pre. length c = n"
    and "vals = concat (filter cell_present (pre @ cells))"
  shows "fst (sparse_fill msk n vals [length pre..<length pre + length cells]
      (concat pre @ replicate (length cells * n) 0, length (filter cell_present pre)))
    = concat (pre @ cells)"
  using assms
proof (induction cells arbitrary: pre)
  case (Cons c cells)
  have len_pre: "length (concat pre) = length pre * n"
    using length_concat_const [of pre id n] Cons.prems(3) by simp
  have upt: "[length pre..<length pre + length (c # cells)] =
      length pre # [Suc (length pre)..<Suc (length pre) + length cells]"
    by (simp add: upt_conv_Cons del: upt_Suc)
  have bit: "mask_bit msk (length pre) \<longleftrightarrow> cell_present c"
    using Cons.prems(2) [of "length pre"] by (simp add: nth_append)
  have ih: "fst (sparse_fill msk n vals [length (pre @ [c])..<length (pre @ [c]) + length cells]
      (concat (pre @ [c]) @ replicate (length cells * n) 0, length (filter cell_present (pre @ [c]))))
    = concat ((pre @ [c]) @ cells)"
    using Cons.prems by (intro Cons.IH) auto
  show ?case
  proof (cases "cell_present c")
    case True
    have vlen: "length (concat (filter cell_present pre)) = length (filter cell_present pre) * n"
      using length_concat_const [of "filter cell_present pre" id n] Cons.prems(3) by simp
    have v: "take n (drop (length (filter cell_present pre) * n) vals) = c"
      using True Cons.prems(1,4) vlen by simp
    have "set_slice (length pre * n) c (concat pre @ replicate (length (c # cells) * n) 0)
      = concat (pre @ [c]) @ replicate (length cells * n) 0"
      using Cons.prems(1) by (simp add: set_slice_def len_pre)
    then show ?thesis using ih True bit v unfolding upt by simp
  next
    case False
    have "replicate (length (c # cells) * n) 0 = c @ replicate (length cells * n) 0"
      using absent_cell [OF False] Cons.prems(1) by (simp add: replicate_add)
    then show ?thesis using ih False bit unfolding upt by simp
  qed
qed simp

lemma filter_upt_below:
  assumes "n \<le> m" and "\<And>j. j < m \<Longrightarrow> P j \<longleftrightarrow> j < n \<and> Q j"
  shows "filter P [0..<m] = filter Q [0..<n]"
proof -
  have "[0..<m] = [0..<n] @ [n..<m]"
    using assms(1) by (rule upt_split)
  moreover have "filter P [0..<n] = filter Q [0..<n]"
    using assms by (intro filter_cong) auto
  moreover have "filter P [n..<m] = []"
    using assms by (auto simp: filter_empty_conv)
  ultimately show ?thesis by simp
qed

lemma sparse_scan_mask:
  assumes "sparse_scan 0 cells (replicate (div_ceil (length cells) 8) 0) [] = (msk, vals)"
  shows "length msk = div_ceil (length cells) 8"
    and "vals = concat (filter cell_present cells)"
    and "j < length cells \<Longrightarrow> mask_bit msk j \<longleftrightarrow> cell_present (cells ! j)"
    and "sum_list (map count_ones msk) = length (filter cell_present cells)"
proof -
  let ?n = "length cells"
  have "\<forall>j < 0 + ?n. j div 8 < length (replicate (div_ceil ?n 8) (0 :: u8))"
    by (simp add: div_ceil_8_bound)
  note spec = sparse_scan_spec [OF assms this]
  show len: "length msk = div_ceil ?n 8" using spec(1) by simp
  show "vals = concat (filter cell_present cells)" using spec(2) by simp
  show "j < ?n \<Longrightarrow> mask_bit msk j \<longleftrightarrow> cell_present (cells ! j)"
    using spec(3) [of j] mask_bit_zero [OF div_ceil_8_bound] by simp
  have "(?n + 7) div 8 * 8 + (?n + 7) mod 8 = ?n + 7" by (rule div_mult_mod_eq)
  moreover have "(?n + 7) mod 8 < 8" by (rule mod_less_divisor) simp
  moreover have "8 * length msk = (?n + 7) div 8 * 8" unfolding len div_ceil_8 by simp
  ultimately have "?n \<le> 8 * length msk" by linarith
  then have "filter (mask_bit msk) [0..<8 * length msk] = filter (\<lambda>i. cell_present (cells ! i)) [0..<?n]"
  proof (rule filter_upt_below)
    fix j assume "j < 8 * length msk"
    then have "j div 8 < div_ceil ?n 8" using len by (simp add: less_mult_imp_div_less mult.commute)
    then show "mask_bit msk j \<longleftrightarrow> j < ?n \<and> cell_present (cells ! j)"
      using spec(3) [of j] mask_bit_zero by simp
  qed
  then show "sum_list (map count_ones msk) = length (filter cell_present cells)"
    unfolding count_ones_sum by (simp add: count_set_bits_nth [of cell_present cells])
qed

lemma sparse_roundtrip:
  assumes "ext_ok E" and "total_bytes s \<le> MAX_RAW_CHUNK_BYTES" and "sparse_encode E payload s = Inr c"
  shows "sparse_decode E c s = Inr payload"
proof -
  define n cells where "n = cell_bytes s" and "cells = chunks_exact n payload"
  have bit: "\<not> is_bit_packed s" and n: "0 < n" and len: "length payload = total_bytes s"
    and z: "zstd_compress E (sparse_body payload s) None = Inr c"
    using assms(3) by (auto simp: sparse_encode_def n_def split: if_splits)
  have cap: "total_bytes s \<le> 2 ^ 28" using assms(2) by (simp add: MAX_RAW_CHUNK_BYTES_def)
  then have small: "total_bytes s < usize_max" by simp
  define N where "N = unat (cs_width s) * unat (cs_height s)"
  have total: "total_bytes s = N * n" using total_bytes_cells [OF small bit] by (simp add: n_def N_def)
  have N: "length cells = N"
    using n by (simp add: cells_def length_chunks_exact len total)
  have "N \<le> N * n" using n by simp
  then have N28: "N \<le> 2 ^ 28" using cap total by linarith
  have cell_len: "\<forall>x \<in> set cells. length x = n" by (auto simp: cells_def chunks_exact_lengths)
  have payload: "concat cells = payload"
    using n len total by (simp add: cells_def concat_chunks_exact)
  obtain msk vals where scan: "sparse_scan 0 cells (replicate (div_ceil N 8) 0) [] = (msk, vals)"
    by fastforce
  note mask = sparse_scan_mask [OF scan [folded N]]
  let ?k = "length (filter cell_present cells)"
  have vals_len: "length vals = ?k * n"
    unfolding mask(2) using length_concat_const [of "filter cell_present cells" id n] cell_len by simp
  have "?k \<le> N" using length_filter_le [of cell_present cells] N by simp
  then have k28: "?k \<le> 2 ^ 28" using N28 by linarith
  have kn: "?k * n \<le> total_bytes s" using \<open>?k \<le> N\<close> total by simp
  have body: "sparse_body payload s =
      le_bytes 4 (word_of_nat N :: u32) @ le_bytes 4 (word_of_nat ?k :: u32) @ msk @ vals"
    using n scan by (simp add: sparse_body_def wire_simps vals_len flip: n_def cells_def N_def)
  have ceil: "div_ceil N 8 \<le> 2 ^ 28"
  proof -
    have "(N + 7) div 8 \<le> (2 ^ 28 + 7) div 8" using N28 by (intro div_le_mono) simp
    then show ?thesis unfolding div_ceil_8 by simp
  qed
  have ml: "length msk = div_ceil N 8" using mask(1) N by simp
  let ?cap = "8 + div_ceil N 8 + total_bytes s"
  have "length (sparse_body payload s) \<le> ?cap"
    using kn ml by (simp add: body vals_len)
  from zstd_bounded_roundtrip [OF assms(1) z this]
  have z': "zstd_decompress_bounded E c ?cap = Inr (sparse_body payload s)" .
  have fill: "fst (sparse_fill msk n vals [0..<N] (replicate (total_bytes s) 0, 0)) = payload"
    using sparse_fill_cells [of cells n "[]" msk vals] cell_len mask(2,3) N payload total by simp
  have fits: "fits (sparse_body payload s)"
    using kn cap ceil ml by (simp add: fits_def body vals_len)
  have u: "unat (word_of_nat N :: u32) = N" "unat (word_of_nat ?k :: u32) = ?k"
    using N28 k28 by (simp_all add: unat_of_nat_u32)
  have ok: "usize_checked_mul (unat (cs_width s)) (unat (cs_height s)) = Some N"
    "usize_checked_add 8 (div_ceil N 8) = Some (8 + div_ceil N 8)"
    "usize_checked_add (8 + div_ceil N 8) (total_bytes s) = Some ?cap"
    using N28 ceil cap by (simp_all add: usize_checked_mul_def usize_checked_add_def flip: N_def)
  have "reads (sparse_read N (div_ceil N 8) n (total_bytes s)) (sparse_body payload s) payload"
    unfolding sparse_read_def body
  proof (rule reads_bind, rule reads_scalar, rule reads_bind, rule reads_scalar)
    have "reads (rd_bind (read_bytes (?k * n)) (\<lambda>vals.
        rd_return (fst (sparse_fill msk n vals [0..<N] (replicate (total_bytes s) 0, 0))))) vals payload"
      using reads_bind_return [OF reads_bytes [of "?k * n" vals], of
          "\<lambda>vals. fst (sparse_fill msk n vals [0..<N] (replicate (total_bytes s) 0, 0))"]
      by (simp only: vals_len fill)
    then show "reads (if unat (word_of_nat N :: u32) \<noteq> N
        then rd_lift (Inl (invalid (''sparse chunk describes '' @ show_nat (unat (word_of_nat N :: u32))
               @ '' cell(s), chunk shape has '' @ show_nat N)))
        else rd_bind (read_bytes (div_ceil N 8)) (\<lambda>msk.
          let set_cells = sum_list (map count_ones msk) in
          if set_cells \<noteq> unat (word_of_nat ?k :: u32)
          then rd_lift (Inl (invalid (''sparse chunk mask sets '' @ show_nat set_cells
                 @ '' cell(s) but carries '' @ show_nat (unat (word_of_nat ?k :: u32)) @ '' value(s)'')))
          else rd_bind (read_bytes (unat (word_of_nat ?k :: u32) * n)) (\<lambda>vals.
            rd_return (fst (sparse_fill msk n vals [0..<N] (replicate (total_bytes s) 0, 0))))))
      (msk @ vals) payload"
      unfolding u by (simp only: if_False not_True_eq_False simp_thms)
        (rule reads_bind, rule reads_bytes, simp_all add: ml mask(4))
  qed
  then show ?thesis
    using bit cap z' ok total_bytes_eq(1) [OF small] fits
    by (simp add: sparse_decode_def MAX_RAW_CHUNK_BYTES_def Let_def rd_run_reads_all flip: n_def N_def)
qed

text \<open>The slices the decoder's loop takes: none leaves the values or the output, so none panics.\<close>

fun fill_in_range :: "bytes \<Rightarrow> nat \<Rightarrow> bytes \<Rightarrow> nat list \<Rightarrow> nat \<Rightarrow> nat \<Rightarrow> bool" where
  "fill_in_range msk n vals [] out_len vi = True"
| "fill_in_range msk n vals (cell # cells) out_len vi =
     (if mask_bit msk cell
      then (vi + 1) * n \<le> length vals \<and> cell * n + n \<le> out_len \<and> cell div 8 < length msk
           \<and> fill_in_range msk n vals cells out_len (vi + 1)
      else cell div 8 < length msk \<and> fill_in_range msk n vals cells out_len vi)"

lemma fill_in_range_from:
  assumes "length vals = sum_list (map count_ones msk) * n" and "N \<le> 8 * length msk" and "k \<le> N"
  shows "fill_in_range msk n vals [k..<N] (N * n) (length (filter (mask_bit msk) [0..<k]))"
  using assms(3)
proof (induction "N - k" arbitrary: k)
  case (Suc m)
  then have "k < N" by simp
  then have upt: "[k..<N] = k # [Suc k..<N]" by (simp add: upt_conv_Cons)
  have at: "k div 8 < length msk" using \<open>k < N\<close> assms(2) by (simp add: less_mult_imp_div_less mult.commute)
  have ih: "fill_in_range msk n vals [Suc k..<N] (N * n) (length (filter (mask_bit msk) [0..<Suc k]))"
    using Suc \<open>k < N\<close> by (intro Suc.hyps) simp_all
  have out: "k * n + n \<le> N * n" using mult_le_mono1 [of "Suc k" N n] \<open>k < N\<close> by simp
  show ?case
  proof (cases "mask_bit msk k")
    case True
    have "[0..<8 * length msk] = [0..<Suc k] @ [Suc k..<8 * length msk]"
      using \<open>k < N\<close> assms(2) by (intro upt_split) simp
    then have "length (filter (mask_bit msk) [0..<k]) + 1 \<le> sum_list (map count_ones msk)"
      unfolding count_ones_sum using True by simp
    then have "(length (filter (mask_bit msk) [0..<k]) + 1) * n \<le> length vals"
      unfolding assms(1) by (rule mult_le_mono1)
    then show ?thesis using True ih at out unfolding upt by simp
  next
    case False
    then show ?thesis using ih at unfolding upt by simp
  qed
qed simp

section \<open>Run lengths\<close>

text \<open>The inner loop: the run so far and what the iterator has left.\<close>

fun rle_run :: "u8 \<Rightarrow> nat \<Rightarrow> bytes \<Rightarrow> nat \<times> bytes" where
  "rle_run v run [] = (run, [])"
| "rle_run v run (b # bs) = (if run < 65535 \<and> b = v then rle_run v (run + 1) bs else (run, b # bs))"

lemma rle_run_length: "length (snd (rle_run v run bs)) \<le> length bs"
  by (induction v run bs rule: rle_run.induct) auto

function rle_body :: "bytes \<Rightarrow> bytes" where
  "rle_body [] = []"
| "rle_body (v # bs) =
     (let (run, rest) = rle_run v 1 bs
      in v # le_bytes 2 (word_of_nat run :: u16) @ rle_body rest)"
  by pat_completeness auto
termination
proof (relation "measure length")
  fix v bs x run rest
  assume "x = rle_run v 1 bs" and "(run, rest) = x"
  then show "(rest, v # bs) \<in> measure length"
    using rle_run_length [of v 1 bs] by (metis in_measure length_Cons less_Suc_eq_le snd_conv)
qed simp

definition rle_encode :: "ext_crates \<Rightarrow> bytes \<Rightarrow> bytes result" where
  "rle_encode E payload = zstd_compress E (rle_body payload) None"

fun rle_expand :: "usize \<Rightarrow> bytes list \<Rightarrow> bytes \<Rightarrow> bytes result" where
  "rle_expand expected_len [] out = Inr out"
| "rle_expand expected_len (run # runs) out =
     (let v = run ! 0; len = unat (le_value [run ! 1, run ! 2] :: u16)
      in if length out + len > expected_len
         then Inl (invalid (''run-length payload expands beyond the expected ''
                    @ show_nat expected_len @ '' byte(s)''))
         else rle_expand expected_len runs (out @ replicate len v))"

definition rle_decode :: "ext_crates \<Rightarrow> bytes \<Rightarrow> usize \<Rightarrow> bytes result" where
  "rle_decode E stored expected_len =
     rbind (zstd_decompress_bounded E stored (max (min (expected_len * 3) usize_max) 8)) (\<lambda>body.
     if length body mod 3 \<noteq> 0
     then Inl (invalid (''run-length payload length '' @ show_nat (length body)
                @ '' is not a multiple of 3''))
     else rle_expand expected_len (chunks_exact 3 body) [])"

lemma rle_run_spec:
  "rle_run v run bs = (run', rest) \<Longrightarrow> run \<le> 65535 \<Longrightarrow>
     run \<le> run' \<and> run' \<le> 65535 \<and> replicate run v @ bs = replicate run' v @ rest"
proof (induction v run bs rule: rle_run.induct)
  case (2 v run b bs)
  show ?case
  proof (cases "run < 65535 \<and> b = v")
    case True
    then have "replicate run v @ b # bs = replicate (run + 1) v @ bs"
      by (simp add: replicate_append_same [symmetric])
    with True 2 show ?thesis by simp
  qed (use 2 in auto)
qed simp

text \<open>What the encoder emits, as a list of runs.\<close>

lemma rle_body_runs:
  "\<exists>runs. rle_body bs = concat (map (\<lambda>(v, n). v # le_bytes 2 (word_of_nat n :: u16)) runs)
     \<and> (\<forall>(v, n) \<in> set runs. 0 < n \<and> n \<le> 65535)
     \<and> concat (map (\<lambda>(v, n). replicate n v) runs) = bs"
proof (induction bs rule: rle_body.induct)
  case (2 v bs)
  obtain run rest where r: "rle_run v 1 bs = (run, rest)" by fastforce
  from rle_run_spec [OF this] have n: "1 \<le> run" "run \<le> 65535" and eq: "v # bs = replicate run v @ rest"
    by simp_all
  from "2.IH" [OF r [symmetric] refl] obtain runs where
    "rle_body rest = concat (map (\<lambda>(v, n). v # le_bytes 2 (word_of_nat n :: u16)) runs)"
    "\<forall>(v, n) \<in> set runs. 0 < n \<and> n \<le> 65535" "concat (map (\<lambda>(v, n). replicate n v) runs) = rest"
    by blast
  moreover have "rle_body (v # bs) = v # le_bytes 2 (word_of_nat run :: u16) @ rle_body rest"
    using r by simp
  ultimately show ?case
    using n by (intro exI [of _ "(v, run) # runs"]) (simp add: eq del: rle_body.simps(2))
qed (intro exI [of _ "[]"], simp)

lemma rle_expand_runs:
  assumes "\<forall>(v, n) \<in> set runs. 0 < n \<and> n \<le> 65535"
    and "length out + length (concat (map (\<lambda>(v, n). replicate n v) runs)) \<le> len"
  shows "rle_expand len (map (\<lambda>(v, n). v # le_bytes 2 (word_of_nat n :: u16)) runs) out
    = Inr (out @ concat (map (\<lambda>(v, n). replicate n v) runs))"
  using assms
proof (induction runs arbitrary: out)
  case (Cons r runs)
  obtain v n where r: "r = (v, n)" by fastforce
  have n: "n \<le> 65535" using Cons.prems(1) r by simp
  obtain a b where ab: "le_bytes 2 (word_of_nat n :: u16) = [a, b]"
    using length_2 [OF length_le_bytes [of 2 "word_of_nat n :: u16"]] by blast
  then have "le_value [a, b] = (word_of_nat n :: u16)" by (metis le_value_2)
  with n have "unat (le_value [a, b] :: u16) = n" by (simp add: unat_of_nat_u16)
  then show ?case
    using Cons.IH [of "out @ replicate n v"] Cons.prems by (simp add: r ab Let_def)
qed simp

lemma rle_body_chunks:
  fixes runs :: "(u8 \<times> nat) list"
  defines "body \<equiv> concat (map (\<lambda>(v, n). v # le_bytes 2 (word_of_nat n :: u16)) runs)"
  shows "length body = 3 * length runs"
    and "chunks_exact 3 body = map (\<lambda>(v, n). v # le_bytes 2 (word_of_nat n :: u16)) runs"
  unfolding body_def
  by (rule length_concat_const, force) (rule chunks_exact_concat, auto)

lemma runs_length:
  "\<forall>(v, n) \<in> set runs. 0 < n \<Longrightarrow> length runs \<le> length (concat (map (\<lambda>(v, n). replicate n v) runs))"
  by (induction runs) auto

lemma rle_roundtrip:
  assumes "ext_ok E" and "rle_encode E payload = Inr c" and "length payload = n" and "3 * n \<le> usize_max"
  shows "rle_decode E c n = Inr payload"
proof -
  obtain runs where body: "rle_body payload = concat (map (\<lambda>(v, n). v # le_bytes 2 (word_of_nat n :: u16)) runs)"
    and pos: "\<forall>(v, n) \<in> set runs. 0 < n \<and> n \<le> 65535"
    and eq: "concat (map (\<lambda>(v, n). replicate n v) runs) = payload"
    using rle_body_runs [of payload] by blast
  have "length runs \<le> n" using runs_length [of runs] pos eq assms(3) by fastforce
  then have "length (rle_body payload) \<le> max (min (n * 3) usize_max) 8"
    using assms(4) unfolding body rle_body_chunks(1) by simp
  from zstd_bounded_roundtrip [OF assms(1) _ this] assms(2)
  have "zstd_decompress_bounded E c (max (min (n * 3) usize_max) 8) = Inr (rle_body payload)"
    by (simp add: rle_encode_def)
  then show ?thesis
    using rle_expand_runs [OF pos, of "[]" n] eq assms(3)
    by (simp add: rle_decode_def body rle_body_chunks)
qed

lemma rle_expand_bound: "rle_expand n runs out = Inr x \<Longrightarrow> length out \<le> n \<Longrightarrow> length x \<le> n"
  by (induction n runs out rule: rle_expand.induct) (auto simp: Let_def split: if_splits)

lemma rle_decode_bound: "rle_decode E c n = Inr x \<Longrightarrow> length x \<le> n"
  by (auto simp: rle_decode_def rbind_Inr_iff dest: rle_expand_bound split: if_splits)

end
