(* ===== verification/Omf_Codec.thy ===== *)
theory Omf_Codec
  imports Omf_Delta Omf_Sparse
begin

text \<open>
  The codec dispatch (\<open>crates/map-format/src/codec/mod.rs\<close>) and the pyramid codec
  (\<open>codec/pyramid.rs\<close>). Every supported codec undoes itself, a decoded payload has exactly the
  size of the shape, and an unknown codec is refused by both directions.
\<close>

definition RAW :: u8 where "RAW = 0x00"
definition ZSTD :: u8 where "ZSTD = 0x10"
definition LZ4 :: u8 where "LZ4 = 0x11"
definition DELTA_VERTICAL :: u8 where "DELTA_VERTICAL = 0x20"
definition DELTA_CHANNEL :: u8 where "DELTA_CHANNEL = 0x21"
definition SPARSE :: u8 where "SPARSE = 0x30"
definition RLE :: u8 where "RLE = 0x31"
definition QUANTISED_ZSTD :: u8 where "QUANTISED_ZSTD = 0x40"
definition PYRAMID :: u8 where "PYRAMID = 0x50"

lemmas codec_ids = RAW_def ZSTD_def LZ4_def DELTA_VERTICAL_def DELTA_CHANNEL_def SPARSE_def
  RLE_def QUANTISED_ZSTD_def PYRAMID_def

record codec_context =
  ctx_dict :: "bytes option"
  ctx_parent :: "bytes option"

definition context_none :: codec_context where
  "context_none = \<lparr>ctx_dict = None, ctx_parent = None\<rparr>"

definition context_with_dict :: "bytes \<Rightarrow> codec_context" where
  "context_with_dict dict = \<lparr>ctx_dict = Some dict, ctx_parent = None\<rparr>"

definition codec_name :: "u8 \<Rightarrow> string" where
  "codec_name c =
     (if c = RAW then ''raw''
      else if c = ZSTD then ''zstd''
      else if c = LZ4 then ''lz4''
      else if c = DELTA_VERTICAL then ''delta-vertical+zstd''
      else if c = DELTA_CHANNEL then ''delta-channel+zstd''
      else if c = SPARSE then ''sparse''
      else if c = RLE then ''rle+zstd''
      else if c = QUANTISED_ZSTD then ''quantised+zstd''
      else if c = PYRAMID then ''pyramid''
      else ''unknown'')"

definition codec_is_supported :: "u8 \<Rightarrow> bool" where
  "codec_is_supported c \<longleftrightarrow>
     c \<in> {RAW, ZSTD, LZ4, DELTA_VERTICAL, DELTA_CHANNEL, SPARSE, RLE, QUANTISED_ZSTD, PYRAMID}"

definition pyramid_dict :: "codec_context \<Rightarrow> bytes option" where
  "pyramid_dict ctx = (case ctx_parent ctx of Some p \<Rightarrow> Some p | None \<Rightarrow> ctx_dict ctx)"

definition pyramid_encode :: "ext_crates \<Rightarrow> bytes \<Rightarrow> codec_context \<Rightarrow> bytes result" where
  "pyramid_encode E payload ctx = zstd_compress E payload (pyramid_dict ctx)"

definition pyramid_decode :: "ext_crates \<Rightarrow> bytes \<Rightarrow> chunk_shape \<Rightarrow> codec_context \<Rightarrow> bytes result" where
  "pyramid_decode E stored s ctx = zstd_decompress E stored (total_bytes s) (pyramid_dict ctx)"

definition codec_encode ::
  "ext_crates \<Rightarrow> u8 \<Rightarrow> chunk_shape \<Rightarrow> bytes \<Rightarrow> codec_context \<Rightarrow> bytes result" where
  "codec_encode E codec s payload ctx =
     (if length payload \<noteq> total_bytes s
      then Inl (invalid (''payload length '' @ show_nat (length payload)
                 @ '' does not match chunk shape ('' @ show_nat (total_bytes s) @ '' bytes)''))
      else if codec = RAW then Inr payload
      else if codec = ZSTD \<or> codec = QUANTISED_ZSTD then zstd_compress E payload (ctx_dict ctx)
      else if codec = LZ4 then Inr (lz4_compress E payload)
      else if codec = DELTA_VERTICAL then vertical_encode E payload s (ctx_dict ctx)
      else if codec = DELTA_CHANNEL then channel_encode E payload s (ctx_dict ctx)
      else if codec = SPARSE then sparse_encode E payload s
      else if codec = RLE then rle_encode E payload
      else if codec = PYRAMID then pyramid_encode E payload ctx
      else Inl (UnsupportedCodec codec 0 0 0))"

definition codec_decode ::
  "ext_crates \<Rightarrow> u8 \<Rightarrow> chunk_shape \<Rightarrow> bytes \<Rightarrow> codec_context \<Rightarrow> bytes result" where
  "codec_decode E codec s stored ctx =
     rbind (if codec = RAW then Inr stored
            else if codec = ZSTD \<or> codec = QUANTISED_ZSTD
            then zstd_decompress E stored (total_bytes s) (ctx_dict ctx)
            else if codec = LZ4 then lz4_decompress E stored (total_bytes s)
            else if codec = DELTA_VERTICAL then vertical_decode E stored s (ctx_dict ctx)
            else if codec = DELTA_CHANNEL then channel_decode E stored s (ctx_dict ctx)
            else if codec = SPARSE then sparse_decode E stored s
            else if codec = RLE then rle_decode E stored (total_bytes s)
            else if codec = PYRAMID then pyramid_decode E stored s ctx
            else Inl (UnsupportedCodec codec 0 0 0)) (\<lambda>out.
     if length out \<noteq> total_bytes s
     then Inl (invalid (''codec '' @ codec_name codec @ '' produced '' @ show_nat (length out)
                @ '' byte(s), expected '' @ show_nat (total_bytes s)))
     else Inr out)"

lemma codec_supported_cases:
  assumes "codec_is_supported c"
  obtains "c = RAW" | "c = ZSTD" | "c = LZ4" | "c = DELTA_VERTICAL" | "c = DELTA_CHANNEL"
    | "c = SPARSE" | "c = RLE" | "c = QUANTISED_ZSTD" | "c = PYRAMID"
  using assms unfolding codec_is_supported_def by blast

lemma codec_encode_ok_supported:
  "codec_encode E c s payload ctx = Inr stored \<Longrightarrow>
     codec_is_supported c \<and> length payload = total_bytes s"
  by (auto simp: codec_encode_def codec_is_supported_def split: if_splits)

lemma codec_inverse:
  assumes E: "ext_ok E" and cap: "total_bytes s \<le> MAX_RAW_CHUNK_BYTES"
    and enc: "codec_encode E c s payload ctx = Inr stored"
  shows "codec_decode E c s stored ctx = Inr payload"
proof -
  have len: "length payload = total_bytes s" using codec_encode_ok_supported [OF enc] by simp
  have small: "total_bytes s < usize_max" and b32: "total_bytes s < 2 ^ 32"
    and b3: "3 * total_bytes s \<le> usize_max"
    using cap by (simp_all add: MAX_RAW_CHUNK_BYTES_def)
  from codec_encode_ok_supported [OF enc] have "codec_is_supported c" by simp
  then show ?thesis
  proof (cases rule: codec_supported_cases)
    case 1
    then show ?thesis using enc len by (simp add: codec_encode_def codec_decode_def)
  next
    case 2
    then show ?thesis using enc len zstd_roundtrip [OF E]
      by (simp add: codec_encode_def codec_decode_def codec_ids)
  next
    case 3
    then show ?thesis using enc len lz4_roundtrip [OF E len b32]
      by (auto simp: codec_encode_def codec_decode_def codec_ids)
  next
    case 4
    then show ?thesis using enc len vertical_roundtrip [OF E len small]
      by (simp add: codec_encode_def codec_decode_def codec_ids)
  next
    case 5
    then show ?thesis using enc len channel_roundtrip [OF E len small]
      by (simp add: codec_encode_def codec_decode_def codec_ids)
  next
    case 6
    then show ?thesis using enc len sparse_roundtrip [OF E cap]
      by (simp add: codec_encode_def codec_decode_def codec_ids)
  next
    case 7
    then show ?thesis using enc len rle_roundtrip [OF E _ len b3]
      by (simp add: codec_encode_def codec_decode_def codec_ids)
  next
    case 8
    then show ?thesis using enc len zstd_roundtrip [OF E]
      by (simp add: codec_encode_def codec_decode_def codec_ids)
  next
    case 9
    then show ?thesis using enc len zstd_roundtrip [OF E]
      by (simp add: codec_encode_def codec_decode_def codec_ids pyramid_encode_def pyramid_decode_def)
  qed
qed

lemma codec_decode_length: "codec_decode E c s stored ctx = Inr out \<Longrightarrow> length out = total_bytes s"
  by (auto simp: codec_decode_def rbind_Inr_iff split: if_splits)

lemma codec_unsupported:
  assumes "\<not> codec_is_supported c"
  shows "codec_decode E c s stored ctx = Inl (UnsupportedCodec c 0 0 0)"
    and "length payload = total_bytes s \<Longrightarrow>
      codec_encode E c s payload ctx = Inl (UnsupportedCodec c 0 0 0)"
  using assms by (simp_all add: codec_decode_def codec_encode_def codec_is_supported_def)

section \<open>Properties\<close>

text \<open>C3: every codec undoes itself. Whatever codec, shape and context, if a payload of at most
  256 MiB is encoded, decoding what was stored with the same codec, shape and context gives exactly
  that payload. The compression crates are assumed to undo themselves (\<open>ext_ok\<close>).\<close>

theorem codec_roundtrip:
  assumes "ext_ok E" and "total_bytes s \<le> MAX_RAW_CHUNK_BYTES"
    and "codec_encode E c s payload ctx = Inr stored"
  shows "codec_decode E c s stored ctx = Inr payload"
  using assms by (rule codec_inverse)

definition sample_shape :: chunk_shape where
  "sample_shape = \<lparr>cs_width = 2, cs_height = 2, cs_channels = 1, cs_dtype = U8\<rparr>"

lemma sample_shape_bytes: "total_bytes sample_shape = 4"
  by (simp add: sample_shape_def total_bytes_def total_bytes_checked_def row_bytes_checked_def
      usize_checked_mul_def cell_bytes_def)

lemma upt_2: "[0..<2] = [0, 1 :: nat]"
  by code_simp

theorem codec_roundtrip_witness:
  "codec_decode stored_crates RLE sample_shape [5,3,0,9,1,0] context_none = Inr [5,5,5,9]"
proof (rule codec_roundtrip [OF stored_crates_ok])
  show "total_bytes sample_shape \<le> MAX_RAW_CHUNK_BYTES"
    by (simp add: sample_shape_bytes MAX_RAW_CHUNK_BYTES_def)
  show "codec_encode stored_crates RLE sample_shape [5,5,5,9] context_none = Inr [5,3,0,9,1,0]"
    by (simp add: codec_encode_def sample_shape_bytes codec_ids rle_encode_def zstd_compress_def
        stored_crates_def le_bytes_def upt_2)
qed

text \<open>C22: decoding is safe on any input. Whatever the stored bytes, a decode that succeeds used a
  known codec and returns exactly the number of bytes the shape asks for.\<close>

theorem codec_decode_exact_size:
  assumes "codec_decode E c s stored ctx = Inr out"
  shows "codec_is_supported c \<and> length out = total_bytes s"
  using codec_decode_length [OF assms] codec_unsupported(1) [of c E s stored ctx] assms by auto

theorem codec_decode_exact_size_witness:
  "codec_is_supported RAW \<and> length [1,0,2,0 :: u8] = total_bytes sample_shape"
  by (rule codec_decode_exact_size [where E = stored_crates and ctx = context_none
        and stored = "[1,0,2,0]"]) (simp add: codec_decode_def sample_shape_bytes)

end
