(* ===== verification/Omf_Float.thy ===== *)
theory Omf_Float
  imports Omf_Prelude
begin

text \<open>
  The IEEE 754 operations of the language the container format needs, on bit patterns: the
  casts between \<open>f32\<close> and \<open>f64\<close> (rounding to nearest, ties to even) and the ordering of
  \<open>f64\<close>. Arithmetic is in \<open>Omf_Arith\<close>. The main lemma: widening an \<open>f32\<close> and narrowing it again
  gives it back, subnormals and infinities included.
\<close>

section \<open>Fields\<close>

definition f32_exp :: "f32 \<Rightarrow> nat" where "f32_exp w = unat w div 2 ^ 23 mod 2 ^ 8"
definition f32_frac :: "f32 \<Rightarrow> nat" where "f32_frac w = unat w mod 2 ^ 23"
definition f32_neg :: "f32 \<Rightarrow> nat" where "f32_neg w = unat w div 2 ^ 31"
definition f64_exp :: "f64 \<Rightarrow> nat" where "f64_exp w = unat w div 2 ^ 52 mod 2 ^ 11"
definition f64_frac :: "f64 \<Rightarrow> nat" where "f64_frac w = unat w mod 2 ^ 52"
definition f64_neg :: "f64 \<Rightarrow> nat" where "f64_neg w = unat w div 2 ^ 63"

definition f32_is_nan :: "f32 \<Rightarrow> bool" where
  "f32_is_nan w \<longleftrightarrow> f32_exp w = 255 \<and> f32_frac w \<noteq> 0"

definition f64_is_nan :: "f64 \<Rightarrow> bool" where
  "f64_is_nan w \<longleftrightarrow> f64_exp w = 2047 \<and> f64_frac w \<noteq> 0"

definition f32_make :: "nat \<Rightarrow> nat \<Rightarrow> nat \<Rightarrow> f32" where
  "f32_make s e f = word_of_nat (s * 2 ^ 31 + e * 2 ^ 23 + f)"

definition f64_make :: "nat \<Rightarrow> nat \<Rightarrow> nat \<Rightarrow> f64" where
  "f64_make s e f = word_of_nat (s * 2 ^ 63 + e * 2 ^ 52 + f)"

section \<open>Casts\<close>

text \<open>The position of the highest set bit of a positive number.\<close>

fun top_bit :: "nat \<Rightarrow> nat" where
  "top_bit n = (if n < 2 then 0 else Suc (top_bit (n div 2)))"

declare top_bit.simps [simp del]

text \<open>\<open>f32 as f64\<close>: exact; a NaN becomes quiet.\<close>

definition f32_to_f64 :: "f32 \<Rightarrow> f64" where
  "f32_to_f64 w =
     (let s = f32_neg w; e = f32_exp w; f = f32_frac w
      in if e = 255 then
           f64_make s 2047 (if f = 0 then 0 else if f < 2 ^ 22 then (f + 2 ^ 22) * 2 ^ 29 else f * 2 ^ 29)
         else if e = 0 then
           (if f = 0 then f64_make s 0 0
            else let p = top_bit f in f64_make s (874 + p) (f * 2 ^ (52 - p) - 2 ^ 52))
         else f64_make s (e + 896) (f * 2 ^ 29))"

definition round_even :: "nat \<Rightarrow> nat \<Rightarrow> nat" where
  "round_even m k =
     (let q = m div 2 ^ k; r = m mod 2 ^ k
      in if 2 * r > 2 ^ k \<or> 2 * r = 2 ^ k \<and> odd q then q + 1 else q)"

text \<open>\<open>f64 as f32\<close>: a value of \<open>m * 2 ^ -k\<close> units in the last place is rounded to an integer,
  whose carry out of the fraction is the next exponent.\<close>

definition f64_to_f32 :: "f64 \<Rightarrow> f32" where
  "f64_to_f32 w =
     (let s = f64_neg w; e = f64_exp w; f = f64_frac w
      in if e = 2047 then
           (if f = 0 then f32_make s 255 0
            else f32_make s 255 (let g = f div 2 ^ 29 in if g < 2 ^ 22 then g + 2 ^ 22 else g))
         else if 896 < e then
           (let n = (e - 897) * 2 ^ 23 + round_even (2 ^ 52 + f) 29
            in if n < 255 * 2 ^ 23 then f32_make s 0 n else f32_make s 255 0)
         else f32_make s 0 (round_even (if e = 0 then f else 2 ^ 52 + f) (29 + (897 - max e 1))))"

section \<open>Ordering\<close>

text \<open>A non-NaN value as an integer that orders it: the magnitude with the sign; both zeros are 0.\<close>

definition f64_order :: "f64 \<Rightarrow> int" where
  "f64_order w = (let m = int (unat w mod 2 ^ 63) in if f64_neg w = 0 then m else - m)"

definition f32_order :: "f32 \<Rightarrow> int" where
  "f32_order w = (let m = int (unat w mod 2 ^ 31) in if f32_neg w = 0 then m else - m)"

definition f32_le :: "f32 \<Rightarrow> f32 \<Rightarrow> bool" where
  "f32_le a b \<longleftrightarrow> \<not> f32_is_nan a \<and> \<not> f32_is_nan b \<and> f32_order a \<le> f32_order b"

definition f64_lt :: "f64 \<Rightarrow> f64 \<Rightarrow> bool" where
  "f64_lt a b \<longleftrightarrow> \<not> f64_is_nan a \<and> \<not> f64_is_nan b \<and> f64_order a < f64_order b"

definition f64_le :: "f64 \<Rightarrow> f64 \<Rightarrow> bool" where
  "f64_le a b \<longleftrightarrow> \<not> f64_is_nan a \<and> \<not> f64_is_nan b \<and> f64_order a \<le> f64_order b"

text \<open>\<open>f64::min\<close> and \<open>f64::max\<close>: the other operand when one is NaN. Where the operands compare
  equal (two zeros) the language leaves the choice open; the first is taken.\<close>

definition f64_min :: "f64 \<Rightarrow> f64 \<Rightarrow> f64" where
  "f64_min a b = (if f64_is_nan a then b else if f64_is_nan b then a else if f64_lt b a then b else a)"

definition f64_max :: "f64 \<Rightarrow> f64 \<Rightarrow> f64" where
  "f64_max a b = (if f64_is_nan a then b else if f64_is_nan b then a else if f64_lt a b then b else a)"

section \<open>Widening and narrowing\<close>

lemma f32_split:
  "unat w = f32_neg w * 2 ^ 31 + f32_exp w * 2 ^ 23 + f32_frac w"
  "f32_neg w < 2" "f32_exp w < 256" "f32_frac w < 2 ^ 23"
proof -
  have w: "unat w < 2 ^ 32" using unsigned_less [of w] by simp
  show "f32_neg w < 2" using w by (simp add: f32_neg_def less_mult_imp_div_less)
  show "f32_exp w < 256" by (simp add: f32_exp_def)
  show "f32_frac w < 2 ^ 23" by (simp add: f32_frac_def)
  define n where "n = unat w"
  have a: "n = n mod 2 ^ 23 + n div 2 ^ 23 * 2 ^ 23" by simp
  have b: "n div 2 ^ 23 = n div 2 ^ 23 mod 2 ^ 8 + n div 2 ^ 23 div 2 ^ 8 * 2 ^ 8" by simp
  have c: "n div 2 ^ 23 div 2 ^ 8 = n div 2 ^ 31" by (simp add: div_mult2_eq flip: power_add)
  have "n = n mod 2 ^ 23 + (n div 2 ^ 23 mod 2 ^ 8 + n div 2 ^ 31 * 2 ^ 8) * 2 ^ 23"
    using a b unfolding c by simp
  then show "unat w = f32_neg w * 2 ^ 31 + f32_exp w * 2 ^ 23 + f32_frac w"
    by (simp add: f32_neg_def f32_exp_def f32_frac_def n_def algebra_simps)
qed

lemma f32_make_split: "f32_make (f32_neg w) (f32_exp w) (f32_frac w) = w"
  unfolding f32_make_def f32_split(1) [symmetric] by simp

lemma f64_make_fields:
  assumes "s < 2" and "e < 2048" and "f < 2 ^ 52"
  shows "f64_neg (f64_make s e f) = s" "f64_exp (f64_make s e f) = e" "f64_frac (f64_make s e f) = f"
proof -
  have "s * 2 ^ 63 + e * 2 ^ 52 + f < 2 ^ 64" using assms by simp
  then have u: "unat (f64_make s e f) = f + (e + s * 2 ^ 11) * 2 ^ 52"
    unfolding f64_make_def by (subst unat_of_nat_u64) (simp_all add: algebra_simps)
  have q: "unat (f64_make s e f) div 2 ^ 52 = e + s * 2 ^ 11"
    unfolding u using assms(3) by (subst div_mult_self1) simp_all
  show "f64_frac (f64_make s e f) = f" unfolding f64_frac_def u using assms(3) by (simp only: mod_mult_self1 mod_less)
  show "f64_exp (f64_make s e f) = e" unfolding f64_exp_def q using assms(2) by simp
  have "unat (f64_make s e f) div 2 ^ 63 = unat (f64_make s e f) div 2 ^ 52 div 2 ^ 11"
    by (simp add: div_mult2_eq flip: power_add)
  then show "f64_neg (f64_make s e f) = s" unfolding f64_neg_def q using assms(2) by simp
qed

lemma top_bit_bounds: "0 < n \<Longrightarrow> 2 ^ top_bit n \<le> n \<and> n < 2 ^ Suc (top_bit n)"
proof (induction n rule: top_bit.induct)
  case (1 n)
  show ?case
  proof (cases "n < 2")
    case True
    then show ?thesis using 1 by (subst (1 2) top_bit.simps) simp
  next
    case False
    define q where "q = n div 2"
    have ih: "2 ^ top_bit q \<le> q \<and> q < 2 ^ Suc (top_bit q)" using 1 False by (simp add: q_def)
    have "2 * q \<le> n" "n < 2 * q + 2" by (simp_all add: q_def)
    moreover have "top_bit n = Suc (top_bit q)" using False by (subst top_bit.simps) (simp add: q_def)
    ultimately show ?thesis using ih by simp
  qed
qed

lemma round_even_exact: "round_even (q * 2 ^ k) k = q"
  by (simp add: round_even_def)

text \<open>The narrowing of a widened value, by the fields of the narrow one.\<close>

lemma f64_to_f32_make:
  assumes "s < 2" and "e < 2048" and "f < 2 ^ 52"
  shows "f64_to_f32 (f64_make s e f) =
     (if e = 2047 then
        (if f = 0 then f32_make s 255 0
         else f32_make s 255 (let g = f div 2 ^ 29 in if g < 2 ^ 22 then g + 2 ^ 22 else g))
      else if 896 < e then
        (let n = (e - 897) * 2 ^ 23 + round_even (2 ^ 52 + f) 29
         in if n < 255 * 2 ^ 23 then f32_make s 0 n else f32_make s 255 0)
      else f32_make s 0 (round_even (if e = 0 then f else 2 ^ 52 + f) (29 + (897 - max e 1))))"
  unfolding f64_to_f32_def f64_make_fields [OF assms] by (simp only: Let_def)

lemma widen_narrow_normal:
  assumes "s < 2" and "0 < e" and "e < 255" and "f < 2 ^ 23"
  shows "f64_to_f32 (f64_make s (e + 896) (f * 2 ^ 29)) = f32_make s e f"
proof -
  have f: "f * 2 ^ 29 < 2 ^ 52" using assms(4) by simp
  have r: "round_even (2 ^ 52 + f * 2 ^ 29) 29 = 2 ^ 23 + f"
    using round_even_exact [of "2 ^ 23 + f" 29] by (simp add: algebra_simps)
  have n: "(e + 896 - 897) * 2 ^ 23 + (2 ^ 23 + f) = e * 2 ^ 23 + f"
    using assms(2) by (cases e) simp_all
  have "e * 2 ^ 23 + f < 255 * 2 ^ 23" using assms(3,4) by simp
  moreover have "f32_make s 0 (e * 2 ^ 23 + f) = f32_make s e f"
    by (simp add: f32_make_def algebra_simps)
  moreover have "e + 896 < 2048" "e + 896 \<noteq> 2047" "896 < e + 896" using assms(2,3) by simp_all
  ultimately show ?thesis
    by (subst f64_to_f32_make [OF assms(1) _ f]) (simp_all only: r n Let_def if_False if_True)
qed

lemma widen_narrow_subnormal:
  assumes "s < 2" and "0 < f" and "f < 2 ^ 23"
  shows "f64_to_f32 (f64_make s (874 + top_bit f) (f * 2 ^ (52 - top_bit f) - 2 ^ 52)) = f32_make s 0 f"
proof -
  define p where "p = top_bit f"
  have p: "2 ^ p \<le> f" "f < 2 ^ Suc p" using top_bit_bounds [OF assms(2)] by (simp_all add: p_def)
  have "p < 23"
  proof (rule ccontr)
    assume "\<not> p < 23"
    then have "(2 :: nat) ^ 23 \<le> 2 ^ p" by (intro power_increasing) simp_all
    with p(1) assms(3) show False by linarith
  qed
  then have split: "(2 :: nat) ^ p * 2 ^ (52 - p) = 2 ^ 52" by (simp flip: power_add)
  have lo: "2 ^ 52 \<le> f * 2 ^ (52 - p)" using mult_le_mono1 [OF p(1), of "2 ^ (52 - p)"] split by simp
  have "f * 2 ^ (52 - p) < 2 ^ Suc p * 2 ^ (52 - p)" using p(2) by simp
  also have "\<dots> = 2 * 2 ^ 52" using split by (simp only: power_Suc mult.assoc)
  finally have hi: "f * 2 ^ (52 - p) - 2 ^ 52 < 2 ^ 52" using lo by linarith
  have sh: "29 + (897 - max (874 + p) 1) = 52 - p" using \<open>p < 23\<close> by simp
  have "round_even (2 ^ 52 + (f * 2 ^ (52 - p) - 2 ^ 52)) (52 - p) = f"
    using lo round_even_exact [of f "52 - p"] by simp
  moreover have "874 + p < 2048" "874 + p \<noteq> 2047" "\<not> 896 < 874 + p" "874 + p \<noteq> 0"
    using \<open>p < 23\<close> by simp_all
  ultimately show ?thesis
    unfolding p_def [symmetric]
    by (subst f64_to_f32_make [OF assms(1) _ hi]) (simp_all only: sh if_False)
qed

theorem f32_widen_narrow:
  assumes "\<not> f32_is_nan w"
  shows "f64_to_f32 (f32_to_f64 w) = w"
proof -
  obtain s e f where s: "f32_neg w = s" and e: "f32_exp w = e" and f: "f32_frac w = f" by blast
  note b = f32_split(2-4) [of w, unfolded s e f]
  have w: "f32_make s e f = w" using f32_make_split [of w] by (simp only: s e f)
  consider "e = 255" | "e = 0" "f = 0" | "e = 0" "0 < f" | "0 < e" "e < 255"
    using b(2) by linarith
  then show ?thesis
  proof cases
    case 1
    then have "f = 0" using assms e f by (simp add: f32_is_nan_def)
    with 1 have "f32_to_f64 w = f64_make s 2047 0" by (simp add: f32_to_f64_def s e f)
    with 1 \<open>f = 0\<close> show ?thesis using b w by (simp add: f64_to_f32_make)
  next
    case 2
    then have "f32_to_f64 w = f64_make s 0 0" by (simp add: f32_to_f64_def s e f)
    with 2 show ?thesis using b w by (simp add: f64_to_f32_make round_even_def)
  next
    case 3
    then have "f32_to_f64 w = f64_make s (874 + top_bit f) (f * 2 ^ (52 - top_bit f) - 2 ^ 52)"
      by (simp add: f32_to_f64_def s e f Let_def)
    with 3 show ?thesis using b w widen_narrow_subnormal [of s f] by simp
  next
    case 4
    then have "f32_to_f64 w = f64_make s (e + 896) (f * 2 ^ 29)"
      by (simp add: f32_to_f64_def s e f)
    with 4 show ?thesis using b w widen_narrow_normal [of s e f] by simp
  qed
qed

end
