(* ===== verification/Omf_Arith.thy ===== *)
theory Omf_Arith
  imports Complex_Main Omf_Float
begin

text \<open>
  IEEE 754 arithmetic of \<open>f32\<close> and \<open>f64\<close>. A finite float is a rational; an operation computes the exact
  rational result and rounds it to the nearest value of the format, ties to even, with overflow to
  infinity. Every NaN result is the canonical quiet NaN (the language leaves its bits open). The lemmas:
  rounding is monotone and gives back every representable value, the bit order is the value order, and
  subtraction, division, \<open>floor\<close>, \<open>ceil\<close> and the saturating casts to integers are monotone.
\<close>

section \<open>Rounding a non-negative rational to a format\<close>

text \<open>Rounding to an integer, ties to even.\<close>

definition near_even :: "rat \<Rightarrow> nat" where
  "near_even x =
     (let q = nat \<lfloor>x\<rfloor>; r = x - of_nat q
      in if r > 1 / 2 \<or> r = 1 / 2 \<and> odd q then q + 1 else q)"

text \<open>The exponent of the leading bit: \<open>2 ^ e \<le> v < 2 ^ (e + 1)\<close>.\<close>

definition lead_exp :: "rat \<Rightarrow> int" where
  "lead_exp v =
     (if 1 \<le> v then int (top_bit (nat \<lfloor>v\<rfloor>))
      else - int (top_bit (nat \<lceil>1 / v\<rceil> - 1) + 1))"

text \<open>The magnitude bits of a format with \<open>fb\<close> fraction bits and least exponent \<open>emin\<close>. The carry out
  of the fraction is the next exponent, and the least exponent covers the subnormals.\<close>

definition fl_bits :: "nat \<Rightarrow> int \<Rightarrow> rat \<Rightarrow> nat" where
  "fl_bits fb emin v =
     (if v \<le> 0 then 0
      else let k = max emin (lead_exp v - int fb)
           in nat (k - emin) * 2 ^ fb + near_even (v / 2 powi k))"

text \<open>The value of magnitude bits.\<close>

definition fl_val :: "nat \<Rightarrow> int \<Rightarrow> nat \<Rightarrow> rat" where
  "fl_val fb emin n =
     (if n < 2 ^ fb then of_nat n * 2 powi emin
      else of_nat (2 ^ fb + n mod 2 ^ fb) * 2 powi (emin + int (n div 2 ^ fb) - 1))"

lemma near_even_bounds:
  assumes "0 \<le> x"
  shows "of_nat (near_even x) \<le> x + 1 / 2" and "x - 1 / 2 \<le> of_nat (near_even x)"
proof -
  have "of_nat (nat \<lfloor>x\<rfloor>) = (of_int \<lfloor>x\<rfloor> :: rat)" using assms by simp
  then have "of_nat (nat \<lfloor>x\<rfloor>) \<le> x" "x < of_nat (nat \<lfloor>x\<rfloor>) + 1" by linarith+
  then show "of_nat (near_even x) \<le> x + 1 / 2" "x - 1 / 2 \<le> of_nat (near_even x)"
    by (auto simp: near_even_def Let_def)
qed

lemma near_even_nat [simp]: "near_even (of_nat n) = n"
  by (simp add: near_even_def)

lemma near_even_mono:
  assumes "0 \<le> x" and "x \<le> y"
  shows "near_even x \<le> near_even y"
proof (cases "nat \<lfloor>x\<rfloor> = nat \<lfloor>y\<rfloor>")
  case True
  then show ?thesis using assms by (auto simp: near_even_def Let_def)
next
  case False
  moreover have "nat \<lfloor>x\<rfloor> \<le> nat \<lfloor>y\<rfloor>" using assms by (simp add: floor_mono nat_mono)
  ultimately have "nat \<lfloor>x\<rfloor> + 1 \<le> nat \<lfloor>y\<rfloor>" by simp
  then show ?thesis unfolding near_even_def Let_def by auto
qed

lemma near_even_ge: "0 \<le> x \<Longrightarrow> of_nat n \<le> x \<Longrightarrow> n \<le> near_even x"
  using near_even_mono [of "of_nat n" x] by simp

lemma near_even_le: "0 \<le> x \<Longrightarrow> x \<le> of_nat n \<Longrightarrow> near_even x \<le> n"
  using near_even_mono [of x "of_nat n"] by simp

lemma top_bit_unique:
  assumes "2 ^ k \<le> n" and "n < 2 ^ Suc k"
  shows "top_bit n = k"
proof -
  have "0 < n" using assms(1) by (metis not_gr_zero not_le zero_less_numeral zero_less_power)
  then have "2 ^ top_bit n \<le> n" "n < 2 ^ Suc (top_bit n)" using top_bit_bounds by blast+
  then have "(2 :: nat) ^ k < 2 ^ Suc (top_bit n)" "(2 :: nat) ^ top_bit n < 2 ^ Suc k"
    using assms by linarith+
  then have "k < Suc (top_bit n)" "top_bit n < Suc k" by (simp_all only: power_strict_increasing_iff power_less_imp_less_exp nat_power_less_imp_less)
  then show ?thesis by simp
qed

lemma lead_exp_bounds:
  assumes "0 < v"
  shows "2 powi lead_exp v \<le> v" and "v < 2 powi (lead_exp v + 1)"
proof -
  have "2 powi lead_exp v \<le> v \<and> v < 2 powi (lead_exp v + 1)"
  proof (cases "1 \<le> v")
    case True
    define n where "n = nat \<lfloor>v\<rfloor>"
    have fl: "of_nat n = (of_int \<lfloor>v\<rfloor> :: rat)" using True by (simp add: n_def)
    have n: "of_nat n \<le> v" "v < of_nat n + 1" unfolding fl by linarith+
    have "0 < n" using True by (simp add: n_def)
    have b: "2 ^ top_bit n \<le> n" "n + 1 \<le> 2 ^ Suc (top_bit n)" using top_bit_bounds [OF \<open>0 < n\<close>] by simp_all
    have "(2 :: rat) ^ top_bit n \<le> of_nat n" using b(1) by (metis of_nat_le_iff of_nat_numeral of_nat_power)
    then have "(2 :: rat) ^ top_bit n \<le> v" using n(1) by (rule order_trans)
    moreover have "of_nat n + 1 \<le> (2 :: rat) ^ Suc (top_bit n)"
      using b(2) by (metis of_nat_1 of_nat_add of_nat_le_iff of_nat_numeral of_nat_power)
    then have "v < (2 :: rat) ^ Suc (top_bit n)" using n(2) by linarith
    ultimately have "2 ^ top_bit n \<le> v \<and> v < 2 ^ Suc (top_bit n)" by blast
    moreover have "lead_exp v = int (top_bit n)" using True by (simp add: lead_exp_def n_def)
    moreover have "(2 :: rat) powi (int (top_bit n) + 1) = 2 ^ Suc (top_bit n)"
      by (simp add: power_int_add)
    ultimately show ?thesis by simp
  next
    case False
    define m where "m = nat \<lceil>1 / v\<rceil>"
    have "1 < 1 / v" using False assms by (simp add: field_simps)
    then have ce: "of_nat m = (of_int \<lceil>1 / v\<rceil> :: rat)" by (simp add: m_def)
    have m: "1 / v \<le> of_nat m" "of_nat m < 1 / v + 1" unfolding ce by linarith+
    have "1 < m" using m(1) \<open>1 < 1 / v\<close> by (metis less_le_trans of_nat_1 of_nat_less_iff)
    define t where "t = top_bit (m - 1)"
    have b: "2 ^ t \<le> m - 1" "m \<le> 2 ^ Suc t" using top_bit_bounds [of "m - 1"] \<open>1 < m\<close> unfolding t_def by linarith+
    have "(2 :: rat) ^ t \<le> of_nat (m - 1)" using b(1) by (metis of_nat_le_iff of_nat_numeral of_nat_power)
    then have lo: "(2 :: rat) ^ t < 1 / v" using m(2) \<open>1 < m\<close> by (simp add: of_nat_diff)
    have "of_nat m \<le> (2 :: rat) ^ Suc t" using b(2) by (metis of_nat_le_iff of_nat_numeral of_nat_power)
    then have hi: "1 / v \<le> (2 :: rat) ^ Suc t" using m(1) by linarith
    have e: "lead_exp v = - int (Suc t)" using False by (simp add: lead_exp_def m_def t_def)
    have p1: "(2 :: rat) powi (- int (Suc t)) = 1 / 2 ^ Suc t"
      by (simp only: power_int_minus power_int_of_nat inverse_eq_divide)
    have "- int (Suc t) + 1 = - int t" by simp
    then have p2: "(2 :: rat) powi (- int (Suc t) + 1) = 1 / 2 ^ t"
      by (simp only: power_int_minus power_int_of_nat inverse_eq_divide)
    have q: "(0 :: rat) < 2 ^ t" "(0 :: rat) < 2 ^ Suc t" by simp_all
    show ?thesis unfolding e p1 p2 using lo hi assms q
      by (simp add: divide_le_eq less_divide_eq mult.commute)
  qed
  then show "2 powi lead_exp v \<le> v" "v < 2 powi (lead_exp v + 1)" by auto
qed

lemma two_powi_mono: "a \<le> b \<Longrightarrow> (2 :: rat) powi a \<le> 2 powi b"
  by (rule power_int_increasing) simp_all

lemma lead_exp_ge: "0 < v \<Longrightarrow> 2 powi e \<le> v \<Longrightarrow> e \<le> lead_exp v"
  using lead_exp_bounds(2) [of v] two_powi_mono [of "lead_exp v + 1" e] by force

lemma lead_exp_le: "0 < v \<Longrightarrow> v < 2 powi (e + 1) \<Longrightarrow> lead_exp v \<le> e"
  using lead_exp_bounds(1) [of v] two_powi_mono [of "e + 1" "lead_exp v"] by force

lemma lead_exp_mono: "0 < v \<Longrightarrow> v \<le> w \<Longrightarrow> lead_exp v \<le> lead_exp w"
  using lead_exp_bounds [of v] by (intro lead_exp_ge) auto

section \<open>Rounding is monotone and exact\<close>

lemma fl_bits_zero [simp]: "fl_bits fb emin 0 = 0"
  by (simp add: fl_bits_def)

lemma fl_bits_pos:
  assumes "0 < v" and "k = max emin (lead_exp v - int fb)"
  shows "fl_bits fb emin v = nat (k - emin) * 2 ^ fb + near_even (v / 2 powi k)"
  using assms by (simp add: fl_bits_def Let_def)

lemma two_powi_nat: "(2 :: rat) powi (k + int n) = 2 powi k * 2 ^ n"
  by (simp add: power_int_add)

text \<open>The significand of a rounded value: at most \<open>2 ^ (fb + 1)\<close>, and at least \<open>2 ^ fb\<close> unless the value
  is subnormal.\<close>

lemma significand_bounds:
  assumes "0 < v" and k: "k = max emin (lead_exp v - int fb)"
  shows "near_even (v / 2 powi k) \<le> 2 ^ (fb + 1)"
    and "emin < k \<Longrightarrow> 2 ^ fb \<le> near_even (v / 2 powi k)"
proof -
  have p: "(0 :: rat) < 2 powi k" by simp
  have nn: "0 \<le> v / 2 powi k" using assms(1) p by simp
  have "lead_exp v + 1 \<le> k + int (fb + 1)" using k by simp
  then have "v < 2 powi (k + int (fb + 1))"
    using lead_exp_bounds(2) [OF assms(1)] two_powi_mono less_le_trans by blast
  then have "v / 2 powi k \<le> of_nat (2 ^ (fb + 1))"
    unfolding two_powi_nat using p by (simp add: divide_le_eq mult.commute)
  then show "near_even (v / 2 powi k) \<le> 2 ^ (fb + 1)" by (rule near_even_le [OF nn])
  assume "emin < k"
  then have "k + int fb = lead_exp v" using k by simp
  then have "2 powi k * 2 ^ fb \<le> v" using lead_exp_bounds(1) [OF assms(1)] by (simp flip: two_powi_nat)
  then have "of_nat (2 ^ fb) \<le> v / 2 powi k" using p by (simp add: le_divide_eq mult.commute)
  then show "2 ^ fb \<le> near_even (v / 2 powi k)" by (rule near_even_ge [OF nn])
qed

lemma fl_bits_mono:
  assumes "v \<le> w"
  shows "fl_bits fb emin v \<le> fl_bits fb emin w"
proof (cases "0 < v")
  case False
  then show ?thesis by (simp add: fl_bits_def)
next
  case True
  with assms have w: "0 < w" by simp
  define k where "k = max emin (lead_exp v - int fb)"
  define l where "l = max emin (lead_exp w - int fb)"
  have kl: "k \<le> l" "emin \<le> k" using lead_exp_mono [OF True assms] by (simp_all add: k_def l_def)
  show ?thesis
  proof (cases "k = l")
    case eq: True
    have "v / 2 powi k \<le> w / 2 powi k" using assms by (simp add: divide_right_mono)
    then have "near_even (v / 2 powi k) \<le> near_even (w / 2 powi k)"
      using True by (intro near_even_mono) simp_all
    then show ?thesis
      unfolding fl_bits_pos [OF True k_def] fl_bits_pos [OF w l_def] eq [symmetric] by simp
  next
    case False
    with kl have "k < l" "emin < l" by simp_all
    have "nat (k - emin) + 1 \<le> nat (l - emin)" using \<open>k < l\<close> kl by simp
    then have "(nat (k - emin) + 1) * 2 ^ fb \<le> nat (l - emin) * 2 ^ fb" by (rule mult_le_mono1)
    then have "nat (k - emin) * 2 ^ fb + 2 ^ (fb + 1) \<le> nat (l - emin) * 2 ^ fb + 2 ^ fb"
      by (simp add: algebra_simps)
    with significand_bounds(1) [OF True k_def] significand_bounds(2) [OF w l_def \<open>emin < l\<close>]
    show ?thesis unfolding fl_bits_pos [OF True k_def] fl_bits_pos [OF w l_def] by linarith
  qed
qed

lemma fl_val_nonneg [simp]: "0 \<le> fl_val fb emin n"
  by (simp add: fl_val_def)

lemma fl_bits_exact: "fl_bits fb emin (fl_val fb emin n) = n"
proof (cases "n = 0")
  case True
  then show ?thesis by (simp add: fl_val_def)
next
  case n0: False
  show ?thesis
  proof (cases "n < 2 ^ fb")
    case True
    then have v: "fl_val fb emin n = of_nat n * 2 powi emin" by (simp add: fl_val_def)
    have pos: "0 < fl_val fb emin n" using n0 by (simp add: v)
    have "of_nat n < (2 :: rat) ^ fb" using True by (metis of_nat_less_iff of_nat_numeral of_nat_power)
    then have "fl_val fb emin n < 2 powi emin * 2 ^ fb" by (simp add: v)
    then have "fl_val fb emin n < 2 powi ((emin + int fb - 1) + 1)" by (simp flip: two_powi_nat)
    from lead_exp_le [OF pos this] have k: "max emin (lead_exp (fl_val fb emin n) - int fb) = emin" by simp
    show ?thesis unfolding fl_bits_pos [OF pos k [symmetric]] by (simp add: v)
  next
    case False
    define q f where "q = n div 2 ^ fb" and "f = n mod 2 ^ fb"
    have q: "1 \<le> q" using False by (simp add: q_def div_greater_zero_iff Suc_le_eq)
    have f: "f < 2 ^ fb" by (simp add: f_def)
    have n: "n = q * 2 ^ fb + f" unfolding q_def f_def by (rule div_mult_mod_eq [symmetric])
    define k where "k = emin + int q - 1"
    have v: "fl_val fb emin n = of_nat (2 ^ fb + f) * 2 powi k"
      using False by (simp add: fl_val_def q_def f_def k_def)
    have pos: "0 < fl_val fb emin n" by (simp add: v add_pos_nonneg)
    have "2 powi (k + int fb) \<le> fl_val fb emin n" unfolding two_powi_nat v by simp
    moreover have "fl_val fb emin n < 2 powi ((k + int fb) + 1)"
    proof -
      have "of_nat (2 ^ fb + f) < (of_nat (2 ^ Suc fb) :: rat)" using f unfolding of_nat_less_iff by simp
      then have "fl_val fb emin n < of_nat (2 ^ Suc fb) * 2 powi k" unfolding v by simp
      also have "\<dots> = 2 powi (k + int (Suc fb))" unfolding two_powi_nat by simp
      finally show ?thesis by (simp add: algebra_simps)
    qed
    ultimately have "lead_exp (fl_val fb emin n) = k + int fb"
      using lead_exp_ge [OF pos] lead_exp_le [OF pos] by (intro antisym) auto
    then have k: "max emin (lead_exp (fl_val fb emin n) - int fb) = k" using q by (simp add: k_def)
    have "nat (k - emin) = q - 1" by (simp add: k_def)
    moreover have "near_even (fl_val fb emin n / 2 powi k) = 2 ^ fb + f"
    proof -
      have "fl_val fb emin n / 2 powi k = of_nat (2 ^ fb + f)" unfolding v by simp
      then show ?thesis by (simp only: near_even_nat)
    qed
    ultimately have "fl_bits fb emin (fl_val fb emin n) = (q - 1) * 2 ^ fb + (2 ^ fb + f)"
      using fl_bits_pos [OF pos k [symmetric]] by simp
    also have "\<dots> = n" unfolding n using q by (cases q) simp_all
    finally show ?thesis .
  qed
qed

lemma fl_val_le_iff: "fl_val fb emin m \<le> fl_val fb emin n \<longleftrightarrow> m \<le> n"
  using fl_bits_mono [of "fl_val fb emin m" "fl_val fb emin n" fb emin]
    fl_bits_mono [of "fl_val fb emin n" "fl_val fb emin m" fb emin] fl_bits_exact [of fb emin] 
  by (metis linorder_le_cases order_antisym)

lemma fl_val_zero_iff: "fl_val fb emin n = 0 \<longleftrightarrow> n = 0"
  using fl_val_le_iff [of fb emin n 0] by (auto simp: fl_val_def)


section \<open>Formats and operations\<close>

datatype fl_format = Single | Double

fun frac_bits :: "fl_format \<Rightarrow> nat" where
  "frac_bits Single = 23"
| "frac_bits Double = 52"

fun least_exp :: "fl_format \<Rightarrow> int" where
  "least_exp Single = - 149"
| "least_exp Double = - 1074"

text \<open>The magnitude bits of infinity; those above it are NaNs.\<close>

fun inf_mag :: "fl_format \<Rightarrow> nat" where
  "inf_mag Single = 255 * 2 ^ 23"
| "inf_mag Double = 2047 * 2 ^ 52"

text \<open>A float as its sign and its magnitude bits.\<close>

type_synonym fl = "bool \<times> nat"

definition fl_nan :: "fl_format \<Rightarrow> fl" where
  "fl_nan F = (False, inf_mag F + 2 ^ (frac_bits F - 1))"

definition fl_inf :: "fl_format \<Rightarrow> bool \<Rightarrow> fl" where
  "fl_inf F s = (s, inf_mag F)"

definition fl_is_nan :: "fl_format \<Rightarrow> fl \<Rightarrow> bool" where
  "fl_is_nan F x \<longleftrightarrow> inf_mag F < snd x"

definition fl_is_inf :: "fl_format \<Rightarrow> fl \<Rightarrow> bool" where
  "fl_is_inf F x \<longleftrightarrow> snd x = inf_mag F"

definition fl_is_finite :: "fl_format \<Rightarrow> fl \<Rightarrow> bool" where
  "fl_is_finite F x \<longleftrightarrow> snd x < inf_mag F"

definition fl_is_zero :: "fl \<Rightarrow> bool" where
  "fl_is_zero x \<longleftrightarrow> snd x = 0"

definition fl_rat :: "fl_format \<Rightarrow> fl \<Rightarrow> rat" where
  "fl_rat F x = (let v = fl_val (frac_bits F) (least_exp F) (snd x) in if fst x then - v else v)"

text \<open>Round to nearest; \<open>s\<close> is the sign of an exact zero.\<close>

definition fl_round :: "fl_format \<Rightarrow> bool \<Rightarrow> rat \<Rightarrow> fl" where
  "fl_round F s v =
     (if v = 0 then (s, 0)
      else (v < 0, min (inf_mag F) (fl_bits (frac_bits F) (least_exp F) \<bar>v\<bar>)))"

definition fl_negate :: "fl \<Rightarrow> fl" where
  "fl_negate x = (\<not> fst x, snd x)"

definition fl_add :: "fl_format \<Rightarrow> fl \<Rightarrow> fl \<Rightarrow> fl" where
  "fl_add F x y =
     (if fl_is_nan F x \<or> fl_is_nan F y then fl_nan F
      else if fl_is_inf F x then (if fl_is_inf F y \<and> fst x \<noteq> fst y then fl_nan F else x)
      else if fl_is_inf F y then y
      else fl_round F (fst x \<and> fst y) (fl_rat F x + fl_rat F y))"

definition fl_sub :: "fl_format \<Rightarrow> fl \<Rightarrow> fl \<Rightarrow> fl" where
  "fl_sub F x y = fl_add F x (fl_negate y)"

definition fl_mul :: "fl_format \<Rightarrow> fl \<Rightarrow> fl \<Rightarrow> fl" where
  "fl_mul F x y =
     (let s = (fst x \<noteq> fst y)
      in if fl_is_nan F x \<or> fl_is_nan F y then fl_nan F
         else if fl_is_inf F x \<or> fl_is_inf F y
         then (if fl_is_zero x \<or> fl_is_zero y then fl_nan F else fl_inf F s)
         else fl_round F s (fl_rat F x * fl_rat F y))"

definition fl_div :: "fl_format \<Rightarrow> fl \<Rightarrow> fl \<Rightarrow> fl" where
  "fl_div F x y =
     (let s = (fst x \<noteq> fst y)
      in if fl_is_nan F x \<or> fl_is_nan F y then fl_nan F
         else if fl_is_inf F x then (if fl_is_inf F y then fl_nan F else fl_inf F s)
         else if fl_is_inf F y then (s, 0)
         else if fl_is_zero y then (if fl_is_zero x then fl_nan F else fl_inf F s)
         else fl_round F s (fl_rat F x / fl_rat F y))"

text \<open>\<open>floor\<close>, \<open>ceil\<close> and \<open>round\<close> (half away from zero) keep the sign of a zero result.\<close>

definition fl_integral :: "(rat \<Rightarrow> int) \<Rightarrow> fl_format \<Rightarrow> fl \<Rightarrow> fl" where
  "fl_integral f F x =
     (if fl_is_finite F x then fl_round F (fst x) (of_int (f (fl_rat F x))) else x)"

definition half_away :: "rat \<Rightarrow> int" where
  "half_away v = (if 0 \<le> v then \<lfloor>v + 1 / 2\<rfloor> else - \<lfloor>1 / 2 - v\<rfloor>)"

text \<open>\<open>as\<close> to an integer type: towards zero, saturating, 0 for NaN.\<close>

definition fl_to_int :: "fl_format \<Rightarrow> int \<Rightarrow> int \<Rightarrow> fl \<Rightarrow> int" where
  "fl_to_int F lo hi x =
     (if fl_is_nan F x then 0
      else if fl_is_inf F x then (if fst x then lo else hi)
      else max lo (min hi (let v = fl_rat F x in if 0 \<le> v then \<lfloor>v\<rfloor> else \<lceil>v\<rceil>)))"

text \<open>The order of non-NaN values.\<close>

definition fl_key :: "fl \<Rightarrow> int" where
  "fl_key x = (if fst x then - int (snd x) else int (snd x))"

lemma inf_mag_pos [simp]: "0 < inf_mag F"
  by (cases F) simp_all

lemma fl_key_round_mono:
  assumes "v \<le> w"
  shows "fl_key (fl_round F s v) \<le> fl_key (fl_round F s' w)"
proof -
  define b where "b u = int (min (inf_mag F) (fl_bits (frac_bits F) (least_exp F) \<bar>u\<bar>))" for u
  have key: "fl_key (fl_round F s u) = (if u < 0 then - b u else if u = 0 then 0 else b u)" for s u
    by (simp add: fl_key_def fl_round_def b_def)
  have mono: "b u \<le> b u'" if "\<bar>u\<bar> \<le> \<bar>u'\<bar>" for u u'
    unfolding b_def of_nat_le_iff by (rule min.mono [OF order_refl fl_bits_mono [OF that]])
  have nn: "0 \<le> b u" for u by (simp add: b_def)
  have z: "b 0 = 0" by (simp add: b_def)
  consider "0 \<le> v" | "w \<le> 0" | "v < 0" "0 < w" by linarith
  then show ?thesis
  proof cases
    case 1
    then show ?thesis using assms mono [of v w] nn [of w] by (simp add: key)
  next
    case 2
    then show ?thesis using assms mono [of w v] nn [of v] by (auto simp: key z)
  next
    case 3
    then show ?thesis using nn [of v] nn [of w] by (simp add: key)
  qed
qed

lemma fl_key_le_iff: "fl_key x \<le> fl_key y \<longleftrightarrow> fl_rat F x \<le> fl_rat F y"
proof -
  note mono = fl_val_le_iff [of "frac_bits F" "least_exp F"]
  have nn: "0 \<le> fl_val (frac_bits F) (least_exp F) n" for n by simp
  have "- fl_val (frac_bits F) (least_exp F) m \<le> fl_val (frac_bits F) (least_exp F) n" for m n
    using nn [of m] nn [of n] by linarith
  moreover have "fl_val (frac_bits F) (least_exp F) m \<le> - fl_val (frac_bits F) (least_exp F) n
      \<longleftrightarrow> m = 0 \<and> n = 0" for m n
    using nn [of m] nn [of n] fl_val_zero_iff [of "frac_bits F" "least_exp F"] by (metis add_increasing2 add_le_same_cancel1 antisym neg_le_0_iff_le neg_0_le_iff_le order_trans)
  ultimately show ?thesis by (auto simp: fl_key_def fl_rat_def Let_def mono)
qed

lemma fl_round_exact:
  assumes "snd x \<le> inf_mag F"
  shows "fl_round F (fst x) (fl_rat F x) = x"
proof -
  define v where "v = fl_val (frac_bits F) (least_exp F) (snd x)"
  have b: "fl_bits (frac_bits F) (least_exp F) v = snd x" by (simp add: v_def fl_bits_exact)
  have z: "v = 0 \<longleftrightarrow> snd x = 0" by (simp add: v_def fl_val_zero_iff)
  have nn: "0 \<le> v" by (simp add: v_def)
  have r: "fl_rat F x = (if fst x then - v else v)" by (simp add: fl_rat_def v_def)
  show ?thesis
  proof (cases "v = 0")
    case True
    then show ?thesis using z by (simp add: r fl_round_def prod_eq_iff)
  next
    case False
    then have "0 < v" using nn by simp
    then show ?thesis using assms by (simp add: r fl_round_def b prod_eq_iff)
  qed
qed


lemma fl_round_bound: "snd (fl_round F s v) \<le> inf_mag F"
  by (simp add: fl_round_def)

lemma fl_round_not_nan [simp]: "\<not> fl_is_nan F (fl_round F s v)"
  using fl_round_bound [of F s v] by (simp add: fl_is_nan_def)

lemma fl_div_finite:
  assumes "fl_is_finite F x" and "fl_is_finite F b" and "\<not> fl_is_zero b"
  shows "fl_div F x b = fl_round F (fst x \<noteq> fst b) (fl_rat F x / fl_rat F b)"
  using assms
  by (simp add: fl_div_def fl_is_finite_def fl_is_nan_def fl_is_inf_def)

lemma fl_sub_finite:
  assumes "fl_is_finite F x" and "fl_is_finite F y"
  shows "\<exists>s. fl_sub F x y = fl_round F s (fl_rat F x - fl_rat F y)"
  using assms
  by (auto simp: fl_sub_def fl_add_def fl_negate_def fl_is_finite_def fl_is_nan_def fl_is_inf_def fl_rat_def Let_def)

lemma fl_div_mono:
  assumes "fl_is_finite F x" and "fl_is_finite F y" and "fl_is_finite F b" and "0 < fl_rat F b"
    and "fl_key x \<le> fl_key y"
  shows "fl_key (fl_div F x b) \<le> fl_key (fl_div F y b)"
proof -
  have b: "\<not> fl_is_zero b"
  proof
    assume "fl_is_zero b"
    then have "fl_rat F b = 0" by (simp add: fl_is_zero_def fl_rat_def fl_val_def)
    with assms(4) show False by simp
  qed
  have "fl_rat F x \<le> fl_rat F y" using assms(5) by (simp only: fl_key_le_iff [of x y F])
  then have "fl_rat F x / fl_rat F b \<le> fl_rat F y / fl_rat F b" using assms(4) by (simp add: divide_right_mono)
  then show ?thesis
    unfolding fl_div_finite [OF assms(1,3) b] fl_div_finite [OF assms(2,3) b] by (rule fl_key_round_mono)
qed

lemma fl_sub_mono:
  assumes "fl_is_finite F x" and "fl_is_finite F y" and "fl_is_finite F c" and "fl_key x \<le> fl_key y"
  shows "fl_key (fl_sub F x c) \<le> fl_key (fl_sub F y c)"
proof -
  obtain s s' where r: "fl_sub F x c = fl_round F s (fl_rat F x - fl_rat F c)"
      "fl_sub F y c = fl_round F s' (fl_rat F y - fl_rat F c)"
    using fl_sub_finite assms by metis
  have "fl_rat F x - fl_rat F c \<le> fl_rat F y - fl_rat F c"
    using assms(4) by (simp add: fl_key_le_iff [of x y F])
  then show ?thesis unfolding r by (rule fl_key_round_mono)
qed

lemma fl_cases:
  assumes "\<not> fl_is_nan F x"
  obtains (finite) "fl_is_finite F x" | (inf) "fl_is_inf F x"
  using assms by (fastforce simp: fl_is_nan_def fl_is_finite_def fl_is_inf_def)

lemma fl_key_inf: "fl_is_inf F x \<Longrightarrow> fl_key x = (if fst x then - int (inf_mag F) else int (inf_mag F))"
  by (simp add: fl_is_inf_def fl_key_def)

lemma fl_key_bound: "\<not> fl_is_nan F x \<Longrightarrow> \<bar>fl_key x\<bar> \<le> int (inf_mag F)"
  by (simp add: fl_is_nan_def fl_key_def)

lemma fl_key_finite: "fl_is_finite F x \<Longrightarrow> \<bar>fl_key x\<bar> < int (inf_mag F)"
  by (simp add: fl_is_finite_def fl_key_def)

lemma fl_integral_not_nan: "\<not> fl_is_nan F x \<Longrightarrow> \<not> fl_is_nan F (fl_integral f F x)"
  by (simp add: fl_integral_def)

lemma fl_integral_mono:
  assumes "mono f" and "\<not> fl_is_nan F x" and "\<not> fl_is_nan F y" and "fl_key x \<le> fl_key y"
  shows "fl_key (fl_integral f F x) \<le> fl_key (fl_integral f F y)"
proof -
  have bound: "\<bar>fl_key (fl_integral f F z)\<bar> \<le> int (inf_mag F)" if "\<not> fl_is_nan F z" for z
    using that fl_integral_not_nan fl_key_bound by blast
  have inf: "fl_is_inf F z \<Longrightarrow> fl_integral f F z = z" for z
    by (simp add: fl_integral_def fl_is_finite_def fl_is_inf_def)
  from assms(2) show ?thesis
  proof (cases rule: fl_cases)
    case xf: finite
    from assms(3) show ?thesis
    proof (cases rule: fl_cases)
      case finite
      have "f (fl_rat F x) \<le> f (fl_rat F y)"
        using assms(1,4) by (simp add: mono_def fl_key_le_iff [of x y F])
      then have "(of_int (f (fl_rat F x)) :: rat) \<le> of_int (f (fl_rat F y))" by simp
      with xf finite show ?thesis by (simp only: fl_integral_def if_True fl_key_round_mono)
    next
      case inf
      then have "\<not> fst y" using assms(4) fl_key_finite [OF xf] by (auto simp: fl_key_inf split: if_splits)
      then show ?thesis using inf bound [OF assms(2)] fl_key_inf [of F y]
        by (simp add: \<open>fl_is_inf F y \<Longrightarrow> fl_integral f F y = y\<close>)
    qed
  next
    case inf
    show ?thesis
    proof (cases "fst x")
      case True
      then show ?thesis using inf bound [OF assms(3)] fl_key_inf [of F x]
        by (simp add: \<open>fl_is_inf F x \<Longrightarrow> fl_integral f F x = x\<close>)
    next
      case False
      then have "fl_key y = int (inf_mag F)"
        using assms(4) inf fl_key_bound [OF assms(3)] by (simp add: fl_key_inf)
      moreover from assms(3) have "fl_is_inf F y"
        using \<open>fl_key y = int (inf_mag F)\<close> fl_key_finite [of F y] by (cases rule: fl_cases) auto
      ultimately show ?thesis using False inf
        by (simp add: fl_integral_def fl_is_finite_def fl_is_inf_def fl_key_inf fl_key_def)
    qed
  qed
qed

lemma fl_to_int_bounds: "lo \<le> 0 \<Longrightarrow> 0 \<le> hi \<Longrightarrow> lo \<le> fl_to_int F lo hi x \<and> fl_to_int F lo hi x \<le> hi"
  by (simp add: fl_to_int_def)

lemma fl_to_int_mono:
  assumes "lo \<le> 0" and "0 \<le> hi" and "\<not> fl_is_nan F x" and "\<not> fl_is_nan F y" and "fl_key x \<le> fl_key y"
  shows "fl_to_int F lo hi x \<le> fl_to_int F lo hi y"
proof -
  note b = fl_to_int_bounds [OF assms(1,2), of F]
  from assms(3) show ?thesis
  proof (cases rule: fl_cases)
    case xf: finite
    from assms(4) show ?thesis
    proof (cases rule: fl_cases)
      case finite
      have "fl_rat F x \<le> fl_rat F y" using assms(5) by (simp only: fl_key_le_iff [of x y F])
      then have "(if 0 \<le> fl_rat F x then \<lfloor>fl_rat F x\<rfloor> else \<lceil>fl_rat F x\<rceil>)
          \<le> (if 0 \<le> fl_rat F y then \<lfloor>fl_rat F y\<rfloor> else \<lceil>fl_rat F y\<rceil>)"
        by (auto intro: floor_mono ceiling_mono order_trans [of _ 0] simp: ceiling_le_zero)
      then show ?thesis using xf finite
        by (auto simp: fl_to_int_def fl_is_finite_def fl_is_nan_def fl_is_inf_def Let_def)
    next
      case inf
      then have "\<not> fst y" using assms(5) fl_key_finite [OF xf] by (auto simp: fl_key_inf split: if_splits)
      then have "fl_to_int F lo hi y = hi" using inf by (simp add: fl_to_int_def fl_is_nan_def fl_is_inf_def)
      then show ?thesis using b by simp
    qed
  next
    case inf
    show ?thesis
    proof (cases "fst x")
      case True
      then have "fl_to_int F lo hi x = lo" using inf by (simp add: fl_to_int_def fl_is_nan_def fl_is_inf_def)
      then show ?thesis using b by simp
    next
      case False
      then have "fl_key y = int (inf_mag F)"
        using assms(5) inf fl_key_bound [OF assms(4)] by (simp add: fl_key_inf)
      then have "fl_is_inf F y \<and> \<not> fst y"
        using assms(4) inf_mag_pos [of F]
        by (auto simp: fl_key_def fl_is_inf_def simp del: inf_mag_pos split: if_splits)
      then have "fl_to_int F lo hi y = hi" by (simp add: fl_to_int_def fl_is_nan_def fl_is_inf_def)
      then show ?thesis using b by simp
    qed
  qed
qed


section \<open>The operations of \<open>f64\<close>\<close>

definition f64_fl :: "f64 \<Rightarrow> fl" where
  "f64_fl w = (f64_neg w = 1, unat w mod 2 ^ 63)"

definition f64_of :: "fl \<Rightarrow> f64" where
  "f64_of x = word_of_nat ((if fst x then 2 ^ 63 else 0) + snd x)"

definition f64_is_finite :: "f64 \<Rightarrow> bool" where
  "f64_is_finite w = fl_is_finite Double (f64_fl w)"

definition f64_add :: "f64 \<Rightarrow> f64 \<Rightarrow> f64" where
  "f64_add a b = f64_of (fl_add Double (f64_fl a) (f64_fl b))"

definition f64_sub :: "f64 \<Rightarrow> f64 \<Rightarrow> f64" where
  "f64_sub a b = f64_of (fl_sub Double (f64_fl a) (f64_fl b))"

definition f64_mul :: "f64 \<Rightarrow> f64 \<Rightarrow> f64" where
  "f64_mul a b = f64_of (fl_mul Double (f64_fl a) (f64_fl b))"

definition f64_div :: "f64 \<Rightarrow> f64 \<Rightarrow> f64" where
  "f64_div a b = f64_of (fl_div Double (f64_fl a) (f64_fl b))"

definition f64_floor :: "f64 \<Rightarrow> f64" where
  "f64_floor a = f64_of (fl_integral floor Double (f64_fl a))"

definition f64_ceil :: "f64 \<Rightarrow> f64" where
  "f64_ceil a = f64_of (fl_integral ceiling Double (f64_fl a))"

definition f64_to_u32 :: "f64 \<Rightarrow> u32" where
  "f64_to_u32 a = word_of_int (fl_to_int Double 0 (2 ^ 32 - 1) (f64_fl a))"

definition f64_to_u64 :: "f64 \<Rightarrow> u64" where
  "f64_to_u64 a = word_of_int (fl_to_int Double 0 (2 ^ 64 - 1) (f64_fl a))"

definition f64_to_i32 :: "f64 \<Rightarrow> int" where
  "f64_to_i32 a = fl_to_int Double (- (2 ^ 31)) (2 ^ 31 - 1) (f64_fl a)"

text \<open>\<open>as f64\<close> of an unsigned integer.\<close>

definition f64_of_nat :: "nat \<Rightarrow> f64" where
  "f64_of_nat n = f64_of (fl_round Double False (of_nat n))"

text \<open>\<open>2f64.powi(n)\<close>, exact for the exponents of the code.\<close>

definition f64_two_pow :: "nat \<Rightarrow> f64" where
  "f64_two_pow n = f64_of (fl_round Double False (2 ^ n))"

section \<open>The operations of \<open>f32\<close>\<close>

definition f32_fl :: "f32 \<Rightarrow> fl" where
  "f32_fl w = (f32_neg w = 1, unat w mod 2 ^ 31)"

definition f32_of :: "fl \<Rightarrow> f32" where
  "f32_of x = word_of_nat ((if fst x then 2 ^ 31 else 0) + snd x)"

definition f32_is_finite :: "f32 \<Rightarrow> bool" where
  "f32_is_finite w = fl_is_finite Single (f32_fl w)"

definition f32_is_zero :: "f32 \<Rightarrow> bool" where
  "f32_is_zero w = fl_is_zero (f32_fl w)"

definition f32_add :: "f32 \<Rightarrow> f32 \<Rightarrow> f32" where
  "f32_add a b = f32_of (fl_add Single (f32_fl a) (f32_fl b))"

definition f32_sub :: "f32 \<Rightarrow> f32 \<Rightarrow> f32" where
  "f32_sub a b = f32_of (fl_sub Single (f32_fl a) (f32_fl b))"

definition f32_mul :: "f32 \<Rightarrow> f32 \<Rightarrow> f32" where
  "f32_mul a b = f32_of (fl_mul Single (f32_fl a) (f32_fl b))"

definition f32_div :: "f32 \<Rightarrow> f32 \<Rightarrow> f32" where
  "f32_div a b = f32_of (fl_div Single (f32_fl a) (f32_fl b))"

definition f32_round :: "f32 \<Rightarrow> f32" where
  "f32_round a = f32_of (fl_integral half_away Single (f32_fl a))"

definition f32_of_int :: "int \<Rightarrow> f32" where
  "f32_of_int n = f32_of (fl_round Single False (of_int n))"

text \<open>\<open>f32::clamp\<close>: a NaN stays a NaN.\<close>

definition f32_lt :: "f32 \<Rightarrow> f32 \<Rightarrow> bool" where
  "f32_lt a b \<longleftrightarrow> \<not> f32_is_nan a \<and> \<not> f32_is_nan b \<and> f32_order a < f32_order b"

definition f32_clamp :: "f32 \<Rightarrow> f32 \<Rightarrow> f32 \<Rightarrow> f32" where
  "f32_clamp a lo hi = (let a = (if f32_lt a lo then lo else a) in if f32_lt hi a then hi else a)"

definition f32_to_int :: "int \<Rightarrow> int \<Rightarrow> f32 \<Rightarrow> int" where
  "f32_to_int lo hi a = fl_to_int Single lo hi (f32_fl a)"

section \<open>Words and fields\<close>

lemma f64_neg_bit: "f64_neg w = 0 \<or> f64_neg w = 1"
proof -
  have "unat w < 2 ^ 64" using unsigned_less [of w] by simp
  then have "unat w div 2 ^ 63 < 2" by (simp add: less_mult_imp_div_less)
  then show ?thesis unfolding f64_neg_def by linarith
qed

lemma f32_neg_bit: "f32_neg w = 0 \<or> f32_neg w = 1"
  using f32_split(2) [of w] by linarith

lemma f64_of_fl [simp]: "f64_of (f64_fl w) = w"
proof -
  have "unat w = unat w div 2 ^ 63 * 2 ^ 63 + unat w mod 2 ^ 63" by (rule div_mult_mod_eq [symmetric])
  also have "\<dots> = (if f64_neg w = 1 then 2 ^ 63 else 0) + unat w mod 2 ^ 63"
    unfolding f64_neg_def [symmetric] using f64_neg_bit [of w] by auto
  finally have "word_of_nat (unat w) = f64_of (f64_fl w)"
    by (simp only: f64_of_def f64_fl_def fst_conv snd_conv)
  then show ?thesis by simp
qed

lemma f32_of_fl [simp]: "f32_of (f32_fl w) = w"
proof -
  have "unat w = unat w div 2 ^ 31 * 2 ^ 31 + unat w mod 2 ^ 31" by (rule div_mult_mod_eq [symmetric])
  also have "\<dots> = (if f32_neg w = 1 then 2 ^ 31 else 0) + unat w mod 2 ^ 31"
    unfolding f32_neg_def [symmetric] using f32_neg_bit [of w] by auto
  finally have "word_of_nat (unat w) = f32_of (f32_fl w)"
    by (simp only: f32_of_def f32_fl_def fst_conv snd_conv)
  then show ?thesis by simp
qed

lemma f64_fl_of:
  assumes "snd x < 2 ^ 63"
  shows "f64_fl (f64_of x) = x"
proof -
  have "(if fst x then 2 ^ 63 else 0) + snd x < 2 ^ 64" using assms by simp
  then have u: "unat (f64_of x) = (if fst x then 2 ^ 63 else 0) + snd x"
    unfolding f64_of_def by (rule unat_of_nat_u64)
  have "unat (f64_of x) div 2 ^ 63 = (if fst x then 1 else 0)" unfolding u using assms by simp
  moreover have "unat (f64_of x) mod 2 ^ 63 = snd x" unfolding u using assms by simp
  ultimately show ?thesis by (simp add: f64_fl_def f64_neg_def prod_eq_iff)
qed

lemma f32_fl_of:
  assumes "snd x < 2 ^ 31"
  shows "f32_fl (f32_of x) = x"
proof -
  have "(if fst x then 2 ^ 31 else 0) + snd x < 2 ^ 32" using assms by simp
  then have u: "unat (f32_of x) = (if fst x then 2 ^ 31 else 0) + snd x"
    unfolding f32_of_def by (rule unat_of_nat_u32)
  have "unat (f32_of x) div 2 ^ 31 = (if fst x then 1 else 0)" unfolding u using assms by simp
  moreover have "unat (f32_of x) mod 2 ^ 31 = snd x" unfolding u using assms by simp
  ultimately show ?thesis by (simp add: f32_fl_def f32_neg_def prod_eq_iff)
qed

lemma f64_order_key: "f64_order w = fl_key (f64_fl w)"
  using f64_neg_bit [of w] by (auto simp: f64_order_def fl_key_def f64_fl_def Let_def)

lemma f32_order_key: "f32_order w = fl_key (f32_fl w)"
  using f32_neg_bit [of w] by (auto simp: f32_order_def fl_key_def f32_fl_def Let_def)

lemma mag_div_64: "unat (w :: f64) mod 2 ^ 63 = f64_exp w * 2 ^ 52 + f64_frac w"
proof -
  have "unat w mod (2 ^ 52 * 2 ^ 11) = 2 ^ 52 * (unat w div 2 ^ 52 mod 2 ^ 11) + unat w mod 2 ^ 52"
    by (rule mod_mult2_eq)
  then show ?thesis by (simp add: f64_exp_def f64_frac_def flip: power_add)
qed

lemma mag_div_32: "unat (w :: f32) mod 2 ^ 31 = f32_exp w * 2 ^ 23 + f32_frac w"
proof -
  have "unat w mod (2 ^ 23 * 2 ^ 8) = 2 ^ 23 * (unat w div 2 ^ 23 mod 2 ^ 8) + unat w mod 2 ^ 23"
    by (rule mod_mult2_eq)
  then show ?thesis by (simp add: f32_exp_def f32_frac_def flip: power_add)
qed

lemma f64_field_bounds: "f64_exp w < 2048" "f64_frac w < 2 ^ 52"
  by (simp_all add: f64_exp_def f64_frac_def)

lemma f64_is_nan_fl: "f64_is_nan w \<longleftrightarrow> fl_is_nan Double (f64_fl w)"
  using f64_field_bounds [of w] unfolding f64_is_nan_def fl_is_nan_def f64_fl_def snd_conv mag_div_64
  by simp linarith

lemma f32_is_nan_fl: "f32_is_nan w \<longleftrightarrow> fl_is_nan Single (f32_fl w)"
  using f32_split(2-4) [of w] unfolding f32_is_nan_def fl_is_nan_def f32_fl_def snd_conv mag_div_32
  by simp linarith

lemma fl_mag_bounds:
  assumes "snd x \<le> inf_mag F + 2 ^ (frac_bits F - 1)"
  shows "F = Double \<Longrightarrow> snd x < 2 ^ 63" and "F = Single \<Longrightarrow> snd x < 2 ^ 31"
  using assms by simp_all


text \<open>Every operation yields bits its format holds.\<close>

lemma fl_op_bounds:
  assumes "snd x \<le> inf_mag F \<or> x = fl_nan F" and "snd y \<le> inf_mag F \<or> y = fl_nan F"
  shows "snd (fl_round F s v) \<le> inf_mag F + 2 ^ (frac_bits F - 1)"
    and "snd (fl_div F x y) \<le> inf_mag F + 2 ^ (frac_bits F - 1)"
    and "snd (fl_mul F x y) \<le> inf_mag F + 2 ^ (frac_bits F - 1)"
    and "snd (fl_sub F x y) \<le> inf_mag F + 2 ^ (frac_bits F - 1)"
  using assms fl_round_bound [of F]
  by (auto simp: fl_div_def fl_mul_def fl_sub_def fl_add_def fl_nan_def fl_inf_def fl_is_inf_def fl_negate_def
      Let_def intro: trans_le_add1)


section \<open>Monotone operations on words\<close>

lemma fl_div_inf:
  assumes "fl_is_inf F x" and "fl_is_finite F b" and "0 < fl_rat F b"
  shows "fl_div F x b = x"
proof -
  have "\<not> fst b"
  proof
    assume "fst b"
    then have "fl_rat F b \<le> 0" by (simp add: fl_rat_def)
    with assms(3) show False by simp
  qed
  with assms(1,2) show ?thesis
    by (auto simp: fl_div_def fl_is_finite_def fl_is_nan_def fl_is_inf_def fl_inf_def prod_eq_iff)
qed

lemma fl_div_not_nan:
  assumes "\<not> fl_is_nan F x" and "fl_is_finite F b" and "0 < fl_rat F b"
  shows "\<not> fl_is_nan F (fl_div F x b)"
proof -
  have "\<not> fl_is_zero b"
  proof
    assume "fl_is_zero b"
    then have "fl_rat F b = 0" by (simp add: fl_is_zero_def fl_rat_def fl_val_def)
    with assms(3) show False by simp
  qed
  from assms(1) show ?thesis
  proof (cases rule: fl_cases)
    case finite
    then show ?thesis using fl_div_finite [OF finite assms(2) \<open>\<not> fl_is_zero b\<close>] by simp
  next
    case inf
    then show ?thesis using fl_div_inf [OF inf assms(2,3)] assms(1) by simp
  qed
qed

text \<open>Division by a positive finite value is monotone on all values but NaN.\<close>

lemma fl_div_mono_ext:
  assumes "\<not> fl_is_nan F x" and "\<not> fl_is_nan F y" and "fl_is_finite F b" and "0 < fl_rat F b"
    and "fl_key x \<le> fl_key y"
  shows "fl_key (fl_div F x b) \<le> fl_key (fl_div F y b)"
proof -
  note nn = fl_div_not_nan [OF assms(1,3,4)] fl_div_not_nan [OF assms(2,3,4)]
  from assms(1) show ?thesis
  proof (cases rule: fl_cases)
    case xf: finite
    from assms(2) show ?thesis
    proof (cases rule: fl_cases)
      case finite
      from fl_div_mono [OF xf finite assms(3-5)] show ?thesis .
    next
      case inf
      then have "fl_key y = int (inf_mag F)"
        using assms(5) fl_key_finite [OF xf] by (auto simp: fl_key_inf split: if_splits)
      then show ?thesis using fl_key_bound [OF nn(1)] fl_div_inf [OF inf assms(3,4)] by simp
    qed
  next
    case inf
    show ?thesis
    proof (cases "fst x")
      case True
      then have "fl_key (fl_div F x b) = - int (inf_mag F)"
        using inf fl_div_inf [OF inf assms(3,4)] by (simp add: fl_key_inf)
      then show ?thesis using fl_key_bound [OF nn(2)] by simp
    next
      case False
      then have "fl_key y = int (inf_mag F)"
        using assms(5) inf fl_key_bound [OF assms(2)] by (simp add: fl_key_inf)
      with assms(2) have "fl_is_inf F y" using fl_key_finite [of F y] by (cases rule: fl_cases) auto
      then show ?thesis using fl_div_inf [OF inf assms(3,4)] fl_div_inf [OF _ assms(3,4)] assms(5) by simp
    qed
  qed
qed

lemma f64_le_fl:
  "f64_le a b \<longleftrightarrow> \<not> fl_is_nan Double (f64_fl a) \<and> \<not> fl_is_nan Double (f64_fl b) \<and> fl_key (f64_fl a) \<le> fl_key (f64_fl b)"
  by (simp add: f64_le_def f64_is_nan_fl f64_order_key)

lemma f64_fl_of_not_nan:
  "\<not> fl_is_nan Double x \<Longrightarrow> f64_fl (f64_of x) = x"
  by (rule f64_fl_of) (simp add: fl_is_nan_def)

lemma f64_fl_bound: "f64_is_finite a \<Longrightarrow> \<not> fl_is_nan Double (f64_fl a)"
  by (simp add: f64_is_finite_def fl_is_finite_def fl_is_nan_def)

definition f64_positive :: "f64 \<Rightarrow> bool" where
  "f64_positive b \<longleftrightarrow> f64_is_finite b \<and> \<not> f64_le b 0"

lemma f64_zero_fl: "f64_fl 0 = (False, 0)"
  by (simp add: f64_fl_def f64_neg_def)

lemma f64_positive_rat: "f64_positive b \<Longrightarrow> fl_is_finite Double (f64_fl b) \<and> 0 < fl_rat Double (f64_fl b)"
  using fl_key_le_iff [of "f64_fl b" "(False, 0)" Double]
  by (auto simp: f64_positive_def f64_le_fl f64_zero_fl f64_is_finite_def fl_is_finite_def fl_is_nan_def
      fl_rat_def [of Double "(False, 0)"] fl_val_def [of _ _ 0])

lemma f64_sub_mono:
  assumes "f64_is_finite x" and "f64_is_finite y" and "f64_is_finite c" and "f64_le x y"
  shows "f64_le (f64_sub x c) (f64_sub y c)"
proof -
  obtain s s' where r: "fl_sub Double (f64_fl x) (f64_fl c) = fl_round Double s (fl_rat Double (f64_fl x) - fl_rat Double (f64_fl c))"
      "fl_sub Double (f64_fl y) (f64_fl c) = fl_round Double s' (fl_rat Double (f64_fl y) - fl_rat Double (f64_fl c))"
    using fl_sub_finite assms(1-3) unfolding f64_is_finite_def by metis
  have "fl_key (fl_sub Double (f64_fl x) (f64_fl c)) \<le> fl_key (fl_sub Double (f64_fl y) (f64_fl c))"
    using fl_sub_mono assms unfolding f64_is_finite_def f64_le_fl by blast
  then show ?thesis
    unfolding f64_sub_def f64_le_fl r using f64_fl_of_not_nan [OF fl_round_not_nan] by simp
qed

lemma f64_div_mono:
  assumes "f64_positive b" and "f64_le x y"
  shows "f64_le (f64_div x b) (f64_div y b)"
  using fl_div_mono_ext [of Double "f64_fl x" "f64_fl y" "f64_fl b"]
    fl_div_not_nan [of Double "f64_fl x" "f64_fl b"] fl_div_not_nan [of Double "f64_fl y" "f64_fl b"]
    f64_positive_rat [OF assms(1)] assms(2)
  by (simp add: f64_le_fl f64_div_def f64_fl_of_not_nan)

lemma f64_floor_mono:
  assumes "f64_le x y"
  shows "f64_le (f64_floor x) (f64_floor y)"
  using fl_integral_mono [of floor Double "f64_fl x" "f64_fl y"] assms
  by (simp add: f64_le_fl f64_floor_def f64_fl_of_not_nan fl_integral_not_nan floor_mono mono_def)

lemma f64_to_u32_mono:
  assumes "f64_le x y"
  shows "f64_to_u32 x \<le> f64_to_u32 y"
proof -
  define a b where "a = fl_to_int Double 0 (2 ^ 32 - 1) (f64_fl x)" and "b = fl_to_int Double 0 (2 ^ 32 - 1) (f64_fl y)"
  have "a \<le> b" using assms fl_to_int_mono [of 0 "2 ^ 32 - 1" Double "f64_fl x" "f64_fl y"]
    by (simp add: f64_le_fl a_def b_def)
  moreover have "0 \<le> a" "b < 2 ^ 32"
    using fl_to_int_bounds [of 0 "2 ^ 32 - 1" Double "f64_fl x"] fl_to_int_bounds [of 0 "2 ^ 32 - 1" Double "f64_fl y"]
    by (simp_all add: a_def b_def)
  ultimately have "uint (word_of_int a :: u32) \<le> uint (word_of_int b :: u32)"
    by (simp add: uint_word_of_int)
  then show ?thesis by (simp add: f64_to_u32_def word_le_def a_def b_def)
qed

lemma f64_to_i32_mono: "f64_le x y \<Longrightarrow> f64_to_i32 x \<le> f64_to_i32 y"
  using fl_to_int_mono [of "- (2 ^ 31)" "2 ^ 31 - 1" Double "f64_fl x" "f64_fl y"]
  by (simp add: f64_to_i32_def f64_le_fl)

lemma f64_to_i32_bounds: "- (2 ^ 31) \<le> f64_to_i32 x \<and> f64_to_i32 x < 2 ^ 31"
  using fl_to_int_bounds [of "- (2 ^ 31)" "2 ^ 31 - 1" Double "f64_fl x"] by (simp add: f64_to_i32_def)

text \<open>Widening keeps a value of at least one positive and finite.\<close>

lemma f32_widen_positive:
  assumes "127 * 2 ^ 23 \<le> f32_order w" and "\<not> f32_is_nan w" and "w \<noteq> 0x7F800000"
  shows "f64_positive (f32_to_f64 w)"
proof -
  define e f where "e = f32_exp w" and "f = f32_frac w"
  have neg: "f32_neg w = 0" using assms(1) f32_neg_bit [of w] by (auto simp: f32_order_def Let_def)
  have b: "f < 2 ^ 23" "e < 256" using f32_split(3,4) [of w] by (simp_all add: e_def f_def)
  have "127 * 2 ^ 23 \<le> int (e * 2 ^ 23 + f)"
    using assms(1) neg unfolding f32_order_def mag_div_32 Let_def e_def f_def by simp
  then have lo: "127 * 2 ^ 23 \<le> e * 2 ^ 23 + f"
    by (subst of_nat_le_iff [where 'a = int, symmetric]) simp
  then have e1: "127 \<le> e" using b by simp
  have "e \<noteq> 255"
  proof
    assume e: "e = 255"
    with assms(2) have "f = 0" by (simp add: f32_is_nan_def e_def f_def)
    with e neg have "w = f32_make 0 255 0" using f32_make_split [of w] by (simp add: e_def f_def)
    with assms(3) show False by (simp add: f32_make_def)
  qed
  then have e2: "e < 255" using b by simp
  have w: "f32_to_f64 w = f64_make 0 (e + 896) (f * 2 ^ 29)"
    using e1 e2 neg by (simp add: f32_to_f64_def Let_def flip: e_def f_def)
  note flds = f64_make_fields [of 0 "e + 896" "f * 2 ^ 29"]
  have fl: "f64_fl (f32_to_f64 w) = (False, (e + 896) * 2 ^ 52 + f * 2 ^ 29)"
    using flds b e2 unfolding f64_fl_def mag_div_64 w by simp
  have "(e + 896) * 2 ^ 52 + f * 2 ^ 29 < inf_mag Double" using e2 b by simp
  moreover have "0 < (e + 896) * 2 ^ 52 + f * 2 ^ 29" by simp
  ultimately show ?thesis
    by (simp add: f64_positive_def f64_is_finite_def fl_is_finite_def f64_le_fl fl f64_zero_fl fl_key_def)
qed

section \<open>Exact results\<close>

text \<open>A value of at most \<open>fb + 1\<close> significant bits, not below the least exponent, has magnitude bits.\<close>

lemma fl_val_ex:
  assumes "m < 2 ^ (fb + 1)" and "emin \<le> k"
  shows "\<exists>n. fl_val fb emin n = of_nat m * 2 powi k"
proof (cases "m = 0")
  case True
  have "fl_val fb emin 0 = of_nat m * 2 powi k" using True by (simp add: fl_val_def)
  then show ?thesis ..
next
  case False
  define v where "v = (of_nat m :: rat) * 2 powi k"
  have v: "0 < v" using False by (simp add: v_def)
  define l where "l = max emin (lead_exp v - int fb)"
  have "of_nat m < (of_nat (2 ^ (fb + 1)) :: rat)" using assms(1) unfolding of_nat_less_iff .
  then have "v < of_nat (2 ^ (fb + 1)) * 2 powi k" unfolding v_def by simp
  also have "\<dots> = 2 powi (k + int fb + 1)" by (simp add: power_int_add mult.commute)
  finally have "lead_exp v \<le> k + int fb" by (rule lead_exp_le [OF v])
  then have "l \<le> k" using assms(2) by (simp add: l_def)
  define M where "M = m * 2 ^ nat (k - l)"
  have k: "k = l + int (nat (k - l))" using \<open>l \<le> k\<close> by simp
  have "(2 :: rat) powi k = 2 powi l * 2 ^ nat (k - l)" by (subst k) (rule two_powi_nat)
  then have vM: "v = of_nat M * 2 powi l" by (simp add: v_def M_def)
  have "v < 2 powi (lead_exp v + 1)" by (rule lead_exp_bounds(2) [OF v])
  also have "\<dots> \<le> 2 powi (l + int (fb + 1))" by (rule two_powi_mono) (simp add: l_def)
  also have "\<dots> = of_nat (2 ^ (fb + 1)) * 2 powi l" by (simp add: power_int_add mult.commute)
  finally have "of_nat M < (of_nat (2 ^ (fb + 1)) :: rat)" unfolding vM by simp
  then have hi: "M < 2 ^ (fb + 1)" unfolding of_nat_less_iff .
  show ?thesis
  proof (cases "emin < l")
    case True
    then have "lead_exp v = l + int fb" by (simp add: l_def)
    then have "2 powi (l + int fb) \<le> v" using lead_exp_bounds(1) [OF v] by simp
    then have "of_nat (2 ^ fb) * 2 powi l \<le> of_nat M * (2 :: rat) powi l"
      unfolding vM [symmetric] by (simp add: power_int_add mult.commute)
    then have "(of_nat (2 ^ fb) :: rat) \<le> of_nat M" by simp
    then have lo: "2 ^ fb \<le> M" unfolding of_nat_le_iff .
    define n where "n = (nat (l - emin) + 1) * 2 ^ fb + (M - 2 ^ fb)"
    have f: "M - 2 ^ fb < 2 ^ fb" using hi by simp
    have dm: "(q * p + r) div p = q" "(q * p + r) mod p = r" if "r < p" for q p r :: nat using that by simp_all
    have "n div 2 ^ fb = nat (l - emin) + 1" "n mod 2 ^ fb = M - 2 ^ fb" unfolding n_def by (rule dm [OF f])+
    moreover have "\<not> n < 2 ^ fb" by (simp add: n_def)
    ultimately have "fl_val fb emin n = of_nat M * 2 powi l"
      using lo True unfolding fl_val_def by (simp add: of_nat_diff)
    then show ?thesis using vM v_def by metis
  next
    case False
    then have l: "l = emin" using l_def by simp
    define n where "n = M"
    have "fl_val fb emin M = of_nat M * 2 powi emin"
    proof (cases "M < 2 ^ fb")
      case True
      then show ?thesis by (simp add: fl_val_def)
    next
      case f: False
      have d: "M = 1 * 2 ^ fb + (M - 2 ^ fb)" "M - 2 ^ fb < 2 ^ fb" using f hi by simp_all
      have "M div 2 ^ fb = 1" "M mod 2 ^ fb = M - 2 ^ fb"
        using d(2) by (subst d(1), simp add: div_add1_eq)+
      then show ?thesis using f by (simp add: fl_val_def of_nat_diff)
    qed
    then show ?thesis using vM v_def l by metis
  qed
qed

lemma fl_round_value:
  assumes "\<bar>v\<bar> = of_nat m * 2 powi k" and "m < 2 ^ (frac_bits F + 1)" and "least_exp F \<le> k"
    and "\<bar>v\<bar> < fl_val (frac_bits F) (least_exp F) (inf_mag F)"
  shows "fl_is_finite F (fl_round F s v) \<and> fl_rat F (fl_round F s v) = v"
proof -
  obtain n where n: "fl_val (frac_bits F) (least_exp F) n = \<bar>v\<bar>"
    using fl_val_ex [OF assms(2,3)] assms(1) by metis
  have "\<not> inf_mag F \<le> n"
    using assms(4) unfolding n [symmetric] fl_val_le_iff [symmetric, of "inf_mag F" n "frac_bits F" "least_exp F"]
    by simp
  moreover have "fl_bits (frac_bits F) (least_exp F) \<bar>v\<bar> = n" unfolding n [symmetric] by (rule fl_bits_exact)
  ultimately show ?thesis using n fl_val_zero_iff [of "frac_bits F" "least_exp F" 0]
    by (auto simp: fl_round_def fl_is_finite_def fl_rat_def min_def Let_def)
qed

lemma fl_val_inf:
  "fl_val 23 (- 149) (255 * 2 ^ 23) = 2 ^ 128" "fl_val 52 (- 1074) (2047 * 2 ^ 52) = 2 ^ 1024"
  by (simp_all add: fl_val_def)

text \<open>An integer of at most 24 (53) bits is exact.\<close>

lemma f32_of_int_exact:
  assumes "\<bar>i\<bar> < 2 ^ 24"
  shows "fl_is_finite Single (fl_round Single s (of_int i)) \<and> fl_rat Single (fl_round Single s (of_int i)) = of_int i"
proof (rule fl_round_value)
  show "\<bar>of_int i :: rat\<bar> = of_nat (nat \<bar>i\<bar>) * 2 powi 0" by simp
  show "nat \<bar>i\<bar> < 2 ^ (frac_bits Single + 1)" using assms by simp
  have "\<bar>of_int i :: rat\<bar> < of_int (2 ^ 24)" using assms by (metis of_int_abs of_int_less_iff)
  then show "\<bar>of_int i :: rat\<bar> < fl_val (frac_bits Single) (least_exp Single) (inf_mag Single)"
    by (simp only: frac_bits.simps least_exp.simps inf_mag.simps fl_val_inf) simp
qed simp

lemma f64_of_nat_exact:
  assumes "n < 2 ^ 53"
  shows "fl_is_finite Double (fl_round Double s (of_nat n)) \<and> fl_rat Double (fl_round Double s (of_nat n)) = of_nat n"
proof (rule fl_round_value)
  show "\<bar>of_nat n :: rat\<bar> = of_nat n * 2 powi 0" by simp
  show "n < 2 ^ (frac_bits Double + 1)" using assms by simp
  have "(of_nat n :: rat) < of_nat (2 ^ 53)" using assms unfolding of_nat_less_iff .
  then show "\<bar>of_nat n :: rat\<bar> < fl_val (frac_bits Double) (least_exp Double) (inf_mag Double)"
    by (simp only: frac_bits.simps least_exp.simps inf_mag.simps fl_val_inf) simp
qed simp

section \<open>Neutral operands and integers\<close>

lemma f32_zero_fl: "f32_fl 0 = (False, 0)"
  by (simp add: f32_fl_def f32_neg_def)

lemma inf_mag_nonzero [simp]: "inf_mag F \<noteq> 0" "0 \<noteq> inf_mag F"
  using inf_mag_pos [of F] by linarith+

lemma fl_rat_one: "fl_rat Single (False, 127 * 2 ^ 23) = 1"
  by (simp add: fl_rat_def fl_val_def)

lemma fl_rat_zero: "fl_rat F (s, 0) = 0"
  by (simp add: fl_rat_def fl_val_def)

lemma fl_not_nan_mag: "\<not> fl_is_nan F x \<longleftrightarrow> snd x \<le> inf_mag F"
  by (simp add: fl_is_nan_def not_less)

lemma f32_of_fl_nan_free: "\<not> f32_is_nan v \<Longrightarrow> snd (f32_fl v) \<le> inf_mag Single"
  by (simp only: f32_is_nan_fl fl_not_nan_mag)

lemma fl_sub_zero: "\<not> fl_is_nan F x \<Longrightarrow> fl_sub F x (False, 0) = x"
  using fl_round_exact [of x F]
  by (auto simp: fl_sub_def fl_add_def fl_negate_def fl_is_nan_def fl_is_inf_def fl_rat_zero not_less)

lemma fl_div_one: "\<not> fl_is_nan Single x \<Longrightarrow> fl_div Single x (False, 127 * 2 ^ 23) = x"
  using fl_round_exact [of x Single] unfolding fl_div_def fl_rat_one
  by (auto simp: fl_is_nan_def fl_is_inf_def fl_is_zero_def fl_inf_def prod_eq_iff Let_def not_less)

lemma fl_mul_one: "\<not> fl_is_nan Single x \<Longrightarrow> fl_mul Single x (False, 127 * 2 ^ 23) = x"
  using fl_round_exact [of x Single] unfolding fl_mul_def fl_rat_one
  by (auto simp: fl_is_nan_def fl_is_inf_def fl_is_zero_def fl_inf_def prod_eq_iff Let_def not_less)

lemma fl_add_zero:
  assumes "\<not> fl_is_nan F x" and "x \<noteq> (True, 0)"
  shows "fl_add F x (False, 0) = x"
proof (cases "fl_is_inf F x")
  case True
  then show ?thesis using assms(1) by (auto simp: fl_add_def fl_is_nan_def fl_is_inf_def)
next
  case False
  have "fl_round F False (fl_rat F x) = x"
  proof (cases "snd x = 0")
    case True
    then have "x = (False, 0)" using assms(2) by (cases x) auto
    then show ?thesis by (simp add: fl_rat_zero fl_round_def)
  next
    case nz: False
    then have "fl_rat F x \<noteq> 0" by (auto simp: fl_rat_def fl_val_zero_iff Let_def)
    then have "fl_round F False (fl_rat F x) = fl_round F (fst x) (fl_rat F x)" by (simp add: fl_round_def)
    also have "\<dots> = x" using assms(1) by (intro fl_round_exact) (simp add: fl_not_nan_mag)
    finally show ?thesis .
  qed
  then show ?thesis using assms(1) False by (simp add: fl_add_def fl_is_nan_def fl_is_inf_def fl_rat_zero)
qed

lemma f32_fl_of_int:
  assumes "\<bar>i\<bar> < 2 ^ 24"
  shows "fl_is_finite Single (f32_fl (f32_of_int i))" and "fl_rat Single (f32_fl (f32_of_int i)) = of_int i"
proof -
  define x where "x = fl_round Single False (of_int i)"
  have "snd x < 2 ^ 31" using fl_round_bound [of Single False "of_int i"] by (simp add: x_def)
  then have "f32_fl (f32_of_int i) = x" by (simp add: f32_of_int_def x_def f32_fl_of)
  then show "fl_is_finite Single (f32_fl (f32_of_int i))" "fl_rat Single (f32_fl (f32_of_int i)) = of_int i"
    using f32_of_int_exact [OF assms, of False] by (simp_all add: x_def)
qed

lemma fl_finite_not_nan: "fl_is_finite F x \<Longrightarrow> \<not> fl_is_nan F x"
  by (simp add: fl_is_finite_def fl_is_nan_def)

lemma f32_lt_rat:
  assumes "fl_is_finite Single (f32_fl a)" and "fl_is_finite Single (f32_fl b)"
  shows "f32_lt a b \<longleftrightarrow> fl_rat Single (f32_fl a) < fl_rat Single (f32_fl b)"
  using fl_finite_not_nan [OF assms(1)] fl_finite_not_nan [OF assms(2)] fl_key_le_iff [of "f32_fl b" "f32_fl a" Single]
  by (auto simp: f32_lt_def f32_is_nan_fl f32_order_key not_le)

lemma half_away_int [simp]: "half_away (of_int i) = i"
proof -
  have "\<lfloor>of_int i + 1 / 2 :: rat\<rfloor> = i" "\<lfloor>1 / 2 - of_int i :: rat\<rfloor> = - i" by (simp_all add: floor_eq_iff)
  then show ?thesis by (simp add: half_away_def)
qed

lemma f32_round_int:
  assumes "\<bar>i\<bar> < 2 ^ 24"
  shows "f32_round (f32_of_int i) = f32_of_int i"
proof -
  define x where "x = f32_fl (f32_of_int i)"
  have x: "fl_is_finite Single x" "fl_rat Single x = of_int i" using f32_fl_of_int [OF assms] by (simp_all add: x_def)
  have "fl_integral half_away Single x = fl_round Single (fst x) (fl_rat Single x)"
    using x by (simp add: fl_integral_def)
  also have "\<dots> = x" using x(1) by (intro fl_round_exact) (simp add: fl_is_finite_def)
  finally show ?thesis by (simp add: f32_round_def x_def [symmetric]) (simp add: x_def)
qed

text \<open>Scaling a value below 1 by a power of two is exact.\<close>

lemma fl_val_form: "\<exists>m k. fl_val fb emin n = of_nat m * 2 powi k \<and> m < 2 ^ (fb + 1) \<and> emin \<le> k"
proof (cases "n < 2 ^ fb")
  case True
  then have "fl_val fb emin n = of_nat n * 2 powi emin \<and> n < 2 ^ (fb + 1) \<and> emin \<le> emin"
    by (simp add: fl_val_def)
  then show ?thesis by blast
next
  case False
  then have "1 \<le> n div 2 ^ fb" by (simp add: div_greater_zero_iff Suc_le_eq)
  with False have "fl_val fb emin n = of_nat (2 ^ fb + n mod 2 ^ fb) * 2 powi (emin + int (n div 2 ^ fb) - 1)
      \<and> 2 ^ fb + n mod 2 ^ fb < 2 ^ (fb + 1) \<and> emin \<le> emin + int (n div 2 ^ fb) - 1"
    by (simp add: fl_val_def)
  then show ?thesis by blast
qed

lemma f64_mul_two_pow:
  assumes "f64_le 0 u" and "f64_le u 0x3FF0000000000000" and "d \<le> 31"
  shows "0 \<le> fl_rat Double (f64_fl u)" and "fl_rat Double (f64_fl u) \<le> 1"
    and "f64_to_u32 (f64_mul u (f64_of_nat (2 ^ d))) = word_of_int \<lfloor>fl_rat Double (f64_fl u) * 2 ^ d\<rfloor>"
proof -
  have one: "f64_fl 0x3FF0000000000000 = (False, 1023 * 2 ^ 52)" by (simp add: f64_fl_def f64_neg_def)
  have ratone: "fl_rat Double (False, 1023 * 2 ^ 52) = 1" by (simp add: fl_rat_def fl_val_def)
  note le = assms(1,2) [unfolded f64_le_fl f64_zero_fl one]
  define x where "x = f64_fl u"
  show r0: "0 \<le> fl_rat Double (f64_fl u)"
    using le(1) fl_key_le_iff [of "(False, 0)" "f64_fl u" Double] by (simp add: fl_rat_zero)
  show r1: "fl_rat Double (f64_fl u) \<le> 1"
    using le(2) fl_key_le_iff [of "f64_fl u" "(False, 1023 * 2 ^ 52)" Double] by (simp only: ratone)
  have nn: "\<not> fl_is_nan Double x" using le(1) by (simp add: x_def)
  have fin: "fl_is_finite Double x"
    using nn
  proof (cases rule: fl_cases)
    case inf
    have "\<bar>fl_rat Double x\<bar> = 2 ^ 1024"
      using inf by (simp only: fl_rat_def fl_is_inf_def inf_mag.simps frac_bits.simps least_exp.simps fl_val_inf Let_def) simp
    with r0 r1 show ?thesis by (simp add: x_def)
  qed
  define s where "s = fl_round Double False (of_nat (2 ^ d))"
  have "(2 :: nat) ^ d \<le> 2 ^ 31" using assms(3) by (intro power_increasing) simp_all
  then have d53: "(2 :: nat) ^ d < 2 ^ 53" by simp
  have s: "fl_is_finite Double s" "fl_rat Double s = of_nat (2 ^ d)"
    using f64_of_nat_exact [OF d53, of False] by (simp_all add: s_def)
  have sfl: "f64_fl (f64_of_nat (2 ^ d)) = s"
    unfolding f64_of_nat_def s_def by (rule f64_fl_of_not_nan) simp
  define v where "v = fl_rat Double x * of_nat (2 ^ d)"
  have v0: "0 \<le> v" using r0 by (simp add: v_def x_def)
  have "v \<le> 1 * of_nat (2 ^ d)" unfolding v_def x_def using r1 by (intro mult_right_mono) simp_all
  also have "\<dots> \<le> of_nat (2 ^ 31)" using \<open>2 ^ d \<le> 2 ^ 31\<close> unfolding mult_1 of_nat_le_iff .
  finally have v31: "v \<le> 2 ^ 31" by simp
  obtain m k where mk: "fl_val 52 (- 1074) (snd x) = of_nat m * 2 powi k" "m < 2 ^ (52 + 1)" "- 1074 \<le> k"
    using fl_val_form by blast
  have "\<bar>fl_rat Double x\<bar> = fl_val 52 (- 1074) (snd x)" by (simp add: fl_rat_def Let_def)
  then have "\<bar>v\<bar> = of_nat m * 2 powi (k + int d)"
    unfolding v_def abs_mult mk(1) by (simp add: power_int_add)
  then have fr: "fl_is_finite Double (fl_round Double z v) \<and> fl_rat Double (fl_round Double z v) = v" for z
  proof (rule fl_round_value)
    show "m < 2 ^ (frac_bits Double + 1)" "least_exp Double \<le> k + int d" using mk by simp_all
    have "\<bar>v\<bar> \<le> 2 ^ 31" using v0 v31 by simp
    then show "\<bar>v\<bar> < fl_val (frac_bits Double) (least_exp Double) (inf_mag Double)"
      by (simp only: frac_bits.simps least_exp.simps inf_mag.simps fl_val_inf) (rule le_less_trans, assumption, simp)
  qed
  have mul: "fl_mul Double x s = fl_round Double (fst x \<noteq> fst s) v"
    using fin s(1) unfolding fl_mul_def v_def s(2)
    by (simp add: fl_is_finite_def fl_is_nan_def fl_is_inf_def Let_def)
  have "f64_fl (f64_mul u (f64_of_nat (2 ^ d))) = fl_round Double (fst x \<noteq> fst s) v"
    unfolding f64_mul_def sfl x_def [symmetric] mul by (rule f64_fl_of_not_nan) simp
  moreover have "fl_to_int Double 0 (2 ^ 32 - 1) (fl_round Double z v) = \<lfloor>v\<rfloor>" for z
  proof -
    have "0 \<le> \<lfloor>v\<rfloor>" "\<lfloor>v\<rfloor> \<le> 2 ^ 32 - 1" using v0 v31 by (simp_all add: floor_le_iff)
    then show ?thesis using fr [of z] v0 
      by (simp add: fl_to_int_def fl_finite_not_nan fl_is_finite_def fl_is_inf_def Let_def)
  qed
  ultimately show "f64_to_u32 (f64_mul u (f64_of_nat (2 ^ d))) = word_of_int \<lfloor>fl_rat Double (f64_fl u) * 2 ^ d\<rfloor>"
    by (simp add: f64_to_u32_def v_def x_def)
qed

section \<open>Evaluation\<close>

text \<open>Enough to evaluate an operation on literals by \<open>simp add: float_eval\<close>.\<close>

lemma top_bit_numeral:
  "top_bit 0 = 0" "top_bit 1 = 0" "top_bit (Suc 0) = 0"
  "top_bit (numeral (num.Bit0 n)) = Suc (top_bit (numeral n))"
  "top_bit (numeral (num.Bit1 n)) = Suc (top_bit (numeral n))"
proof -
  have d: "numeral (num.Bit0 n) div 2 = (numeral n :: nat)" "numeral (num.Bit1 n) div 2 = (numeral n :: nat)"
    by simp_all
  show "top_bit (numeral (num.Bit0 n)) = Suc (top_bit (numeral n))" by (subst top_bit.simps) (simp add: d)
  show "top_bit (numeral (num.Bit1 n)) = Suc (top_bit (numeral n))" by (subst top_bit.simps) (simp add: d)
qed (subst top_bit.simps, simp)+

lemma rat_floor_numeral:
  "\<lfloor>(numeral a / numeral b :: rat)\<rfloor> = numeral a div numeral b"
  "\<lfloor>(1 / numeral b :: rat)\<rfloor> = 1 div numeral b"
  "\<lceil>(numeral a / numeral b :: rat)\<rceil> = - ((- numeral a) div numeral b)"
  "\<lceil>(1 / numeral b :: rat)\<rceil> = - (- 1 div numeral b)"
  using floor_divide_of_int_eq [of "numeral a" "numeral b", where 'a = rat]
    floor_divide_of_int_eq [of 1 "numeral b", where 'a = rat]
    floor_divide_of_int_eq [of "- numeral a" "numeral b", where 'a = rat]
    floor_divide_of_int_eq [of "- 1" "numeral b", where 'a = rat]
  by (simp_all add: ceiling_def)

lemmas float_eval =
  f64_add_def f64_sub_def f64_mul_def f64_div_def f64_floor_def f64_ceil_def f64_to_u32_def f64_to_u64_def
  f64_to_i32_def f64_of_nat_def f64_two_pow_def f64_is_finite_def f64_fl_def f64_neg_def f64_of_def
  f32_add_def f32_sub_def f32_mul_def f32_div_def f32_round_def f32_of_int_def f32_to_int_def f32_is_finite_def
  f32_is_zero_def f32_fl_def f32_neg_def f32_of_def f32_clamp_def f32_lt_def
  fl_add_def fl_sub_def fl_mul_def fl_div_def fl_integral_def half_away_def fl_to_int_def fl_negate_def
  fl_is_nan_def fl_is_inf_def fl_is_zero_def fl_is_finite_def fl_round_def fl_rat_def fl_val_def fl_bits_def
  fl_nan_def fl_inf_def lead_exp_def near_even_def top_bit_numeral rat_floor_numeral Let_def

end
