(* ===== verification/Omf_Geometry.thy ===== *)
theory Omf_Geometry
  imports Omf_Arith
begin

text \<open>
  Bounding boxes and Morton codes (\<open>crates/map-format/src/geometry.rs\<close>). The Morton lemmas characterise every code bit by bit: the codes are
  inverse to each other, and a node key carries its depth and coordinates.
\<close>

section \<open>Bounding boxes\<close>

record aabb =
  min_x :: f64
  min_y :: f64
  max_x :: f64
  max_y :: f64

definition aabb_new :: "f64 \<Rightarrow> f64 \<Rightarrow> f64 \<Rightarrow> f64 \<Rightarrow> aabb" where
  "aabb_new x0 y0 x1 y1 =
     \<lparr>min_x = f64_min x0 x1, min_y = f64_min y0 y1, max_x = f64_max x0 x1, max_y = f64_max y0 y1\<rparr>"

definition f64_half :: f64 where "f64_half = 0x3FE0000000000000"
definition f64_one :: f64 where "f64_one = 0x3FF0000000000000"

definition aabb_from_center_size :: "f64 \<Rightarrow> f64 \<Rightarrow> f64 \<Rightarrow> f64 \<Rightarrow> aabb" where
  "aabb_from_center_size cx cy size_x size_y =
     \<lparr>min_x = f64_sub cx (f64_mul size_x f64_half), min_y = f64_sub cy (f64_mul size_y f64_half),
      max_x = f64_add cx (f64_mul size_x f64_half), max_y = f64_add cy (f64_mul size_y f64_half)\<rparr>"

definition aabb_width :: "aabb \<Rightarrow> f64" where
  "aabb_width b = f64_sub (max_x b) (min_x b)"

definition aabb_height :: "aabb \<Rightarrow> f64" where
  "aabb_height b = f64_sub (max_y b) (min_y b)"

definition aabb_center :: "aabb \<Rightarrow> f64 \<times> f64" where
  "aabb_center b =
     (f64_mul (f64_add (min_x b) (max_x b)) f64_half,
      f64_mul (f64_add (min_y b) (max_y b)) f64_half)"

definition aabb_expanded :: "f64 \<Rightarrow> aabb \<Rightarrow> aabb" where
  "aabb_expanded margin b =
     \<lparr>min_x = f64_sub (min_x b) margin, min_y = f64_sub (min_y b) margin,
      max_x = f64_add (max_x b) margin, max_y = f64_add (max_y b) margin\<rparr>"

definition aabb_contains :: "aabb \<Rightarrow> f64 \<Rightarrow> f64 \<Rightarrow> bool" where
  "aabb_contains b x y \<longleftrightarrow>
     f64_le (min_x b) x \<and> f64_le x (max_x b) \<and> f64_le (min_y b) y \<and> f64_le y (max_y b)"

definition aabb_intersects :: "aabb \<Rightarrow> aabb \<Rightarrow> bool" where
  "aabb_intersects a b \<longleftrightarrow>
     f64_le (min_x a) (max_x b) \<and> f64_le (min_x b) (max_x a)
     \<and> f64_le (min_y a) (max_y b) \<and> f64_le (min_y b) (max_y a)"

definition aabb_union :: "aabb \<Rightarrow> aabb \<Rightarrow> aabb" where
  "aabb_union a b =
     \<lparr>min_x = f64_min (min_x a) (min_x b), min_y = f64_min (min_y a) (min_y b),
      max_x = f64_max (max_x a) (max_x b), max_y = f64_max (max_y a) (max_y b)\<rparr>"

definition aabb_intersection :: "aabb \<Rightarrow> aabb \<Rightarrow> aabb option" where
  "aabb_intersection a b =
     (let out = \<lparr>min_x = f64_max (min_x a) (min_x b), min_y = f64_max (min_y a) (min_y b),
                 max_x = f64_min (max_x a) (max_x b), max_y = f64_min (max_y a) (max_y b)\<rparr>
      in if f64_le (min_x out) (max_x out) \<and> f64_le (min_y out) (max_y out) then Some out else None)"

definition aabb_ok :: "aabb \<Rightarrow> bool" where
  "aabb_ok b \<longleftrightarrow> f64_le (min_x b) (max_x b) \<and> f64_le (min_y b) (max_y b)"

lemmas aabb_defs = aabb_new_def aabb_contains_def aabb_intersects_def aabb_union_def
  aabb_intersection_def aabb_ok_def

lemma f64_le_min: "\<not> f64_is_nan a \<Longrightarrow> \<not> f64_is_nan b \<Longrightarrow> f64_le (f64_min a b) x \<longleftrightarrow> f64_le a x \<or> f64_le b x"
  by (auto simp: f64_min_def f64_lt_def f64_le_def)

lemma f64_le_max: "\<not> f64_is_nan a \<Longrightarrow> \<not> f64_is_nan b \<Longrightarrow> f64_le (f64_max a b) x \<longleftrightarrow> f64_le a x \<and> f64_le b x"
  by (auto simp: f64_max_def f64_lt_def f64_le_def)

lemma f64_min_le: "\<not> f64_is_nan a \<Longrightarrow> \<not> f64_is_nan b \<Longrightarrow> f64_le x (f64_min a b) \<longleftrightarrow> f64_le x a \<and> f64_le x b"
  by (auto simp: f64_min_def f64_lt_def f64_le_def)

lemma f64_max_le: "\<not> f64_is_nan a \<Longrightarrow> \<not> f64_is_nan b \<Longrightarrow> f64_le x (f64_max a b) \<longleftrightarrow> f64_le x a \<or> f64_le x b"
  by (auto simp: f64_max_def f64_lt_def f64_le_def)

lemma f64_le_not_nan: "f64_le a b \<Longrightarrow> \<not> f64_is_nan a \<and> \<not> f64_is_nan b"
  by (simp add: f64_le_def)

lemma f64_le_trans: "f64_le a b \<Longrightarrow> f64_le b c \<Longrightarrow> f64_le a c"
  by (simp add: f64_le_def)

lemmas f64_cmp_eval = f64_max_def f64_min_def f64_lt_def f64_le_def f64_is_nan_def f64_exp_def f64_frac_def
  f64_order_def f64_neg_def

lemmas f64_bounds = f64_le_min f64_le_max f64_min_le f64_max_le

lemma f64_le_refl: "\<not> f64_is_nan a \<Longrightarrow> f64_le a a"
  by (simp add: f64_le_def)

lemma f64_minmax_mono:
  assumes "f64_le a b" and "\<not> f64_is_nan c"
  shows f64_max_mono: "f64_le (f64_max a c) (f64_max b c)" "f64_le (f64_max c a) (f64_max c b)"
    and f64_min_mono: "f64_le (f64_min a c) (f64_min b c)" "f64_le (f64_min c a) (f64_min c b)"
proof -
  have n: "\<not> f64_is_nan a" "\<not> f64_is_nan b" using f64_le_not_nan [OF assms(1)] by simp_all
  have "f64_le c b \<or> f64_le a c" using assms n by (auto simp: f64_le_def)
  with assms n show "f64_le (f64_max a c) (f64_max b c)" "f64_le (f64_max c a) (f64_max c b)"
    "f64_le (f64_min a c) (f64_min b c)" "f64_le (f64_min c a) (f64_min c b)"
    by (auto simp: f64_bounds f64_le_refl)
qed

lemma f64_max_finite: "f64_is_finite a \<Longrightarrow> f64_is_finite b \<Longrightarrow> f64_is_finite (f64_max a b)"
  by (simp add: f64_max_def)

lemma f64_min_finite: "f64_is_finite a \<Longrightarrow> f64_is_finite b \<Longrightarrow> f64_is_finite (f64_min a b)"
  by (simp add: f64_min_def)

lemma f64_finite_not_nan: "f64_is_finite a \<Longrightarrow> \<not> f64_is_nan a"
  by (simp add: f64_is_nan_fl f64_fl_bound)

definition aabb_finite :: "aabb \<Rightarrow> bool" where
  "aabb_finite b \<longleftrightarrow>
     f64_is_finite (min_x b) \<and> f64_is_finite (min_y b) \<and> f64_is_finite (max_x b) \<and> f64_is_finite (max_y b)"

text \<open>One box inside another, side by side.\<close>

definition aabb_within :: "aabb \<Rightarrow> aabb \<Rightarrow> bool" where
  "aabb_within a b \<longleftrightarrow>
     f64_le (min_x b) (min_x a) \<and> f64_le (min_y b) (min_y a) \<and> f64_le (max_x a) (max_x b) \<and> f64_le (max_y a) (max_y b)"

lemma aabb_intersection_within:
  assumes "aabb_within a b" and "aabb_finite m" and "aabb_intersection m a = Some c"
  shows "\<exists>d. aabb_intersection m b = Some d \<and> aabb_within c d"
proof -
  have n: "\<not> f64_is_nan (min_x m)" "\<not> f64_is_nan (min_y m)" "\<not> f64_is_nan (max_x m)" "\<not> f64_is_nan (max_y m)"
    using assms(2) by (simp_all add: aabb_finite_def f64_finite_not_nan)
  define d where "d = \<lparr>min_x = f64_max (min_x m) (min_x b), min_y = f64_max (min_y m) (min_y b),
    max_x = f64_min (max_x m) (max_x b), max_y = f64_min (max_y m) (max_y b)\<rparr>"
  have c: "c = \<lparr>min_x = f64_max (min_x m) (min_x a), min_y = f64_max (min_y m) (min_y a),
      max_x = f64_min (max_x m) (max_x a), max_y = f64_min (max_y m) (max_y a)\<rparr>"
    and ok: "f64_le (min_x c) (max_x c)" "f64_le (min_y c) (max_y c)"
    using assms(3) by (auto simp: aabb_intersection_def Let_def split: if_splits)
  have w: "aabb_within c d"
    using assms(1) n by (simp add: aabb_within_def c d_def f64_max_mono(2) f64_min_mono(2))
  then have "f64_le (min_x d) (max_x d)" "f64_le (min_y d) (max_y d)"
    using ok unfolding aabb_within_def by (meson f64_le_trans)+
  then have "aabb_intersection m b = Some d" by (simp add: aabb_intersection_def d_def)
  with w show ?thesis by blast
qed

lemma aabb_ok_not_nan:
  assumes "aabb_ok b"
  shows "\<not> f64_is_nan (min_x b)" "\<not> f64_is_nan (min_y b)" "\<not> f64_is_nan (max_x b)" "\<not> f64_is_nan (max_y b)"
  using assms by (auto simp: aabb_ok_def dest: f64_le_not_nan)

text \<open>The intersection holds exactly the points of both boxes, and exists when they touch.\<close>

lemma aabb_intersection_contains:
  assumes "aabb_ok a" and "aabb_ok b"
  shows "aabb_contains a x y \<and> aabb_contains b x y \<longleftrightarrow>
    (case aabb_intersection a b of None \<Rightarrow> False | Some c \<Rightarrow> aabb_contains c x y)"
  using aabb_ok_not_nan [OF assms(1)] aabb_ok_not_nan [OF assms(2)]
  by (auto simp: aabb_intersection_def aabb_contains_def f64_bounds Let_def intro: f64_le_trans)

lemma aabb_intersection_intersects:
  assumes "aabb_ok a" and "aabb_ok b"
  shows "aabb_intersection a b \<noteq> None \<longleftrightarrow> aabb_intersects a b"
  using aabb_ok_not_nan [OF assms(1)] aabb_ok_not_nan [OF assms(2)] assms
  by (auto simp: aabb_intersection_def aabb_intersects_def aabb_ok_def f64_bounds Let_def)

lemma aabb_union_contains:
  assumes "aabb_ok a" and "aabb_ok b" and "aabb_contains a x y \<or> aabb_contains b x y"
  shows "aabb_contains (aabb_union a b) x y"
  using aabb_ok_not_nan [OF assms(1)] aabb_ok_not_nan [OF assms(2)] assms(3)
  by (auto simp: aabb_union_def aabb_contains_def f64_bounds)

section \<open>Morton codes\<close>

text \<open>The loops \<open>for i in 0..w { out |= .. << ..; out |= .. << .. }\<close>.\<close>

definition or_loop :: "(nat \<Rightarrow> 'a::len word) \<Rightarrow> nat \<Rightarrow> 'a word" where
  "or_loop f n = fold (\<lambda>i out. out OR f i) [0..<n] 0"

lemma bit_or_loop: "bit (or_loop f n) k \<longleftrightarrow> (\<exists>i < n. bit (f i) k)"
proof -
  have "bit (fold (\<lambda>i out. out OR f i) is a) k \<longleftrightarrow> bit a k \<or> (\<exists>i \<in> set is. bit (f i) k)" for "is" a
    by (induction "is" arbitrary: a) (auto simp: bit_or_iff)
  then show ?thesis by (auto simp: or_loop_def)
qed

definition morton_encode_2d :: "u32 \<Rightarrow> u32 \<Rightarrow> u64" where
  "morton_encode_2d x y =
     or_loop (\<lambda>i. push_bit (2 * i) (ucast (drop_bit i x AND 1))
                  OR push_bit (2 * i + 1) (ucast (drop_bit i y AND 1))) 32"

definition morton_decode_2d :: "u64 \<Rightarrow> u32 \<times> u32" where
  "morton_decode_2d code =
     (or_loop (\<lambda>i. push_bit i (ucast (drop_bit (2 * i) code AND 1))) 32,
      or_loop (\<lambda>i. push_bit i (ucast (drop_bit (2 * i + 1) code AND 1))) 32)"

definition leading_zeros :: "u64 \<Rightarrow> nat" where
  "leading_zeros w = length (takeWhile (\<lambda>i. \<not> bit w i) (rev [0..<64]))"

definition morton_depth :: "u64 \<Rightarrow> nat" where
  "morton_depth code = (64 - leading_zeros code) div 2"

definition morton_parent :: "u64 \<Rightarrow> u64 option" where
  "morton_parent code = (if code \<noteq> 0 then Some (drop_bit 2 code) else None)"

definition node_key :: "u32 \<Rightarrow> u32 \<Rightarrow> nat \<Rightarrow> u64" where
  "node_key x y depth = push_bit (2 * min depth 31) 1 OR morton_encode_2d x y"

definition node_key_depth :: "u64 \<Rightarrow> nat" where
  "node_key_depth key = (if key = 0 then 0 else (64 - leading_zeros key - 1) div 2)"

definition node_key_xy :: "u64 \<Rightarrow> u32 \<times> u32" where
  "node_key_xy key =
     (let depth = node_key_depth key
      in if depth = 0 then (0, 0)
         else morton_decode_2d (key AND (push_bit (2 * depth) 1 - 1)))"

definition node_key_parent :: "u64 \<Rightarrow> u64 option" where
  "node_key_parent key =
     (let depth = node_key_depth key
      in if depth = 0 then None
         else case node_key_xy key of (x, y) \<Rightarrow> Some (node_key (x div 2) (y div 2) (depth - 1)))"

definition node_key_child :: "u64 \<Rightarrow> nat \<Rightarrow> u64" where
  "node_key_child key quadrant =
     (let depth = node_key_depth key; (x, y) = node_key_xy key;
          (dx, dy) = (if quadrant mod 4 = 0 then (0, 0)
                      else if quadrant mod 4 = 1 then (1, 0)
                      else if quadrant mod 4 = 2 then (0, 1)
                      else (1, 1))
      in node_key (x * 2 + dx) (y * 2 + dy) (depth + 1))"

definition morton_encode_chunk :: "u16 \<Rightarrow> u16 \<Rightarrow> u32" where
  "morton_encode_chunk x y =
     or_loop (\<lambda>i. push_bit (2 * i) (ucast (drop_bit i x AND 1))
                  OR push_bit (2 * i + 1) (ucast (drop_bit i y AND 1))) 16"

definition morton_decode_chunk :: "u32 \<Rightarrow> u16 \<times> u16" where
  "morton_decode_chunk code =
     (or_loop (\<lambda>i. push_bit i (ucast (drop_bit (2 * i) code AND 1))) 16,
      or_loop (\<lambda>i. push_bit i (ucast (drop_bit (2 * i + 1) code AND 1))) 16)"

section \<open>The bits of a code\<close>

lemma bit_pushed_bit:
  "bit (push_bit m (ucast (drop_bit i (x :: 'b::len word) AND 1)) :: 'a::len word) k \<longleftrightarrow>
     k = m \<and> k < LENGTH('a) \<and> bit x i"
  by (auto simp: bit_simps bit_1_iff)

lemma bit_pushed_pair:
  "bit (push_bit (2 * i) (ucast (drop_bit i (x :: 'b::len word) AND 1))
        OR push_bit (2 * i + 1) (ucast (drop_bit i y AND 1)) :: 'a::len word) k \<longleftrightarrow>
     k < LENGTH('a) \<and> (k = 2 * i \<and> bit x i \<or> k = 2 * i + 1 \<and> bit (y :: 'b word) i)"
  unfolding bit_or_iff bit_pushed_bit by blast

lemma interleave_cases:
  fixes k n :: nat
  shows "(\<exists>i < n. k = 2 * i \<and> P i \<or> k = 2 * i + 1 \<and> Q i) \<longleftrightarrow>
     k < 2 * n \<and> (if even k then P (k div 2) else Q (k div 2))"
proof (cases "even k")
  case True
  then obtain b where "k = 2 * b" by (elim evenE)
  moreover have "2 * b = 2 * i + 1 \<longleftrightarrow> False" for i by presburger
  ultimately show ?thesis by auto
next
  case False
  then obtain b where "k = 2 * b + 1" by (elim oddE)
  moreover have "2 * b + 1 = 2 * i \<longleftrightarrow> False" for i by presburger
  ultimately show ?thesis by auto
qed

lemma bit_morton_encode_2d:
  "bit (morton_encode_2d x y) k \<longleftrightarrow> k < 64 \<and> (if even k then bit x (k div 2) else bit y (k div 2))"
proof -
  have "bit (morton_encode_2d x y) k \<longleftrightarrow>
      k < 64 \<and> (\<exists>i < 32. k = 2 * i \<and> bit x i \<or> k = 2 * i + 1 \<and> bit y i)"
    unfolding morton_encode_2d_def bit_or_loop bit_pushed_pair by auto
  then show ?thesis by (simp only: interleave_cases) auto
qed

lemma bit_morton_encode_chunk:
  "bit (morton_encode_chunk x y) k \<longleftrightarrow> k < 32 \<and> (if even k then bit x (k div 2) else bit y (k div 2))"
proof -
  have "bit (morton_encode_chunk x y) k \<longleftrightarrow>
      k < 32 \<and> (\<exists>i < 16. k = 2 * i \<and> bit x i \<or> k = 2 * i + 1 \<and> bit y i)"
    unfolding morton_encode_chunk_def bit_or_loop bit_pushed_pair by auto
  then show ?thesis by (simp only: interleave_cases) auto
qed

lemma bit_morton_decode_2d:
  "bit (fst (morton_decode_2d c)) k \<longleftrightarrow> k < 32 \<and> bit c (2 * k)"
  "bit (snd (morton_decode_2d c)) k \<longleftrightarrow> k < 32 \<and> bit c (2 * k + 1)"
  by (auto simp: morton_decode_2d_def bit_or_loop bit_pushed_bit)

lemma bit_morton_decode_chunk:
  "bit (fst (morton_decode_chunk c)) k \<longleftrightarrow> k < 16 \<and> bit c (2 * k)"
  "bit (snd (morton_decode_chunk c)) k \<longleftrightarrow> k < 16 \<and> bit c (2 * k + 1)"
  by (auto simp: morton_decode_chunk_def bit_or_loop bit_pushed_bit)

lemma morton_decode_encode_2d: "morton_decode_2d (morton_encode_2d x y) = (x, y)"
proof (rule prod_eqI)
  show "fst (morton_decode_2d (morton_encode_2d x y)) = fst (x, y)"
    by (rule bit_word_eqI) (simp add: bit_morton_decode_2d bit_morton_encode_2d)
  show "snd (morton_decode_2d (morton_encode_2d x y)) = snd (x, y)"
    by (rule bit_word_eqI) (simp add: bit_morton_decode_2d bit_morton_encode_2d)
qed

lemma morton_encode_decode_2d: "morton_encode_2d (fst (morton_decode_2d c)) (snd (morton_decode_2d c)) = c"
  by (rule bit_word_eqI) (auto simp: bit_morton_encode_2d bit_morton_decode_2d)

lemma morton_decode_encode_chunk: "morton_decode_chunk (morton_encode_chunk x y) = (x, y)"
proof (rule prod_eqI)
  show "fst (morton_decode_chunk (morton_encode_chunk x y)) = fst (x, y)"
    by (rule bit_word_eqI) (simp add: bit_morton_decode_chunk bit_morton_encode_chunk)
  show "snd (morton_decode_chunk (morton_encode_chunk x y)) = snd (x, y)"
    by (rule bit_word_eqI) (simp add: bit_morton_decode_chunk bit_morton_encode_chunk)
qed

lemma morton_encode_decode_chunk:
  "morton_encode_chunk (fst (morton_decode_chunk c)) (snd (morton_decode_chunk c)) = c"
  by (rule bit_word_eqI) (auto simp: bit_morton_encode_chunk bit_morton_decode_chunk)

section \<open>Node keys\<close>

lemma leading_zeros_top:
  assumes "n < 64" and "bit w n" and "\<And>k. n < k \<Longrightarrow> \<not> bit w k"
  shows "leading_zeros w = 63 - n"
proof -
  have "rev [0..<64] = rev [Suc n..<64] @ n # rev [0..<n]"
  proof -
    have "[0..<64] = [0..<n] @ [n..<64]"
      using assms(1) by (intro upt_split) simp
    also have "[n..<64] = n # [Suc n..<64]"
      using assms(1) by (simp add: upt_conv_Cons)
    finally have "[0..<64] = [0..<n] @ n # [Suc n..<64]" .
    then show ?thesis by simp
  qed
  moreover have "takeWhile (\<lambda>i. \<not> bit w i) (rev [Suc n..<64] @ n # rev [0..<n]) = rev [Suc n..<64]"
    by (subst takeWhile_append2) (use assms in auto)
  ultimately show ?thesis by (simp add: leading_zeros_def)
qed

lemma bit_less_power:
  assumes "unat (x :: u32) < 2 ^ d" and "d \<le> k"
  shows "\<not> bit x k"
proof
  assume "bit x k"
  then have "bit (unat x) k" by (auto simp: bit_unsigned_iff dest: bit_imp_le_length)
  moreover have "unat x < 2 ^ k"
    using assms by (meson less_le_trans one_le_numeral power_increasing)
  ultimately show False by (simp add: bit_iff_odd)
qed

lemma bit_node_key:
  assumes "d \<le> 31" and "unat x < 2 ^ d" and "unat y < 2 ^ d"
  shows "bit (node_key x y d) k \<longleftrightarrow>
    k = 2 * d \<or> k < 2 * d \<and> (if even k then bit x (k div 2) else bit y (k div 2))"
proof -
  have "bit x (k div 2) \<longrightarrow> k < 2 * d" "bit y (k div 2) \<longrightarrow> k < 2 * d"
    using bit_less_power [OF assms(2), of "k div 2"] bit_less_power [OF assms(3), of "k div 2"]
    by linarith+
  then show ?thesis
    using assms(1) by (auto simp: node_key_def bit_or_iff bit_exp_iff bit_morton_encode_2d
        min_def split: if_splits)
qed

lemma node_key_depth_key:
  assumes "d \<le> 31" and "unat x < 2 ^ d" and "unat y < 2 ^ d"
  shows "node_key_depth (node_key x y d) = d"
proof -
  note b = bit_node_key [OF assms]
  have "bit (node_key x y d) (2 * d)" by (simp add: b)
  then have "node_key x y d \<noteq> 0" by auto
  moreover have "leading_zeros (node_key x y d) = 63 - 2 * d"
    by (rule leading_zeros_top) (use assms(1) in \<open>auto simp: b\<close>)
  ultimately show ?thesis using assms(1) by (simp add: node_key_depth_def)
qed

lemma node_key_xy_key:
  assumes "d \<le> 31" and "unat x < 2 ^ d" and "unat y < 2 ^ d"
  shows "node_key_xy (node_key x y d) = (x, y)"
proof (cases "d = 0")
  case True
  with assms have "x = 0" "y = 0" by (simp_all add: unsigned_eq_0_iff)
  with True show ?thesis using assms by (simp add: node_key_xy_def node_key_depth_key)
next
  case False
  have "node_key x y d AND (push_bit (2 * d) 1 - 1) = morton_encode_2d x y"
  proof (rule bit_word_eqI)
    fix k assume "k < LENGTH(64)"
    have m: "(push_bit (2 * d) 1 - 1 :: u64) = mask (2 * d)"
      by (simp add: mask_eq_exp_minus_1 push_bit_eq_mult)
    have "bit x (k div 2) \<longrightarrow> k < 2 * d" "bit y (k div 2) \<longrightarrow> k < 2 * d"
      using bit_less_power [OF assms(2), of "k div 2"] bit_less_power [OF assms(3), of "k div 2"]
      by linarith+
    then show "bit (node_key x y d AND (push_bit (2 * d) 1 - 1)) k = bit (morton_encode_2d x y) k"
      unfolding m using \<open>k < LENGTH(64)\<close>
      by (auto simp: bit_and_iff bit_mask_iff bit_node_key [OF assms] bit_morton_encode_2d split: if_splits)
  qed
  then show ?thesis
    using assms False by (simp add: node_key_xy_def node_key_depth_key morton_decode_encode_2d)
qed

text \<open>A child's parent is the node it came from, down to the depth the key can carry.\<close>

lemma unat_double_add:
  assumes "unat (x :: u32) < 2 ^ d" and "d \<le> 30" and "unat c < 2"
  shows "unat (x * 2 + c) = 2 * unat x + unat c" and "unat (x * 2 + c) < 2 ^ Suc d"
    and "(x * 2 + c) div 2 = x"
proof -
  have "(2 :: nat) ^ d \<le> 2 ^ 30" using assms(2) by (intro power_increasing) simp_all
  then have x: "unat x < 2 ^ 30" using assms(1) by linarith
  then have "unat (x * 2) = 2 * unat x" by (simp add: unat_word_ariths)
  then show u: "unat (x * 2 + c) = 2 * unat x + unat c"
    using x assms(3) by (simp add: unat_word_ariths)
  show "unat (x * 2 + c) < 2 ^ Suc d" unfolding u using assms(1,3) by simp
  show "(x * 2 + c) div 2 = x"
    by (rule word_unat_eq_iff [THEN iffD2]) (use assms(3) in \<open>simp add: unat_div u\<close>)
qed

lemma node_key_parent_of_child:
  assumes "d \<le> 30" and "unat x < 2 ^ d" and "unat y < 2 ^ d"
  shows "node_key_parent (node_key_child (node_key x y d) q) = Some (node_key x y d)"
proof -
  have d: "d \<le> 31" using assms(1) by simp
  obtain dx dy :: u32 where c: "unat dx < 2" "unat dy < 2"
    and child: "node_key_child (node_key x y d) q = node_key (x * 2 + dx) (y * 2 + dy) (Suc d)"
  proof -
    have "unat (1 :: u32) < 2" "unat (0 :: u32) < 2" by simp_all
    note step = that [OF this(1) this(1)] that [OF this(1) this(2)] that [OF this(2) this(1)]
      that [OF this(2) this(2)]
    note eval = node_key_child_def node_key_depth_key [OF d assms(2,3)]
      node_key_xy_key [OF d assms(2,3)] Let_def
    consider "q mod 4 = 0" | "q mod 4 = 1" | "q mod 4 = 2" | "q mod 4 \<notin> {0, 1, 2}" by auto
    then show thesis
    proof cases
      case 1 then show thesis by (intro step(4)) (simp add: eval)
    next
      case 2 then show thesis by (intro step(2)) (simp add: eval)
    next
      case 3 then show thesis by (intro step(3)) (simp add: eval)
    next
      case 4 then show thesis by (intro step(1)) (simp add: eval)
    qed
  qed
  note X = unat_double_add [OF assms(2,1) c(1)] and Y = unat_double_add [OF assms(3,1) c(2)]
  have "Suc d \<le> 31" using assms(1) by simp
  note key = node_key_depth_key [OF this X(2) Y(2)] node_key_xy_key [OF this X(2) Y(2)]
  show ?thesis
    unfolding child by (simp add: node_key_parent_def key X(3) Y(3))
qed

section \<open>Properties\<close>

text \<open>C23: the two Morton codes are bijections. Decoding an encoded pair of cells gives the pair, and
  encoding a decoded code gives the code, at 32 and at 16 bits per axis.\<close>

theorem morton_bijections:
  "morton_decode_2d (morton_encode_2d x y) = (x, y)
   \<and> (case morton_decode_2d m of (u, v) \<Rightarrow> morton_encode_2d u v = m)
   \<and> morton_decode_chunk (morton_encode_chunk a b) = (a, b)
   \<and> (case morton_decode_chunk c of (u, v) \<Rightarrow> morton_encode_chunk u v = c)"
  using morton_encode_decode_2d [of m] morton_encode_decode_chunk [of c]
  by (simp add: morton_decode_encode_2d morton_decode_encode_chunk case_prod_unfold)

text \<open>A node key identifies its node. For a cell inside the grid of its depth, the depth and the
  cell are read back from the key, so keys of different nodes differ, and below the depth limit
  every child key has the key as its parent.\<close>

theorem node_key_identifies:
  assumes "d \<le> 31" and "unat x < 2 ^ d" and "unat y < 2 ^ d"
  shows "node_key_depth (node_key x y d) = d \<and> node_key_xy (node_key x y d) = (x, y)
    \<and> (d \<le> 30 \<longrightarrow> (\<forall>q. node_key_parent (node_key_child (node_key x y d) q) = Some (node_key x y d)))"
  using node_key_depth_key [OF assms] node_key_xy_key [OF assms] node_key_parent_of_child [of d x y] assms(2,3)
  by simp

theorem node_key_identifies_witness:
  "node_key_depth (node_key 5 2 3) = 3 \<and> node_key_xy (node_key 5 2 3) = (5, 2)
   \<and> node_key_parent (node_key_child (node_key 5 2 3) 1) = Some (node_key 5 2 3)"
  using node_key_identifies [of 3 5 2] by simp

text \<open>The intersection of two boxes holds exactly the points of both, and is there exactly when
  they intersect.\<close>

theorem aabb_intersection_exact:
  assumes "aabb_ok a" and "aabb_ok b"
  shows "(aabb_intersection a b = None \<longleftrightarrow> \<not> aabb_intersects a b)
    \<and> (\<forall>x y. (aabb_contains a x y \<and> aabb_contains b x y) =
         (case aabb_intersection a b of None \<Rightarrow> False | Some c \<Rightarrow> aabb_contains c x y))"
  using aabb_intersection_intersects [OF assms] aabb_intersection_contains [OF assms] by blast

theorem aabb_intersection_exact_witness:
  "\<not> aabb_intersects \<lparr>min_x = 0, min_y = 0, max_x = 0, max_y = 0\<rparr>
      \<lparr>min_x = 0x3FF0000000000000, min_y = 0, max_x = 0x3FF0000000000000, max_y = 0\<rparr>"
proof -
  let ?a = "\<lparr>min_x = 0, min_y = 0, max_x = 0, max_y = 0\<rparr> :: aabb"
  let ?b = "\<lparr>min_x = 0x3FF0000000000000, min_y = 0, max_x = 0x3FF0000000000000, max_y = 0\<rparr> :: aabb"
  have "aabb_ok ?a" "aabb_ok ?b" "aabb_intersection ?a ?b = None"
    by (simp_all add: aabb_ok_def aabb_intersection_def f64_le_def f64_max_def f64_min_def f64_is_nan_def
        f64_exp_def f64_frac_def f64_order_def f64_neg_def f64_lt_def Let_def)
  with aabb_intersection_exact [of ?a ?b] show ?thesis by simp
qed

end
