(* ===== verification/Omf_Header.thy ===== *)
theory Omf_Header
  imports Omf_Table Omf_Geometry
begin

text \<open>
  The 128-byte header (\<open>crates/map-format/src/header.rs\<close>). The CRC-32 of \<open>crc32fast\<close> is the
  argument \<open>crc32\<close>, from a byte list to its checksum. The lemmas give the round trip of the
  header, with the bounds narrowed to \<open>f32\<close>, and which images are accepted.
\<close>

section \<open>The header\<close>

definition VERSION_MAJOR :: u16 where "VERSION_MAJOR = 1"
definition VERSION_MINOR :: u16 where "VERSION_MINOR = 0"
definition HEADER_MAGIC :: bytes where "HEADER_MAGIC = [0x4F, 0x4D, 0x46, 0]"

type_synonym header_flags = u32

definition HAS_PRM :: u32 where "HAS_PRM = push_bit 0 1"
definition HAS_ZSTD_DICT :: u32 where "HAS_ZSTD_DICT = push_bit 1 1"
definition HAS_KPATH_LIB :: u32 where "HAS_KPATH_LIB = push_bit 2 1"
definition HAS_REGIONS :: u32 where "HAS_REGIONS = push_bit 3 1"
definition HAS_VECTORS :: u32 where "HAS_VECTORS = push_bit 4 1"
definition DEBUG_DATA :: u32 where "DEBUG_DATA = push_bit 31 1"

definition flags_contains :: "header_flags \<Rightarrow> u32 \<Rightarrow> bool" where
  "flags_contains f b \<longleftrightarrow> f AND b \<noteq> 0"

definition flags_insert :: "u32 \<Rightarrow> header_flags \<Rightarrow> header_flags" where
  "flags_insert b f = f OR b"

definition flags_remove :: "u32 \<Rightarrow> header_flags \<Rightarrow> header_flags" where
  "flags_remove b f = f AND NOT b"

record header =
  h_version_major :: u16
  h_version_minor :: u16
  h_flags :: header_flags
  h_ref_lon :: f64
  h_ref_lat :: f64
  h_epsg :: u32
  h_bounds :: aabb
  h_base_res_cm :: u16
  h_chunk_size :: u16
  h_lod_count :: u8
  h_feature_dim :: u8
  h_layer_count :: u16
  h_meta_offset :: u64
  h_meta_len :: u32
  h_dir_offset :: u64
  h_dir_len :: u32
  h_footer_offset :: u64
  h_ext_meta_offset :: u64
  h_ext_meta_len :: u32

definition header_default :: header where
  "header_default =
     \<lparr>h_version_major = VERSION_MAJOR, h_version_minor = VERSION_MINOR, h_flags = 0,
      h_ref_lon = 0, h_ref_lat = 0, h_epsg = 0, h_bounds = aabb_new 0 0 0 0,
      h_base_res_cm = 50, h_chunk_size = 256, h_lod_count = 1, h_feature_dim = 0,
      h_layer_count = 0, h_meta_offset = 0, h_meta_len = 0, h_dir_offset = 0, h_dir_len = 0,
      h_footer_offset = 0, h_ext_meta_offset = 0, h_ext_meta_len = 0\<rparr>"

definition f64_hundred :: f64 where "f64_hundred = 0x4059000000000000"

definition header_base_res_m :: "header \<Rightarrow> f64" where
  "header_base_res_m h = f64_div (f64_of_nat (unat (h_base_res_cm h))) f64_hundred"

definition header_fields :: "header \<Rightarrow> (bytes \<Rightarrow> bytes result) list" where
  "header_fields h =
     [\<lambda>b. put_slice b 0 HEADER_MAGIC,
      \<lambda>b. put_u16 b 4 (h_version_major h),
      \<lambda>b. put_u16 b 6 (h_version_minor h),
      \<lambda>b. put_u32 b 8 (h_flags h),
      \<lambda>b. put_f64 b 12 (h_ref_lon h),
      \<lambda>b. put_f64 b 20 (h_ref_lat h),
      \<lambda>b. put_u32 b 28 (h_epsg h),
      \<lambda>b. put_f32 b 32 (f64_to_f32 (min_x (h_bounds h))),
      \<lambda>b. put_f32 b 36 (f64_to_f32 (min_y (h_bounds h))),
      \<lambda>b. put_f32 b 40 (f64_to_f32 (max_x (h_bounds h))),
      \<lambda>b. put_f32 b 44 (f64_to_f32 (max_y (h_bounds h))),
      \<lambda>b. put_u16 b 48 (h_base_res_cm h),
      \<lambda>b. put_u16 b 50 (h_chunk_size h),
      \<lambda>b. put_u8 b 52 (h_lod_count h),
      \<lambda>b. put_u8 b 53 (h_feature_dim h),
      \<lambda>b. put_u16 b 54 (h_layer_count h),
      \<lambda>b. put_u64 b 56 (h_meta_offset h),
      \<lambda>b. put_u32 b 64 (h_meta_len h),
      \<lambda>b. put_u64 b 68 (h_dir_offset h),
      \<lambda>b. put_u32 b 76 (h_dir_len h),
      \<lambda>b. put_u64 b 80 (h_footer_offset h),
      \<lambda>b. put_u64 b 88 (h_ext_meta_offset h),
      \<lambda>b. put_u32 b 96 (h_ext_meta_len h)]"

definition header_to_bytes :: "(bytes \<Rightarrow> u32) \<Rightarrow> header \<Rightarrow> bytes" where
  "header_to_bytes crc32 h =
     (let buf = puts_try (header_fields h) (replicate 128 0);
          crc = crc32 (take 100 buf)
      in puts [\<lambda>b. put_u32 b 100 crc] buf)"

definition header_from_bytes :: "(bytes \<Rightarrow> u32) \<Rightarrow> bytes \<Rightarrow> header result" where
  "header_from_bytes crc32 buf =
     (if length buf < 128 then Inl (Truncated 0 128 (length buf))
      else
        rbind (get_bytes 4 buf 0) (\<lambda>magic.
        if magic \<noteq> HEADER_MAGIC then Inl (BadMagic HEADER_MAGIC magic)
        else
        rbind (get_u16 buf 4) (\<lambda>version_major.
        if version_major \<noteq> VERSION_MAJOR
        then Inl (UnsupportedVersion version_major VERSION_MAJOR)
        else
        rbind (get_u32 buf 100) (\<lambda>stored_crc.
        let computed_crc = crc32 (take 100 buf) in
        if stored_crc \<noteq> computed_crc then Inl (HeaderCrc stored_crc computed_crc)
        else
        rbind (get_u16 buf 6) (\<lambda>version_minor.
        rbind (get_u32 buf 8) (\<lambda>flags.
        rbind (get_f64 buf 12) (\<lambda>ref_lon.
        rbind (get_f64 buf 20) (\<lambda>ref_lat.
        rbind (get_u32 buf 28) (\<lambda>epsg.
        rbind (get_f32 buf 32) (\<lambda>x0.
        rbind (get_f32 buf 36) (\<lambda>y0.
        rbind (get_f32 buf 40) (\<lambda>x1.
        rbind (get_f32 buf 44) (\<lambda>y1.
        rbind (get_u16 buf 48) (\<lambda>base_res_cm.
        rbind (get_u16 buf 50) (\<lambda>chunk_size.
        rbind (get_u8 buf 52) (\<lambda>lod_count.
        rbind (get_u8 buf 53) (\<lambda>feature_dim.
        rbind (get_u16 buf 54) (\<lambda>layer_count.
        rbind (get_u64 buf 56) (\<lambda>meta_offset.
        rbind (get_u32 buf 64) (\<lambda>meta_len.
        rbind (get_u64 buf 68) (\<lambda>dir_offset.
        rbind (get_u32 buf 76) (\<lambda>dir_len.
        rbind (get_u64 buf 80) (\<lambda>footer_offset.
        rbind (get_u64 buf 88) (\<lambda>ext_meta_offset.
        rbind (get_u32 buf 96) (\<lambda>ext_meta_len.
          Inr \<lparr>h_version_major = version_major, h_version_minor = version_minor,
               h_flags = flags, h_ref_lon = ref_lon, h_ref_lat = ref_lat, h_epsg = epsg,
               h_bounds = aabb_new (f32_to_f64 x0) (f32_to_f64 y0) (f32_to_f64 x1) (f32_to_f64 y1),
               h_base_res_cm = base_res_cm, h_chunk_size = chunk_size, h_lod_count = lod_count,
               h_feature_dim = feature_dim, h_layer_count = layer_count,
               h_meta_offset = meta_offset, h_meta_len = meta_len, h_dir_offset = dir_offset,
               h_dir_len = dir_len, h_footer_offset = footer_offset,
               h_ext_meta_offset = ext_meta_offset, h_ext_meta_len = ext_meta_len\<rparr>)))))))))))))))))))))))))"

definition header_body :: "header \<Rightarrow> bytes" where
  "header_body h =
     HEADER_MAGIC @ le_bytes 2 (h_version_major h) @ le_bytes 2 (h_version_minor h)
     @ le_bytes 4 (h_flags h) @ le_bytes 8 (h_ref_lon h) @ le_bytes 8 (h_ref_lat h)
     @ le_bytes 4 (h_epsg h)
     @ le_bytes 4 (f64_to_f32 (min_x (h_bounds h))) @ le_bytes 4 (f64_to_f32 (min_y (h_bounds h)))
     @ le_bytes 4 (f64_to_f32 (max_x (h_bounds h))) @ le_bytes 4 (f64_to_f32 (max_y (h_bounds h)))
     @ le_bytes 2 (h_base_res_cm h) @ le_bytes 2 (h_chunk_size h) @ [h_lod_count h, h_feature_dim h]
     @ le_bytes 2 (h_layer_count h) @ le_bytes 8 (h_meta_offset h) @ le_bytes 4 (h_meta_len h)
     @ le_bytes 8 (h_dir_offset h) @ le_bytes 4 (h_dir_len h) @ le_bytes 8 (h_footer_offset h)
     @ le_bytes 8 (h_ext_meta_offset h) @ le_bytes 4 (h_ext_meta_len h)"

lemma length_header_body: "length (header_body h) = 100"
  by (simp add: header_body_def HEADER_MAGIC_def)

lemma header_fields_layout: "puts_try (header_fields h) (replicate 128 0) = layout (header_body h) 28"
  by (simp add: header_fields_def header_body_def layout_simps HEADER_MAGIC_def)

lemma header_layout:
  "header_to_bytes crc32 h = layout (header_body h @ le_bytes 4 (crc32 (header_body h))) 24"
  unfolding header_to_bytes_def header_fields_layout Let_def
  by (simp add: layout_simps length_header_body) (simp add: layout_def length_header_body)

text \<open>The bounds a header carries after a round trip: narrowed to \<open>f32\<close> and put in order.\<close>

definition f32_round :: "f64 \<Rightarrow> f64" where
  "f32_round x = f32_to_f64 (f64_to_f32 x)"

definition stored_bounds :: "aabb \<Rightarrow> aabb" where
  "stored_bounds b = aabb_new (f32_round (min_x b)) (f32_round (min_y b))
                              (f32_round (max_x b)) (f32_round (max_y b))"

lemma header_from_to:
  assumes "h_version_major h = VERSION_MAJOR"
  shows "header_from_bytes crc32 (header_to_bytes crc32 h @ rest) =
    Inr (h\<lparr>h_bounds := stored_bounds (h_bounds h)\<rparr>)"
proof -
  have crc: "take 100 (header_to_bytes crc32 h @ rest) = header_body h"
    by (simp add: header_layout layout_def length_header_body)
  have "length (header_to_bytes crc32 h @ rest) = 128 + length rest"
    by (simp add: header_layout layout_def length_header_body)
  then show ?thesis
    unfolding header_from_bytes_def crc
    using assms
    by (simp add: header_layout header_body_def HEADER_MAGIC_def stored_bounds_def f32_round_def
        field_reads cong: rbind_cong)
qed

text \<open>The images that parse: long enough, with the magic, the version and the checksum.\<close>

definition header_image_ok :: "(bytes \<Rightarrow> u32) \<Rightarrow> bytes \<Rightarrow> bool" where
  "header_image_ok crc32 buf \<longleftrightarrow>
     128 \<le> length buf \<and> take 4 buf = HEADER_MAGIC
     \<and> le_value (take 2 (drop 4 buf)) = VERSION_MAJOR
     \<and> le_value (take 4 (drop 100 buf)) = crc32 (take 100 buf)"

lemma header_accepts:
  assumes "length buf < usize_limit"
  shows "is_ok (header_from_bytes crc32 buf) \<longleftrightarrow> header_image_ok crc32 buf"
  using assms unfolding header_from_bytes_def header_image_ok_def
  by (simp add: field_reads Let_def cong: rbind_cong)

definition header_wf :: "header \<Rightarrow> bool" where
  "header_wf h \<longleftrightarrow> h_version_major h = VERSION_MAJOR \<and> stored_bounds (h_bounds h) = h_bounds h"

interpretation header_record:
  fixed_record 128 "header_to_bytes crc32" "header_from_bytes crc32" header_wf
  for crc32 :: "bytes \<Rightarrow> u32"
proof unfold_locales
  show "length (header_to_bytes crc32 h) = 128" for h
    by (simp add: header_layout layout_def length_header_body)
  show "header_wf h \<Longrightarrow> header_from_bytes crc32 (header_to_bytes crc32 h @ rest) = Inr h" for h rest
    by (subst header_from_to) (simp_all add: header_wf_def)
  show "length bs < 128 \<Longrightarrow> header_from_bytes crc32 bs = Inl (Truncated 0 128 (length bs))" for bs
    by (simp add: header_from_bytes_def)
qed simp

text \<open>What a parse returns is again a header that survives a round trip, unless a bound is NaN.\<close>

lemma f32_round_widen: "\<not> f32_is_nan w \<Longrightarrow> f32_round (f32_to_f64 w) = f32_to_f64 w"
  by (simp add: f32_round_def f32_widen_narrow)

section \<open>Properties\<close>

text \<open>C18: a header is read back from its 128 bytes, whatever follows them, with every field as it was
  except the bounds, which come back narrowed to \<open>f32\<close> and in order.\<close>

theorem header_roundtrip:
  assumes "h_version_major h = VERSION_MAJOR"
  shows "header_from_bytes crc32 (header_to_bytes crc32 h @ rest) =
    Inr (h\<lparr>h_bounds := stored_bounds (h_bounds h)\<rparr>)"
  using assms by (rule header_from_to)

theorem header_roundtrip_witness:
  "header_from_bytes (\<lambda>_. 7) (header_to_bytes (\<lambda>_. 7) header_default @ [1, 2]) =
    Inr (header_default\<lparr>h_bounds := stored_bounds (h_bounds header_default)\<rparr>)"
  by (rule header_roundtrip) (simp add: header_default_def)

text \<open>The reader accepts a header exactly when the buffer holds 128 bytes, starts with the magic,
  has the supported major version, and stores the checksum of its first 100 bytes. Any corruption the
  checksum detects is refused.\<close>

theorem header_acceptance:
  assumes "length buf < usize_limit"
  shows "is_ok (header_from_bytes crc32 buf) \<longleftrightarrow>
    128 \<le> length buf \<and> take 4 buf = HEADER_MAGIC \<and> le_value (take 2 (drop 4 buf)) = VERSION_MAJOR
    \<and> le_value (take 4 (drop 100 buf)) = crc32 (take 100 buf)"
  using header_accepts [OF assms, of crc32] by (simp add: header_image_ok_def)

theorem header_acceptance_witness: "\<not> is_ok (header_from_bytes (\<lambda>_. 7) (replicate 128 0))"
  by (subst header_acceptance) (simp_all add: HEADER_MAGIC_def)

end
