(* ===== verification/Omf_Footer.thy ===== *)
theory Omf_Footer
  imports Omf_Header
begin

text \<open>
  The 64-byte footer and the whole-file hash (\<open>crates/map-format/src/footer.rs\<close>). The XXH3-128
  digest of \<open>twox_hash\<close> is the argument \<open>xxh128\<close>; its streaming form is the digest of the
  concatenation of what was written. The lemmas give the round trip, which images are accepted,
  and what the hash covers: every byte but the last sixteen, so that storing it does not change it.
\<close>

section \<open>The footer\<close>

definition FOOTER_MAGIC :: bytes where "FOOTER_MAGIC = [0x4F, 0x4D, 0x46, 0x46]"

record footer =
  f_version_major :: u16
  f_version_minor :: u16
  f_flags :: header_flags
  f_dir_len :: u32
  f_dir_offset :: u64
  f_dir_record_count :: u32
  f_chunk_count :: u32
  f_node_count :: u32
  f_layer_count :: u32
  f_file_len :: u64
  f_file_hash :: bytes

definition footer_default :: footer where
  "footer_default =
     \<lparr>f_version_major = VERSION_MAJOR, f_version_minor = 0, f_flags = 0, f_dir_len = 0,
      f_dir_offset = 0, f_dir_record_count = 0, f_chunk_count = 0, f_node_count = 0,
      f_layer_count = 0, f_file_len = 0, f_file_hash = replicate 16 0\<rparr>"

definition footer_to_bytes :: "footer \<Rightarrow> bytes" where
  "footer_to_bytes f =
     puts_try [\<lambda>b. put_slice b 0 FOOTER_MAGIC,
               \<lambda>b. put_u16 b 4 (f_version_major f),
               \<lambda>b. put_u16 b 6 (f_version_minor f),
               \<lambda>b. put_u32 b 8 (f_flags f),
               \<lambda>b. put_u32 b 12 (f_dir_len f),
               \<lambda>b. put_u64 b 16 (f_dir_offset f),
               \<lambda>b. put_u32 b 24 (f_dir_record_count f),
               \<lambda>b. put_u32 b 28 (f_chunk_count f),
               \<lambda>b. put_u32 b 32 (f_node_count f),
               \<lambda>b. put_u32 b 36 (f_layer_count f),
               \<lambda>b. put_u64 b 40 (f_file_len f),
               \<lambda>b. put_slice b 48 (f_file_hash f)]
       (replicate 64 0)"

definition footer_from_bytes :: "bytes \<Rightarrow> footer result" where
  "footer_from_bytes buf =
     (if length buf < 64 then Inl (Truncated 0 64 (length buf))
      else
        rbind (get_bytes 4 buf 0) (\<lambda>magic.
        if magic \<noteq> FOOTER_MAGIC then Inl (BadMagic FOOTER_MAGIC magic)
        else
        rbind (get_u16 buf 4) (\<lambda>version_major.
        if version_major \<noteq> VERSION_MAJOR
        then Inl (UnsupportedVersion version_major VERSION_MAJOR)
        else
        rbind (get_u16 buf 6) (\<lambda>version_minor.
        rbind (get_u32 buf 8) (\<lambda>flags.
        rbind (get_u32 buf 12) (\<lambda>dir_len.
        rbind (get_u64 buf 16) (\<lambda>dir_offset.
        rbind (get_u32 buf 24) (\<lambda>dir_record_count.
        rbind (get_u32 buf 28) (\<lambda>chunk_count.
        rbind (get_u32 buf 32) (\<lambda>node_count.
        rbind (get_u32 buf 36) (\<lambda>layer_count.
        rbind (get_u64 buf 40) (\<lambda>file_len.
        rbind (get_bytes 16 buf 48) (\<lambda>file_hash.
          Inr \<lparr>f_version_major = version_major, f_version_minor = version_minor,
               f_flags = flags, f_dir_len = dir_len, f_dir_offset = dir_offset,
               f_dir_record_count = dir_record_count, f_chunk_count = chunk_count,
               f_node_count = node_count, f_layer_count = layer_count,
               f_file_len = file_len, f_file_hash = file_hash\<rparr>)))))))))))))"

definition footer_wf :: "footer \<Rightarrow> bool" where
  "footer_wf f \<longleftrightarrow> f_version_major f = VERSION_MAJOR \<and> length (f_file_hash f) = 16"

section \<open>The file hash\<close>

definition body_digest_from :: "(bytes \<Rightarrow> 128 word) \<Rightarrow> bytes \<Rightarrow> usize \<Rightarrow> bytes" where
  "body_digest_from xxh128 bs start =
     (let start = min start (length bs) in le_bytes 16 (xxh128 (drop start bs)))"

definition body_digest :: "(bytes \<Rightarrow> 128 word) \<Rightarrow> bytes \<Rightarrow> bytes" where
  "body_digest xxh128 file =
     (let start = min 128 (length file);
          end = max (length file - 16) start
      in body_digest_from xxh128 (take end file) start)"

definition hash64 :: "bytes \<Rightarrow> u64" where
  "hash64 hash = le_value (take 8 hash)"

definition compose_file_hash :: "(bytes \<Rightarrow> 128 word) \<Rightarrow> bytes \<Rightarrow> bytes \<Rightarrow> bytes" where
  "compose_file_hash xxh128 hdr body = le_bytes 16 (xxh128 (hdr @ body))"

definition compute_file_hash :: "(bytes \<Rightarrow> 128 word) \<Rightarrow> bytes \<Rightarrow> bytes" where
  "compute_file_hash xxh128 file =
     (let len = min (length file) 128;
          hdr = take len file @ drop len (replicate 128 0)
      in compose_file_hash xxh128 hdr (body_digest xxh128 file))"

definition footer_seal :: "(bytes \<Rightarrow> 128 word) \<Rightarrow> footer \<Rightarrow> bytes \<Rightarrow> footer result" where
  "footer_seal xxh128 f file =
     (if length file < 64 then Inl (invalid ''file too small to contain a footer'')
      else Inr (f\<lparr>f_file_len := word_of_nat (length file),
                  f_file_hash := compute_file_hash xxh128 file\<rparr>))"

definition footer_verify :: "(bytes \<Rightarrow> 128 word) \<Rightarrow> footer \<Rightarrow> bytes \<Rightarrow> unit result" where
  "footer_verify xxh128 f file =
     (if word_of_nat (length file) \<noteq> f_file_len f
      then Inl (invalid (''file length '' @ show_nat (length file)
                 @ '' does not match footer record '' @ show_nat (unat (f_file_len f))))
      else let computed = compute_file_hash xxh128 file
           in if computed \<noteq> f_file_hash f then Inl (FileHash (f_file_hash f) computed)
              else Inr ())"

section \<open>Round trip\<close>

lemma footer_layout:
  "length (f_file_hash f) = 16 \<Longrightarrow>
   footer_to_bytes f =
     layout (FOOTER_MAGIC @ le_bytes 2 (f_version_major f) @ le_bytes 2 (f_version_minor f)
       @ le_bytes 4 (f_flags f) @ le_bytes 4 (f_dir_len f) @ le_bytes 8 (f_dir_offset f)
       @ le_bytes 4 (f_dir_record_count f) @ le_bytes 4 (f_chunk_count f)
       @ le_bytes 4 (f_node_count f) @ le_bytes 4 (f_layer_count f) @ le_bytes 8 (f_file_len f)
       @ f_file_hash f) 0"
  by (simp add: footer_to_bytes_def layout_simps FOOTER_MAGIC_def)

lemma footer_from_to:
  "footer_wf f \<Longrightarrow> footer_from_bytes (footer_to_bytes f @ rest) = Inr f"
  unfolding footer_wf_def footer_from_bytes_def
  by (simp add: footer_layout field_reads FOOTER_MAGIC_def cong: rbind_cong)

definition footer_image_ok :: "bytes \<Rightarrow> bool" where
  "footer_image_ok buf \<longleftrightarrow>
     64 \<le> length buf \<and> take 4 buf = FOOTER_MAGIC \<and> le_value (take 2 (drop 4 buf)) = VERSION_MAJOR"

lemma footer_accepts:
  "length buf < usize_limit \<Longrightarrow> is_ok (footer_from_bytes buf) \<longleftrightarrow> footer_image_ok buf"
  unfolding footer_from_bytes_def footer_image_ok_def
  by (simp add: field_reads Let_def cong: rbind_cong)

interpretation footer_record:
  fixed_record 64 footer_to_bytes footer_from_bytes footer_wf
proof unfold_locales
  show "length (footer_to_bytes f) = 64" for f
    unfolding footer_to_bytes_def
    by (subst length_puts_try) (simp_all add: put_defs put_slice_length)
  show "footer_wf f \<Longrightarrow> footer_from_bytes (footer_to_bytes f @ rest) = Inr f" for f rest
    by (rule footer_from_to)
  show "length bs < 64 \<Longrightarrow> footer_from_bytes bs = Inl (Truncated 0 64 (length bs))" for bs
    by (simp add: footer_from_bytes_def)
qed simp

section \<open>What the hash covers\<close>

lemma length_compute_file_hash [simp]: "length (compute_file_hash xxh128 file) = 16"
  by (simp add: compute_file_hash_def compose_file_hash_def Let_def)

text \<open>For a file that holds a header and a hash field, the hash is the digest of the header
  followed by the digest of everything between the two.\<close>

lemma compute_file_hash_parts:
  assumes "length hdr = 128" and "length h = 16"
  shows "compute_file_hash xxh128 (hdr @ body @ h) =
    le_bytes 16 (xxh128 (hdr @ le_bytes 16 (xxh128 body)))"
  using assms
  by (simp add: compute_file_hash_def compose_file_hash_def body_digest_def body_digest_from_def
      Let_def)

lemma compute_file_hash_ignores_field:
  assumes "144 \<le> length file" and "length h = 16"
  shows "compute_file_hash xxh128 (take (length file - 16) file @ h) = compute_file_hash xxh128 file"
proof -
  define hdr body tail where "hdr = take 128 file" and "body = take (length file - 144) (drop 128 file)"
    and "tail = drop (length file - 16) file"
  have len: "length hdr = 128" "length tail = 16" using assms(1) by (simp_all add: hdr_def tail_def)
  have pre: "take (length file - 16) file = hdr @ body"
  proof -
    have "length file - 16 = 128 + (length file - 144)" using assms(1) by simp
    then show ?thesis by (simp only: hdr_def body_def take_add)
  qed
  then have "file = hdr @ body @ tail"
    by (metis append.assoc append_take_drop_id tail_def)
  then show ?thesis
    unfolding pre using len assms(2) by (metis append.assoc compute_file_hash_parts)
qed

lemma footer_seal_verify:
  assumes "footer_seal xxh128 f file = Inr f'" and "144 \<le> length file"
  shows "footer_verify xxh128 f' (take (length file - 16) file @ f_file_hash f') = Inr ()"
proof -
  have f': "f' = f\<lparr>f_file_len := word_of_nat (length file), f_file_hash := compute_file_hash xxh128 file\<rparr>"
    using assms by (auto simp: footer_seal_def split: if_splits)
  have "length (take (length file - 16) file @ f_file_hash f') = length file"
    using assms(2) by (simp add: f')
  then show ?thesis
    using compute_file_hash_ignores_field [OF assms(2), of "f_file_hash f'" xxh128]
    by (simp add: footer_verify_def f')
qed

section \<open>Properties\<close>

text \<open>C15: a sealed footer verifies. For a file that holds a header and a hash field, writing the hash
  \<open>seal\<close> computed into the last 16 bytes gives a file that \<open>verify\<close> accepts.\<close>

theorem footer_sealed_verifies:
  assumes "footer_seal xxh128 f file = Inr f'" and "144 \<le> length file"
  shows "footer_verify xxh128 f' (take (length file - 16) file @ f_file_hash f') = Inr ()"
  using assms by (rule footer_seal_verify)

theorem footer_sealed_verifies_witness:
  "footer_verify (\<lambda>bs. word_of_nat (length bs))
     (footer_default\<lparr>f_file_len := 144, f_file_hash := compute_file_hash (\<lambda>bs. word_of_nat (length bs)) (replicate 144 1)\<rparr>)
     (take (length (replicate 144 (1::u8)) - 16) (replicate 144 1)
       @ f_file_hash (footer_default\<lparr>f_file_len := 144, f_file_hash := compute_file_hash (\<lambda>bs. word_of_nat (length bs)) (replicate 144 1)\<rparr>))
   = Inr ()"
  by (rule footer_sealed_verifies [where f = footer_default]) (simp_all add: footer_seal_def)

text \<open>What the file hash covers. For a file of a header, a body and a hash field, it is the digest
  of the header followed by the digest of the body: it depends on every byte but those of the field, and
  never on the field itself.\<close>

theorem file_hash_covers:
  assumes "length hdr = 128" and "length h = 16"
  shows "compute_file_hash xxh128 (hdr @ body @ h) = compose_file_hash xxh128 hdr (le_bytes 16 (xxh128 body))"
  using compute_file_hash_parts [OF assms] by (simp add: compose_file_hash_def)

theorem file_hash_covers_witness:
  "compute_file_hash (\<lambda>bs. word_of_nat (length bs)) (replicate 128 1 @ [2, 3] @ replicate 16 9)
     = compose_file_hash (\<lambda>bs. word_of_nat (length bs)) (replicate 128 1) (le_bytes 16 (2 :: 128 word))"
  by (subst file_hash_covers) simp_all

end
