(* ===== verification/Omf_Tlv.thy ===== *)
theory Omf_Tlv
  imports Omf_Table
begin

text \<open>
  The metadata block (\<open>crates/map-format/src/tlv/mod.rs\<close>): tag, length and value records in file
  order. \<open>tlv_value\<close> is the contract of the trait \<open>TlvValue\<close>, which the payload types of
  \<open>Omf_Values\<close> interpret. The lemmas show that a block survives being written and parsed, that
  parsing loses no byte whatever the tags, and that \<open>set\<close>, \<open>remove\<close> and \<open>get\<close> are those of a
  table keyed by the tag. The length field is 32 bits wide and the writer narrows to it without a
  check, so the round trip is about values below 4 GiB.
\<close>

section \<open>Records and the value contract\<close>

definition NS_CORE :: u8 where "NS_CORE = 0x00"
definition NS_EXPERIMENTAL :: u8 where "NS_EXPERIMENTAL = 0x01"
definition NS_COMMUNITY_START :: u8 where "NS_COMMUNITY_START = 0x10"
definition NS_VENDOR_START :: u8 where "NS_VENDOR_START = 0x80"
definition NS_DEBUG :: u8 where "NS_DEBUG = 0xFF"

definition namespace_of :: "u32 \<Rightarrow> u8" where
  "namespace_of tag = ucast (drop_bit 24 tag)"

definition TAG_MAP_INFO :: u32 where "TAG_MAP_INFO = 0x00000001"
definition TAG_LAYER_TABLE :: u32 where "TAG_LAYER_TABLE = 0x00000002"
definition TAG_FEATURE_SCHEMA :: u32 where "TAG_FEATURE_SCHEMA = 0x00000003"
definition TAG_WEIGHT_PRIOR :: u32 where "TAG_WEIGHT_PRIOR = 0x00000004"
definition TAG_SLOPE_MODEL :: u32 where "TAG_SLOPE_MODEL = 0x00000005"
definition TAG_CONNECTOR_TABLE :: u32 where "TAG_CONNECTOR_TABLE = 0x00000006"
definition TAG_ZSTD_DICT :: u32 where "TAG_ZSTD_DICT = 0x00000007"
definition TAG_PROVENANCE :: u32 where "TAG_PROVENANCE = 0x00000008"
definition TAG_MAGNETIC_FIELD :: u32 where "TAG_MAGNETIC_FIELD = 0x00000009"
definition TAG_PRM_SEEDS :: u32 where "TAG_PRM_SEEDS = 0x0000000A"
definition TAG_CHUNK_LAYOUT :: u32 where "TAG_CHUNK_LAYOUT = 0x0000000B"
definition TAG_GLOBAL_STATS :: u32 where "TAG_GLOBAL_STATS = 0x0000000C"
definition TAG_AGGREGATION_RULES :: u32 where "TAG_AGGREGATION_RULES = 0x0000000D"
definition TAG_DERIVED_LAYERS :: u32 where "TAG_DERIVED_LAYERS = 0x0000000E"

record tlv_record =
  tlv_tag :: u32
  tlv_val :: bytes

definition tlv_record_new :: "u32 \<Rightarrow> bytes \<Rightarrow> tlv_record" where
  "tlv_record_new tag v = \<lparr>tlv_tag = tag, tlv_val = v\<rparr>"

definition tlv_record_encode :: "('a \<Rightarrow> bytes) \<Rightarrow> u32 \<Rightarrow> 'a \<Rightarrow> tlv_record" where
  "tlv_record_encode enc tag v = \<lparr>tlv_tag = tag, tlv_val = enc v\<rparr>"

definition tlv_record_decode :: "(bytes \<Rightarrow> 'a result) \<Rightarrow> tlv_record \<Rightarrow> 'a result" where
  "tlv_record_decode dec r = dec (tlv_val r)"

section \<open>Blocks\<close>

type_synonym tlv_block = "tlv_record list"

definition tlv_push :: "tlv_record \<Rightarrow> tlv_block \<Rightarrow> tlv_block" where
  "tlv_push r b = b @ [r]"

definition tlv_set :: "tlv_record \<Rightarrow> tlv_block \<Rightarrow> tlv_block" where
  "tlv_set r b = replace_or_push (\<lambda>x. tlv_tag x = tlv_tag r) r b"

definition tlv_remove :: "u32 \<Rightarrow> tlv_block \<Rightarrow> nat \<times> tlv_block" where
  "tlv_remove tag b =
     (let kept = filter (\<lambda>r. tlv_tag r \<noteq> tag) b in (length b - length kept, kept))"

definition tlv_get :: "tlv_block \<Rightarrow> u32 \<Rightarrow> tlv_record option" where
  "tlv_get b tag = find (\<lambda>r. tlv_tag r = tag) b"

definition tlv_get_as :: "(bytes \<Rightarrow> 'a result) \<Rightarrow> tlv_block \<Rightarrow> u32 \<Rightarrow> 'a option result" where
  "tlv_get_as dec b tag =
     (case tlv_get b tag of
        None \<Rightarrow> Inr None
      | Some r \<Rightarrow> rmap Some (tlv_record_decode dec r))"

definition tlv_require :: "(bytes \<Rightarrow> 'a result) \<Rightarrow> tlv_block \<Rightarrow> u32 \<Rightarrow> string \<Rightarrow> 'a result" where
  "tlv_require dec b tag nm =
     rbind (ok_or (MissingTlv tag nm) (tlv_get b tag)) (tlv_record_decode dec)"

definition tlv_all :: "tlv_block \<Rightarrow> u32 \<Rightarrow> tlv_record list" where
  "tlv_all b tag = filter (\<lambda>r. tlv_tag r = tag) b"

definition tlv_to_bytes :: "tlv_block \<Rightarrow> bytes" where
  "tlv_to_bytes b =
     write_each (\<lambda>r. write_seq [write_u32 (tlv_tag r), write_u32 (word_of_nat (length (tlv_val r))),
                                write_bytes (tlv_val r)]) b []"

definition read_tlv :: "tlv_record rd" where
  "read_tlv =
     rd_bind read_u32 (\<lambda>tag.
     rd_bind read_u32 (\<lambda>len.
     rd_bind (read_bytes (unat len)) (\<lambda>v.
       rd_return \<lparr>tlv_tag = tag, tlv_val = v\<rparr>)))"

text \<open>A read that succeeds leaves the buffer and moves forward inside it.\<close>

lemma get_u32_Inr:
  assumes "get_u32 buf p = Inr v"
  shows "p + 4 \<le> length buf" and "le_bytes 4 v = take 4 (drop p buf)"
  using assms by (auto simp: get_u32_def slice_def usize_checked_add_def rbind_Inr_iff split: if_splits)

lemma read_tlv_Inr:
  assumes "read_tlv r = Inr (x, r')"
  shows "rd_buf r' = rd_buf r" and "rd_pos r' = rd_pos r + 8 + length (tlv_val x)"
    and "rd_pos r' \<le> length (rd_buf r)"
    and "take (8 + length (tlv_val x)) (drop (rd_pos r) (rd_buf r)) =
      le_bytes 4 (tlv_tag x) @ le_bytes 4 (word_of_nat (length (tlv_val x)) :: u32) @ tlv_val x"
proof -
  define p buf where "p = rd_pos r" and "buf = rd_buf r"
  obtain tag len where t: "get_u32 buf p = Inr tag" and l: "get_u32 buf (p + 4) = Inr len"
    and b: "8 + p + unat len \<le> length buf"
    and x: "x = \<lparr>tlv_tag = tag, tlv_val = take (unat len) (drop (8 + p) buf)\<rparr>"
    and r': "r' = r\<lparr>rd_pos := 8 + p + unat len\<rparr>"
    using assms
    by (auto simp: read_tlv_def rd_bind_def rd_return_def rbind_Inr_iff read_u32_def read_bytes_def
        usize_checked_add_def p_def buf_def split: if_splits)
  have len: "length (tlv_val x) = unat len" using b by (simp add: x)
  show "rd_buf r' = rd_buf r" "rd_pos r' = rd_pos r + 8 + length (tlv_val x)"
    "rd_pos r' \<le> length (rd_buf r)"
    using b len by (simp_all add: r' p_def buf_def)
  have "take (8 + unat len) (drop p buf) =
      take 4 (drop p buf) @ take 4 (drop (p + 4) buf) @ take (unat len) (drop (8 + p) buf)"
    using take_add [of 4 "4 + unat len" "drop p buf"] take_add [of 4 "unat len" "drop (p + 4) buf"]
    by (simp add: add.commute add.left_commute)
  then show "take (8 + length (tlv_val x)) (drop (rd_pos r) (rd_buf r)) =
      le_bytes 4 (tlv_tag x) @ le_bytes 4 (word_of_nat (length (tlv_val x)) :: u32) @ tlv_val x"
    unfolding len using get_u32_Inr(2) [OF t] get_u32_Inr(2) [OF l] by (simp add: x p_def buf_def)
qed

function read_records :: "reader \<Rightarrow> tlv_record list \<Rightarrow> tlv_record list result" where
  "read_records r records =
     (if remaining r > 0 then
        if remaining r < 8
        then Inl (invalid (''trailing '' @ show_nat (remaining r)
                   @ '' byte(s) in TLV block are too short for a header''))
        else case read_tlv r of
               Inl e \<Rightarrow> Inl e
             | Inr (x, r') \<Rightarrow> read_records r' (records @ [x])
      else Inr records)"
  by pat_completeness auto
termination
proof (relation "measure (\<lambda>(r, records). remaining r)")
  fix r records y x r'
  assume "0 < remaining r" and "read_tlv r = Inr y" and "(x, r') = y"
  then have "rd_buf r' = rd_buf r" and "rd_pos r' > rd_pos r"
    using read_tlv_Inr [of r x r'] by simp_all
  with \<open>0 < remaining r\<close> show "((r', records @ [x]), r, records) \<in> measure (\<lambda>(r, records). remaining r)"
    by (simp add: remaining_def)
qed simp

declare read_records.simps [simp del]

definition tlv_from_bytes :: "bytes \<Rightarrow> tlv_block result" where
  "tlv_from_bytes bs = read_records (reader_new bs) []"

section \<open>Writing and parsing a block\<close>

definition tlv_record_bytes :: "tlv_record \<Rightarrow> bytes" where
  "tlv_record_bytes r =
     le_bytes 4 (tlv_tag r) @ le_bytes 4 (word_of_nat (length (tlv_val r)) :: u32) @ tlv_val r"

definition tlv_record_ok :: "tlv_record \<Rightarrow> bool" where
  "tlv_record_ok r \<longleftrightarrow> length (tlv_val r) < 2 ^ 32"

lemma tlv_to_bytes_concat: "tlv_to_bytes b = concat (map tlv_record_bytes b)"
  unfolding tlv_to_bytes_def tlv_record_bytes_def by (simp add: wire_simps)

lemma reads_tlv: "tlv_record_ok r \<Longrightarrow> reads read_tlv (tlv_record_bytes r) r"
  unfolding read_tlv_def tlv_record_bytes_def tlv_record_ok_def
  by (rule reads_bind, rule reads_scalar, rule reads_bind, rule reads_scalar, rule reads_bind_last,
      rule reads_bytes) (simp_all add: unat_of_nat_u32 reads_return_eq)

lemma read_records_blocks:
  "list_all tlv_record_ok rs \<Longrightarrow> fits (pre @ concat (map tlv_record_bytes rs)) \<Longrightarrow>
     read_records (rd_at pre (concat (map tlv_record_bytes rs))) acc = Inr (acc @ rs)"
proof (induction rs arbitrary: pre acc)
  case Nil
  then show ?case by (subst read_records.simps) simp
next
  case (Cons r rs)
  have "read_tlv (rd_at pre (tlv_record_bytes r @ concat (map tlv_record_bytes rs)))
      = Inr (r, rd_at (pre @ tlv_record_bytes r) (concat (map tlv_record_bytes rs)))"
    using Cons.prems by (intro readsD [OF reads_tlv]) simp_all
  moreover have "8 \<le> length (tlv_record_bytes r)" by (simp add: tlv_record_bytes_def)
  moreover from this have "tlv_record_bytes r \<noteq> []" by auto
  ultimately show ?case using Cons by (subst read_records.simps) simp
qed

lemma tlv_from_to_bytes:
  assumes "list_all tlv_record_ok b" and "fits (tlv_to_bytes b)"
  shows "tlv_from_bytes (tlv_to_bytes b) = Inr b"
  using read_records_blocks [OF assms(1), of "[]" "[]"] assms(2)
  by (simp add: tlv_from_bytes_def tlv_to_bytes_concat reader_new_rd_at)

lemma read_records_lossless:
  "read_records r acc = Inr rs \<Longrightarrow>
     \<exists>new. rs = acc @ new \<and> concat (map tlv_record_bytes new) = drop (rd_pos r) (rd_buf r)"
proof (induction r acc rule: read_records.induct)
  case (1 r acc)
  show ?case
  proof (cases "remaining r > 0")
    case False
    with "1.prems" show ?thesis by (subst (asm) read_records.simps) (simp add: remaining_def)
  next
    case True
    with "1.prems" obtain x r' where step: "\<not> remaining r < 8" "read_tlv r = Inr (x, r')"
      and rest: "read_records r' (acc @ [x]) = Inr rs"
      by (subst (asm) read_records.simps) (auto split: if_splits sum.splits prod.splits)
    from "1.IH" [OF True step(1) step(2) refl rest] obtain new where
      new: "rs = (acc @ [x]) @ new" "concat (map tlv_record_bytes new) = drop (rd_pos r') (rd_buf r')"
      by blast
    note x = read_tlv_Inr [OF step(2)]
    have "tlv_record_bytes x @ drop (rd_pos r') (rd_buf r') = drop (rd_pos r) (rd_buf r)"
      using append_take_drop_id [of "8 + length (tlv_val x)" "drop (rd_pos r) (rd_buf r)"]
      unfolding x(4) tlv_record_bytes_def [symmetric] x(1,2) by (simp add: add.commute add.left_commute)
    with new show ?thesis by (intro exI [of _ "x # new"]) simp
  qed
qed

lemma tlv_to_from_bytes: "tlv_from_bytes bs = Inr b \<Longrightarrow> tlv_to_bytes b = bs"
  using read_records_lossless [of "reader_new bs" "[]" b]
  by (auto simp: tlv_from_bytes_def tlv_to_bytes_concat reader_new_def)

section \<open>A block as a table\<close>

definition tlv_delete :: "u32 \<Rightarrow> tlv_block \<Rightarrow> tlv_block" where
  "tlv_delete tag b = snd (tlv_remove tag b)"

lemma find_filter_other: "find (\<lambda>r. k r = t) (filter (\<lambda>r. k r \<noteq> u) b) = (if t = u then None else find (\<lambda>r. k r = t) b)"
  by (induction b) auto

interpretation tlv_store: record_store_del tlv_tag tlv_get tlv_set "\<lambda>_. True" tlv_delete
proof unfold_locales
  show "tlv_get (tlv_set r b) = (tlv_get b)(tlv_tag r := Some r)" for r b
    by (auto simp: tlv_get_def tlv_set_def fun_eq_iff find_replace_or_push
        intro: find_replace_or_push_other)
  show "tlv_get (tlv_delete tag b) = (tlv_get b)(tag := None)" for tag b
    by (auto simp: tlv_get_def tlv_delete_def tlv_remove_def fun_eq_iff find_filter_other Let_def)
qed simp_all

lemma tlv_remove_count: "fst (tlv_remove tag b) = length (tlv_all b tag)"
  using sum_length_filter_compl [of "\<lambda>r. tlv_tag r = tag" b]
  by (simp add: tlv_remove_def tlv_all_def Let_def)

text \<open>The trait: an encoder and a decoder that undoes it on the values it can represent.\<close>

locale tlv_value =
  fixes enc :: "'a \<Rightarrow> bytes" and dec :: "bytes \<Rightarrow> 'a result" and wf :: "'a \<Rightarrow> bool"
  assumes dec_enc: "wf v \<Longrightarrow> fits (enc v) \<Longrightarrow> dec (enc v) = Inr v"
begin

lemma record_roundtrip:
  "wf v \<Longrightarrow> fits (enc v) \<Longrightarrow> tlv_record_decode dec (tlv_record_encode enc tag v) = Inr v"
  by (simp add: tlv_record_decode_def tlv_record_encode_def dec_enc)

lemma get_as_set:
  "wf v \<Longrightarrow> fits (enc v) \<Longrightarrow> tlv_get_as dec (tlv_set (tlv_record_encode enc tag v) b) tag = Inr (Some v)"
  using tlv_store.lookup_upsert_same [where t = b and r = "tlv_record_encode enc tag v"]
  by (simp add: tlv_get_as_def tlv_record_encode_def tlv_record_decode_def dec_enc)

lemma get_as_set_other:
  "t \<noteq> tag \<Longrightarrow> tlv_get_as dec' (tlv_set (tlv_record_encode enc tag v) b) t = tlv_get_as dec' b t"
  using tlv_store.lookup_upsert_other [where t = b and k = t and r = "tlv_record_encode enc tag v"]
  by (simp add: tlv_get_as_def) (simp add: tlv_record_encode_def)

lemma require_set:
  "wf v \<Longrightarrow> fits (enc v) \<Longrightarrow> tlv_require dec (tlv_set (tlv_record_encode enc tag v) b) tag nm = Inr v"
  using tlv_store.lookup_upsert_same [where t = b and r = "tlv_record_encode enc tag v"]
  by (simp add: tlv_require_def tlv_record_encode_def tlv_record_decode_def dec_enc)

text \<open>A value survives being put in a block that is written and parsed.\<close>

lemma through_block:
  assumes "wf v" and "fits (enc v)" and "b' = tlv_set (tlv_record_encode enc tag v) b"
    and "list_all tlv_record_ok b'" and "fits (tlv_to_bytes b')"
  shows "rbind (tlv_from_bytes (tlv_to_bytes b')) (\<lambda>b. tlv_require dec b tag nm) = Inr v"
  using assms by (simp add: tlv_from_to_bytes require_set)

end

text \<open>How the payload types meet the contract: the decoder runs a read that consumes exactly what
  the encoder writes.\<close>

lemma tlv_valueI:
  assumes "\<And>v. ok v \<Longrightarrow> reads p (enc v) v" and "dec = rd_run p"
  shows "tlv_value enc dec ok"
  by unfold_locales (simp add: assms rd_run_reads_all)

section \<open>Counted arrays\<close>

text \<open>The idiom of the payload types: a count of at most 255 or 65535, then that many items.\<close>

definition write_list_u8 :: "('a \<Rightarrow> writer \<Rightarrow> writer) \<Rightarrow> 'a list \<Rightarrow> writer \<Rightarrow> writer" where
  "write_list_u8 f xs =
     write_seq [write_u8 (word_of_nat (min (length xs) 255)), write_each f (take 255 xs)]"

definition write_list_u16 :: "('a \<Rightarrow> writer \<Rightarrow> writer) \<Rightarrow> 'a list \<Rightarrow> writer \<Rightarrow> writer" where
  "write_list_u16 f xs =
     write_seq [write_u16 (word_of_nat (min (length xs) 65535)), write_each f (take 65535 xs)]"

definition read_list_u8 :: "'a rd \<Rightarrow> 'a list rd" where
  "read_list_u8 p = rd_bind read_u8 (\<lambda>count. rd_times (unat count) p)"

definition read_list_u16 :: "'a rd \<Rightarrow> 'a list rd" where
  "read_list_u16 p = rd_bind read_u16 (\<lambda>count. rd_times (unat count) p)"

definition list_bytes_u8 :: "('a \<Rightarrow> bytes) \<Rightarrow> 'a list \<Rightarrow> bytes" where
  "list_bytes_u8 g xs = [word_of_nat (min (length xs) 255)] @ concat (map g (take 255 xs))"

definition list_bytes_u16 :: "('a \<Rightarrow> bytes) \<Rightarrow> 'a list \<Rightarrow> bytes" where
  "list_bytes_u16 g xs =
     le_bytes 2 (word_of_nat (min (length xs) 65535) :: u16) @ concat (map g (take 65535 xs))"

lemma write_lists_append [wire_simps]:
  assumes "\<And>x. appending (f x)"
  shows "write_list_u8 f xs w = w @ list_bytes_u8 (\<lambda>x. f x []) xs"
    and "write_list_u16 f xs w = w @ list_bytes_u16 (\<lambda>x. f x []) xs"
    and "appending (write_list_u8 f xs)" and "appending (write_list_u16 f xs)"
proof -
  show u8: "write_list_u8 f xs w = w @ list_bytes_u8 (\<lambda>x. f x []) xs" for w
    by (simp add: write_list_u8_def list_bytes_u8_def wire_simps assms)
  show u16: "write_list_u16 f xs w = w @ list_bytes_u16 (\<lambda>x. f x []) xs" for w
    by (simp add: write_list_u16_def list_bytes_u16_def wire_simps assms)
  show "appending (write_list_u8 f xs)" "appending (write_list_u16 f xs)"
    using u8 u16 by (auto intro: appendingI)
qed

lemma reads_list_u8 [reads_intros]:
  "length xs \<le> 255 \<Longrightarrow> (\<And>x. x \<in> set xs \<Longrightarrow> reads p (g x) x) \<Longrightarrow> reads (read_list_u8 p) (list_bytes_u8 g xs) xs"
  unfolding read_list_u8_def list_bytes_u8_def
  by (rule reads_bind, rule reads_u8) (simp add: unat_of_nat_u8 reads_times)

lemma reads_list_u16 [reads_intros]:
  "length xs \<le> 65535 \<Longrightarrow> (\<And>x. x \<in> set xs \<Longrightarrow> reads p (g x) x) \<Longrightarrow> reads (read_list_u16 p) (list_bytes_u16 g xs) xs"
  unfolding read_list_u16_def list_bytes_u16_def
  by (rule reads_bind, rule reads_scalar) (simp add: unat_of_nat_u16 reads_times)

definition encode_f32_array :: "f32 list \<Rightarrow> bytes" where
  "encode_f32_array vs = write_list_u8 write_f32 vs []"

definition decode_f32_array :: "bytes \<Rightarrow> f32 list result" where
  "decode_f32_array bs = rd_run (rd_bind read_u8 (\<lambda>count. read_f32_vec (unat count))) bs"

interpretation f32_array: tlv_value encode_f32_array decode_f32_array "\<lambda>vs. length vs \<le> 255"
proof unfold_locales
  fix vs :: "f32 list" assume "length vs \<le> 255" and "fits (encode_f32_array vs)"
  have "reads (read_list_u8 read_f32) (list_bytes_u8 (le_bytes 4) vs) vs"
    using \<open>length vs \<le> 255\<close> by (intro reads_list_u8 reads_scalar)
  then have "reads (rd_bind read_u8 (\<lambda>count. read_f32_vec (unat count))) (encode_f32_array vs) vs"
    by (simp add: read_list_u8_def read_f32_vec_def encode_f32_array_def wire_simps)
  then show "decode_f32_array (encode_f32_array vs) = Inr vs"
    using \<open>fits _\<close> by (simp add: decode_f32_array_def rd_run_reads_all)
qed

section \<open>Properties\<close>

text \<open>Parsing a metadata block loses nothing. Whatever the bytes and the tags in them, known or
  not, a block that parses is written back as the same bytes.\<close>

theorem tlv_parse_lossless:
  assumes "tlv_from_bytes bs = Inr b"
  shows "tlv_to_bytes b = bs"
  using assms by (rule tlv_to_from_bytes)

theorem tlv_parse_lossless_witness:
  "tlv_to_bytes [\<lparr>tlv_tag = 0x80000001, tlv_val = [9, 8]\<rparr>] = [1, 0, 0, 0x80, 2, 0, 0, 0, 9, 8]"
proof (rule tlv_parse_lossless)
  have "tlv_from_bytes (tlv_to_bytes [\<lparr>tlv_tag = 0x80000001, tlv_val = [9, 8]\<rparr>])
      = Inr [\<lparr>tlv_tag = 0x80000001, tlv_val = [9, 8]\<rparr>]"
    by (rule tlv_from_to_bytes) (simp_all add: tlv_record_ok_def fits_def tlv_to_bytes_concat tlv_record_bytes_def)
  moreover have "tlv_to_bytes [\<lparr>tlv_tag = 0x80000001, tlv_val = [9, 8]\<rparr>] = [1, 0, 0, 0x80, 2, 0, 0, 0, 9, 8]"
    by code_simp
  ultimately show "tlv_from_bytes [1, 0, 0, 0x80, 2, 0, 0, 0, 9, 8]
      = Inr [\<lparr>tlv_tag = 0x80000001, tlv_val = [9, 8]\<rparr>]" by simp
qed

text \<open>A metadata block is a table keyed by the tag. After \<open>set\<close> the tag has the new record and
  every other tag what it had; \<open>remove\<close> returns how many records it dropped and clears the tag alone;
  and a block of values below 4 GiB is read back from its bytes.\<close>

theorem tlv_block_table:
  "tlv_get (tlv_set r b) t = (if t = tlv_tag r then Some r else tlv_get b t)
   \<and> fst (tlv_remove tag b) = length (tlv_all b tag)
   \<and> tlv_get (snd (tlv_remove tag b)) t = (if t = tag then None else tlv_get b t)
   \<and> (list_all tlv_record_ok b \<and> fits (tlv_to_bytes b) \<longrightarrow> tlv_from_bytes (tlv_to_bytes b) = Inr b)"
  using tlv_store.lookup_upsert [where t = b and r = r] tlv_store.lookup_delete [where t = b and k = tag]
    tlv_remove_count [of tag b] tlv_from_to_bytes [of b]
  by (simp add: tlv_delete_def)

theorem tlv_block_table_witness:
  "tlv_from_bytes (tlv_to_bytes [\<lparr>tlv_tag = 1, tlv_val = [7]\<rparr>]) = Inr [\<lparr>tlv_tag = 1, tlv_val = [7]\<rparr>]"
  using tlv_block_table [of "\<lparr>tlv_tag = 1, tlv_val = [7]\<rparr>" "[\<lparr>tlv_tag = 1, tlv_val = [7]\<rparr>]" 1 1]
  by (simp add: tlv_record_ok_def fits_def tlv_to_bytes_concat tlv_record_bytes_def)

end
