(* ===== verification/Omf_Values.thy ===== *)
theory Omf_Values
  imports Omf_Tlv Omf_Layer Omf_Float
begin

text \<open>
  The payload types of the core metadata tags (\<open>crates/map-format/src/tlv/value.rs\<close>) and the
  motion modes (\<open>motion.rs\<close>). Every type has its encoder, its decoder and the predicate of the
  values the encoding represents (its counts and strings fit their prefixes), and interprets
  \<open>tlv_value\<close>; the keyed tables also interpret \<open>record_store\<close>. The geometric helpers of
  \<open>Connector\<close> and \<open>FeatureDim::normalise\<close> compute with floats and are not modelled.
\<close>

section \<open>Map identity\<close>

record map_info =
  mi_name :: rstring
  mi_author :: rstring
  mi_built_unix :: u64
  mi_upstream_hash :: bytes
  mi_description :: rstring

definition map_info_encode :: "map_info \<Rightarrow> bytes" where
  "map_info_encode v =
     write_seq [write_string (mi_name v), write_string (mi_author v), write_u64 (mi_built_unix v),
                write_blob (mi_upstream_hash v), write_string (mi_description v)] []"

definition map_info_decode :: "bytes \<Rightarrow> map_info result" where
  "map_info_decode = rd_run
     (rd_bind read_string (\<lambda>nm.
      rd_bind read_string (\<lambda>author.
      rd_bind read_u64 (\<lambda>built_unix.
      rd_bind read_blob (\<lambda>upstream_hash.
      rd_bind read_string (\<lambda>description.
        rd_return \<lparr>mi_name = nm, mi_author = author, mi_built_unix = built_unix,
                   mi_upstream_hash = upstream_hash, mi_description = description\<rparr>))))))"

definition map_info_wf :: "map_info \<Rightarrow> bool" where
  "map_info_wf v \<longleftrightarrow> rstring_ok (mi_name v) \<and> rstring_ok (mi_author v)
     \<and> length (mi_upstream_hash v) \<le> 65535 \<and> rstring_ok (mi_description v)"

interpretation map_info_value: tlv_value map_info_encode map_info_decode map_info_wf
  by (rule tlv_valueI [OF _ map_info_decode_def], simp add: map_info_encode_def map_info_wf_def wire_simps)
    (rule reads_combs reads_intros | simp)+

section \<open>The layer table\<close>

type_synonym layer_table = "layer_desc list"

definition layer_table_get :: "layer_table \<Rightarrow> layer_id \<Rightarrow> layer_desc option" where
  "layer_table_get t l = find_by ld_layer_id t l"

definition layer_table_upsert :: "layer_desc \<Rightarrow> layer_table \<Rightarrow> layer_table" where
  "layer_table_upsert d t = upsert_by ld_layer_id d t"

definition layer_table_encode :: "layer_table \<Rightarrow> bytes" where
  "layer_table_encode t = write_list_u16 (\<lambda>d. write_bytes (layer_desc_to_bytes d)) t []"

definition layer_table_decode :: "bytes \<Rightarrow> layer_table result" where
  "layer_table_decode = rd_run (read_list_u16 (read_record 24 layer_desc_from_bytes))"

interpretation layer_table: record_store ld_layer_id layer_table_get layer_table_upsert "\<lambda>_. True"
  unfolding layer_table_get_def [abs_def] layer_table_upsert_def [abs_def]
  by (rule list_store.record_store_axioms)

interpretation layer_table_value:
  tlv_value layer_table_encode layer_table_decode "\<lambda>t. length t \<le> 65535"
  by (rule tlv_valueI [OF _ layer_table_decode_def], simp add: layer_table_encode_def wire_simps)
    (rule reads_intros layer_desc_record.reads_record | simp)+

section \<open>Feature schema\<close>

datatype feature_kind = Scalar | Category | Direction | Boolean

fun feature_kind_u8 :: "feature_kind \<Rightarrow> u8" where
  "feature_kind_u8 Scalar = 0"
| "feature_kind_u8 Category = 1"
| "feature_kind_u8 Direction = 2"
| "feature_kind_u8 Boolean = 3"

definition feature_kind_from_u8 :: "u8 \<Rightarrow> feature_kind option" where
  "feature_kind_from_u8 v =
     (if v = 0 then Some Scalar
      else if v = 1 then Some Category
      else if v = 2 then Some Direction
      else if v = 3 then Some Boolean
      else None)"

lemma feature_kind_from_to [simp]: "feature_kind_from_u8 (feature_kind_u8 k) = Some k"
  by (cases k) (simp_all add: feature_kind_from_u8_def)

record feature_dim =
  fd_name :: rstring
  fd_unit :: rstring
  fd_kind :: feature_kind
  fd_layer_id :: layer_id
  fd_channel :: u8
  fd_scale :: f32
  fd_bias :: f32
  fd_norm_min :: f32
  fd_norm_max :: f32
  fd_palette :: "f32 list"

type_synonym feature_schema = "feature_dim list"

definition feature_schema_dim :: "feature_schema \<Rightarrow> u8" where
  "feature_schema_dim s = word_of_nat (min (length s) 255)"

definition write_feature_dim :: "feature_dim \<Rightarrow> writer \<Rightarrow> writer" where
  "write_feature_dim d =
     write_seq [write_string (fd_name d), write_string (fd_unit d), write_u8 (feature_kind_u8 (fd_kind d)),
                write_u16 (fd_layer_id d), write_u8 (fd_channel d), write_f32 (fd_scale d),
                write_f32 (fd_bias d), write_f32 (fd_norm_min d), write_f32 (fd_norm_max d),
                write_list_u8 write_f32 (fd_palette d)]"

definition feature_schema_encode :: "feature_schema \<Rightarrow> bytes" where
  "feature_schema_encode s =
     write_seq [write_u8 (feature_schema_dim s), write_each write_feature_dim (take 255 s)] []"

definition read_feature_dim :: "feature_dim rd" where
  "read_feature_dim =
     rd_bind read_string (\<lambda>nm.
     rd_bind read_string (\<lambda>unit.
     rd_bind read_u8 (\<lambda>kind_raw.
     rd_bind (rd_lift (ok_or (invalid (''unknown feature kind '' @ show_nat (unat kind_raw)))
                (feature_kind_from_u8 kind_raw))) (\<lambda>kind.
     rd_bind read_u16 (\<lambda>layer_id.
     rd_bind read_u8 (\<lambda>channel.
     rd_bind read_f32 (\<lambda>scale.
     rd_bind read_f32 (\<lambda>bias.
     rd_bind read_f32 (\<lambda>norm_min.
     rd_bind read_f32 (\<lambda>norm_max.
     rd_bind (read_list_u8 read_f32) (\<lambda>palette.
       rd_return \<lparr>fd_name = nm, fd_unit = unit, fd_kind = kind, fd_layer_id = layer_id,
                  fd_channel = channel, fd_scale = scale, fd_bias = bias,
                  fd_norm_min = norm_min, fd_norm_max = norm_max, fd_palette = palette\<rparr>)))))))))))"

definition feature_schema_decode :: "bytes \<Rightarrow> feature_schema result" where
  "feature_schema_decode = rd_run (read_list_u8 read_feature_dim)"

definition feature_dim_wf :: "feature_dim \<Rightarrow> bool" where
  "feature_dim_wf d \<longleftrightarrow> rstring_ok (fd_name d) \<and> rstring_ok (fd_unit d) \<and> length (fd_palette d) \<le> 255"

definition feature_schema_wf :: "feature_schema \<Rightarrow> bool" where
  "feature_schema_wf s \<longleftrightarrow> length s \<le> 255 \<and> list_all feature_dim_wf s"

lemma write_feature_dim_appending [wire_simps]: "appending (write_feature_dim d)"
  by (simp add: write_feature_dim_def wire_simps)

lemma reads_feature_dim:
  "feature_dim_wf d \<Longrightarrow> reads read_feature_dim (write_feature_dim d []) d"
  unfolding feature_dim_wf_def read_feature_dim_def write_feature_dim_def
  by (simp add: wire_simps) (rule reads_combs reads_intros | simp)+

interpretation feature_schema_value:
  tlv_value feature_schema_encode feature_schema_decode feature_schema_wf
proof (rule tlv_valueI [OF _ feature_schema_decode_def])
  fix s assume "feature_schema_wf s"
  then have "reads (read_list_u8 read_feature_dim) (list_bytes_u8 (\<lambda>d. write_feature_dim d []) s) s"
    by (intro reads_list_u8 reads_feature_dim) (simp_all add: feature_schema_wf_def list_all_iff)
  then show "reads (read_list_u8 read_feature_dim) (feature_schema_encode s) s"
    by (simp add: feature_schema_encode_def list_bytes_u8_def feature_schema_dim_def wire_simps)
qed

section \<open>Motion modes and weight priors\<close>

datatype motion_mode = Jog | Moderate | Race

fun motion_mode_u8 :: "motion_mode \<Rightarrow> u8" where
  "motion_mode_u8 Jog = 0"
| "motion_mode_u8 Moderate = 1"
| "motion_mode_u8 Race = 2"

definition motion_mode_from_u8 :: "u8 \<Rightarrow> motion_mode option" where
  "motion_mode_from_u8 v =
     (if v = 0 then Some Jog else if v = 1 then Some Moderate else if v = 2 then Some Race else None)"

lemma motion_mode_from_to [simp]: "motion_mode_from_u8 (motion_mode_u8 m) = Some m"
  by (cases m) (simp_all add: motion_mode_from_u8_def)

record weight_prior_entry =
  wp_mode :: motion_mode
  wp_weights :: "f32 list"
  wp_tau :: f32
  wp_scale :: f32

type_synonym weight_prior = "weight_prior_entry list"

definition weight_prior_get :: "weight_prior \<Rightarrow> motion_mode \<Rightarrow> weight_prior_entry option" where
  "weight_prior_get t m = find_by wp_mode t m"

definition weight_prior_upsert :: "weight_prior_entry \<Rightarrow> weight_prior \<Rightarrow> weight_prior" where
  "weight_prior_upsert e t = upsert_by wp_mode e t"

definition write_weight_prior_entry :: "weight_prior_entry \<Rightarrow> writer \<Rightarrow> writer" where
  "write_weight_prior_entry e =
     write_seq [write_u8 (motion_mode_u8 (wp_mode e)), write_f32 (wp_tau e), write_f32 (wp_scale e),
                write_list_u8 write_f32 (wp_weights e)]"

definition weight_prior_encode :: "weight_prior \<Rightarrow> bytes" where
  "weight_prior_encode t = write_list_u16 write_weight_prior_entry t []"

definition read_weight_prior_entry :: "weight_prior_entry rd" where
  "read_weight_prior_entry =
     rd_bind read_u8 (\<lambda>mode_raw.
     rd_bind (rd_lift (ok_or (invalid (''unknown motion mode '' @ show_nat (unat mode_raw)))
                (motion_mode_from_u8 mode_raw))) (\<lambda>mode.
     rd_bind read_f32 (\<lambda>tau.
     rd_bind read_f32 (\<lambda>scale.
     rd_bind (read_list_u8 read_f32) (\<lambda>weights.
       rd_return \<lparr>wp_mode = mode, wp_weights = weights, wp_tau = tau, wp_scale = scale\<rparr>)))))"

definition weight_prior_decode :: "bytes \<Rightarrow> weight_prior result" where
  "weight_prior_decode = rd_run (read_list_u16 read_weight_prior_entry)"

definition weight_prior_wf :: "weight_prior \<Rightarrow> bool" where
  "weight_prior_wf t \<longleftrightarrow> length t \<le> 65535 \<and> list_all (\<lambda>e. length (wp_weights e) \<le> 255) t"

lemma write_weight_prior_entry_appending [wire_simps]: "appending (write_weight_prior_entry e)"
  by (simp add: write_weight_prior_entry_def wire_simps)

lemma reads_weight_prior_entry:
  "length (wp_weights e) \<le> 255 \<Longrightarrow> reads read_weight_prior_entry (write_weight_prior_entry e []) e"
  unfolding read_weight_prior_entry_def write_weight_prior_entry_def
  by (simp add: wire_simps) (rule reads_combs reads_intros | simp)+

interpretation weight_prior: record_store wp_mode weight_prior_get weight_prior_upsert "\<lambda>_. True"
  unfolding weight_prior_get_def [abs_def] weight_prior_upsert_def [abs_def]
  by (rule list_store.record_store_axioms)

interpretation weight_prior_value: tlv_value weight_prior_encode weight_prior_decode weight_prior_wf
  by (rule tlv_valueI [OF _ weight_prior_decode_def])
    (simp add: weight_prior_encode_def weight_prior_wf_def wire_simps list_all_iff
      reads_list_u16 reads_weight_prior_entry)

section \<open>Slope model\<close>

record slope_model =
  sm_minetti_clamp :: f32
  sm_k_down_default :: f32
  sm_stair_v_up :: f32
  sm_stair_v_down :: f32

definition slope_model_default :: slope_model where
  "slope_model_default =
     \<lparr>sm_minetti_clamp = 0x3E800000, sm_k_down_default = 0x3F933333,
      sm_stair_v_up = 0x3F000000, sm_stair_v_down = 0x3F333333\<rparr>"

definition slope_model_encode :: "slope_model \<Rightarrow> bytes" where
  "slope_model_encode v =
     write_seq [write_f32 (sm_minetti_clamp v), write_f32 (sm_k_down_default v),
                write_f32 (sm_stair_v_up v), write_f32 (sm_stair_v_down v)] []"

definition slope_model_decode :: "bytes \<Rightarrow> slope_model result" where
  "slope_model_decode = rd_run
     (rd_bind read_f32 (\<lambda>minetti_clamp.
      rd_bind read_f32 (\<lambda>k_down_default.
      rd_bind read_f32 (\<lambda>stair_v_up.
      rd_bind read_f32 (\<lambda>stair_v_down.
        rd_return \<lparr>sm_minetti_clamp = minetti_clamp, sm_k_down_default = k_down_default,
                   sm_stair_v_up = stair_v_up, sm_stair_v_down = stair_v_down\<rparr>)))))"

interpretation slope_model_value: tlv_value slope_model_encode slope_model_decode "\<lambda>_. True"
  by (rule tlv_valueI [OF _ slope_model_decode_def], simp add: slope_model_encode_def wire_simps)
    (rule reads_combs reads_intros | simp)+

section \<open>Properties\<close>

text \<open>A feature schema stored in a metadata block comes back from the written and parsed block,
  through the typed accessor: the encoder, the block writer, the block parser and the decoder agree.\<close>

theorem feature_schema_through_block:
  assumes "feature_schema_wf s" and "fits (feature_schema_encode s)"
    and "b' = tlv_set (tlv_record_encode feature_schema_encode TAG_FEATURE_SCHEMA s) b"
    and "list_all tlv_record_ok b'" and "fits (tlv_to_bytes b')"
  shows "rbind (tlv_from_bytes (tlv_to_bytes b'))
      (\<lambda>b. tlv_require feature_schema_decode b TAG_FEATURE_SCHEMA nm) = Inr s"
  using assms by (rule feature_schema_value.through_block)

definition sample_dim :: feature_dim where
  "sample_dim = \<lparr>fd_name = [0x73, 0x6C], fd_unit = [], fd_kind = Category, fd_layer_id = 0x1000,
     fd_channel = 0, fd_scale = 1, fd_bias = 0, fd_norm_min = 0, fd_norm_max = 1, fd_palette = [5, 6]\<rparr>"

lemma sample_dim_wf: "feature_schema_wf [sample_dim]"
  by (simp add: feature_schema_wf_def feature_dim_wf_def sample_dim_def rstring_ok_def utf8_valid.simps)

lemma sample_dim_length: "length (feature_schema_encode [sample_dim]) = 36"
  by (simp add: feature_schema_encode_def write_feature_dim_def sample_dim_def wire_simps
      string_bytes_def list_bytes_u8_def string_end_full)

theorem feature_schema_through_block_witness:
  "rbind (tlv_from_bytes (tlv_to_bytes
      (tlv_set (tlv_record_encode feature_schema_encode TAG_FEATURE_SCHEMA [sample_dim]) [])))
    (\<lambda>b. tlv_require feature_schema_decode b TAG_FEATURE_SCHEMA ''FEATURE_SCHEMA'') = Inr [sample_dim]"
  by (rule feature_schema_through_block [where b = "[]", OF sample_dim_wf])
    (simp_all add: fits_def sample_dim_length tlv_set_def tlv_record_encode_def tlv_record_ok_def
      tlv_to_bytes_concat tlv_record_bytes_def)

end
