(* ===== verification/Omf_Metadata.thy ===== *)
theory Omf_Metadata
  imports Omf_Values
begin

text \<open>
  The rest of the payload types of \<open>crates/map-format/src/tlv/value.rs\<close>: the connector table,
  provenance, the magnetic field, PRM seeds, the chunk layout, global statistics, aggregation
  rules, the fingerprint headers of derived layers and the zstd dictionary.
\<close>

section \<open>Connectors\<close>

datatype connector_type = Stair | Elevator | Overpass | Underpass | Loop

fun connector_type_u16 :: "connector_type \<Rightarrow> u16" where
  "connector_type_u16 Stair = 0"
| "connector_type_u16 Elevator = 1"
| "connector_type_u16 Overpass = 2"
| "connector_type_u16 Underpass = 3"
| "connector_type_u16 Loop = 4"

definition connector_type_from_u16 :: "u16 \<Rightarrow> connector_type option" where
  "connector_type_from_u16 v =
     (if v = 0 then Some Stair
      else if v = 1 then Some Elevator
      else if v = 2 then Some Overpass
      else if v = 3 then Some Underpass
      else if v = 4 then Some Loop
      else None)"

datatype connector_direction = Both | AToB | BToA

fun connector_direction_u8 :: "connector_direction \<Rightarrow> u8" where
  "connector_direction_u8 Both = 0"
| "connector_direction_u8 AToB = 1"
| "connector_direction_u8 BToA = 2"

definition connector_direction_from_u8 :: "u8 \<Rightarrow> connector_direction option" where
  "connector_direction_from_u8 v =
     (if v = 0 then Some Both else if v = 1 then Some AToB else if v = 2 then Some BToA else None)"

fun allows_a_to_b :: "connector_direction \<Rightarrow> bool" where
  "allows_a_to_b Both = True"
| "allows_a_to_b AToB = True"
| "allows_a_to_b BToA = False"

fun allows_b_to_a :: "connector_direction \<Rightarrow> bool" where
  "allows_b_to_a Both = True"
| "allows_b_to_a AToB = False"
| "allows_b_to_a BToA = True"

lemma connector_direction_from_to [simp]:
  "connector_direction_from_u8 (connector_direction_u8 d) = Some d"
  by (cases d) (simp_all add: connector_direction_from_u8_def)

lemma connector_type_from_to [simp]: "connector_type_from_u16 (connector_type_u16 t) = Some t"
  by (cases t) (simp_all add: connector_type_from_u16_def)

record connector =
  cn_type_id :: u16
  cn_a :: point3
  cn_b :: point3
  cn_dir_flag :: connector_direction
  cn_v_up :: f32
  cn_v_down :: f32
  cn_wait_time :: f32
  cn_attr_ref :: u32
  cn_unit_cost :: f32

definition connector_new ::
  "connector_type \<Rightarrow> point3 \<Rightarrow> point3 \<Rightarrow> connector_direction \<Rightarrow> f32 \<Rightarrow> f32 \<Rightarrow> f32 \<Rightarrow> connector" where
  "connector_new kind a b dir v_up v_down unit_cost =
     \<lparr>cn_type_id = connector_type_u16 kind, cn_a = a, cn_b = b, cn_dir_flag = dir,
      cn_v_up = v_up, cn_v_down = v_down, cn_wait_time = 0, cn_attr_ref = 0,
      cn_unit_cost = unit_cost\<rparr>"

definition connector_to_bytes :: "connector \<Rightarrow> bytes" where
  "connector_to_bytes c =
     puts [\<lambda>b. put_u16 b 0 (cn_type_id c),
           \<lambda>b. put_f32 b 2 (fst (cn_a c)),
           \<lambda>b. put_f32 b 6 (fst (snd (cn_a c))),
           \<lambda>b. put_f32 b 10 (snd (snd (cn_a c))),
           \<lambda>b. put_f32 b 14 (fst (cn_b c)),
           \<lambda>b. put_f32 b 18 (fst (snd (cn_b c))),
           \<lambda>b. put_f32 b 22 (snd (snd (cn_b c))),
           \<lambda>b. put_u8 b 26 (connector_direction_u8 (cn_dir_flag c)),
           \<lambda>b. put_f32 b 27 (cn_v_up c),
           \<lambda>b. put_f32 b 31 (cn_v_down c),
           \<lambda>b. put_f32 b 35 (cn_wait_time c),
           \<lambda>b. put_u32 b 39 (cn_attr_ref c),
           \<lambda>b. put_f32 b 43 (cn_unit_cost c)]
       (replicate 48 0)"

definition connector_from_bytes :: "bytes \<Rightarrow> connector result" where
  "connector_from_bytes buf =
     (if length buf < 48 then Inl (Truncated 0 48 (length buf))
      else
        rbind (get_u16 buf 0) (\<lambda>type_id.
        rbind (get_u8 buf 26) (\<lambda>dir_raw.
        rbind (ok_or (invalid (''unknown connector direction '' @ show_nat (unat dir_raw)))
                 (connector_direction_from_u8 dir_raw)) (\<lambda>dir_flag.
        rbind (get_f32 buf 2) (\<lambda>a0.
        rbind (get_f32 buf 6) (\<lambda>a1.
        rbind (get_f32 buf 10) (\<lambda>a2.
        rbind (get_f32 buf 14) (\<lambda>b0.
        rbind (get_f32 buf 18) (\<lambda>b1.
        rbind (get_f32 buf 22) (\<lambda>b2.
        rbind (get_f32 buf 27) (\<lambda>v_up.
        rbind (get_f32 buf 31) (\<lambda>v_down.
        rbind (get_f32 buf 35) (\<lambda>wait_time.
        rbind (get_u32 buf 39) (\<lambda>attr_ref.
        rbind (get_f32 buf 43) (\<lambda>unit_cost.
          Inr \<lparr>cn_type_id = type_id, cn_a = (a0, a1, a2), cn_b = (b0, b1, b2),
               cn_dir_flag = dir_flag, cn_v_up = v_up, cn_v_down = v_down,
               cn_wait_time = wait_time, cn_attr_ref = attr_ref, cn_unit_cost = unit_cost\<rparr>)))))))))))))))"

lemma connector_layout:
  "connector_to_bytes c =
     layout (le_bytes 2 (cn_type_id c)
       @ le_bytes 4 (fst (cn_a c)) @ le_bytes 4 (fst (snd (cn_a c))) @ le_bytes 4 (snd (snd (cn_a c)))
       @ le_bytes 4 (fst (cn_b c)) @ le_bytes 4 (fst (snd (cn_b c))) @ le_bytes 4 (snd (snd (cn_b c)))
       @ [connector_direction_u8 (cn_dir_flag c)] @ le_bytes 4 (cn_v_up c) @ le_bytes 4 (cn_v_down c)
       @ le_bytes 4 (cn_wait_time c) @ le_bytes 4 (cn_attr_ref c) @ le_bytes 4 (cn_unit_cost c)) 1"
  by (simp add: connector_to_bytes_def layout_simps)

interpretation connector_record:
  fixed_record 48 connector_to_bytes connector_from_bytes "\<lambda>_. True"
proof unfold_locales
  show "length (connector_to_bytes c) = 48" for c
    by (simp add: connector_layout layout_def)
  show "connector_from_bytes (connector_to_bytes c @ rest) = Inr c" for c rest
    unfolding connector_layout connector_from_bytes_def by (simp add: field_reads cong: rbind_cong)
  show "length bs < 48 \<Longrightarrow> connector_from_bytes bs = Inl (Truncated 0 48 (length bs))" for bs
    by (simp add: connector_from_bytes_def)
qed simp

type_synonym connector_table = "connector list"

definition min_unit_cost :: "connector_table \<Rightarrow> f32 option" where
  "min_unit_cost t =
     fold (\<lambda>v acc. Some (case acc of Some a \<Rightarrow> if f32_le a v then a else v | None \<Rightarrow> v))
       (map cn_unit_cost t) None"

definition connector_table_encode :: "connector_table \<Rightarrow> bytes" where
  "connector_table_encode t = write_list_u16 (\<lambda>c. write_bytes (connector_to_bytes c)) t []"

definition connector_table_decode :: "bytes \<Rightarrow> connector_table result" where
  "connector_table_decode = rd_run (read_list_u16 (read_record 48 connector_from_bytes))"

interpretation connector_table_value:
  tlv_value connector_table_encode connector_table_decode "\<lambda>t. length t \<le> 65535"
  by (rule tlv_valueI [OF _ connector_table_decode_def], simp add: connector_table_encode_def wire_simps)
    (rule reads_intros connector_record.reads_record | simp)+

text \<open>On costs that are not NaN, the fold finds a least one.\<close>

lemma f32_le_refl: "\<not> f32_is_nan a \<Longrightarrow> f32_le a a"
  by (simp add: f32_le_def)

lemma f32_le_trans: "f32_le a b \<Longrightarrow> f32_le b c \<Longrightarrow> f32_le a c"
  by (simp add: f32_le_def)

lemma f32_le_linear: "\<not> f32_is_nan a \<Longrightarrow> \<not> f32_is_nan b \<Longrightarrow> \<not> f32_le a b \<Longrightarrow> f32_le b a"
  by (auto simp: f32_le_def)

lemma min_fold_least:
  assumes "\<forall>v \<in> set vs. \<not> f32_is_nan v" and "\<not> f32_is_nan a"
  shows "\<exists>m. fold (\<lambda>v acc. Some (case acc of Some a \<Rightarrow> if f32_le a v then a else v | None \<Rightarrow> v)) vs (Some a)
      = Some m \<and> m \<in> insert a (set vs) \<and> f32_le m a \<and> (\<forall>v \<in> set vs. f32_le m v)"
  using assms
proof (induction vs arbitrary: a)
  case (Cons v vs)
  define b where "b = (if f32_le a v then a else v)"
  have b: "f32_le b a" "f32_le b v" "\<not> f32_is_nan b" "b = a \<or> b = v"
    using Cons.prems f32_le_linear [of a v] by (auto simp: b_def f32_le_refl)
  from Cons.IH [of b] Cons.prems(1) b(3) obtain m where
    "fold (\<lambda>v acc. Some (case acc of Some a \<Rightarrow> if f32_le a v then a else v | None \<Rightarrow> v)) vs (Some b) = Some m"
    "m \<in> insert b (set vs)" "f32_le m b" "\<forall>v \<in> set vs. f32_le m v"
    by auto
  then show ?case using b by (auto simp: b_def [symmetric] intro: f32_le_trans)
qed (simp add: f32_le_refl)

lemma min_unit_cost_least:
  assumes "t \<noteq> []" and "\<forall>c \<in> set t. \<not> f32_is_nan (cn_unit_cost c)"
  shows "\<exists>m \<in> cn_unit_cost ` set t. min_unit_cost t = Some m \<and> (\<forall>c \<in> set t. f32_le m (cn_unit_cost c))"
proof -
  obtain c cs where t: "t = c # cs" using assms(1) by (cases t) auto
  from min_fold_least [of "map cn_unit_cost cs" "cn_unit_cost c"] assms(2) t
  obtain m where "min_unit_cost t = Some m" "m \<in> insert (cn_unit_cost c) (cn_unit_cost ` set cs)"
    "f32_le m (cn_unit_cost c)" "\<forall>v \<in> cn_unit_cost ` set cs. f32_le m v"
    by (auto simp: min_unit_cost_def)
  then show ?thesis using t by auto
qed

section \<open>Provenance, magnetic field, seeds\<close>

record provenance =
  pv_tool :: rstring
  pv_tool_version :: rstring
  pv_sources :: "rstring list"
  pv_algo_versions :: "(u16 \<times> u16) list"

definition provenance_encode :: "provenance \<Rightarrow> bytes" where
  "provenance_encode v =
     write_seq [write_string (pv_tool v), write_string (pv_tool_version v),
                write_list_u16 write_string (pv_sources v),
                write_list_u16 (\<lambda>p. write_seq [write_u16 (fst p), write_u16 (snd p)])
                  (pv_algo_versions v)] []"

definition provenance_decode :: "bytes \<Rightarrow> provenance result" where
  "provenance_decode = rd_run
     (rd_bind read_string (\<lambda>tool.
      rd_bind read_string (\<lambda>tool_version.
      rd_bind (read_list_u16 read_string) (\<lambda>sources.
      rd_bind (read_list_u16 (rd_bind read_u16 (\<lambda>a. rd_bind read_u16 (\<lambda>v. rd_return (a, v)))))
        (\<lambda>algo_versions.
        rd_return \<lparr>pv_tool = tool, pv_tool_version = tool_version, pv_sources = sources,
                   pv_algo_versions = algo_versions\<rparr>)))))"

definition provenance_wf :: "provenance \<Rightarrow> bool" where
  "provenance_wf v \<longleftrightarrow> rstring_ok (pv_tool v) \<and> rstring_ok (pv_tool_version v)
     \<and> length (pv_sources v) \<le> 65535 \<and> list_all rstring_ok (pv_sources v)
     \<and> length (pv_algo_versions v) \<le> 65535"

interpretation provenance_value: tlv_value provenance_encode provenance_decode provenance_wf
  by (rule tlv_valueI [OF _ provenance_decode_def],
      simp add: provenance_encode_def provenance_wf_def wire_simps list_all_iff)
    (rule reads_combs reads_intros | simp)+

record magnetic_field =
  mf_strength_ut :: f32
  mf_declination_deg :: f32
  mf_inclination_deg :: f32

definition magnetic_field_default :: magnetic_field where
  "magnetic_field_default =
     \<lparr>mf_strength_ut = 0x42480000, mf_declination_deg = 0xC0C00000, mf_inclination_deg = 0x425C0000\<rparr>"

definition magnetic_field_encode :: "magnetic_field \<Rightarrow> bytes" where
  "magnetic_field_encode v =
     write_seq [write_f32 (mf_strength_ut v), write_f32 (mf_declination_deg v),
                write_f32 (mf_inclination_deg v)] []"

definition magnetic_field_decode :: "bytes \<Rightarrow> magnetic_field result" where
  "magnetic_field_decode = rd_run
     (rd_bind read_f32 (\<lambda>strength.
      rd_bind read_f32 (\<lambda>declination.
      rd_bind read_f32 (\<lambda>inclination.
        rd_return \<lparr>mf_strength_ut = strength, mf_declination_deg = declination,
                   mf_inclination_deg = inclination\<rparr>))))"

interpretation magnetic_field_value: tlv_value magnetic_field_encode magnetic_field_decode "\<lambda>_. True"
  by (rule tlv_valueI [OF _ magnetic_field_decode_def], simp add: magnetic_field_encode_def wire_simps)
    (rule reads_combs reads_intros | simp)+

type_synonym prm_seeds = "u64 list"

definition prm_seeds_encode :: "prm_seeds \<Rightarrow> bytes" where
  "prm_seeds_encode seeds = write_list_u16 write_u64 seeds []"

definition prm_seeds_decode :: "bytes \<Rightarrow> prm_seeds result" where
  "prm_seeds_decode = rd_run (read_list_u16 read_u64)"

interpretation prm_seeds_value: tlv_value prm_seeds_encode prm_seeds_decode "\<lambda>s. length s \<le> 65535"
  by (rule tlv_valueI [OF _ prm_seeds_decode_def], simp add: prm_seeds_encode_def wire_simps)
    (rule reads_intros | simp)+

section \<open>Chunk layout\<close>

datatype chunk_layout_kind = ChannelContinuous | PlanePerChannel

fun chunk_layout_kind_u8 :: "chunk_layout_kind \<Rightarrow> u8" where
  "chunk_layout_kind_u8 ChannelContinuous = 0"
| "chunk_layout_kind_u8 PlanePerChannel = 1"

definition chunk_layout_kind_from_u8 :: "u8 \<Rightarrow> chunk_layout_kind option" where
  "chunk_layout_kind_from_u8 v =
     (if v = 0 then Some ChannelContinuous else if v = 1 then Some PlanePerChannel else None)"

lemma chunk_layout_kind_from_to [simp]: "chunk_layout_kind_from_u8 (chunk_layout_kind_u8 k) = Some k"
  by (cases k) (simp_all add: chunk_layout_kind_from_u8_def)

record chunk_layout =
  cl_layout :: chunk_layout_kind
  cl_channel_order :: "u16 list"

definition chunk_layout_encode :: "chunk_layout \<Rightarrow> bytes" where
  "chunk_layout_encode v =
     write_seq [write_u8 (chunk_layout_kind_u8 (cl_layout v)),
                write_list_u16 write_u16 (cl_channel_order v)] []"

definition chunk_layout_decode :: "bytes \<Rightarrow> chunk_layout result" where
  "chunk_layout_decode = rd_run
     (rd_bind read_u8 (\<lambda>layout_raw.
      rd_bind (rd_lift (ok_or (invalid (''unknown chunk layout '' @ show_nat (unat layout_raw)))
                 (chunk_layout_kind_from_u8 layout_raw))) (\<lambda>kind.
      rd_bind (read_list_u16 read_u16) (\<lambda>channel_order.
        rd_return \<lparr>cl_layout = kind, cl_channel_order = channel_order\<rparr>))))"

interpretation chunk_layout_value:
  tlv_value chunk_layout_encode chunk_layout_decode "\<lambda>v. length (cl_channel_order v) \<le> 65535"
  by (rule tlv_valueI [OF _ chunk_layout_decode_def], simp add: chunk_layout_encode_def wire_simps)
    (rule reads_combs reads_intros | simp)+

section \<open>Global statistics\<close>

record channel_stats =
  st_layer_id :: layer_id
  st_channel :: u8
  st_min :: f32
  st_max :: f32
  st_mean :: f32
  st_coverage :: f32

record global_stats =
  gs_channels :: "channel_stats list"
  gs_forbidden_ratio :: "(layer_id \<times> f32) list"
  gs_connector_unit_cost_min :: "f32 option"

definition channel_min :: "global_stats \<Rightarrow> layer_id \<Rightarrow> u8 \<Rightarrow> f32 option" where
  "channel_min g layer channel =
     map_option st_min (find (\<lambda>c. st_layer_id c = layer \<and> st_channel c = channel) (gs_channels g))"

definition global_stats_encode :: "global_stats \<Rightarrow> bytes" where
  "global_stats_encode g =
     write_seq [write_list_u16 (\<lambda>c. write_seq
                  [write_u16 (st_layer_id c), write_u8 (st_channel c), write_f32 (st_min c),
                   write_f32 (st_max c), write_f32 (st_mean c), write_f32 (st_coverage c)]) (gs_channels g),
                write_list_u16 (\<lambda>p. write_seq [write_u16 (fst p), write_f32 (snd p)]) (gs_forbidden_ratio g),
                (case gs_connector_unit_cost_min g of
                   Some v \<Rightarrow> write_seq [write_u8 1, write_f32 v]
                 | None \<Rightarrow> write_u8 0)] []"

definition read_channel_stats :: "channel_stats rd" where
  "read_channel_stats =
     rd_bind read_u16 (\<lambda>layer_id.
     rd_bind read_u8 (\<lambda>channel.
     rd_bind read_f32 (\<lambda>mn.
     rd_bind read_f32 (\<lambda>mx.
     rd_bind read_f32 (\<lambda>mean.
     rd_bind read_f32 (\<lambda>coverage.
       rd_return \<lparr>st_layer_id = layer_id, st_channel = channel, st_min = mn, st_max = mx,
                  st_mean = mean, st_coverage = coverage\<rparr>))))))"

definition global_stats_decode :: "bytes \<Rightarrow> global_stats result" where
  "global_stats_decode = rd_run
     (rd_bind (read_list_u16 read_channel_stats) (\<lambda>channels.
      rd_bind (read_list_u16 (rd_bind read_u16 (\<lambda>l. rd_bind read_f32 (\<lambda>r. rd_return (l, r))))) (\<lambda>forbidden.
      rd_bind (rd_bind read_u8 (\<lambda>present.
                 if present \<noteq> 0 then rd_bind read_f32 (\<lambda>v. rd_return (Some v)) else rd_return None))
        (\<lambda>unit_cost.
        rd_return \<lparr>gs_channels = channels, gs_forbidden_ratio = forbidden,
                   gs_connector_unit_cost_min = unit_cost\<rparr>))))"

definition global_stats_wf :: "global_stats \<Rightarrow> bool" where
  "global_stats_wf g \<longleftrightarrow> length (gs_channels g) \<le> 65535 \<and> length (gs_forbidden_ratio g) \<le> 65535"

definition unit_cost_bytes :: "f32 option \<Rightarrow> bytes" where
  "unit_cost_bytes u = (case u of Some v \<Rightarrow> 1 # le_bytes 4 v | None \<Rightarrow> [0])"

definition write_unit_cost :: "f32 option \<Rightarrow> writer \<Rightarrow> writer" where
  "write_unit_cost u =
     (case u of Some v \<Rightarrow> write_seq [write_u8 1, write_f32 v] | None \<Rightarrow> write_u8 0)"

lemma write_unit_cost_append [wire_simps]: "write_unit_cost u w = w @ unit_cost_bytes u"
  by (cases u) (simp_all add: write_unit_cost_def unit_cost_bytes_def wire_simps)

lemma reads_channel_stats:
  "reads read_channel_stats (le_bytes 2 (st_layer_id c) @ st_channel c # le_bytes 4 (st_min c)
     @ le_bytes 4 (st_max c) @ le_bytes 4 (st_mean c) @ le_bytes 4 (st_coverage c)) c"
  unfolding read_channel_stats_def by (rule reads_combs reads_intros | simp)+

lemma reads_unit_cost:
  "reads (rd_bind read_u8 (\<lambda>present.
     if present \<noteq> 0 then rd_bind read_f32 (\<lambda>v. rd_return (Some v)) else rd_return None))
     (unit_cost_bytes u) u"
proof (cases u)
  case None
  have "reads (if (0 :: u8) \<noteq> 0 then rd_bind read_f32 (\<lambda>v. rd_return (Some v)) else rd_return None) [] None"
    by (simp add: reads_return)
  then show ?thesis using None by (auto simp: unit_cost_bytes_def intro: reads_bind_u8)
next
  case (Some v)
  have "reads (if (1 :: u8) \<noteq> 0 then rd_bind read_f32 (\<lambda>v. rd_return (Some v)) else rd_return None)
      (le_bytes 4 v) (Some v)"
    by (simp add: reads_bind_return [OF reads_scalar(4)])
  then show ?thesis using Some by (auto simp: unit_cost_bytes_def intro: reads_bind_u8)
qed

interpretation global_stats_value: tlv_value global_stats_encode global_stats_decode global_stats_wf
proof (rule tlv_valueI [OF _ global_stats_decode_def])
  fix g assume "global_stats_wf g"
  then have "length (gs_channels g) \<le> 65535" "length (gs_forbidden_ratio g) \<le> 65535"
    by (simp_all add: global_stats_wf_def)
  then show "reads (rd_bind (read_list_u16 read_channel_stats) (\<lambda>channels.
      rd_bind (read_list_u16 (rd_bind read_u16 (\<lambda>l. rd_bind read_f32 (\<lambda>r. rd_return (l, r))))) (\<lambda>forbidden.
      rd_bind (rd_bind read_u8 (\<lambda>present.
                 if present \<noteq> 0 then rd_bind read_f32 (\<lambda>v. rd_return (Some v)) else rd_return None))
        (\<lambda>unit_cost.
        rd_return \<lparr>gs_channels = channels, gs_forbidden_ratio = forbidden,
                   gs_connector_unit_cost_min = unit_cost\<rparr>)))) (global_stats_encode g) g"
    unfolding global_stats_encode_def write_unit_cost_def [symmetric]
    by (simp add: wire_simps)
      (rule reads_unit_cost reads_channel_stats reads_list_u16 | rule reads_combs reads_intros | simp)+
qed

section \<open>Aggregation rules\<close>

datatype aggregation_op = MeanMax | Or | DominantWithMix | Forbidden

definition aggregation_op_from_u8 :: "u8 \<Rightarrow> aggregation_op option" where
  "aggregation_op_from_u8 v =
     (if v = 0 then Some MeanMax
      else if v = 1 then Some Or
      else if v = 2 then Some DominantWithMix
      else if v = 3 then Some Forbidden
      else None)"

record aggregation_rules =
  ar_proxy_layer :: layer_id
  ar_proxy_channel :: u8
  ar_aggr_scale :: f32
  ar_aggr_bias :: f32

definition aggregation_rules_default :: aggregation_rules where
  "aggregation_rules_default =
     \<lparr>ar_proxy_layer = HARD_FORBIDDEN, ar_proxy_channel = 0, ar_aggr_scale = f32_one, ar_aggr_bias = 0\<rparr>"

definition aggregation_rules_encode :: "aggregation_rules \<Rightarrow> bytes" where
  "aggregation_rules_encode v =
     write_seq [write_u16 (ar_proxy_layer v), write_u8 (ar_proxy_channel v),
                write_f32 (ar_aggr_scale v), write_f32 (ar_aggr_bias v)] []"

definition aggregation_rules_decode :: "bytes \<Rightarrow> aggregation_rules result" where
  "aggregation_rules_decode = rd_run
     (rd_bind read_u16 (\<lambda>proxy_layer.
      rd_bind read_u8 (\<lambda>proxy_channel.
      rd_bind read_f32 (\<lambda>aggr_scale.
      rd_bind read_f32 (\<lambda>aggr_bias.
        rd_return \<lparr>ar_proxy_layer = proxy_layer, ar_proxy_channel = proxy_channel,
                   ar_aggr_scale = aggr_scale, ar_aggr_bias = aggr_bias\<rparr>)))))"

interpretation aggregation_rules_value:
  tlv_value aggregation_rules_encode aggregation_rules_decode "\<lambda>_. True"
  by (rule tlv_valueI [OF _ aggregation_rules_decode_def],
      simp add: aggregation_rules_encode_def wire_simps)
    (rule reads_combs reads_intros | simp)+

section \<open>Fingerprint headers of derived layers\<close>

record derived_layer_entry =
  de_layer_id :: layer_id
  de_source_fingerprint :: u64
  de_build_params_hash :: u64
  de_algo_version :: u16
  de_seeds :: "u64 list"

type_synonym derived_layers = "derived_layer_entry list"

definition derived_layers_get :: "derived_layers \<Rightarrow> layer_id \<Rightarrow> derived_layer_entry option" where
  "derived_layers_get t l = find_by de_layer_id t l"

definition derived_layers_upsert :: "derived_layer_entry \<Rightarrow> derived_layers \<Rightarrow> derived_layers" where
  "derived_layers_upsert e t = upsert_by de_layer_id e t"

definition write_derived_layer_entry :: "derived_layer_entry \<Rightarrow> writer \<Rightarrow> writer" where
  "write_derived_layer_entry e =
     write_seq [write_u16 (de_layer_id e), write_u64 (de_source_fingerprint e),
                write_u64 (de_build_params_hash e), write_u16 (de_algo_version e),
                write_list_u16 write_u64 (de_seeds e)]"

definition derived_layers_encode :: "derived_layers \<Rightarrow> bytes" where
  "derived_layers_encode t = write_list_u16 write_derived_layer_entry t []"

definition read_derived_layer_entry :: "derived_layer_entry rd" where
  "read_derived_layer_entry =
     rd_bind read_u16 (\<lambda>layer_id.
     rd_bind read_u64 (\<lambda>source_fingerprint.
     rd_bind read_u64 (\<lambda>build_params_hash.
     rd_bind read_u16 (\<lambda>algo_version.
     rd_bind (read_list_u16 read_u64) (\<lambda>seeds.
       rd_return \<lparr>de_layer_id = layer_id, de_source_fingerprint = source_fingerprint,
                  de_build_params_hash = build_params_hash, de_algo_version = algo_version,
                  de_seeds = seeds\<rparr>)))))"

definition derived_layers_decode :: "bytes \<Rightarrow> derived_layers result" where
  "derived_layers_decode = rd_run (read_list_u16 read_derived_layer_entry)"

definition derived_layers_wf :: "derived_layers \<Rightarrow> bool" where
  "derived_layers_wf t \<longleftrightarrow> length t \<le> 65535 \<and> list_all (\<lambda>e. length (de_seeds e) \<le> 65535) t"

lemma write_derived_layer_entry_appending [wire_simps]: "appending (write_derived_layer_entry e)"
  by (simp add: write_derived_layer_entry_def wire_simps)

lemma reads_derived_layer_entry:
  "length (de_seeds e) \<le> 65535 \<Longrightarrow> reads read_derived_layer_entry (write_derived_layer_entry e []) e"
  unfolding read_derived_layer_entry_def write_derived_layer_entry_def
  by (simp add: wire_simps) (rule reads_combs reads_intros | simp)+

interpretation derived_layers:
  record_store de_layer_id derived_layers_get derived_layers_upsert "\<lambda>_. True"
  unfolding derived_layers_get_def [abs_def] derived_layers_upsert_def [abs_def]
  by (rule list_store.record_store_axioms)

interpretation derived_layers_value: tlv_value derived_layers_encode derived_layers_decode derived_layers_wf
  by (rule tlv_valueI [OF _ derived_layers_decode_def])
    (simp add: derived_layers_encode_def derived_layers_wf_def wire_simps list_all_iff
      reads_list_u16 reads_derived_layer_entry)

section \<open>The dictionary\<close>

definition zstd_dict_encode :: "bytes \<Rightarrow> bytes" where
  "zstd_dict_encode d = d"

definition zstd_dict_decode :: "bytes \<Rightarrow> bytes result" where
  "zstd_dict_decode bs = Inr bs"

interpretation zstd_dict_value: tlv_value zstd_dict_encode zstd_dict_decode "\<lambda>_. True"
  by unfold_locales (simp add: zstd_dict_encode_def zstd_dict_decode_def)

section \<open>Properties\<close>

text \<open>\<open>min_unit_cost\<close> of a table whose costs are not NaN is one of its costs, and none is less.\<close>

theorem min_unit_cost_minimum:
  assumes "t \<noteq> []" and "\<forall>c \<in> set t. \<not> f32_is_nan (cn_unit_cost c)"
  shows "\<exists>m \<in> cn_unit_cost ` set t. min_unit_cost t = Some m \<and> (\<forall>c \<in> set t. f32_le m (cn_unit_cost c))"
  using assms by (rule min_unit_cost_least)

definition sample_connector :: "f32 \<Rightarrow> connector" where
  "sample_connector cost = \<lparr>cn_type_id = 0, cn_a = (0, 0, 0), cn_b = (0, 0, 0), cn_dir_flag = Both,
     cn_v_up = 0, cn_v_down = 0, cn_wait_time = 0, cn_attr_ref = 0, cn_unit_cost = cost\<rparr>"

theorem min_unit_cost_minimum_witness:
  "\<exists>m \<in> cn_unit_cost ` set [sample_connector 0x40000000, sample_connector 0x3F800000].
     min_unit_cost [sample_connector 0x40000000, sample_connector 0x3F800000] = Some m
     \<and> (\<forall>c \<in> set [sample_connector 0x40000000, sample_connector 0x3F800000]. f32_le m (cn_unit_cost c))"
  by (rule min_unit_cost_minimum) (simp_all add: sample_connector_def f32_is_nan_def f32_exp_def f32_frac_def)

end
