(* ===== verification/Omf_Quadtree.thy ===== *)
theory Omf_Quadtree
  imports Omf_Table Omf_Geometry Omf_Metadata
begin

text \<open>
  The quadtree skeleton (\<open>crates/map-format/src/quadtree.rs\<close>): 16-byte nodes sorted by their
  linear-quadtree key. The node is an interpretation of \<open>fixed_record\<close>. \<open>build\<close> accepts
  exactly the node lists without a repeated key, and \<open>get\<close> then finds exactly the nodes given.
  The float operations (\<open>skeleton_side_m\<close>, \<open>bounds\<close>, \<open>locate\<close>, \<open>query\<close>, the quantisation) compute on bit patterns;
  \<open>locate\<close> is shown to walk the cells of exact arithmetic.
\<close>

section \<open>Nodes\<close>

record qnode =
  qn_morton :: u64
  qn_flags :: u8
  qn_depth :: u8
  qn_tile_ref :: u16
  qn_aggr_mean :: u16
  qn_aggr_max :: u16

definition QN_LEAF :: u8 where "QN_LEAF = push_bit 0 1"
definition QN_HAS_AGGR_MAX :: u8 where "QN_HAS_AGGR_MAX = push_bit 1 1"
definition QN_DRILL_HINT :: u8 where "QN_DRILL_HINT = push_bit 2 1"
definition QN_LIKELY_FORBIDDEN :: u8 where "QN_LIKELY_FORBIDDEN = push_bit 3 1"
definition QN_DIRECTION_CONSTRAINED :: u8 where "QN_DIRECTION_CONSTRAINED = push_bit 4 1"

definition qnode_new :: "u64 \<Rightarrow> u8 \<Rightarrow> u16 \<Rightarrow> u16 \<Rightarrow> u16 \<Rightarrow> qnode" where
  "qnode_new morton flags tile_ref aggr_mean aggr_max =
     \<lparr>qn_morton = morton, qn_flags = flags, qn_depth = word_of_nat (node_key_depth morton),
      qn_tile_ref = tile_ref, qn_aggr_mean = aggr_mean, qn_aggr_max = aggr_max\<rparr>"

definition qnode_key_depth :: "qnode \<Rightarrow> nat" where
  "qnode_key_depth n = node_key_depth (qn_morton n)"

definition qnode_key_xy :: "qnode \<Rightarrow> u32 \<times> u32" where
  "qnode_key_xy n = node_key_xy (qn_morton n)"

definition qnode_is_leaf :: "qnode \<Rightarrow> bool" where
  "qnode_is_leaf n \<longleftrightarrow> qn_flags n AND QN_LEAF \<noteq> 0"

definition qnode_needs_drill_down :: "qnode \<Rightarrow> bool" where
  "qnode_needs_drill_down n \<longleftrightarrow> qn_flags n AND QN_DRILL_HINT \<noteq> 0"

definition qnode_to_bytes :: "qnode \<Rightarrow> bytes" where
  "qnode_to_bytes n =
     puts [\<lambda>b. put_u64 b 0 (qn_morton n),
           \<lambda>b. put_u8 b 8 (qn_flags n),
           \<lambda>b. put_u8 b 9 (qn_depth n),
           \<lambda>b. put_u16 b 10 (qn_tile_ref n),
           \<lambda>b. put_u16 b 12 (qn_aggr_mean n),
           \<lambda>b. put_u16 b 14 (qn_aggr_max n)]
       (replicate 16 0)"

definition qnode_from_bytes :: "bytes \<Rightarrow> qnode result" where
  "qnode_from_bytes buf =
     (if length buf < 16 then Inl (Truncated 0 16 (length buf))
      else
        rbind (get_u64 buf 0) (\<lambda>morton.
        rbind (get_u8 buf 8) (\<lambda>flags.
        rbind (get_u8 buf 9) (\<lambda>depth.
        rbind (get_u16 buf 10) (\<lambda>tile_ref.
        rbind (get_u16 buf 12) (\<lambda>aggr_mean.
        rbind (get_u16 buf 14) (\<lambda>aggr_max.
          Inr \<lparr>qn_morton = morton, qn_flags = flags, qn_depth = depth, qn_tile_ref = tile_ref,
               qn_aggr_mean = aggr_mean, qn_aggr_max = aggr_max\<rparr>)))))))"

lemma qnode_layout:
  "qnode_to_bytes n =
     layout (le_bytes 8 (qn_morton n) @ [qn_flags n, qn_depth n] @ le_bytes 2 (qn_tile_ref n)
       @ le_bytes 2 (qn_aggr_mean n) @ le_bytes 2 (qn_aggr_max n)) 0"
  by (simp add: qnode_to_bytes_def layout_simps)

interpretation qnode_record: fixed_record 16 qnode_to_bytes qnode_from_bytes "\<lambda>_. True"
proof unfold_locales
  show "length (qnode_to_bytes n) = 16" for n
    by (simp add: qnode_layout layout_def)
  show "qnode_from_bytes (qnode_to_bytes n @ rest) = Inr n" for n rest
    unfolding qnode_layout qnode_from_bytes_def by (simp add: field_reads cong: rbind_cong)
  show "length bs < 16 \<Longrightarrow> qnode_from_bytes bs = Inl (Truncated 0 16 (length bs))" for bs
    by (simp add: qnode_from_bytes_def)
qed simp

section \<open>The skeleton\<close>

type_synonym skeleton = "qnode list"

text \<open>\<open>windows(2).find(..)\<close>: the first key equal to its successor's.\<close>

fun adjacent_duplicate :: "('r \<Rightarrow> 'k) \<Rightarrow> 'r list \<Rightarrow> 'k option" where
  "adjacent_duplicate key (a # b # rs) =
     (if key a = key b then Some (key a) else adjacent_duplicate key (b # rs))"
| "adjacent_duplicate key _ = None"

definition skeleton_build :: "qnode list \<Rightarrow> skeleton result" where
  "skeleton_build nodes =
     (let nodes = sort_key qn_morton nodes
      in case adjacent_duplicate qn_morton nodes of
           Some m \<Rightarrow> Inl (invalid (''duplicate quadtree node for morton code '' @ show_hex (unat m)))
         | None \<Rightarrow> Inr nodes)"

definition skeleton_empty :: skeleton where
  "skeleton_empty = []"

definition skeleton_max_depth :: "skeleton \<Rightarrow> u8" where
  "skeleton_max_depth s = fold (\<lambda>n d. max d (qn_depth n)) s 0"

definition skeleton_get :: "skeleton \<Rightarrow> u64 \<Rightarrow> qnode option" where
  "skeleton_get s morton = sorted_find qn_morton s morton"

definition skeleton_to_bytes :: "skeleton \<Rightarrow> bytes" where
  "skeleton_to_bytes s = fold (\<lambda>n out. out @ qnode_to_bytes n) s []"

definition skeleton_from_bytes :: "bytes \<Rightarrow> skeleton result" where
  "skeleton_from_bytes bs =
     (if length bs mod 16 \<noteq> 0
      then Inl (invalid (''skeleton length '' @ show_nat (length bs)
                 @ '' is not a multiple of '' @ show_nat 16))
      else rbind (rmapM qnode_from_bytes (chunks_exact 16 bs)) skeleton_build)"

definition skeleton_ok :: "skeleton \<Rightarrow> bool" where
  "skeleton_ok s \<longleftrightarrow> sorted_by qn_morton s"

text \<open>The loop of \<open>locate\<close>: \<open>cell depth\<close> is the pair \<open>(ix, iy)\<close> it computes at a depth.\<close>

fun locate_from :: "skeleton \<Rightarrow> (nat \<Rightarrow> u32 \<times> u32) \<Rightarrow> nat \<Rightarrow> qnode option" where
  "locate_from s cell depth =
     (case skeleton_get s (node_key (fst (cell depth)) (snd (cell depth)) depth) of
        Some n \<Rightarrow> Some n
      | None \<Rightarrow> (case depth of 0 \<Rightarrow> None | Suc d \<Rightarrow> locate_from s cell d))"

declare locate_from.simps [simp del]

text \<open>\<open>u64::next_power_of_two\<close> of a value below \<open>2 ^ 63\<close>.\<close>

definition next_power_of_two :: "u64 \<Rightarrow> u64" where
  "next_power_of_two n = (if unat n \<le> 1 then 1 else push_bit (top_bit (unat n - 1) + 1) 1)"

definition MAX_SIDE_CELLS :: u64 where "MAX_SIDE_CELLS = push_bit 32 1"

definition skeleton_side_m :: "aabb \<Rightarrow> f64 \<Rightarrow> f64" where
  "skeleton_side_m b base_res_m =
     (if \<not> f64_is_finite base_res_m \<or> f64_le base_res_m 0 then f64_max (aabb_width b) (aabb_height b)
      else
        let extent = f64_max (f64_max (aabb_width b) (aabb_height b)) 0;
            cells = f64_max (f64_ceil (f64_div extent base_res_m)) f64_one
        in if \<not> f64_is_finite cells \<or> f64_le (f64_of_nat (unat MAX_SIDE_CELLS)) cells
           then f64_mul (f64_of_nat (unat MAX_SIDE_CELLS)) base_res_m
           else f64_mul (f64_of_nat (unat (next_power_of_two (f64_to_u64 cells)))) base_res_m)"

definition qnode_bounds :: "qnode \<Rightarrow> aabb \<Rightarrow> f64 \<Rightarrow> aabb" where
  "qnode_bounds n b base_res_m =
     (let (ix, iy) = qnode_key_xy n;
          cell = f64_div (skeleton_side_m b base_res_m) (f64_two_pow (qnode_key_depth n));
          fx = f64_of_nat (unat ix); fy = f64_of_nat (unat iy)
      in aabb_new (f64_add (min_x b) (f64_mul fx cell)) (f64_add (min_y b) (f64_mul fy cell))
           (f64_add (min_x b) (f64_mul (f64_add fx f64_one) cell))
           (f64_add (min_y b) (f64_mul (f64_add fy f64_one) cell)))"

definition locate_axis :: "f64 \<Rightarrow> nat \<Rightarrow> u32" where
  "locate_axis u depth =
     (let scale = push_bit depth 1
      in min (f64_to_u32 (f64_mul u (f64_of_nat (unat scale)))) (scale - 1))"

definition skeleton_locate :: "skeleton \<Rightarrow> f64 \<Rightarrow> f64 \<Rightarrow> aabb \<Rightarrow> f64 \<Rightarrow> u8 \<Rightarrow> qnode option" where
  "skeleton_locate s x y b base_res_m max_depth =
     (if s = [] \<or> f64_le (aabb_width b) 0 \<or> f64_le (aabb_height b) 0 then None
      else
        let side = skeleton_side_m b base_res_m;
            u = f64_div (f64_sub x (min_x b)) side;
            v = f64_div (f64_sub y (min_y b)) side
        in if \<not> (f64_le 0 u \<and> f64_le u f64_one) \<or> \<not> (f64_le 0 v \<and> f64_le v f64_one) then None
           else locate_from s (\<lambda>depth. (locate_axis u depth, locate_axis v depth)) (min (unat max_depth) 31))"

definition skeleton_query :: "skeleton \<Rightarrow> aabb \<Rightarrow> aabb \<Rightarrow> f64 \<Rightarrow> qnode list" where
  "skeleton_query s bbox b base_res_m =
     filter (\<lambda>n. aabb_intersects (qnode_bounds n b base_res_m) bbox) s"

text \<open>Aggregates in real units, and the quantisation of the builders.\<close>

definition dequantise_mean :: "qnode \<Rightarrow> aggregation_rules \<Rightarrow> f32" where
  "dequantise_mean n rules =
     f32_add (f32_mul (f32_of_int (uint (qn_aggr_mean n))) (ar_aggr_scale rules)) (ar_aggr_bias rules)"

definition dequantise_max :: "qnode \<Rightarrow> aggregation_rules \<Rightarrow> f32" where
  "dequantise_max n rules =
     f32_add (f32_mul (f32_of_int (uint (qn_aggr_max n))) (ar_aggr_scale rules)) (ar_aggr_bias rules)"

definition F32_EPSILON :: f32 where "F32_EPSILON = 0x34000000"

definition f32_abs :: "f32 \<Rightarrow> f32" where
  "f32_abs v = v AND 0x7FFFFFFF"

definition aggr_quantise :: "f32 \<Rightarrow> aggregation_rules \<Rightarrow> u16" where
  "aggr_quantise v rules =
     (if f32_lt (f32_abs (ar_aggr_scale rules)) F32_EPSILON then 0
      else
        let raw = f32_div (f32_sub v (ar_aggr_bias rules)) (ar_aggr_scale rules)
        in word_of_int (f32_to_int 0 65535 (f32_clamp (f32_round raw) 0 0x477FFF00)))"

lemma adjacent_duplicate_None_iff:
  "sorted (map key rs) \<Longrightarrow> adjacent_duplicate key rs = None \<longleftrightarrow> distinct (map key rs)"
proof (induction key rs rule: adjacent_duplicate.induct)
  case (1 key a b rs)
  then show ?case by (force simp: image_iff)
qed simp_all

lemma adjacent_duplicate_Some:
  "adjacent_duplicate key rs = Some k \<Longrightarrow> k \<in> key ` set rs"
  by (induction key rs rule: adjacent_duplicate.induct) (auto split: if_splits)

lemma skeleton_build_ok_iff:
  "is_ok (skeleton_build nodes) \<longleftrightarrow> distinct (map qn_morton nodes)"
proof -
  have "sorted (map qn_morton (sort_key qn_morton nodes))" by simp
  then have "adjacent_duplicate qn_morton (sort_key qn_morton nodes) = None
      \<longleftrightarrow> distinct (map qn_morton nodes)"
    by (simp add: adjacent_duplicate_None_iff distinct_map)
  then show ?thesis by (auto simp: skeleton_build_def Let_def split: option.split)
qed

lemma skeleton_build_Inr:
  assumes "skeleton_build nodes = Inr s"
  shows "s = sort_key qn_morton nodes" and "skeleton_ok s"
proof -
  have "distinct (map qn_morton nodes)"
    using skeleton_build_ok_iff [of nodes] assms by simp
  then show "skeleton_ok s" "s = sort_key qn_morton nodes"
    using assms by (auto simp: skeleton_build_def skeleton_ok_def sorted_by_sort_key Let_def
        split: option.splits)
qed

lemma skeleton_get_Some_iff:
  "skeleton_ok s \<Longrightarrow> skeleton_get s m = Some n \<longleftrightarrow> n \<in> set s \<and> qn_morton n = m"
  by (simp add: skeleton_get_def skeleton_ok_def sorted_find_Some_iff)

lemma skeleton_from_to_bytes: "skeleton_from_bytes (skeleton_to_bytes s) = skeleton_build s"
  using qnode_record.array_roundtrip [of s]
  by (simp add: skeleton_from_bytes_def skeleton_to_bytes_def fold_append_map
      qnode_record.array_length list_all_iff)

lemma locate_from_Some:
  "locate_from s cell d = Some n \<longleftrightarrow>
     (\<exists>k \<le> d. skeleton_get s (node_key (fst (cell k)) (snd (cell k)) k) = Some n
        \<and> (\<forall>j. k < j \<and> j \<le> d \<longrightarrow> skeleton_get s (node_key (fst (cell j)) (snd (cell j)) j) = None))"
proof (induction d)
  case 0
  show ?case by (subst locate_from.simps) (auto split: option.split)
next
  case (Suc d)
  show ?case
  proof (cases "skeleton_get s (node_key (fst (cell (Suc d))) (snd (cell (Suc d))) (Suc d))")
    case None
    then show ?thesis
      using Suc by (subst locate_from.simps) (auto simp: le_Suc_eq)
  next
    case (Some m)
    then show ?thesis by (subst locate_from.simps) (force simp: le_Suc_eq)
  qed
qed

lemma floor_div_two_pow: "\<lfloor>(x :: rat) / 2 ^ e\<rfloor> = \<lfloor>x\<rfloor> div 2 ^ e"
proof (rule floor_unique)
  have "of_int (\<lfloor>x\<rfloor> div 2 ^ e * 2 ^ e) \<le> (of_int \<lfloor>x\<rfloor> :: rat)"
    unfolding of_int_le_iff by (simp add: div_times_less_eq_dividend minus_mod_eq_div_mult [symmetric])
  also have "\<dots> \<le> x" by simp
  finally show "of_int (\<lfloor>x\<rfloor> div 2 ^ e) \<le> x / 2 ^ e" by (simp add: field_simps)
  have "\<lfloor>x\<rfloor> + 1 \<le> (\<lfloor>x\<rfloor> div 2 ^ e + 1) * 2 ^ e"
    using pos_mod_bound [of "2 ^ e" "\<lfloor>x\<rfloor>", OF zero_less_power [OF zero_less_numeral]]
      div_mult_mod_eq [of "\<lfloor>x\<rfloor>" "2 ^ e"]
    unfolding distrib_right mult_1 by linarith
  then have "of_int (\<lfloor>x\<rfloor> + 1) \<le> (of_int ((\<lfloor>x\<rfloor> div 2 ^ e + 1) * 2 ^ e) :: rat)"
    unfolding of_int_le_iff .
  moreover have "x < of_int (\<lfloor>x\<rfloor> + 1)" by linarith
  ultimately have "x < of_int ((\<lfloor>x\<rfloor> div 2 ^ e + 1) * 2 ^ e)" by linarith
  then show "x / 2 ^ e < of_int (\<lfloor>x\<rfloor> div 2 ^ e) + 1" by (simp add: field_simps)
qed

text \<open>Multiplying by \<open>2 ^ d\<close>, truncating and clamping gives the cell of the exact rational number.\<close>

lemma locate_axis_floor:
  assumes "f64_le 0 u" and "f64_le u f64_one" and "d \<le> 31"
  shows "unat (locate_axis u d) = min (nat \<lfloor>fl_rat Double (f64_fl u) * 2 ^ d\<rfloor>) (2 ^ d - 1)"
proof -
  define r where "r = fl_rat Double (f64_fl u)"
  note m = f64_mul_two_pow [OF assms(1) assms(2) [unfolded f64_one_def] assms(3), folded r_def]
  have "(2 :: nat) ^ d \<le> 2 ^ 31" using assms(3) by (intro power_increasing) simp_all
  then have lt: "(2 :: nat) ^ d < 2 ^ 32" by simp
  have p: "unat (push_bit d 1 :: u32) = 2 ^ d"
  proof -
    have "(push_bit d 1 :: u32) = word_of_nat (2 ^ d)" by simp
    show ?thesis unfolding \<open>push_bit d 1 = word_of_nat (2 ^ d)\<close> unat_of_nat using lt by simp
  qed
  have p1: "unat (push_bit d 1 - 1 :: u32) = 2 ^ d - 1"
  proof -
    have "(push_bit d 1 :: u32) \<noteq> 0" using p by (metis power_not_zero unat_0 zero_neq_numeral)
    then show ?thesis using p by (simp add: unat_minus_one)
  qed
  have "r * 2 ^ d \<le> 1 * 2 ^ d" using m(2) by (intro mult_right_mono) simp_all
  also have "(1 :: rat) * 2 ^ d = of_nat (2 ^ d)" by simp
  also have "\<dots> \<le> of_nat (2 ^ 31)" using \<open>2 ^ d \<le> 2 ^ 31\<close> unfolding of_nat_le_iff .
  finally have "r * 2 ^ d < of_int (2 ^ 32)" by simp
  then have f: "0 \<le> \<lfloor>r * 2 ^ d\<rfloor>" "\<lfloor>r * 2 ^ d\<rfloor> < 2 ^ 32" using m(1) by (simp_all add: floor_less_iff)
  have "unat (f64_to_u32 (f64_mul u (f64_of_nat (unat (push_bit d 1 :: u32))))) = nat \<lfloor>r * 2 ^ d\<rfloor>"
    unfolding p m(3) using f by (simp add: unat_eq_nat_uint uint_word_of_int)
  then show ?thesis
    unfolding locate_axis_def Let_def r_def [symmetric] using p1 by (simp add: min_def word_le_nat_alt)
qed

text \<open>The cell of a position between 0 and 1 along one axis, of the \<open>2 ^ d\<close> cells at depth \<open>d\<close>, in rational numbers, and
  the key of the cell of a point.\<close>

definition axis_cell :: "f64 \<Rightarrow> nat \<Rightarrow> nat" where
  "axis_cell u d = min (nat \<lfloor>fl_rat Double (f64_fl u) * 2 ^ d\<rfloor>) (2 ^ d - 1)"

definition point_key :: "f64 \<Rightarrow> f64 \<Rightarrow> nat \<Rightarrow> u64" where
  "point_key u v d = node_key (word_of_nat (axis_cell u d)) (word_of_nat (axis_cell v d)) d"

lemma locate_axis_cell:
  "f64_le 0 u \<Longrightarrow> f64_le u f64_one \<Longrightarrow> d \<le> 31 \<Longrightarrow> locate_axis u d = word_of_nat (axis_cell u d)"
  unfolding axis_cell_def by (metis locate_axis_floor of_nat_unat ucast_id)

lemma axis_cell_ancestor:
  assumes "f64_le 0 u" and "f64_le u f64_one" and "j \<le> d" and "d \<le> 31"
  shows "axis_cell u j = axis_cell u d div 2 ^ (d - j)"
proof -
  define r where "r = fl_rat Double (f64_fl u)"
  have r: "0 \<le> r" "r \<le> 1" using f64_mul_two_pow(1,2) [OF assms(1) assms(2) [unfolded f64_one_def] assms(4)] by (simp_all add: r_def)
  define e where "e = d - j"
  have de: "d = j + e" using assms(3) by (simp add: e_def)
  have fl: "nat \<lfloor>r * 2 ^ d\<rfloor> div 2 ^ e = nat \<lfloor>r * 2 ^ j\<rfloor>"
  proof -
    have "r * 2 ^ d / 2 ^ e = r * 2 ^ j" by (simp add: de power_add)
    with floor_div_two_pow [of "r * 2 ^ d" e] have "\<lfloor>r * 2 ^ d\<rfloor> div 2 ^ e = \<lfloor>r * 2 ^ j\<rfloor>" by simp
    then show ?thesis using r(1) by (simp add: nat_div_distrib nat_power_eq flip: \<open>\<lfloor>r * 2 ^ d\<rfloor> div 2 ^ e = _\<close>)
  qed
  have top: "((2 :: nat) ^ d - 1) div 2 ^ e = 2 ^ j - 1"
  proof -
    obtain p t where "(2 :: nat) ^ j = Suc p" "(2 :: nat) ^ e = Suc t"
      by (metis not0_implies_Suc power_not_zero zero_neq_numeral)
    then show ?thesis unfolding de power_add by (intro div_nat_eqI) simp_all
  qed
  have "min a b div 2 ^ e = min (a div 2 ^ e) (b div 2 ^ e)" for a b :: nat
    by (metis div_le_mono linorder_linear min.absorb1 min.absorb2)
  with fl top show ?thesis by (simp add: axis_cell_def r_def e_def)
qed

lemma locate_from_None:
  "locate_from s cell d = None \<longleftrightarrow> (\<forall>k \<le> d. skeleton_get s (node_key (fst (cell k)) (snd (cell k)) k) = None)"
proof (induction d)
  case 0
  show ?case by (subst locate_from.simps) (simp split: option.split)
next
  case (Suc d)
  then show ?case by (subst locate_from.simps) (auto simp: le_Suc_eq split: option.split)
qed

section \<open>Properties\<close>

text \<open>A skeleton is built exactly from nodes with distinct Morton keys, and then \<open>get\<close> finds a node
  under a key exactly when it is one of them.\<close>

theorem skeleton_build_get:
  "(is_ok (skeleton_build nodes) \<longleftrightarrow> distinct (map qn_morton nodes))
   \<and> (\<forall>s m n. skeleton_build nodes = Inr s \<longrightarrow>
        (skeleton_get s m = Some n \<longleftrightarrow> n \<in> set nodes \<and> qn_morton n = m))"
proof (intro conjI allI impI)
  show "is_ok (skeleton_build nodes) \<longleftrightarrow> distinct (map qn_morton nodes)" by (rule skeleton_build_ok_iff)
  fix s m n assume b: "skeleton_build nodes = Inr s"
  show "skeleton_get s m = Some n \<longleftrightarrow> n \<in> set nodes \<and> qn_morton n = m"
    using skeleton_get_Some_iff [OF skeleton_build_Inr(2) [OF b]] skeleton_build_Inr(1) [OF b] by simp
qed

definition sample_node :: "u64 \<Rightarrow> qnode" where
  "sample_node m = \<lparr>qn_morton = m, qn_flags = 0, qn_depth = 1, qn_tile_ref = 0, qn_aggr_mean = 0, qn_aggr_max = 0\<rparr>"

theorem skeleton_build_get_witness:
  "skeleton_get [sample_node 4, sample_node 6] 6 = Some (sample_node 6)"
proof -
  have "skeleton_build [sample_node 6, sample_node 4] = Inr [sample_node 4, sample_node 6]" by code_simp
  then show ?thesis
    using conjunct2 [OF skeleton_build_get [of "[sample_node 6, sample_node 4]"]]
    by (auto simp: sample_node_def)
qed

text \<open>C24: \<open>locate\<close> returns the deepest node above the point. With \<open>u\<close> and \<open>v\<close> the point's offsets from the corner of
  the map as fractions of the side of the root cell, it returns the node of the cell that contains the point at
  some depth up to the limit, when no deeper cell that contains it has a node; and it returns none exactly when
  the skeleton is empty, the map has no extent, the point is outside the root cell, or no cell that
  contains it has a node. (\<open>u\<close> and \<open>v\<close> are the rounded quotients of the code; from them on nothing is lost: the
  cells are those of the exact rational numbers they stand for, each inside the one at the depth before.)\<close>

theorem locate_deepest:
  assumes "u = f64_div (f64_sub x (min_x b)) (skeleton_side_m b base_res_m)"
    and "v = f64_div (f64_sub y (min_y b)) (skeleton_side_m b base_res_m)"
    and "limit = min (unat max_depth) 31"
    and "inside \<longleftrightarrow> f64_le 0 u \<and> f64_le u f64_one \<and> f64_le 0 v \<and> f64_le v f64_one"
    and "no_extent \<longleftrightarrow> f64_le (aabb_width b) 0 \<or> f64_le (aabb_height b) 0"
  shows "(skeleton_locate s x y b base_res_m max_depth = Some n \<longleftrightarrow>
        s \<noteq> [] \<and> \<not> no_extent \<and> inside
        \<and> (\<exists>k \<le> limit. skeleton_get s (point_key u v k) = Some n
             \<and> (\<forall>j. k < j \<and> j \<le> limit \<longrightarrow> skeleton_get s (point_key u v j) = None)))
    \<and> (skeleton_locate s x y b base_res_m max_depth = None \<longleftrightarrow>
        s = [] \<or> no_extent \<or> \<not> inside \<or> (\<forall>k \<le> limit. skeleton_get s (point_key u v k) = None))
    \<and> (inside \<longrightarrow> (\<forall>k < limit. axis_cell u k = axis_cell u (Suc k) div 2 \<and> axis_cell v k = axis_cell v (Suc k) div 2))"
proof -
  let ?cell = "\<lambda>depth. (locate_axis u depth, locate_axis v depth)"
  have loc: "skeleton_locate s x y b base_res_m max_depth
      = (if s = [] \<or> no_extent \<or> \<not> inside then None else locate_from s ?cell limit)"
    unfolding assms(3-5) skeleton_locate_def Let_def assms(1,2) [symmetric] by simp
  have key: "node_key (fst (?cell k)) (snd (?cell k)) k = point_key u v k" if "inside" "k \<le> limit" for k
    using that assms(3,4) by (simp add: point_key_def locate_axis_cell)
  have "locate_from s ?cell limit = Some n \<longleftrightarrow> (\<exists>k \<le> limit. skeleton_get s (point_key u v k) = Some n
      \<and> (\<forall>j. k < j \<and> j \<le> limit \<longrightarrow> skeleton_get s (point_key u v j) = None))" if inside
    unfolding locate_from_Some using key [OF that] by (intro arg_cong [where f = Ex] ext) auto
  moreover have "locate_from s ?cell limit = None \<longleftrightarrow> (\<forall>k \<le> limit. skeleton_get s (point_key u v k) = None)" if inside
    unfolding locate_from_None using key [OF that] by simp
  moreover have "axis_cell w k = axis_cell w (Suc k) div 2" if "f64_le 0 w" "f64_le w f64_one" "k < limit" for w k
    using axis_cell_ancestor [OF that(1,2), of k "Suc k"] that(3) assms(3) by simp
  then have "axis_cell u k = axis_cell u (Suc k) div 2 \<and> axis_cell v k = axis_cell v (Suc k) div 2" if inside "k < limit" for k
    using that assms(4) by blast
  ultimately show ?thesis unfolding loc by simp
qed

text \<open>A map of one metre a side and one cell, and the point three quarters along it and a quarter up.\<close>

definition unit_box :: aabb where
  "unit_box = \<lparr>min_x = 0, min_y = 0, max_x = f64_one, max_y = f64_one\<rparr>"

theorem locate_deepest_witness:
  "skeleton_locate [sample_node 1, sample_node 5] 0x3FE8000000000000 0x3FD0000000000000 unit_box f64_one 2 = Some (sample_node 5)
   \<and> skeleton_locate [sample_node 1, sample_node 5] 0x3FD0000000000000 0x3FE8000000000000 unit_box f64_one 2 = Some (sample_node 1)"
proof -
  have ops: "f64_sub 0x3FF0000000000000 0 = 0x3FF0000000000000"
    "f64_sub 0x3FE8000000000000 0 = 0x3FE8000000000000" "f64_sub 0x3FD0000000000000 0 = 0x3FD0000000000000"
    "f64_div 0x3FF0000000000000 0x3FF0000000000000 = 0x3FF0000000000000"
    "f64_div 0x3FE8000000000000 0x3FF0000000000000 = 0x3FE8000000000000"
    "f64_div 0x3FD0000000000000 0x3FF0000000000000 = 0x3FD0000000000000"
    "f64_ceil 0x3FF0000000000000 = 0x3FF0000000000000" "f64_of_nat 4294967296 = 0x41F0000000000000"
    "f64_to_u64 0x3FF0000000000000 = 1" "f64_of_nat (Suc 0) = 0x3FF0000000000000"
    "f64_mul 0x3FF0000000000000 0x3FF0000000000000 = 0x3FF0000000000000"
    by (simp_all add: float_eval)
  have orig: "min_x unit_box = 0" "min_y unit_box = 0" by (simp_all add: unit_box_def)
  have box: "aabb_width unit_box = f64_one" "aabb_height unit_box = f64_one"
    by (simp_all add: aabb_width_def aabb_height_def unit_box_def f64_one_def ops)
  have cmp: "f64_max f64_one f64_one = f64_one" "f64_max f64_one 0 = f64_one"
    "\<not> f64_le f64_one 0" "f64_le 0 0x3FE8000000000000" "f64_le 0 0x3FD0000000000000"
    "f64_le 0x3FE8000000000000 f64_one" "f64_le 0x3FD0000000000000 f64_one" "\<not> f64_le 0x41F0000000000000 f64_one"
    by (simp_all add: f64_cmp_eval f64_one_def)
  have fin: "f64_is_finite f64_one" by (simp add: f64_one_def float_eval f64_is_finite_def)
  have cells: "unat MAX_SIDE_CELLS = 4294967296" "next_power_of_two 1 = 1"
    by (simp_all add: MAX_SIDE_CELLS_def next_power_of_two_def)
  have side: "skeleton_side_m unit_box f64_one = f64_one"
    using cmp(8) by (simp add: skeleton_side_m_def box cmp fin Let_def cells ops [folded f64_one_def])
  let ?u = "0x3FE8000000000000 :: f64" and ?v = "0x3FD0000000000000 :: f64" and ?s = "[sample_node 1, sample_node 5]"
  have rats: "fl_rat Double (f64_fl ?u) = 3 / 4" "fl_rat Double (f64_fl ?v) = 1 / 4" by (simp_all add: float_eval)
  have axis: "axis_cell ?u 0 = 0" "axis_cell ?u (Suc 0) = 1" "axis_cell ?u 2 = 3"
    "axis_cell ?v 0 = 0" "axis_cell ?v (Suc 0) = 0" "axis_cell ?v 2 = 1"
    by (simp_all add: axis_cell_def rats floor_divide_of_int_eq [of 3 4, where 'a = rat, simplified]
        floor_divide_of_int_eq [of 3 2, where 'a = rat, simplified] floor_divide_of_int_eq [of 1 2, where 'a = rat, simplified]
        floor_divide_of_int_eq [of 1 4, where 'a = rat, simplified])
  have "skeleton_get ?s (node_key 3 1 2) = None" by code_simp
  moreover have "skeleton_get ?s (node_key 1 0 1) = Some (sample_node 5)" by code_simp
  moreover have "skeleton_get ?s (node_key 1 3 2) = None" by code_simp
  moreover have "skeleton_get ?s (node_key 0 1 1) = None" by code_simp
  moreover have "skeleton_get ?s (node_key 0 0 0) = Some (sample_node 1)" by code_simp
  ultimately have keys: "skeleton_get ?s (point_key ?u ?v 2) = None" "skeleton_get ?s (point_key ?u ?v 1) = Some (sample_node 5)"
    "skeleton_get ?s (point_key ?v ?u 2) = None" "skeleton_get ?s (point_key ?v ?u 1) = None"
    "skeleton_get ?s (point_key ?v ?u 0) = Some (sample_node 1)"
    by (simp_all add: point_key_def axis)
  have two: "1 < j \<and> j \<le> 2 \<longleftrightarrow> j = 2" "0 < j \<and> j \<le> 2 \<longleftrightarrow> j = 1 \<or> j = 2" for j :: nat by auto
  have "skeleton_locate ?s ?u ?v unit_box f64_one 2 = Some (sample_node 5)"
    using locate_deepest [where s = ?s and x = ?u and y = ?v and b = unit_box and base_res_m = f64_one and max_depth = 2
        and n = "sample_node 5" and u = ?u and v = ?v, OF _ _ refl refl refl]
      cmp keys two by (simp add: side orig box ops [folded f64_one_def]) (metis one_le_numeral)
  moreover have "skeleton_locate ?s ?v ?u unit_box f64_one 2 = Some (sample_node 1)"
    using locate_deepest [where s = ?s and x = ?v and y = ?u and b = unit_box and base_res_m = f64_one and max_depth = 2
        and n = "sample_node 1" and u = ?v and v = ?u, OF _ _ refl refl refl]
      cmp keys two by (simp add: side orig box ops [folded f64_one_def]) (metis zero_le)
  ultimately show ?thesis ..
qed

end
