(* ===== verification/Omf_Directory.thy ===== *)
theory Omf_Directory
  imports Omf_Layer
begin

text \<open>
  The chunk directory (\<open>crates/map-format/src/directory.rs\<close>): 32-byte records sorted by
  \<open>(layer_id, level, chunk_id)\<close>. The record is an interpretation of \<open>fixed_record\<close>, the
  directory one of \<open>record_store_del\<close>; a directory read from bytes finds exactly the records
  that were written, and the two partition points of \<open>for_layer_level\<close> cut out the records of
  the pair.
\<close>

section \<open>Records\<close>

record chunk_record =
  cr_chunk_id :: u32
  cr_layer_id :: layer_id
  cr_level :: u8
  cr_codec :: u8
  cr_offset :: u64
  cr_comp_len :: u32
  cr_raw_len :: u32
  cr_crc32 :: u32
  cr_flags :: u32

definition MEAN_BLOCK :: u32 where "MEAN_BLOCK = push_bit 0 1"
definition MAX_BLOCK :: u32 where "MAX_BLOCK = push_bit 1 1"
definition SPARSE_BLOCK :: u32 where "SPARSE_BLOCK = push_bit 2 1"
definition TOMBSTONE :: u32 where "TOMBSTONE = push_bit 31 1"

definition chunk_record_new ::
  "layer_id \<Rightarrow> u8 \<Rightarrow> u32 \<Rightarrow> u8 \<Rightarrow> u64 \<Rightarrow> u32 \<Rightarrow> u32 \<Rightarrow> u32 \<Rightarrow> chunk_record" where
  "chunk_record_new layer_id level chunk_id codec offset comp_len raw_len crc =
     \<lparr>cr_chunk_id = chunk_id, cr_layer_id = layer_id, cr_level = level, cr_codec = codec,
      cr_offset = offset, cr_comp_len = comp_len, cr_raw_len = raw_len, cr_crc32 = crc,
      cr_flags = 0\<rparr>"

type_synonym dir_key = "layer_id \<times> u8 \<times> u32"

definition record_key :: "chunk_record \<Rightarrow> dir_key" where
  "record_key r = (cr_layer_id r, cr_level r, cr_chunk_id r)"

definition chunk_record_to_bytes :: "chunk_record \<Rightarrow> bytes" where
  "chunk_record_to_bytes r =
     puts [\<lambda>b. put_u32 b 0 (cr_chunk_id r),
           \<lambda>b. put_u16 b 4 (cr_layer_id r),
           \<lambda>b. put_u8 b 6 (cr_level r),
           \<lambda>b. put_u8 b 7 (cr_codec r),
           \<lambda>b. put_u64 b 8 (cr_offset r),
           \<lambda>b. put_u32 b 16 (cr_comp_len r),
           \<lambda>b. put_u32 b 20 (cr_raw_len r),
           \<lambda>b. put_u32 b 24 (cr_crc32 r),
           \<lambda>b. put_u32 b 28 (cr_flags r)]
       (replicate 32 0)"

definition chunk_record_from_bytes :: "bytes \<Rightarrow> chunk_record result" where
  "chunk_record_from_bytes buf =
     (if length buf < 32 then Inl (Truncated 0 32 (length buf))
      else
        rbind (get_u32 buf 0) (\<lambda>chunk_id.
        rbind (get_u16 buf 4) (\<lambda>layer_id.
        rbind (get_u8 buf 6) (\<lambda>level.
        rbind (get_u8 buf 7) (\<lambda>codec.
        rbind (get_u64 buf 8) (\<lambda>offset.
        rbind (get_u32 buf 16) (\<lambda>comp_len.
        rbind (get_u32 buf 20) (\<lambda>raw_len.
        rbind (get_u32 buf 24) (\<lambda>crc.
        rbind (get_u32 buf 28) (\<lambda>flags.
          Inr \<lparr>cr_chunk_id = chunk_id, cr_layer_id = layer_id, cr_level = level,
               cr_codec = codec, cr_offset = offset, cr_comp_len = comp_len,
               cr_raw_len = raw_len, cr_crc32 = crc, cr_flags = flags\<rparr>))))))))))"

lemma chunk_record_layout:
  "chunk_record_to_bytes r =
     layout (le_bytes 4 (cr_chunk_id r) @ le_bytes 2 (cr_layer_id r) @ [cr_level r, cr_codec r]
       @ le_bytes 8 (cr_offset r) @ le_bytes 4 (cr_comp_len r) @ le_bytes 4 (cr_raw_len r)
       @ le_bytes 4 (cr_crc32 r) @ le_bytes 4 (cr_flags r)) 0"
  by (simp add: chunk_record_to_bytes_def layout_simps)

lemma chunk_record_from_to: "chunk_record_from_bytes (chunk_record_to_bytes r @ rest) = Inr r"
  unfolding chunk_record_layout chunk_record_from_bytes_def
  by (simp add: field_reads cong: rbind_cong)

interpretation chunk_record:
  fixed_record 32 chunk_record_to_bytes chunk_record_from_bytes "\<lambda>_. True"
proof unfold_locales
  show "length (chunk_record_to_bytes r) = 32" for r
    by (simp add: chunk_record_layout layout_def)
  show "chunk_record_from_bytes (chunk_record_to_bytes r @ rest) = Inr r" for r rest
    by (rule chunk_record_from_to)
  show "length bs < 32 \<Longrightarrow> chunk_record_from_bytes bs = Inl (Truncated 0 32 (length bs))" for bs
    by (simp add: chunk_record_from_bytes_def)
qed simp

section \<open>The directory\<close>

type_synonym chunk_directory = "chunk_record list"

definition directory_new :: "chunk_record list \<Rightarrow> chunk_directory" where
  "directory_new records = sort_key record_key records"

definition directory_find :: "chunk_directory \<Rightarrow> layer_id \<Rightarrow> u8 \<Rightarrow> u32 \<Rightarrow> chunk_record option" where
  "directory_find d layer_id level chunk_id = sorted_find record_key d (layer_id, level, chunk_id)"

definition for_layer_level :: "chunk_directory \<Rightarrow> layer_id \<Rightarrow> u8 \<Rightarrow> chunk_record list" where
  "for_layer_level d layer_id level =
     (let prefix = (layer_id, level);
          start = partition_point (\<lambda>r. (cr_layer_id r, cr_level r) < prefix) d;
          end = partition_point (\<lambda>r. (cr_layer_id r, cr_level r) \<le> prefix) d
      in take (end - start) (drop start d))"

text \<open>The loops that push a key unless it equals the last one pushed.\<close>

definition push_new :: "'k list \<Rightarrow> 'k \<Rightarrow> 'k list" where
  "push_new out k = (if out \<noteq> [] \<and> last out = k then out else out @ [k])"

definition layer_levels :: "chunk_directory \<Rightarrow> (layer_id \<times> u8) list" where
  "layer_levels d = foldl push_new [] (map (\<lambda>r. (cr_layer_id r, cr_level r)) d)"

definition directory_layers :: "chunk_directory \<Rightarrow> layer_id list" where
  "directory_layers d = foldl push_new [] (map cr_layer_id d)"

definition directory_upsert :: "chunk_record \<Rightarrow> chunk_directory \<Rightarrow> chunk_directory" where
  "directory_upsert r d = sorted_upsert record_key r d"

definition directory_remove ::
  "layer_id \<Rightarrow> u8 \<Rightarrow> u32 \<Rightarrow> chunk_directory \<Rightarrow> chunk_record option \<times> chunk_directory" where
  "directory_remove layer_id level chunk_id d =
     (case binary_search_by_key record_key (layer_id, level, chunk_id) d of
        Inr i \<Rightarrow> (Some (d ! i), remove_at i d)
      | Inl _ \<Rightarrow> (None, d))"

definition directory_to_bytes :: "chunk_directory \<Rightarrow> bytes" where
  "directory_to_bytes d = fold (\<lambda>r out. out @ chunk_record_to_bytes r) d []"

definition directory_from_bytes :: "bytes \<Rightarrow> chunk_directory result" where
  "directory_from_bytes bs =
     (if length bs mod 32 \<noteq> 0
      then Inl (invalid (''directory length '' @ show_nat (length bs)
                 @ '' is not a multiple of '' @ show_nat 32))
      else rbind (rmapM chunk_record_from_bytes (chunks_exact 32 bs))
             (\<lambda>records. Inr (directory_new records)))"

definition total_compressed_bytes :: "chunk_directory \<Rightarrow> u64" where
  "total_compressed_bytes d = sum_list (map (\<lambda>r. ucast (cr_comp_len r)) d)"

definition total_raw_bytes :: "chunk_directory \<Rightarrow> u64" where
  "total_raw_bytes d = sum_list (map (\<lambda>r. ucast (cr_raw_len r)) d)"

definition directory_ok :: "chunk_directory \<Rightarrow> bool" where
  "directory_ok d \<longleftrightarrow> sorted_by record_key d"

section \<open>Lookup, insertion and removal\<close>

text \<open>The directory as the finite map it stands for.\<close>

definition directory_map :: "chunk_directory \<Rightarrow> dir_key \<Rightarrow> chunk_record option" where
  "directory_map d k = directory_find d (fst k) (fst (snd k)) (snd (snd k))"

definition directory_delete :: "dir_key \<Rightarrow> chunk_directory \<Rightarrow> chunk_directory" where
  "directory_delete k d = snd (directory_remove (fst k) (fst (snd k)) (snd (snd k)) d)"

lemma directory_map_sorted_find: "directory_map d = sorted_find record_key d"
  by (auto simp: directory_map_def directory_find_def)

lemma directory_delete_sorted_remove: "directory_delete k d = sorted_remove record_key k d"
  by (cases k) (auto simp: directory_delete_def directory_remove_def sorted_remove_def
      split: sum.splits)

interpretation directory:
  record_store_del record_key directory_map directory_upsert directory_ok directory_delete
  by unfold_locales
    (simp_all add: directory_map_sorted_find directory_upsert_def directory_ok_def
      directory_delete_sorted_remove sorted_store.wf_upsert sorted_store.lookup_upsert
      sorted_store.wf_delete sorted_store.lookup_delete)

lemma directory_remove_fst:
  "directory_ok d \<Longrightarrow> fst (directory_remove l v c d) = directory_find d l v c"
  by (auto simp: directory_remove_def directory_find_def sorted_find_def split: sum.splits)

lemma directory_remove_snd: "snd (directory_remove l v c d) = directory_delete (l, v, c) d"
  by (simp add: directory_delete_def)

lemma directory_find_Some_iff:
  "directory_ok d \<Longrightarrow> directory_find d l v c = Some r \<longleftrightarrow> r \<in> set d \<and> record_key r = (l, v, c)"
  by (simp add: directory_find_def directory_ok_def sorted_find_Some_iff)

lemma directory_new_ok: "distinct (map record_key rs) \<Longrightarrow> directory_ok (directory_new rs)"
  by (simp add: directory_new_def directory_ok_def sorted_by_sort_key)

lemma directory_new_of_ok: "directory_ok d \<Longrightarrow> directory_new d = d"
  by (simp add: directory_new_def directory_ok_def sort_key_sorted_by)

section \<open>The records of a layer and level\<close>

abbreviation level_key :: "chunk_record \<Rightarrow> layer_id \<times> u8" where
  "level_key r \<equiv> (cr_layer_id r, cr_level r)"

lemma sorted_level_key: "sorted (map record_key d) \<Longrightarrow> sorted (map level_key d)"
  unfolding sorted_map
  by (erule sorted_wrt_mono_rel [rotated]) (auto simp: record_key_def less_eq_prod_def)

lemma takeWhile_mono_split:
  assumes "sorted (map f xs)"
  shows "takeWhile (\<lambda>x. f x \<le> k) xs = takeWhile (\<lambda>x. f x < k) xs @ filter (\<lambda>x. f x = k) xs"
  using assms
proof (induction xs)
  case (Cons x xs)
  then consider "f x < k" | "f x = k" | "k < f x" using less_linear by blast
  then show ?case
  proof cases
    case 2
    have "takeWhile (\<lambda>x. f x < k) xs = []"
      using Cons.prems 2 by (cases xs) auto
    then show ?thesis using Cons 2 by simp
  next
    case 3
    then have "filter (\<lambda>x. f x = k) xs = []"
      using Cons.prems by (auto simp: filter_empty_conv)
    then show ?thesis using 3 by auto
  qed (use Cons in auto)
qed simp

lemma for_layer_level_filter:
  assumes "sorted (map record_key d)"
  shows "for_layer_level d l v = filter (\<lambda>r. level_key r = (l, v)) d"
proof -
  note s = sorted_level_key [OF assms]
  have mono: "level_key (d ! i) \<le> level_key (d ! j)" if "i \<le> j" "j < length d" for i j
    using sorted_nth_mono [OF s, of i j] that by simp
  have "partition_point (\<lambda>r. level_key r < (l, v)) d = length (takeWhile (\<lambda>r. level_key r < (l, v)) d)"
    by (rule partition_point_takeWhile) (meson mono le_less_trans)
  moreover have "partition_point (\<lambda>r. level_key r \<le> (l, v)) d = length (takeWhile (\<lambda>r. level_key r \<le> (l, v)) d)"
    by (rule partition_point_takeWhile) (meson mono order_trans)
  moreover have "d = takeWhile (\<lambda>r. level_key r \<le> (l, v)) d @ dropWhile (\<lambda>r. level_key r \<le> (l, v)) d"
    by simp
  moreover note takeWhile_mono_split [OF s, of "(l, v)"]
  ultimately show ?thesis
    unfolding for_layer_level_def Let_def
    by (metis (no_types, lifting) add_diff_cancel_left' append.assoc append_eq_conv_conj length_append)
qed

lemma set_foldl_push_new: "set (foldl push_new out ks) = set out \<union> set ks"
  by (induction ks arbitrary: out) (auto simp: push_new_def)

lemma strict_foldl_push_new:
  assumes "sorted_wrt (<) out" and "sorted ks" and "\<forall>a \<in> set out. \<forall>k \<in> set ks. a \<le> (k :: 'k::linorder)"
  shows "sorted_wrt (<) (foldl push_new out ks)"
  using assms
proof (induction ks arbitrary: out)
  case (Cons k ks)
  have "sorted_wrt (<) (push_new out k)"
  proof (cases "out \<noteq> [] \<and> last out = k")
    case False
    have "a < k" if "a \<in> set out" for a
    proof -
      have "out \<noteq> []" using that by auto
      then have "out = butlast out @ [last out]" by simp
      then have "a \<le> last out"
        using that Cons.prems(1) by (metis UnE append_is_Nil_conv empty_iff less_imp_le order_refl
            set_ConsD set_append set_empty sorted_wrt_append list.set_intros(1))
      moreover have "last out < k"
        using False Cons.prems(3) \<open>out \<noteq> []\<close> by (simp add: order_less_le)
      ultimately show ?thesis by simp
    qed
    then show ?thesis using False Cons.prems(1) by (auto simp: push_new_def sorted_wrt_append)
  qed (use Cons.prems in \<open>simp add: push_new_def\<close>)
  moreover have "\<forall>a \<in> set (push_new out k). \<forall>x \<in> set ks. a \<le> x"
    using Cons.prems by (auto simp: push_new_def)
  ultimately show ?case using Cons.IH Cons.prems(2) by simp
qed simp

lemma layer_levels_spec:
  assumes "sorted (map record_key d)"
  shows "sorted_wrt (<) (layer_levels d)" and "set (layer_levels d) = level_key ` set d"
  using sorted_level_key [OF assms]
  by (auto simp: layer_levels_def set_foldl_push_new intro!: strict_foldl_push_new)

section \<open>The directory image\<close>

lemma directory_to_bytes_concat: "directory_to_bytes d = concat (map chunk_record_to_bytes d)"
  by (simp add: directory_to_bytes_def fold_append_map)

lemma directory_from_to_bytes: "directory_from_bytes (directory_to_bytes d) = Inr (directory_new d)"
  using chunk_record.array_roundtrip [of d]
  by (simp add: directory_from_bytes_def directory_to_bytes_concat chunk_record.array_length
      list_all_iff)

section \<open>Properties\<close>

text \<open>C9: the directory is a finite map from (layer, level, chunk) to records, kept sorted without
  duplicates. Upserting and removing keep that invariant; \<open>upsert\<close> changes the lookup of the record's
  own key and of no other; \<open>remove\<close> returns the record it took out and clears its key alone.\<close>

theorem directory_refines_map:
  assumes "directory_ok d"
  shows "directory_ok (directory_upsert r d)
    \<and> directory_ok (snd (directory_remove l v c d))
    \<and> (\<forall>l' v' c'. directory_find (directory_upsert r d) l' v' c' =
         (if (l', v', c') = record_key r then Some r else directory_find d l' v' c'))
    \<and> fst (directory_remove l v c d) = directory_find d l v c
    \<and> (\<forall>l' v' c'. directory_find (snd (directory_remove l v c d)) l' v' c' =
         (if (l', v', c') = (l, v, c) then None else directory_find d l' v' c'))"
proof (intro conjI allI)
  show "directory_ok (directory_upsert r d)" using assms by (rule directory.wf_upsert)
  show "directory_ok (snd (directory_remove l v c d))"
    unfolding directory_remove_snd using assms by (rule directory.wf_delete)
  show "directory_find (directory_upsert r d) l' v' c' =
      (if (l', v', c') = record_key r then Some r else directory_find d l' v' c')" for l' v' c'
    using fun_cong [OF directory.lookup_upsert [OF assms, of r], of "(l', v', c')"]
    by (simp add: directory_map_def)
  show "fst (directory_remove l v c d) = directory_find d l v c"
    using assms by (rule directory_remove_fst)
  show "directory_find (snd (directory_remove l v c d)) l' v' c' =
      (if (l', v', c') = (l, v, c) then None else directory_find d l' v' c')" for l' v' c'
    using fun_cong [OF directory.lookup_delete [OF assms, of "(l, v, c)"], of "(l', v', c')"]
    by (simp add: directory_map_def directory_remove_snd)
qed

definition sample_record :: "u16 \<Rightarrow> u8 \<Rightarrow> u32 \<Rightarrow> chunk_record" where
  "sample_record l v c = \<lparr>cr_chunk_id = c, cr_layer_id = l, cr_level = v, cr_codec = 0, cr_offset = 128,
     cr_comp_len = 4, cr_raw_len = 4, cr_crc32 = 7, cr_flags = 0\<rparr>"

theorem directory_refines_map_witness:
  "directory_find (directory_upsert (sample_record 1 0 5) [sample_record 1 0 2, sample_record 1 1 0]) 1 1 0
     = Some (sample_record 1 1 0)
   \<and> directory_find (snd (directory_remove 1 0 2 [sample_record 1 0 2, sample_record 1 1 0])) 1 0 2 = None"
proof -
  have "directory_ok [sample_record 1 0 2, sample_record 1 1 0]" by code_simp
  note m = directory_refines_map [OF this, of "sample_record 1 0 5" 1 0 2]
  have "directory_find [sample_record 1 0 2, sample_record 1 1 0] 1 1 0 = Some (sample_record 1 1 0)" by code_simp
  with m show ?thesis by (simp add: sample_record_def record_key_def)
qed

text \<open>The two partition points of \<open>for_layer_level\<close> cut out exactly the records of that layer and
  level, in directory order.\<close>

theorem directory_level_slice:
  assumes "directory_ok d"
  shows "for_layer_level d l v = filter (\<lambda>r. cr_layer_id r = l \<and> cr_level r = v) d"
  using assms for_layer_level_filter [of d l v] by (simp add: directory_ok_def sorted_by_def)

theorem directory_level_slice_witness:
  "for_layer_level [sample_record 1 0 2, sample_record 1 0 9, sample_record 1 1 0] 1 0
     = [sample_record 1 0 2, sample_record 1 0 9]"
proof -
  have "directory_ok [sample_record 1 0 2, sample_record 1 0 9, sample_record 1 1 0]" by code_simp
  from directory_level_slice [OF this] show ?thesis by (simp add: sample_record_def)
qed

text \<open>A directory is read back from its bytes unchanged.\<close>

theorem directory_image_roundtrip:
  assumes "directory_ok d"
  shows "directory_from_bytes (directory_to_bytes d) = Inr d"
  by (simp add: directory_from_to_bytes directory_new_of_ok [OF assms])

theorem directory_image_roundtrip_witness:
  "directory_from_bytes (directory_to_bytes [sample_record 1 0 2, sample_record 1 1 0])
     = Inr [sample_record 1 0 2, sample_record 1 1 0]"
  by (rule directory_image_roundtrip) code_simp

end
