(* ===== verification/Omf_Fingerprint.thy ===== *)
theory Omf_Fingerprint
  imports Omf_Directory Omf_Metadata "HOL-Library.Multiset"
begin

text \<open>
  Fingerprints of derived layers (\<open>crates/map-format/src/fingerprint.rs\<close>). The 64-bit hash of
  \<open>twox_hash\<close> is the argument \<open>xxh64\<close>, from a seed and a byte list. The lemmas show that a
  fingerprint depends on the stored chunks as a multiset, tombstones left out, that the bytes it
  hashes determine the descriptor and those chunks, and exactly when a derived layer is valid.
\<close>

type_synonym xxh64_fn = "u64 \<Rightarrow> bytes \<Rightarrow> u64"

definition ALGO_SLOPE :: u16 where "ALGO_SLOPE = 1"
definition ALGO_EDT :: u16 where "ALGO_EDT = 2"
definition ALGO_PRM :: u16 where "ALGO_PRM = 3"
definition ALGO_KPATH :: u16 where "ALGO_KPATH = 4"
definition ALGO_COST_CACHE :: u16 where "ALGO_COST_CACHE = 5"

datatype derived_status = Valid | Stale string

definition derived_is_valid :: "derived_status \<Rightarrow> bool" where
  "derived_is_valid s \<longleftrightarrow> s = Valid"

definition hash_bytes :: "xxh64_fn \<Rightarrow> bytes \<Rightarrow> u64" where
  "hash_bytes xxh64 bs = xxh64 0 bs"

definition is_tombstone :: "chunk_record \<Rightarrow> bool" where
  "is_tombstone r \<longleftrightarrow> cr_flags r AND TOMBSTONE \<noteq> 0"

definition stored_triples :: "chunk_record list \<Rightarrow> (u8 \<times> u32 \<times> u32) list" where
  "stored_triples records =
     sort (map (\<lambda>r. (cr_level r, cr_chunk_id r, cr_crc32 r))
       (filter (\<lambda>r. \<not> is_tombstone r) records))"

definition fingerprint_input :: "layer_desc \<Rightarrow> chunk_record list \<Rightarrow> bytes" where
  "fingerprint_input desc records =
     write_seq [write_bytes (layer_desc_to_bytes desc),
                write_each (\<lambda>t. write_seq [write_u8 (fst t), write_u32 (fst (snd t)), write_u32 (snd (snd t))])
                  (stored_triples records)] []"

definition layer_fingerprint :: "xxh64_fn \<Rightarrow> layer_desc \<Rightarrow> chunk_record list \<Rightarrow> u64" where
  "layer_fingerprint xxh64 desc records = hash_bytes xxh64 (fingerprint_input desc records)"

definition combine_source_fingerprints :: "xxh64_fn \<Rightarrow> u64 list \<Rightarrow> u64" where
  "combine_source_fingerprints xxh64 fingerprints =
     hash_bytes xxh64 (write_each write_u64 (sort fingerprints) [])"

definition derived_fingerprint :: "xxh64_fn \<Rightarrow> u64 list \<Rightarrow> u64 \<Rightarrow> u16 \<Rightarrow> u64" where
  "derived_fingerprint xxh64 source_fingerprints build_params_hash algo_version =
     (let sources = combine_source_fingerprints xxh64 source_fingerprints
      in hash_bytes xxh64
           (write_seq [write_u64 sources, write_u64 build_params_hash, write_u16 algo_version] []))"

definition make_entry ::
  "xxh64_fn \<Rightarrow> layer_id \<Rightarrow> u64 list \<Rightarrow> u64 \<Rightarrow> u16 \<Rightarrow> u64 list \<Rightarrow> derived_layer_entry" where
  "make_entry xxh64 layer_id source_fingerprints build_params_hash algo_version seeds =
     \<lparr>de_layer_id = layer_id,
      de_source_fingerprint =
        derived_fingerprint xxh64 source_fingerprints build_params_hash algo_version,
      de_build_params_hash = build_params_hash, de_algo_version = algo_version, de_seeds = seeds\<rparr>"

definition verify_derived ::
  "xxh64_fn \<Rightarrow> derived_layers \<Rightarrow> layer_id \<Rightarrow> u64 list \<Rightarrow> u64 \<Rightarrow> derived_status" where
  "verify_derived xxh64 headers layer_id source_fingerprints build_params_hash =
     (case derived_layers_get headers layer_id of
        None \<Rightarrow> Stale (''no fingerprint header for layer '' @ layer_text layer_id)
      | Some entry \<Rightarrow>
          let expected = derived_fingerprint xxh64 source_fingerprints
                           (de_build_params_hash entry) (de_algo_version entry)
          in if de_source_fingerprint entry \<noteq> expected
             then Stale (''layer '' @ layer_text layer_id @ '' records fingerprint ''
                    @ show_hex_pad 18 (unat (de_source_fingerprint entry))
                    @ '' but its sources hash to '' @ show_hex_pad 18 (unat expected))
             else if de_build_params_hash entry \<noteq> build_params_hash
             then Stale (''layer '' @ layer_text layer_id @ '' was built with parameter set ''
                    @ show_hex_pad 18 (unat (de_build_params_hash entry)) @ '', current set is ''
                    @ show_hex_pad 18 (unat build_params_hash))
             else Valid)"

fun require_valid :: "derived_status \<Rightarrow> layer_id \<Rightarrow> unit result" where
  "require_valid Valid layer_id = Inr ()"
| "require_valid (Stale reason) layer_id = Inl (StaleDerived layer_id reason)"

section \<open>What a fingerprint depends on\<close>

lemma sort_mset_eq: "mset xs = mset ys \<Longrightarrow> sort xs = sort ys"
  by (rule properties_for_sort) simp_all

lemma stored_triples_mset:
  assumes "mset rs = mset rs'"
  shows "stored_triples rs = stored_triples rs'"
  unfolding stored_triples_def by (rule sort_mset_eq) (simp add: assms mset_filter)

lemma stored_triples_tombstone:
  "is_tombstone r \<Longrightarrow> stored_triples (r # rs) = stored_triples rs"
  by (simp add: stored_triples_def)

lemma layer_fingerprint_mset:
  "mset rs = mset rs' \<Longrightarrow> layer_fingerprint xxh64 d rs = layer_fingerprint xxh64 d rs'"
  using stored_triples_mset [of rs rs'] by (simp add: layer_fingerprint_def fingerprint_input_def)

lemma derived_fingerprint_mset:
  "mset fs = mset fs' \<Longrightarrow> derived_fingerprint xxh64 fs p a = derived_fingerprint xxh64 fs' p a"
  using sort_mset_eq [of fs fs'] by (simp add: derived_fingerprint_def combine_source_fingerprints_def)

text \<open>The hashed bytes determine the descriptor and the sorted triples.\<close>

definition triple_bytes :: "u8 \<times> u32 \<times> u32 \<Rightarrow> bytes" where
  "triple_bytes t = fst t # le_bytes 4 (fst (snd t)) @ le_bytes 4 (snd (snd t))"

lemma fingerprint_input_bytes:
  "fingerprint_input d rs = layer_desc_to_bytes d @ concat (map triple_bytes (stored_triples rs))"
  by (simp add: fingerprint_input_def wire_simps triple_bytes_def [abs_def])

lemma le_bytes_inj: "le_bytes 4 a = le_bytes 4 b \<Longrightarrow> a = (b :: u32)"
  by (metis le_value_4)

lemma triple_bytes_inj: "triple_bytes s = triple_bytes t \<Longrightarrow> s = t"
  by (auto simp: triple_bytes_def prod_eq_iff dest: le_bytes_inj)

lemma fingerprint_input_inj:
  assumes "fingerprint_input d rs = fingerprint_input d' rs'"
  shows "d = d' \<and> stored_triples rs = stored_triples rs'"
proof
  have len: "length (layer_desc_to_bytes d) = length (layer_desc_to_bytes d')"
    by (simp add: layer_desc_record.to_bytes_length)
  with assms have parts: "layer_desc_to_bytes d = layer_desc_to_bytes d'"
    "concat (map triple_bytes (stored_triples rs)) = concat (map triple_bytes (stored_triples rs'))"
    by (simp_all add: fingerprint_input_bytes)
  from parts(1) show "d = d'" by (intro layer_desc_record.to_bytes_inj) simp_all
  have "chunks_exact 9 (concat (map triple_bytes ts)) = map triple_bytes ts" for ts
    by (rule chunks_exact_concat) (simp_all add: triple_bytes_def)
  with parts(2) have "map triple_bytes (stored_triples rs) = map triple_bytes (stored_triples rs')"
    by metis
  then show "stored_triples rs = stored_triples rs'"
    by (rule map_injective) (auto intro: injI triple_bytes_inj)
qed

section \<open>Valid and stale\<close>

lemma verify_derived_Valid_iff:
  "verify_derived xxh64 headers l fs p = Valid \<longleftrightarrow>
     (\<exists>e. derived_layers_get headers l = Some e \<and> de_build_params_hash e = p
        \<and> de_source_fingerprint e = derived_fingerprint xxh64 fs p (de_algo_version e))"
  by (auto simp: verify_derived_def Let_def split: option.split)

lemma make_entry_verifies:
  assumes "mset fs = mset fs'"
  shows "verify_derived xxh64 (derived_layers_upsert (make_entry xxh64 l fs p a seeds) headers) l fs' p = Valid"
  using derived_layers.lookup_upsert_same [where t = headers and r = "make_entry xxh64 l fs p a seeds"]
    derived_fingerprint_mset [OF assms]
  by (simp add: verify_derived_Valid_iff make_entry_def)

section \<open>Properties\<close>

text \<open>A layer's fingerprint depends on its stored chunks as a multiset. The order of the directory
  records does not matter, and neither do tombstones.\<close>

theorem fingerprint_order_free:
  assumes "mset rs = mset rs'" and "is_tombstone dead"
  shows "layer_fingerprint xxh64 d (dead # rs) = layer_fingerprint xxh64 d rs'"
  using layer_fingerprint_mset [OF assms(1), of xxh64 d] stored_triples_tombstone [OF assms(2), of rs]
  by (simp add: layer_fingerprint_def fingerprint_input_def)

definition chunk_rec :: "u32 \<Rightarrow> u32 \<Rightarrow> chunk_record" where
  "chunk_rec c flags = \<lparr>cr_chunk_id = c, cr_layer_id = 1, cr_level = 0, cr_codec = 0, cr_offset = 128,
     cr_comp_len = 4, cr_raw_len = 4, cr_crc32 = 7, cr_flags = flags\<rparr>"

definition length_hash :: xxh64_fn where
  "length_hash s bs = s + word_of_nat (length bs)"

definition sample_desc :: layer_desc where
  "sample_desc = layer_desc_new 1 Raster 1 U8 2"

theorem fingerprint_order_free_witness:
  "layer_fingerprint length_hash sample_desc [chunk_rec 9 TOMBSTONE, chunk_rec 1 0, chunk_rec 2 0]
     = layer_fingerprint length_hash sample_desc [chunk_rec 2 0, chunk_rec 1 0]"
  by (rule fingerprint_order_free) (simp_all add: is_tombstone_def chunk_rec_def TOMBSTONE_def)

text \<open>C19: the hashed bytes of a layer determine its descriptor and its stored chunks, level, id and
  checksum each, so two layers that differ in any of them are hashed differently.\<close>

theorem fingerprint_input_determines:
  assumes "fingerprint_input d rs = fingerprint_input d' rs'"
  shows "d = d' \<and> stored_triples rs = stored_triples rs'"
  using assms by (rule fingerprint_input_inj)

theorem fingerprint_input_determines_witness:
  "stored_triples [chunk_rec 1 0, chunk_rec 2 0] = stored_triples [chunk_rec 2 0, chunk_rec 1 0]"
  by (rule conjunct2 [OF fingerprint_input_determines])
    (simp add: fingerprint_input_def stored_triples_mset [of "[chunk_rec 1 0, chunk_rec 2 0]" "[chunk_rec 2 0, chunk_rec 1 0]"])

text \<open>A derived layer is valid exactly when its header records the current parameters and the
  fingerprint of the current sources; a header just built for those sources, in whatever order,
  verifies.\<close>

theorem derived_valid_exactly:
  "(verify_derived xxh64 headers l fs p = Valid \<longleftrightarrow>
     (\<exists>e. derived_layers_get headers l = Some e \<and> de_build_params_hash e = p
        \<and> de_source_fingerprint e = derived_fingerprint xxh64 fs p (de_algo_version e)))
   \<and> (mset fs = mset fs' \<longrightarrow>
        verify_derived xxh64 (derived_layers_upsert (make_entry xxh64 l fs p a seeds) headers) l fs' p = Valid)"
  using verify_derived_Valid_iff make_entry_verifies by blast

theorem derived_valid_exactly_witness:
  "verify_derived (\<lambda>s bs. word_of_nat (length bs)) (derived_layers_upsert
     (make_entry (\<lambda>s bs. word_of_nat (length bs)) 0x1001 [3, 4] 9 1 []) []) 0x1001 [4, 3] 9 = Valid"
  using derived_valid_exactly [where fs = "[3, 4]" and fs' = "[4, 3]"] by simp

end
