(* ===== verification/Omf_Section.thy ===== *)
theory Omf_Section
  imports Omf_Tlv Omf_Float
begin

text \<open>
  The section envelope of graph layers (\<open>crates/map-format/src/graph/mod.rs\<close>) and the vector
  layer (\<open>graph/vector.rs\<close>). A payload is a sequence of sections, each behind an 8-byte header
  that lets a reader skip it. The lemmas show that a sequence of sections reads back whole, that
  \<open>find\<close> returns the first section of an id, and the round trip of vector layers.
\<close>

section \<open>Sections\<close>

datatype section_id =
    PrmNodes | PrmOffsets | PrmEdges | PrmInterfaces
  | KPathParams | KPathOdIndex | KPathSets | KPathNodes | Vectors

fun section_id_u16 :: "section_id \<Rightarrow> u16" where
  "section_id_u16 PrmNodes = 0"
| "section_id_u16 PrmOffsets = 1"
| "section_id_u16 PrmEdges = 2"
| "section_id_u16 PrmInterfaces = 3"
| "section_id_u16 KPathParams = 10"
| "section_id_u16 KPathOdIndex = 11"
| "section_id_u16 KPathSets = 12"
| "section_id_u16 KPathNodes = 13"
| "section_id_u16 Vectors = 20"

definition section_id_from_u16 :: "u16 \<Rightarrow> section_id option" where
  "section_id_from_u16 v =
     (if v = 0 then Some PrmNodes
      else if v = 1 then Some PrmOffsets
      else if v = 2 then Some PrmEdges
      else if v = 3 then Some PrmInterfaces
      else if v = 10 then Some KPathParams
      else if v = 11 then Some KPathOdIndex
      else if v = 12 then Some KPathSets
      else if v = 13 then Some KPathNodes
      else if v = 20 then Some Vectors
      else None)"

lemma section_id_from_to [simp]: "section_id_from_u16 (section_id_u16 s) = Some s"
  by (cases s) (simp_all add: section_id_from_u16_def)

record section_header =
  sh_section :: u16
  sh_len :: u32

definition section_header_new :: "section_id \<Rightarrow> nat \<Rightarrow> section_header" where
  "section_header_new s n =
     \<lparr>sh_section = section_id_u16 s, sh_len = word_of_nat (min n (2 ^ 32 - 1))\<rparr>"

definition section_header_to_bytes :: "section_header \<Rightarrow> bytes" where
  "section_header_to_bytes h =
     puts [\<lambda>b. put_u16 b 0 (sh_section h), \<lambda>b. put_u16 b 2 0, \<lambda>b. put_u32 b 4 (sh_len h)]
       (replicate 8 0)"

definition section_header_from_bytes :: "bytes \<Rightarrow> section_header result" where
  "section_header_from_bytes buf =
     (if length buf < 8 then Inl (Truncated 0 8 (length buf))
      else rbind (get_u16 buf 0) (\<lambda>s. rbind (get_u32 buf 4) (\<lambda>n.
             Inr \<lparr>sh_section = s, sh_len = n\<rparr>)))"

lemma section_header_layout:
  "section_header_to_bytes h =
     layout (le_bytes 2 (sh_section h) @ le_bytes 2 (0 :: u16) @ le_bytes 4 (sh_len h)) 0"
  by (simp add: section_header_to_bytes_def layout_simps)

interpretation section_header_record:
  fixed_record 8 section_header_to_bytes section_header_from_bytes "\<lambda>_. True"
proof unfold_locales
  show "length (section_header_to_bytes h) = 8" for h
    by (simp add: section_header_layout layout_def)
  show "section_header_from_bytes (section_header_to_bytes h @ rest) = Inr h" for h rest
    unfolding section_header_layout section_header_from_bytes_def
    by (simp add: field_reads cong: rbind_cong)
  show "length bs < 8 \<Longrightarrow> section_header_from_bytes bs = Inl (Truncated 0 8 (length bs))" for bs
    by (simp add: section_header_from_bytes_def)
qed simp

definition write_section :: "section_id \<Rightarrow> bytes \<Rightarrow> bytes" where
  "write_section s payload =
     write_seq [write_bytes (section_header_to_bytes (section_header_new s (length payload))),
                write_bytes payload] []"

definition next_section :: "reader \<Rightarrow> ((u16 \<times> bytes) option \<times> reader) result" where
  "next_section r =
     (if remaining r = 0 then Inr (None, r)
      else rd_bind (read_record 8 section_header_from_bytes) (\<lambda>h.
           rd_bind (read_bytes (unat (sh_len h))) (\<lambda>payload.
             rd_return (Some (sh_section h, payload)))) r)"

lemma next_section_moves:
  assumes "next_section r = Inr (Some s, r')"
  shows "remaining r' < remaining r"
  using assms
  by (auto simp: next_section_def rd_bind_def rd_return_def rd_lift_def read_record_def read_bytes_def
      rbind_Inr_iff usize_checked_add_def remaining_def split: if_splits)

text \<open>The loop over all sections, and the search for the first of an id.\<close>

function read_sections :: "reader \<Rightarrow> (u16 \<times> bytes) list result" where
  "read_sections r =
     (case next_section r of
        Inl e \<Rightarrow> Inl e
      | Inr (None, r') \<Rightarrow> Inr []
      | Inr (Some s, r') \<Rightarrow> rbind (read_sections r') (\<lambda>ss. Inr (s # ss)))"
  by pat_completeness auto
termination by (relation "measure remaining") (auto intro: next_section_moves)

function section_find :: "section_id \<Rightarrow> reader \<Rightarrow> bytes option result" where
  "section_find s r =
     (case next_section r of
        Inl e \<Rightarrow> Inl e
      | Inr (None, r') \<Rightarrow> Inr None
      | Inr (Some (i, payload), r') \<Rightarrow>
          if i = section_id_u16 s then Inr (Some payload) else section_find s r')"
  by pat_completeness auto
termination by (relation "measure (\<lambda>(s, r). remaining r)") (auto intro: next_section_moves)

declare read_sections.simps [simp del] section_find.simps [simp del]

definition section_bytes :: "u16 \<times> bytes \<Rightarrow> bytes" where
  "section_bytes s =
     section_header_to_bytes \<lparr>sh_section = fst s, sh_len = word_of_nat (length (snd s))\<rparr> @ snd s"

definition section_ok :: "u16 \<times> bytes \<Rightarrow> bool" where
  "section_ok s \<longleftrightarrow> length (snd s) < 2 ^ 32"

lemma write_section_bytes:
  "length payload < 2 ^ 32 \<Longrightarrow> write_section s payload = section_bytes (section_id_u16 s, payload)"
  by (simp add: write_section_def section_bytes_def section_header_new_def wire_simps)

lemma length_section_bytes: "length (section_bytes s) = 8 + length (snd s)"
  by (simp add: section_bytes_def section_header_record.to_bytes_length)

lemma next_section_at:
  assumes "section_ok s" and "fits (pre @ section_bytes s @ rest)"
  shows "next_section (rd_at pre (section_bytes s @ rest)) = Inr (Some s, rd_at (pre @ section_bytes s) rest)"
proof -
  have n: "unat (word_of_nat (length (snd s)) :: u32) = length (snd s)"
    using assms(1) by (simp add: section_ok_def unat_of_nat_u32)
  have "reads (rd_bind (read_record 8 section_header_from_bytes) (\<lambda>h.
      rd_bind (read_bytes (unat (sh_len h))) (\<lambda>payload. rd_return (Some (sh_section h, payload)))))
    (section_bytes s) (Some s)"
    unfolding section_bytes_def
    by (rule reads_bind, rule section_header_record.reads_record, simp, rule reads_bind_last,
        rule reads_bytes) (simp_all add: n reads_return_eq)
  from readsD [OF this assms(2)] show ?thesis
    using length_section_bytes [of s] by (simp add: next_section_def)
qed

lemma next_section_end: "next_section (rd_at pre []) = Inr (None, rd_at pre [])"
  by (simp add: next_section_def)

lemma read_sections_at:
  "list_all section_ok ss \<Longrightarrow> fits (pre @ concat (map section_bytes ss)) \<Longrightarrow>
     read_sections (rd_at pre (concat (map section_bytes ss))) = Inr ss"
proof (induction ss arbitrary: pre)
  case Nil
  then show ?case by (subst read_sections.simps) (simp add: next_section_end)
next
  case (Cons s ss)
  then show ?case by (subst read_sections.simps) (simp add: next_section_at)
qed

lemma section_find_at:
  "list_all section_ok ss \<Longrightarrow> fits (pre @ concat (map section_bytes ss)) \<Longrightarrow>
     section_find i (rd_at pre (concat (map section_bytes ss))) = Inr (map_of ss (section_id_u16 i))"
proof (induction ss arbitrary: pre)
  case Nil
  then show ?case by (subst section_find.simps) (simp add: next_section_end)
next
  case (Cons s ss)
  then show ?case by (subst section_find.simps) (cases s, auto simp: next_section_at)
qed

text \<open>The payload the section loop leaves for an id: the last one, or the empty slice.\<close>

definition last_section :: "section_id \<Rightarrow> (u16 \<times> bytes) list \<Rightarrow> bytes" where
  "last_section s ss = (case map_of (rev ss) (section_id_u16 s) of None \<Rightarrow> [] | Some p \<Rightarrow> p)"

text \<open>The check that a count read from the wire can be covered by the bytes that are left.\<close>

definition rd_require :: "nat \<Rightarrow> nat \<Rightarrow> string \<Rightarrow> unit rd" where
  "rd_require n item msg r =
     (case usize_checked_mul n item of
        None \<Rightarrow> Inl (invalid msg)
      | Some needed \<Rightarrow>
          if needed > remaining r then Inl (Truncated (rd_pos r) needed (remaining r))
          else Inr ((), r))"

lemma reads_require:
  assumes "reads (f ()) bs y" and "n * item \<le> length bs"
  shows "reads (rd_bind (rd_require n item msg) f) bs y"
  using assms
  by (auto simp: reads_def rd_bind_def rd_require_def usize_checked_mul_def fits_def)

section \<open>Vector layers\<close>

datatype vector_kind = Polyline | Polygon

fun vector_kind_u8 :: "vector_kind \<Rightarrow> u8" where
  "vector_kind_u8 Polyline = 0"
| "vector_kind_u8 Polygon = 1"

definition vector_kind_from_u8 :: "u8 \<Rightarrow> vector_kind option" where
  "vector_kind_from_u8 v = (if v = 0 then Some Polyline else if v = 1 then Some Polygon else None)"

lemma vector_kind_from_to [simp]: "vector_kind_from_u8 (vector_kind_u8 k) = Some k"
  by (cases k) (simp_all add: vector_kind_from_u8_def)

record vector_shape =
  vs_id :: u32
  vs_kind :: vector_kind
  vs_points :: "(f32 \<times> f32) list"
  vs_attributes :: "(u16 \<times> f32) list"

definition vector_shape_new :: "u32 \<Rightarrow> vector_kind \<Rightarrow> vector_shape" where
  "vector_shape_new i kind = \<lparr>vs_id = i, vs_kind = kind, vs_points = [], vs_attributes = []\<rparr>"

definition vector_shape_encode :: "vector_shape \<Rightarrow> bytes" where
  "vector_shape_encode s =
     write_seq [write_u32 (vs_id s), write_u8 (vector_kind_u8 (vs_kind s)),
                write_list_u16 (\<lambda>p. write_seq [write_f32 (fst p), write_f32 (snd p)]) (vs_points s),
                write_list_u16 (\<lambda>a. write_seq [write_u16 (fst a), write_f32 (snd a)]) (vs_attributes s)] []"

definition read_vector_shape :: "vector_shape rd" where
  "read_vector_shape =
     rd_bind read_u32 (\<lambda>i.
     rd_bind read_u8 (\<lambda>kind_raw.
     rd_bind (rd_lift (ok_or (invalid (''unknown vector kind '' @ show_nat (unat kind_raw)))
                (vector_kind_from_u8 kind_raw))) (\<lambda>kind.
     rd_bind (read_list_u16 (rd_bind read_f32 (\<lambda>x. rd_bind read_f32 (\<lambda>y. rd_return (x, y))))) (\<lambda>points.
     rd_bind (read_list_u16 (rd_bind read_u16 (\<lambda>k. rd_bind read_f32 (\<lambda>v. rd_return (k, v))))) (\<lambda>attributes.
       rd_return \<lparr>vs_id = i, vs_kind = kind, vs_points = points, vs_attributes = attributes\<rparr>)))))"

definition vector_shape_decode :: "bytes \<Rightarrow> vector_shape result" where
  "vector_shape_decode bs = rd_run read_vector_shape bs"

definition vector_shape_wf :: "vector_shape \<Rightarrow> bool" where
  "vector_shape_wf s \<longleftrightarrow> length (vs_points s) \<le> 65535 \<and> length (vs_attributes s) \<le> 65535"

type_synonym vector_layer = "vector_shape list"

definition vector_layer_get :: "vector_layer \<Rightarrow> u32 \<Rightarrow> vector_shape option" where
  "vector_layer_get l i = find (\<lambda>s. vs_id s = i) l"

definition vertex_count :: "vector_layer \<Rightarrow> nat" where
  "vertex_count l = sum_list (map (\<lambda>s. length (vs_points s)) l)"

definition vector_layer_body :: "vector_layer \<Rightarrow> bytes" where
  "vector_layer_body l =
     write_seq [write_u32 (word_of_nat (length l)),
                write_each (\<lambda>s. let encoded = vector_shape_encode s
                  in write_seq [write_u32 (word_of_nat (length encoded)), write_bytes encoded]) l] []"

definition vector_layer_encode :: "vector_layer \<Rightarrow> bytes" where
  "vector_layer_encode l = write_section Vectors (vector_layer_body l)"

definition read_vector_layer :: "vector_layer rd" where
  "read_vector_layer =
     rd_bind read_u32 (\<lambda>count.
     rd_bind (rd_require (unat count) 13 ''vector shape count overflows'') (\<lambda>_.
     rd_times (unat count)
       (rd_bind read_u32 (\<lambda>len.
        rd_bind (read_bytes (unat len)) (\<lambda>b. rd_lift (vector_shape_decode b))))))"

definition vector_layer_decode :: "bytes \<Rightarrow> vector_layer result" where
  "vector_layer_decode bs =
     rbind (section_find Vectors (reader_new bs)) (\<lambda>found.
     case found of None \<Rightarrow> Inr [] | Some payload \<Rightarrow> rd_run read_vector_layer payload)"

definition vector_layer_wf :: "vector_layer \<Rightarrow> bool" where
  "vector_layer_wf l \<longleftrightarrow> list_all vector_shape_wf l \<and> length (vector_layer_body l) < 2 ^ 32"

lemma reads_vector_shape: "vector_shape_wf s \<Longrightarrow> reads read_vector_shape (vector_shape_encode s) s"
  unfolding vector_shape_wf_def read_vector_shape_def vector_shape_encode_def
  by (simp add: wire_simps) (rule reads_combs reads_intros | simp)+

lemma vector_shape_length: "9 \<le> length (vector_shape_encode s)"
  by (simp add: vector_shape_encode_def wire_simps list_bytes_u16_def)

lemma vector_layer_body_bytes:
  "vector_layer_body l = le_bytes 4 (word_of_nat (length l) :: u32)
     @ concat (map (\<lambda>s. le_bytes 4 (word_of_nat (length (vector_shape_encode s)) :: u32)
         @ vector_shape_encode s) l)"
  by (simp add: vector_layer_body_def wire_simps Let_def)

lemma length_concat_ge: "(\<And>x. x \<in> set xs \<Longrightarrow> k \<le> length (g x)) \<Longrightarrow> length xs * k \<le> length (concat (map g xs))"
  by (induction xs) (auto intro: add_mono)

lemma length_concat_member: "x \<in> set xs \<Longrightarrow> length (g x) \<le> length (concat (map g xs))"
  by (induction xs) auto

lemma vector_layer_roundtrip:
  assumes "vector_layer_wf l"
  shows "vector_layer_decode (vector_layer_encode l) = Inr l"
proof -
  let ?g = "\<lambda>s. le_bytes 4 (word_of_nat (length (vector_shape_encode s)) :: u32) @ vector_shape_encode s"
  have len: "length (vector_layer_body l) < 2 ^ 32" and shapes: "\<And>s. s \<in> set l \<Longrightarrow> vector_shape_wf s"
    using assms by (auto simp: vector_layer_wf_def list_all_iff)
  have thirteen: "length l * 13 \<le> length (concat (map ?g l))"
    by (rule length_concat_ge) (use vector_shape_length in simp)
  have n: "length l < 2 ^ 32" using thirteen len by (simp add: vector_layer_body_bytes)
  have item: "reads (rd_bind read_u32 (\<lambda>len. rd_bind (read_bytes (unat len)) (\<lambda>b. rd_lift (vector_shape_decode b))))
      (?g s) s" if s: "s \<in> set l" for s
  proof -
    have small: "length (vector_shape_encode s) < 2 ^ 32"
      using length_concat_member [OF s, of ?g] len by (simp add: vector_layer_body_bytes)
    then have "vector_shape_decode (vector_shape_encode s) = Inr s"
      unfolding vector_shape_decode_def
      by (intro rd_run_reads_all reads_vector_shape shapes [OF s]) (simp add: fits_def)
    then have "reads (rd_lift (vector_shape_decode (vector_shape_encode s))) [] s"
      by (simp add: reads_def rd_lift_def)
    then show ?thesis
      using small by (intro reads_bind [OF reads_scalar(2)] reads_bind_last [OF reads_bytes])
        (simp_all add: unat_of_nat_u32)
  qed
  have "reads read_vector_layer (vector_layer_body l) l"
    unfolding read_vector_layer_def vector_layer_body_bytes
    by (rule reads_bind, rule reads_scalar, rule reads_require, rule reads_times)
      (use n thirteen item in \<open>simp_all add: unat_of_nat_u32\<close>)
  then have "rd_run read_vector_layer (vector_layer_body l) = Inr l"
    using len by (intro rd_run_reads_all) (simp_all add: fits_def)
  moreover have "section_find Vectors (reader_new (vector_layer_encode l)) = Inr (Some (vector_layer_body l))"
    using section_find_at [of "[(section_id_u16 Vectors, vector_layer_body l)]" "[]" Vectors] len
    by (simp add: vector_layer_encode_def write_section_bytes reader_new_rd_at section_ok_def fits_def
        length_section_bytes)
  ultimately show ?thesis by (simp add: vector_layer_decode_def)
qed

section \<open>Properties\<close>

text \<open>A sequence of sections is read back whole, in order, whatever their ids, and \<open>find\<close> returns
  the payload of the first section of an id, or none.\<close>

theorem sections_read_back:
  assumes "list_all section_ok ss" and "fits (concat (map section_bytes ss))"
  shows "read_sections (reader_new (concat (map section_bytes ss))) = Inr ss
    \<and> section_find i (reader_new (concat (map section_bytes ss))) = Inr (map_of ss (section_id_u16 i))"
  using read_sections_at [OF assms(1), of "[]"] section_find_at [OF assms(1), of "[]" i] assms(2)
  by (simp add: reader_new_rd_at)

theorem sections_read_back_witness:
  "read_sections (reader_new (concat (map section_bytes [(99, [1]), (20, [2, 3])]))) = Inr [(99, [1]), (20, [2, 3])]
   \<and> section_find Vectors (reader_new (concat (map section_bytes [(99, [1]), (20, [2, 3])]))) = Inr (Some [2, 3])"
  using sections_read_back [of "[(99, [1]), (20, [2, 3])]" Vectors]
  by (simp add: section_ok_def fits_def length_section_bytes)

text \<open>A vector layer survives encoding, shapes, points and attributes alike.\<close>

theorem vector_layer_survives:
  assumes "vector_layer_wf l"
  shows "vector_layer_decode (vector_layer_encode l) = Inr l"
  using assms by (rule vector_layer_roundtrip)

theorem vector_layer_survives_witness:
  "vector_layer_decode (vector_layer_encode
     [\<lparr>vs_id = 4, vs_kind = Polygon, vs_points = [(1, 2)], vs_attributes = [(3, 4)]\<rparr>])
   = Inr [\<lparr>vs_id = 4, vs_kind = Polygon, vs_points = [(1, 2)], vs_attributes = [(3, 4)]\<rparr>]"
  by (rule vector_layer_survives)
    (simp add: vector_layer_wf_def vector_shape_wf_def vector_layer_body_bytes vector_shape_encode_def
      wire_simps list_bytes_u16_def)

end
