(* ===== verification/Omf_Prm.thy ===== *)
theory Omf_Prm
  imports Omf_Section
begin

text \<open>
  The roadmap batches of \<open>crates/map-format/src/graph/prm.rs\<close>: waypoints, directed edges in
  compressed sparse rows, and links to the fine grid. An index out of range, which panics in the
  code, is the value \<open>None\<close>. The lemmas show that \<open>build_offsets\<close> is a stable counting sort
  whose rows are the edges of each source in their order, that it never indexes out of range,
  that a graph accepted by \<open>validate\<close> has only rows that exist, and the round trip of batches.
\<close>

section \<open>Records\<close>

record prm_node =
  pn_position :: point3
  pn_flags :: u16

definition prm_node_interface :: u16 where "prm_node_interface = 1"
definition prm_node_connector_endpoint :: u16 where "prm_node_connector_endpoint = 2"
definition prm_node_direction_constrained :: u16 where "prm_node_direction_constrained = 4"

definition prm_node_new :: "f32 \<Rightarrow> f32 \<Rightarrow> f32 \<Rightarrow> prm_node" where
  "prm_node_new x y z = \<lparr>pn_position = (x, y, z), pn_flags = 0\<rparr>"

definition prm_is_interface :: "prm_node \<Rightarrow> bool" where
  "prm_is_interface p \<longleftrightarrow> pn_flags p AND prm_node_interface \<noteq> 0"

definition prm_node_to_bytes :: "prm_node \<Rightarrow> bytes" where
  "prm_node_to_bytes p =
     puts [\<lambda>b. put_f32 b 0 (fst (pn_position p)),
           \<lambda>b. put_f32 b 4 (fst (snd (pn_position p))),
           \<lambda>b. put_f32 b 8 (snd (snd (pn_position p))),
           \<lambda>b. put_u16 b 12 (pn_flags p)]
       (replicate 14 0)"

definition prm_node_from_bytes :: "bytes \<Rightarrow> prm_node result" where
  "prm_node_from_bytes buf =
     (if length buf < 14 then Inl (Truncated 0 14 (length buf))
      else
        rbind (get_f32 buf 0) (\<lambda>x.
        rbind (get_f32 buf 4) (\<lambda>y.
        rbind (get_f32 buf 8) (\<lambda>z.
        rbind (get_u16 buf 12) (\<lambda>flags.
          Inr \<lparr>pn_position = (x, y, z), pn_flags = flags\<rparr>)))))"

record prm_edge =
  pe_to :: u32
  pe_cost_equiv_m :: f32
  pe_len_m :: f32
  pe_dir :: u8
  pe_flags :: u8

definition prm_default_edge :: prm_edge where
  "prm_default_edge = \<lparr>pe_to = 0, pe_cost_equiv_m = 0, pe_len_m = 0, pe_dir = 0, pe_flags = 0\<rparr>"

definition prm_edge_to_bytes :: "prm_edge \<Rightarrow> bytes" where
  "prm_edge_to_bytes e =
     puts [\<lambda>b. put_u32 b 0 (pe_to e),
           \<lambda>b. put_f32 b 4 (pe_cost_equiv_m e),
           \<lambda>b. put_f32 b 8 (pe_len_m e),
           \<lambda>b. put_u8 b 12 (pe_dir e),
           \<lambda>b. put_u8 b 13 (pe_flags e)]
       (replicate 14 0)"

definition prm_edge_from_bytes :: "bytes \<Rightarrow> prm_edge result" where
  "prm_edge_from_bytes buf =
     (if length buf < 14 then Inl (Truncated 0 14 (length buf))
      else
        rbind (get_u32 buf 0) (\<lambda>dest.
        rbind (get_f32 buf 4) (\<lambda>cost.
        rbind (get_f32 buf 8) (\<lambda>len.
        rbind (get_u8 buf 12) (\<lambda>dir.
        rbind (get_u8 buf 13) (\<lambda>flags.
          Inr \<lparr>pe_to = dest, pe_cost_equiv_m = cost, pe_len_m = len, pe_dir = dir,
               pe_flags = flags\<rparr>))))))"

record interface_link =
  il_prm_node :: u32
  il_grid_cell :: "u32 \<times> u32"
  il_cost_equiv_m :: f32
  il_len_m :: f32

definition interface_link_to_bytes :: "interface_link \<Rightarrow> bytes" where
  "interface_link_to_bytes l =
     puts [\<lambda>b. put_u32 b 0 (il_prm_node l),
           \<lambda>b. put_u32 b 4 (fst (il_grid_cell l)),
           \<lambda>b. put_u32 b 8 (snd (il_grid_cell l)),
           \<lambda>b. put_f32 b 12 (il_cost_equiv_m l),
           \<lambda>b. put_f32 b 16 (il_len_m l)]
       (replicate 20 0)"

definition interface_link_from_bytes :: "bytes \<Rightarrow> interface_link result" where
  "interface_link_from_bytes buf =
     (if length buf < 20 then Inl (Truncated 0 20 (length buf))
      else
        rbind (get_u32 buf 0) (\<lambda>node.
        rbind (get_u32 buf 4) (\<lambda>cx.
        rbind (get_u32 buf 8) (\<lambda>cy.
        rbind (get_f32 buf 12) (\<lambda>cost.
        rbind (get_f32 buf 16) (\<lambda>len.
          Inr \<lparr>il_prm_node = node, il_grid_cell = (cx, cy), il_cost_equiv_m = cost,
               il_len_m = len\<rparr>))))))"

lemma prm_layouts:
  "prm_node_to_bytes p =
     layout (le_bytes 4 (fst (pn_position p)) @ le_bytes 4 (fst (snd (pn_position p)))
       @ le_bytes 4 (snd (snd (pn_position p))) @ le_bytes 2 (pn_flags p)) 0"
  "prm_edge_to_bytes e =
     layout (le_bytes 4 (pe_to e) @ le_bytes 4 (pe_cost_equiv_m e) @ le_bytes 4 (pe_len_m e)
       @ [pe_dir e, pe_flags e]) 0"
  "interface_link_to_bytes l =
     layout (le_bytes 4 (il_prm_node l) @ le_bytes 4 (fst (il_grid_cell l))
       @ le_bytes 4 (snd (il_grid_cell l)) @ le_bytes 4 (il_cost_equiv_m l)
       @ le_bytes 4 (il_len_m l)) 0"
  by (simp_all add: prm_node_to_bytes_def prm_edge_to_bytes_def interface_link_to_bytes_def
      layout_simps)

interpretation prm_node_record:
  fixed_record 14 prm_node_to_bytes prm_node_from_bytes "\<lambda>_. True"
proof unfold_locales
  show "length (prm_node_to_bytes p) = 14" for p by (simp add: prm_layouts layout_def)
  show "prm_node_from_bytes (prm_node_to_bytes p @ rest) = Inr p" for p rest
    unfolding prm_layouts prm_node_from_bytes_def by (simp add: field_reads cong: rbind_cong)
  show "length bs < 14 \<Longrightarrow> prm_node_from_bytes bs = Inl (Truncated 0 14 (length bs))" for bs
    by (simp add: prm_node_from_bytes_def)
qed simp

interpretation prm_edge_record:
  fixed_record 14 prm_edge_to_bytes prm_edge_from_bytes "\<lambda>_. True"
proof unfold_locales
  show "length (prm_edge_to_bytes e) = 14" for e by (simp add: prm_layouts layout_def)
  show "prm_edge_from_bytes (prm_edge_to_bytes e @ rest) = Inr e" for e rest
    unfolding prm_layouts prm_edge_from_bytes_def by (simp add: field_reads cong: rbind_cong)
  show "length bs < 14 \<Longrightarrow> prm_edge_from_bytes bs = Inl (Truncated 0 14 (length bs))" for bs
    by (simp add: prm_edge_from_bytes_def)
qed simp

interpretation interface_link_record:
  fixed_record 20 interface_link_to_bytes interface_link_from_bytes "\<lambda>_. True"
proof unfold_locales
  show "length (interface_link_to_bytes l) = 20" for l by (simp add: prm_layouts layout_def)
  show "interface_link_from_bytes (interface_link_to_bytes l @ rest) = Inr l" for l rest
    unfolding prm_layouts interface_link_from_bytes_def by (simp add: field_reads cong: rbind_cong)
  show "length bs < 20 \<Longrightarrow> interface_link_from_bytes bs = Inl (Truncated 0 20 (length bs))" for bs
    by (simp add: interface_link_from_bytes_def)
qed simp

section \<open>The graph\<close>

record prm_graph =
  pg_batch :: u16
  pg_seed :: u64
  pg_nodes :: "prm_node list"
  pg_offsets :: "u32 list"
  pg_edges :: "prm_edge list"
  pg_interfaces :: "interface_link list"

definition node_count :: "prm_graph \<Rightarrow> usize" where
  "node_count g = length (pg_nodes g)"

definition edge_count :: "prm_graph \<Rightarrow> usize" where
  "edge_count g = length (pg_edges g)"

text \<open>\<open>&edges[start..end]\<close> panics unless \<open>start <= end <= len\<close>.\<close>

definition slice_range :: "nat \<Rightarrow> nat \<Rightarrow> 'a list \<Rightarrow> 'a list option" where
  "slice_range a b xs = (if a \<le> b \<and> b \<le> length xs then Some (take (b - a) (drop a xs)) else None)"

definition prm_neighbours :: "prm_graph \<Rightarrow> usize \<Rightarrow> prm_edge list option" where
  "prm_neighbours g node =
     (if node + 1 < length (pg_offsets g)
      then slice_range (unat (pg_offsets g ! node)) (unat (pg_offsets g ! (node + 1))) (pg_edges g)
      else Some [])"

definition prm_validate :: "prm_graph \<Rightarrow> unit result" where
  "prm_validate g =
     (let n = length (pg_nodes g) in
      if length (pg_offsets g) \<noteq> n + 1
      then Inl (invalid (''PRM offsets length '' @ show_nat (length (pg_offsets g))
                  @ '' does not match '' @ show_nat n @ '' node(s)''))
      else if (if pg_offsets g = [] then 0 else unat (last (pg_offsets g))) \<noteq> length (pg_edges g)
      then Inl (invalid ''PRM offsets do not cover the edge array'')
      else if list_ex (\<lambda>(a, b). a > b) (zip (pg_offsets g) (tl (pg_offsets g)))
      then Inl (invalid ''PRM offsets are not monotonic'')
      else case find (\<lambda>e. unat (pe_to e) \<ge> n) (pg_edges g) of
             Some e \<Rightarrow> Inl (invalid (''PRM edge points at node '' @ show_nat (unat (pe_to e))
                         @ '', only '' @ show_nat n @ '' exist''))
           | None \<Rightarrow> Inr ())"

subsection \<open>Counting sort\<close>

text \<open>The pass that counts the edges of each source at the slot after it.\<close>

fun prm_count :: "nat \<Rightarrow> (u32 \<times> prm_edge) list \<Rightarrow> u32 list \<times> nat \<Rightarrow> u32 list \<times> nat" where
  "prm_count nodes [] acc = acc"
| "prm_count nodes ((from, e) # es) (os, kept) =
     (if unat from < nodes
      then prm_count nodes es (os[unat from + 1 := os ! (unat from + 1) + 1], kept + 1)
      else prm_count nodes es (os, kept))"

definition prm_prefix_sums :: "nat \<Rightarrow> u32 list \<Rightarrow> u32 list" where
  "prm_prefix_sums nodes os = fold (\<lambda>i os. os[i + 1 := os ! (i + 1) + os ! i]) [0..<nodes] os"

fun prm_place :: "nat \<Rightarrow> (u32 \<times> prm_edge) list \<Rightarrow> u32 list \<Rightarrow> prm_edge list \<Rightarrow> prm_edge list option" where
  "prm_place nodes [] cursor out = Some out"
| "prm_place nodes ((from, e) # es) cursor out =
     (if unat from \<ge> nodes then prm_place nodes es cursor out
      else let at = unat (cursor ! unat from)
           in if at < length out
              then prm_place nodes es (cursor[unat from := cursor ! unat from + 1]) (out[at := e])
              else None)"

definition prm_build_offsets :: "nat \<Rightarrow> (u32 \<times> prm_edge) list \<Rightarrow> (u32 list \<times> prm_edge list) option" where
  "prm_build_offsets nodes edges =
     (let (counted, kept) = prm_count nodes edges (replicate (nodes + 1) 0, 0);
          offsets = prm_prefix_sums nodes counted
      in map_option (\<lambda>out. (offsets, out))
           (prm_place nodes edges offsets (replicate kept prm_default_edge)))"

text \<open>The specification: the edges of one source in their order, and how many come before them.\<close>

definition prm_row :: "nat \<Rightarrow> (u32 \<times> prm_edge) list \<Rightarrow> prm_edge list" where
  "prm_row i edges = map snd (filter (\<lambda>x. unat (fst x) = i) edges)"

definition prm_below :: "nat \<Rightarrow> (u32 \<times> prm_edge) list \<Rightarrow> nat" where
  "prm_below i edges = length (filter (\<lambda>x. unat (fst x) < i) edges)"

lemma prm_row_Cons: "prm_row i (x # es) = (if unat (fst x) = i then snd x # prm_row i es else prm_row i es)"
  by (simp add: prm_row_def)

lemma prm_row_append: "prm_row i (es @ fs) = prm_row i es @ prm_row i fs"
  by (simp add: prm_row_def)

lemma prm_below_Suc: "prm_below (Suc i) es = prm_below i es + length (prm_row i es)"
  by (induction es) (auto simp: prm_below_def prm_row_def less_Suc_eq)

lemma prm_below_0 [simp]: "prm_below 0 es = 0"
  by (simp add: prm_below_def)

lemma prm_below_le: "prm_below i es \<le> length es"
  by (simp add: prm_below_def)

lemma prm_below_mono: "i \<le> j \<Longrightarrow> prm_below i es \<le> prm_below j es"
proof (induction es)
  case (Cons x es)
  then show ?case by (auto simp: prm_below_def)
qed (simp add: prm_below_def)

lemma prm_below_row: "i < j \<Longrightarrow> prm_below i es + length (prm_row i es) \<le> prm_below j es"
  using prm_below_mono [of "Suc i" j es] by (simp add: prm_below_Suc)

lemma prm_count_spec:
  "length os = nodes + 1 \<Longrightarrow> prm_count nodes es (os, kept) =
     (map (\<lambda>j. os ! j + (if j = 0 then 0 else word_of_nat (length (prm_row (j - 1) es)))) [0..<nodes + 1],
      kept + prm_below nodes es)"
proof (induction es arbitrary: os kept)
  case Nil
  have "map (\<lambda>j. os ! j + (if j = 0 then 0 else word_of_nat (length (prm_row (j - 1) [])))) [0..<nodes + 1] = os"
    using Nil by (intro nth_equalityI) (auto simp: prm_row_def simp del: upt_Suc)
  then show ?case by (simp add: prm_below_def del: upt_Suc)
next
  case (Cons x es)
  obtain f e where x: "x = (f, e)" by (cases x)
  show ?case
    using Cons.prems
    by (auto simp: x Cons.IH prm_row_Cons prm_below_def nth_list_update nth_append)
qed

definition prm_counts :: "nat \<Rightarrow> (u32 \<times> prm_edge) list \<Rightarrow> u32 list" where
  "prm_counts nodes es =
     map (\<lambda>j. if j = 0 then 0 else word_of_nat (length (prm_row (j - 1) es))) [0..<nodes + 1]"

lemma prm_count_zero:
  "prm_count nodes es (replicate (nodes + 1) 0, 0) = (prm_counts nodes es, prm_below nodes es)"
  unfolding prm_counts_def by (subst prm_count_spec) (auto simp: simp del: replicate_Suc upt_Suc)

lemma prm_prefix_upto:
  "m \<le> nodes \<Longrightarrow> fold (\<lambda>i os. os[i + 1 := os ! (i + 1) + os ! i]) [0..<m] (prm_counts nodes es) =
     map (\<lambda>j. if j \<le> m then word_of_nat (prm_below j es) else prm_counts nodes es ! j) [0..<nodes + 1]"
proof (induction m)
  case 0
  show ?case by (rule nth_equalityI) (auto simp: prm_counts_def nth_append)
next
  case (Suc m)
  have fold: "fold (\<lambda>i os. os[i + 1 := os ! (i + 1) + os ! i]) [0..<Suc m] os
      = (\<lambda>os. os[m + 1 := os ! (m + 1) + os ! m])
          (fold (\<lambda>i os. os[i + 1 := os ! (i + 1) + os ! i]) [0..<m] os)" for os :: "u32 list"
    by simp
  have "prm_counts nodes es ! Suc m = word_of_nat (length (prm_row m es))"
    using Suc.prems by (simp add: prm_counts_def nth_append del: upt_Suc)
  then show ?case
    using Suc unfolding fold
    by (intro nth_equalityI)
      (auto simp: nth_list_update prm_below_Suc le_Suc_eq add.commute simp del: upt_Suc)
qed

lemma prm_offsets_spec:
  "prm_prefix_sums nodes (prm_counts nodes es) = map (\<lambda>j. word_of_nat (prm_below j es)) [0..<nodes + 1]"
  unfolding prm_prefix_sums_def by (subst prm_prefix_upto) (auto simp del: upt_Suc)

text \<open>Writing the next slot of row \<open>n\<close> extends that row and leaves the others.\<close>

lemma prm_slot:
  assumes "length out = prm_below nodes es" and "at < prm_below nodes es"
    and at: "at = prm_below n es + k n" and k: "k n < length (prm_row n es)"
    and row: "take (k i) (drop (prm_below i es) out) = xs" and le: "\<And>j. k j \<le> length (prm_row j es)"
  shows "take (k i + (if i = n then 1 else 0)) (drop (prm_below i es) (out[at := e]))
    = xs @ (if i = n then [e] else [])"
proof (cases i n rule: linorder_cases)
  case less
  then have "prm_below i es + k i \<le> at" using prm_below_row [of i n es] le [of i] at by linarith
  then show ?thesis using less row
    by (simp add: take_drop)
next
  case greater
  then have "at < prm_below i es" using prm_below_row [of n i es] k at by linarith
  then show ?thesis using greater row by simp
next
  case equal
  have "take (k n + 1) (drop (prm_below n es) (out[at := e]))
      = take (k n) (drop (prm_below n es) (out[at := e])) @ [e]"
    using assms(1,2) at take_Suc_conv_app_nth [of "k n" "drop (prm_below n es) (out[at := e])"]
    by simp
  moreover have "take (k n) (drop (prm_below n es) (out[at := e])) = take (k n) (drop (prm_below n es) out)"
    using at by (simp add: take_drop add.commute)
  ultimately show ?thesis using row equal by simp
qed

lemma prm_place_spec:
  assumes "length (placed @ es) < 2 ^ 32" and "length out = prm_below nodes (placed @ es)"
    and "length cursor = nodes + 1"
    and "\<And>i. i < nodes \<Longrightarrow> cursor ! i = word_of_nat (prm_below i (placed @ es) + length (prm_row i placed))"
    and "\<And>i. i < nodes \<Longrightarrow>
      take (length (prm_row i placed)) (drop (prm_below i (placed @ es)) out) = prm_row i placed"
  shows "\<exists>out'. prm_place nodes es cursor out = Some out'
    \<and> length out' = prm_below nodes (placed @ es)
    \<and> (\<forall>i < nodes. take (length (prm_row i (placed @ es))) (drop (prm_below i (placed @ es)) out')
         = prm_row i (placed @ es))"
  using assms
proof (induction es arbitrary: placed cursor out)
  case Nil
  then show ?case by simp
next
  case (Cons x es)
  obtain f e where x: "x = (f, e)" by (cases x)
  let ?all = "placed @ x # es"
  have assoc: "?all = (placed @ [x]) @ es" by simp
  show ?case
  proof (cases "unat f < nodes")
    case False
    have "prm_row i (placed @ [x]) = prm_row i placed" if "i < nodes" for i
      using False that by (auto simp: prm_row_append prm_row_Cons x prm_row_def)
    then have "\<exists>out'. prm_place nodes es cursor out = Some out' \<and> length out' = prm_below nodes ?all
      \<and> (\<forall>i < nodes. take (length (prm_row i ?all)) (drop (prm_below i ?all) out') = prm_row i ?all)"
      using Cons.IH [of "placed @ [x]" out cursor] Cons.prems by (simp only: assoc [symmetric])
    then show ?thesis using False by (simp add: x)
  next
    case True
    define n where "n = unat f"
    define at where "at = prm_below n ?all + length (prm_row n placed)"
    have row: "length (prm_row n placed) < length (prm_row n ?all)"
      by (simp add: prm_row_append prm_row_Cons x n_def)
    have bound: "at < prm_below nodes ?all"
      using prm_below_row [of n nodes ?all] True row by (simp add: at_def n_def)
    have at32: "at < 2 ^ 32" using bound prm_below_le [of nodes ?all] Cons.prems(1) by linarith
    have cur: "unat (cursor ! n) = at"
      using Cons.prems(4) [of n] True unat_of_nat_u32 [OF at32] by (simp only: at_def n_def)
    have step: "prm_place nodes (x # es) cursor out
        = prm_place nodes es (cursor[n := cursor ! n + 1]) (out[at := e])"
      using True bound Cons.prems(2) cur by (simp add: x n_def [symmetric])
    have rows: "prm_row i (placed @ [x]) = prm_row i placed @ (if i = n then [e] else [])" for i
      by (simp add: prm_row_append prm_row_Cons x n_def prm_row_def)
    have cursors: "cursor[n := cursor ! n + 1] ! i
        = word_of_nat (prm_below i ?all + length (prm_row i (placed @ [x])))" if "i < nodes" for i
      using Cons.prems(3,4) that True by (simp add: rows nth_list_update n_def algebra_simps)
    have slots: "take (length (prm_row i (placed @ [x]))) (drop (prm_below i ?all) (out[at := e]))
        = prm_row i (placed @ [x])" if i: "i < nodes" for i
    proof -
      have len: "length (prm_row i (placed @ [x])) = length (prm_row i placed) + (if i = n then 1 else 0)"
        by (simp add: rows)
      have le: "length (prm_row j placed) \<le> length (prm_row j ?all)" for j
        by (simp add: prm_row_append)
      show ?thesis
        unfolding len unfolding rows
        by (rule prm_slot [where k = "\<lambda>j. length (prm_row j placed)", OF Cons.prems(2) bound at_def row
              Cons.prems(5) [OF i] le])
    qed
    have "\<exists>out'. prm_place nodes es (cursor[n := cursor ! n + 1]) (out[at := e]) = Some out'
      \<and> length out' = prm_below nodes ?all
      \<and> (\<forall>i < nodes. take (length (prm_row i ?all)) (drop (prm_below i ?all) out') = prm_row i ?all)"
      using Cons.IH [of "placed @ [x]" "out[at := e]" "cursor[n := cursor ! n + 1]"]
        Cons.prems(1-3) cursors slots by (simp only: assoc [symmetric] length_list_update)
    then show ?thesis by (simp only: step)
  qed
qed

text \<open>\<open>build_offsets\<close> never indexes out of range, and its row \<open>i\<close> is the edges from \<open>i\<close> in order.\<close>

lemma prm_build_offsets_rows:
  assumes "length edges < 2 ^ 32"
  obtains offsets out where "prm_build_offsets nodes edges = Some (offsets, out)"
    and "length offsets = nodes + 1" and "length out = prm_below nodes edges"
    and "\<And>i. i \<le> nodes \<Longrightarrow> unat (offsets ! i) = prm_below i edges"
    and "\<And>i. i < nodes \<Longrightarrow>
      slice_range (unat (offsets ! i)) (unat (offsets ! (i + 1))) out = Some (prm_row i edges)"
proof -
  let ?offsets = "map (\<lambda>j. word_of_nat (prm_below j edges)) [0..<nodes + 1] :: u32 list"
  have off: "?offsets ! i = word_of_nat (prm_below i edges)" if "i \<le> nodes" for i
    using that by (simp del: upt_Suc)
  have num: "unat (?offsets ! i) = prm_below i edges" if "i \<le> nodes" for i
    using that assms prm_below_le [of i edges] by (simp add: off unat_of_nat_u32 del: upt_Suc)
  have "\<exists>out'. prm_place nodes edges ?offsets (replicate (prm_below nodes edges) prm_default_edge) = Some out'
    \<and> length out' = prm_below nodes ([] @ edges)
    \<and> (\<forall>i < nodes. take (length (prm_row i ([] @ edges))) (drop (prm_below i ([] @ edges)) out')
         = prm_row i ([] @ edges))"
    by (rule prm_place_spec) (use assms off in \<open>simp_all add: prm_row_def del: upt_Suc\<close>)
  then obtain out where place: "prm_place nodes edges ?offsets
      (replicate (prm_below nodes edges) prm_default_edge) = Some out"
    and len: "length out = prm_below nodes edges"
    and rows: "\<And>i. i < nodes \<Longrightarrow> take (length (prm_row i edges)) (drop (prm_below i edges) out) = prm_row i edges"
    by auto
  have build: "prm_build_offsets nodes edges = Some (?offsets, out)"
    using place by (simp only: prm_build_offsets_def prm_count_zero prm_offsets_spec Let_def split_conv) simp
  have row: "slice_range (unat (?offsets ! i)) (unat (?offsets ! (i + 1))) out = Some (prm_row i edges)"
    if i: "i < nodes" for i
    using num [of i] num [of "i + 1"] i rows [OF i] len prm_below_mono [of "i + 1" nodes edges]
    by (simp add: slice_range_def prm_below_Suc del: upt_Suc)
  show thesis by (rule that [OF build _ len num row]) (simp_all del: upt_Suc)
qed

subsection \<open>Validated graphs\<close>

definition prm_csr_ok :: "prm_graph \<Rightarrow> bool" where
  "prm_csr_ok g \<longleftrightarrow> length (pg_offsets g) = length (pg_nodes g) + 1
     \<and> unat (last (pg_offsets g)) = length (pg_edges g)
     \<and> sorted (pg_offsets g)
     \<and> list_all (\<lambda>e. unat (pe_to e) < length (pg_nodes g)) (pg_edges g)"

lemma windows_sorted:
  "\<not> list_ex (\<lambda>(a, b). a > b) (zip xs (tl xs)) \<longleftrightarrow> sorted (xs :: 'a::linorder list)"
proof (induction xs)
  case (Cons x xs)
  then show ?case by (cases xs) (auto simp: not_less intro: order_trans)
qed simp

lemma prm_validate_ok: "prm_validate g = Inr () \<longleftrightarrow> prm_csr_ok g"
proof -
  have "find (\<lambda>e. length (pg_nodes g) \<le> unat (pe_to e)) (pg_edges g) = None
      \<longleftrightarrow> list_all (\<lambda>e. unat (pe_to e) < length (pg_nodes g)) (pg_edges g)"
    by (auto simp: find_None_iff list_all_iff)
  then show ?thesis
    unfolding prm_validate_def prm_csr_ok_def Let_def windows_sorted [symmetric]
    by (cases "find (\<lambda>e. length (pg_nodes g) \<le> unat (pe_to e)) (pg_edges g)"; cases "pg_offsets g") auto
qed

lemma prm_offset_le:
  assumes "prm_csr_ok g" and "i \<le> j" and "j \<le> length (pg_nodes g)"
  shows "unat (pg_offsets g ! i) \<le> unat (pg_offsets g ! j)" and "unat (pg_offsets g ! j) \<le> length (pg_edges g)"
proof -
  have len: "length (pg_offsets g) = length (pg_nodes g) + 1" and srt: "sorted (pg_offsets g)"
    and last: "unat (last (pg_offsets g)) = length (pg_edges g)"
    using assms(1) by (simp_all add: prm_csr_ok_def)
  have le: "unat (pg_offsets g ! i) \<le> unat (pg_offsets g ! j)"
    if "i \<le> j" "j \<le> length (pg_nodes g)" for i j
    using sorted_nth_mono [OF srt that(1)] that(2) len by (simp add: word_le_nat_alt)
  show "unat (pg_offsets g ! i) \<le> unat (pg_offsets g ! j)" using assms(2,3) by (rule le)
  have "pg_offsets g ! length (pg_nodes g) = last (pg_offsets g)"
    using len by (subst last_conv_nth) auto
  then show "unat (pg_offsets g ! j) \<le> length (pg_edges g)" using le [OF assms(3)] last by simp
qed

text \<open>Rows of a validated graph exist, partition the edges from the first offset on, and lead to nodes.\<close>

lemma prm_neighbours_ok:
  assumes "prm_csr_ok g"
  shows "\<exists>es. prm_neighbours g i = Some es \<and> set es \<subseteq> set (pg_edges g)
    \<and> (\<forall>e \<in> set es. unat (pe_to e) < length (pg_nodes g))"
proof (cases "i < length (pg_nodes g)")
  case True
  then have "unat (pg_offsets g ! i) \<le> unat (pg_offsets g ! (i + 1))"
    "unat (pg_offsets g ! (i + 1)) \<le> length (pg_edges g)"
    using prm_offset_le [OF assms, of i "i + 1"] by simp_all
  then show ?thesis using assms
    by (auto simp: prm_neighbours_def slice_range_def prm_csr_ok_def list_all_iff
        dest!: in_set_takeD in_set_dropD)
next
  case False
  then show ?thesis using assms by (simp add: prm_neighbours_def prm_csr_ok_def)
qed

section \<open>Encoding\<close>

definition prm_offsets_body :: "prm_graph \<Rightarrow> bytes" where
  "prm_offsets_body g = write_each write_u32 (pg_offsets g) []"

definition prm_nodes_body :: "prm_graph \<Rightarrow> bytes" where
  "prm_nodes_body g = write_each (\<lambda>p. write_bytes (prm_node_to_bytes p)) (pg_nodes g) []"

definition prm_edges_body :: "prm_graph \<Rightarrow> bytes" where
  "prm_edges_body g = write_each (\<lambda>e. write_bytes (prm_edge_to_bytes e)) (pg_edges g) []"

definition prm_interfaces_body :: "prm_graph \<Rightarrow> bytes" where
  "prm_interfaces_body g = write_each (\<lambda>l. write_bytes (interface_link_to_bytes l)) (pg_interfaces g) []"

definition prm_encode :: "prm_graph \<Rightarrow> bytes" where
  "prm_encode g =
     write_seq [write_u16 (pg_batch g), write_u16 0, write_u64 (pg_seed g),
                write_u32 (word_of_nat (length (pg_nodes g))),
                write_u32 (word_of_nat (length (pg_edges g))),
                write_u32 (word_of_nat (length (pg_interfaces g))),
                write_bytes (write_section PrmNodes (prm_nodes_body g)),
                write_bytes (write_section PrmOffsets (prm_offsets_body g)),
                write_bytes (write_section PrmEdges (prm_edges_body g)),
                write_bytes (write_section PrmInterfaces (prm_interfaces_body g))] []"

text \<open>\<open>while !reader.is_empty()\<close> reading \<open>u32\<close> values.\<close>

function read_u32s :: "reader \<Rightarrow> u32 list result" where
  "read_u32s r =
     (if reader_is_empty r then Inr []
      else case read_u32 r of
             Inl e \<Rightarrow> Inl e
           | Inr (v, r') \<Rightarrow> rbind (read_u32s r') (\<lambda>vs. Inr (v # vs)))"
  by pat_completeness auto
termination
  by (relation "measure remaining")
    (auto simp: read_u32_def get_u32_def slice_def rbind_Inr_iff usize_checked_add_def remaining_def
      reader_is_empty_def split: if_splits option.splits)

declare read_u32s.simps [simp del]

text \<open>\<open>chunks_exact(size).take(count)\<close>, after the check that the section holds that many.\<close>

definition read_counted :: "nat \<Rightarrow> (bytes \<Rightarrow> 'a result) \<Rightarrow> nat \<Rightarrow> string \<Rightarrow> bytes \<Rightarrow> 'a list result" where
  "read_counted item from_bytes n msg raw =
     (if length raw < n * item then Inl (invalid msg)
      else rmapM from_bytes (take n (chunks_exact item raw)))"

definition prm_decode_body :: "u16 \<Rightarrow> u64 \<Rightarrow> nat \<Rightarrow> nat \<Rightarrow> nat \<Rightarrow> bytes \<Rightarrow> prm_graph result" where
  "prm_decode_body batch seed nodes_n edges_n links_n body =
     rbind (read_sections (reader_new body)) (\<lambda>ss.
     rbind (read_counted 14 prm_node_from_bytes nodes_n ''PRM node section is shorter than declared''
              (last_section PrmNodes ss)) (\<lambda>nodes.
     rbind (read_u32s (reader_new (last_section PrmOffsets ss))) (\<lambda>offsets.
     if length offsets \<noteq> nodes_n + 1
     then Inl (invalid (''PRM offset section holds '' @ show_nat (length offsets)
                 @ '' value(s), expected '' @ show_nat (nodes_n + 1)))
     else
     rbind (read_counted 14 prm_edge_from_bytes edges_n ''PRM edge section is shorter than declared''
              (last_section PrmEdges ss)) (\<lambda>edges.
     rbind (read_counted 20 interface_link_from_bytes links_n
              ''PRM interface section is shorter than declared''
              (last_section PrmInterfaces ss)) (\<lambda>links.
     let g = \<lparr>pg_batch = batch, pg_seed = seed, pg_nodes = nodes, pg_offsets = offsets,
              pg_edges = edges, pg_interfaces = links\<rparr>
     in rbind (prm_validate g) (\<lambda>_. Inr g))))))"

definition prm_decode :: "bytes \<Rightarrow> prm_graph result" where
  "prm_decode bs =
     rd_run
       (rd_bind read_u16 (\<lambda>batch.
        rd_bind read_u16 (\<lambda>_.
        rd_bind read_u64 (\<lambda>seed.
        rd_bind read_u32 (\<lambda>nodes_n.
        rd_bind read_u32 (\<lambda>edges_n.
        rd_bind read_u32 (\<lambda>links_n.
        rd_bind (\<lambda>r. read_bytes (remaining r) r) (\<lambda>body.
          rd_lift (prm_decode_body batch seed (unat nodes_n) (unat edges_n) (unat links_n) body)))))))))
       bs"

definition prm_wf :: "prm_graph \<Rightarrow> bool" where
  "prm_wf g \<longleftrightarrow> prm_csr_ok g
     \<and> length (prm_nodes_body g) < 2 ^ 32 \<and> length (prm_offsets_body g) < 2 ^ 32
     \<and> length (prm_edges_body g) < 2 ^ 32 \<and> length (prm_interfaces_body g) < 2 ^ 32"

lemma prm_bodies:
  "prm_nodes_body g = concat (map prm_node_to_bytes (pg_nodes g))"
  "prm_offsets_body g = concat (map (le_bytes 4) (pg_offsets g))"
  "prm_edges_body g = concat (map prm_edge_to_bytes (pg_edges g))"
  "prm_interfaces_body g = concat (map interface_link_to_bytes (pg_interfaces g))"
  by (simp_all add: prm_nodes_body_def prm_offsets_body_def prm_edges_body_def
      prm_interfaces_body_def wire_simps)

lemma read_u32s_at:
  "fits (pre @ concat (map (le_bytes 4) vs)) \<Longrightarrow> read_u32s (rd_at pre (concat (map (le_bytes 4) vs))) = Inr vs"
proof (induction vs arbitrary: pre)
  case Nil
  then show ?case by (subst read_u32s.simps) (simp add: reader_is_empty_def)
next
  case (Cons v vs)
  have "read_u32 (rd_at pre (le_bytes 4 v @ concat (map (le_bytes 4) vs)))
      = Inr (v, rd_at (pre @ le_bytes 4 v) (concat (map (le_bytes 4) vs)))"
    by (rule readsD [OF reads_scalar(2)]) (use Cons.prems in simp)
  then show ?case using Cons by (subst read_u32s.simps) (simp add: reader_is_empty_def)
qed

lemma read_counted_roundtrip:
  assumes "fixed_record item to_bytes from_bytes (\<lambda>_. True)"
  shows "read_counted item from_bytes (length xs) msg (concat (map to_bytes xs)) = Inr xs"
proof -
  have "length (concat (map to_bytes xs)) = item * length xs"
    by (rule fixed_record.array_length [OF assms])
  moreover have "chunks_exact item (concat (map to_bytes xs)) = map to_bytes xs"
    by (rule fixed_record.array_chunks [OF assms])
  moreover have "rmapM from_bytes (chunks_exact item (concat (map to_bytes xs))) = Inr xs"
    by (rule fixed_record.array_roundtrip [OF assms]) (simp add: list_all_iff)
  ultimately show ?thesis by (simp add: read_counted_def)
qed

definition prm_sections :: "prm_graph \<Rightarrow> (u16 \<times> bytes) list" where
  "prm_sections g =
     [(section_id_u16 PrmNodes, prm_nodes_body g), (section_id_u16 PrmOffsets, prm_offsets_body g),
      (section_id_u16 PrmEdges, prm_edges_body g), (section_id_u16 PrmInterfaces, prm_interfaces_body g)]"

lemma prm_decode_body_sections:
  assumes "prm_wf g"
  shows "prm_decode_body (pg_batch g) (pg_seed g) (length (pg_nodes g)) (length (pg_edges g))
    (length (pg_interfaces g)) (concat (map section_bytes (prm_sections g))) = Inr g"
proof -
  have ok: "list_all section_ok (prm_sections g)"
    using assms by (simp add: prm_wf_def prm_sections_def section_ok_def)
  have "fits (concat (map section_bytes (prm_sections g)))"
    using assms by (simp add: prm_wf_def prm_sections_def fits_def length_section_bytes)
  with read_sections_at [OF ok, of "[]"]
  have rs: "read_sections (reader_new (concat (map section_bytes (prm_sections g)))) = Inr (prm_sections g)"
    by (simp add: reader_new_rd_at)
  have last: "last_section PrmNodes (prm_sections g) = prm_nodes_body g"
    "last_section PrmOffsets (prm_sections g) = prm_offsets_body g"
    "last_section PrmEdges (prm_sections g) = prm_edges_body g"
    "last_section PrmInterfaces (prm_sections g) = prm_interfaces_body g"
    by (simp_all add: last_section_def prm_sections_def)
  have counted: "read_counted 14 prm_node_from_bytes (length (pg_nodes g)) m (prm_nodes_body g) = Inr (pg_nodes g)"
    "read_counted 14 prm_edge_from_bytes (length (pg_edges g)) m (prm_edges_body g) = Inr (pg_edges g)"
    "read_counted 20 interface_link_from_bytes (length (pg_interfaces g)) m (prm_interfaces_body g)
       = Inr (pg_interfaces g)" for m
    unfolding prm_bodies
    by (intro read_counted_roundtrip prm_node_record.fixed_record_axioms
        prm_edge_record.fixed_record_axioms interface_link_record.fixed_record_axioms)+
  have offs: "read_u32s (reader_new (prm_offsets_body g)) = Inr (pg_offsets g)"
    using read_u32s_at [of "[]" "pg_offsets g"] assms
    by (simp add: prm_bodies reader_new_rd_at fits_def prm_wf_def)
  have "prm_validate g = Inr ()" "length (pg_offsets g) = length (pg_nodes g) + 1"
    using assms by (simp_all add: prm_validate_ok) (simp_all add: prm_wf_def prm_csr_ok_def)
  moreover have eta: "\<lparr>pg_batch = pg_batch g, pg_seed = pg_seed g, pg_nodes = pg_nodes g,
      pg_offsets = pg_offsets g, pg_edges = pg_edges g, pg_interfaces = pg_interfaces g\<rparr> = g"
    by simp
  ultimately show ?thesis
    unfolding prm_decode_body_def by (simp add: rs last counted offs Let_def eta del: prm_graph.surjective)
qed

lemma prm_encode_bytes:
  assumes "prm_wf g"
  shows "prm_encode g =
    le_bytes 2 (pg_batch g) @ le_bytes 2 (0 :: u16) @ le_bytes 8 (pg_seed g)
      @ le_bytes 4 (word_of_nat (length (pg_nodes g)) :: u32)
      @ le_bytes 4 (word_of_nat (length (pg_edges g)) :: u32)
      @ le_bytes 4 (word_of_nat (length (pg_interfaces g)) :: u32)
      @ concat (map section_bytes (prm_sections g))"
  using assms by (simp add: prm_encode_def wire_simps write_section_bytes prm_wf_def prm_sections_def)

lemma prm_counts_u32:
  assumes "prm_wf g"
  shows "unat (word_of_nat (length (pg_nodes g)) :: u32) = length (pg_nodes g)"
    and "unat (word_of_nat (length (pg_edges g)) :: u32) = length (pg_edges g)"
    and "unat (word_of_nat (length (pg_interfaces g)) :: u32) = length (pg_interfaces g)"
proof -
  have "length (prm_nodes_body g) = 14 * length (pg_nodes g)"
    "length (prm_edges_body g) = 14 * length (pg_edges g)"
    "length (prm_interfaces_body g) = 20 * length (pg_interfaces g)"
    unfolding prm_bodies
    by (rule prm_node_record.array_length prm_edge_record.array_length interface_link_record.array_length)+
  then show "unat (word_of_nat (length (pg_nodes g)) :: u32) = length (pg_nodes g)"
    "unat (word_of_nat (length (pg_edges g)) :: u32) = length (pg_edges g)"
    "unat (word_of_nat (length (pg_interfaces g)) :: u32) = length (pg_interfaces g)"
    using assms by (simp_all add: prm_wf_def unat_of_nat_u32)
qed

lemma prm_roundtrip:
  assumes "prm_wf g"
  shows "prm_decode (prm_encode g) = Inr g"
proof -
  let ?head = "le_bytes 2 (pg_batch g) @ le_bytes 2 (0 :: u16) @ le_bytes 8 (pg_seed g)
      @ le_bytes 4 (word_of_nat (length (pg_nodes g)) :: u32)
      @ le_bytes 4 (word_of_nat (length (pg_edges g)) :: u32)
      @ le_bytes 4 (word_of_nat (length (pg_interfaces g)) :: u32)"
  let ?p = "rd_bind read_u16 (\<lambda>batch. rd_bind read_u16 (\<lambda>_. rd_bind read_u64 (\<lambda>seed.
    rd_bind read_u32 (\<lambda>n. rd_bind read_u32 (\<lambda>m. rd_bind read_u32 (\<lambda>k. rd_return (batch, seed, n, m, k)))))))"
  have "reads ?p ?head (pg_batch g, pg_seed g, word_of_nat (length (pg_nodes g)),
      word_of_nat (length (pg_edges g)), word_of_nat (length (pg_interfaces g)))"
    by (rule reads_combs reads_intros | simp)+
  moreover have "fits (?head @ concat (map section_bytes (prm_sections g)))"
    using assms by (simp add: fits_def prm_wf_def prm_sections_def length_section_bytes)
  ultimately have "rd_run (rd_bind ?p (\<lambda>x. rd_bind (\<lambda>r. read_bytes (remaining r) r) (\<lambda>b.
      rd_lift ((\<lambda>(batch, seed, n, m, k) b. prm_decode_body batch seed (unat n) (unat m) (unat k) b) x b))))
      (?head @ concat (map section_bytes (prm_sections g)))
      = prm_decode_body (pg_batch g) (pg_seed g) (length (pg_nodes g)) (length (pg_edges g))
        (length (pg_interfaces g)) (concat (map section_bytes (prm_sections g)))"
    by (subst rd_run_rest) (assumption, simp, simp only: split_conv prm_counts_u32 [OF assms])
  moreover have "rd_run (rd_bind ?p (\<lambda>x. rd_bind (\<lambda>r. read_bytes (remaining r) r) (\<lambda>b.
      rd_lift ((\<lambda>(batch, seed, n, m, k) b. prm_decode_body batch seed (unat n) (unat m) (unat k) b) x b)))) bs
      = prm_decode bs" for bs
    unfolding prm_decode_def by (simp add: rd_bind_assoc rd_bind_return)
  ultimately show ?thesis
    using prm_decode_body_sections [OF assms] by (simp add: prm_encode_bytes [OF assms])
qed

lemma prm_decode_csr: "prm_decode bs = Inr g \<Longrightarrow> prm_csr_ok g"
  unfolding prm_decode_def rd_run_def
  by (auto simp: rd_bind_def rd_lift_def rbind_Inr_iff prm_decode_body_def Let_def prm_validate_ok
      split: if_splits)

section \<open>Properties\<close>

text \<open>C14: \<open>build_offsets\<close> is a stable counting sort that never indexes out of range. For any list of
  fewer than \<open>2^32\<close> edges it returns, row \<open>i\<close> between its offsets is exactly the edges whose source is
  \<open>i\<close> in their input order, the rows follow each other without gaps from 0, and edges from sources
  out of range are dropped.\<close>

theorem build_offsets_rows:
  assumes "length edges < 2 ^ 32"
  shows "\<exists>offsets out. prm_build_offsets nodes edges = Some (offsets, out)
    \<and> length offsets = nodes + 1 \<and> unat (offsets ! 0) = 0
    \<and> length out = length (filter (\<lambda>x. unat (fst x) < nodes) edges)
    \<and> (\<forall>i < nodes. slice_range (unat (offsets ! i)) (unat (offsets ! (i + 1))) out
         = Some (map snd (filter (\<lambda>x. unat (fst x) = i) edges)))"
proof (rule prm_build_offsets_rows [OF assms, of nodes])
  fix offsets out
  assume "prm_build_offsets nodes edges = Some (offsets, out)" "length offsets = nodes + 1"
    "length out = prm_below nodes edges" "\<And>i. i \<le> nodes \<Longrightarrow> unat (offsets ! i) = prm_below i edges"
    "\<And>i. i < nodes \<Longrightarrow> slice_range (unat (offsets ! i)) (unat (offsets ! (i + 1))) out = Some (prm_row i edges)"
  then show ?thesis by (intro exI [of _ offsets] exI [of _ out]) (simp add: prm_below_def prm_row_def)
qed

definition sample_edge :: "u32 \<Rightarrow> prm_edge" where
  "sample_edge n = \<lparr>pe_to = n, pe_cost_equiv_m = 0, pe_len_m = 0, pe_dir = 0, pe_flags = 0\<rparr>"

definition sample_edges :: "(u32 \<times> prm_edge) list" where
  "sample_edges = [(1, sample_edge 0), (0, sample_edge 1), (7, sample_edge 0)]"

theorem build_offsets_rows_witness:
  "\<exists>offsets out. prm_build_offsets 2 sample_edges = Some (offsets, out)
     \<and> slice_range (unat (offsets ! 1)) (unat (offsets ! 2)) out = Some [sample_edge 0]"
proof -
  have "length sample_edges < 2 ^ 32" by (simp add: sample_edges_def)
  from build_offsets_rows [OF this, of 2] obtain offsets out where
    b: "prm_build_offsets 2 sample_edges = Some (offsets, out)"
    and rows: "\<And>i. i < 2 \<Longrightarrow> slice_range (unat (offsets ! i)) (unat (offsets ! (i + 1))) out
         = Some (map snd (filter (\<lambda>x. unat (fst x) = i) sample_edges))"
    by blast
  show ?thesis using b rows [of 1, unfolded one_add_one] by (simp add: sample_edges_def)
qed

text \<open>C17: a roadmap that decodes is safe to walk. Whatever the bytes, if they decode, taking the
  neighbours of any node index succeeds and every edge leads to a node that exists.\<close>

theorem prm_decoded_walkable:
  assumes "prm_decode bs = Inr g"
  shows "\<exists>es. prm_neighbours g i = Some es \<and> (\<forall>e \<in> set es. e \<in> set (pg_edges g) \<and> unat (pe_to e) < node_count g)"
  using prm_neighbours_ok [OF prm_decode_csr [OF assms], of i] by (auto simp: node_count_def)

definition sample_graph :: prm_graph where
  "sample_graph = \<lparr>pg_batch = 0, pg_seed = 7, pg_nodes = [prm_node_new 0 0 0, prm_node_new 1 1 1],
     pg_offsets = [0, 1, 1], pg_edges = [sample_edge 1], pg_interfaces = []\<rparr>"

lemma sample_graph_wf: "prm_wf sample_graph"
  by (simp add: prm_wf_def prm_csr_ok_def sample_graph_def sample_edge_def prm_bodies
      prm_node_record.to_bytes_length prm_edge_record.to_bytes_length word_le_nat_alt)

theorem prm_decoded_walkable_witness:
  "\<exists>es. prm_neighbours sample_graph 0 = Some es \<and> (\<forall>e \<in> set es. e \<in> set (pg_edges sample_graph)
     \<and> unat (pe_to e) < node_count sample_graph)"
  by (rule prm_decoded_walkable [OF prm_roundtrip [OF sample_graph_wf]])

text \<open>A consistent roadmap survives encoding.\<close>

theorem prm_survives:
  assumes "prm_wf g"
  shows "prm_decode (prm_encode g) = Inr g"
  using assms by (rule prm_roundtrip)

theorem prm_survives_witness: "prm_decode (prm_encode sample_graph) = Inr sample_graph"
  by (rule prm_survives [OF sample_graph_wf])

end
