(* ===== verification/Omf_Kpath.thy ===== *)
theory Omf_Kpath
  imports Omf_Section
begin

text \<open>
  The K-shortest-path library (\<open>crates/map-format/src/graph/kpath.rs\<close>): parameters, an index of
  origin-destination keys sorted for binary search, the path sets it refers to and a shared table
  of samples. The lemmas show that inserting a set changes the candidates of its own key only,
  keeps the index sorted and in range, and that an encoded library decodes to itself; a decoded
  index never refers past the sets. \<open>key_of\<close>, a float division, is not modelled.
\<close>

section \<open>Parameters, paths and index entries\<close>

record kpath_params =
  kp_param_set_id :: u32
  kp_k :: u8
  kp_penalty_mu :: f32
  kp_max_overlap_ratio :: f32
  kp_ps_formula :: u8
  kp_dedup :: bool
  kp_key_cell_m :: f32

definition kpath_params_default :: kpath_params where
  "kpath_params_default =
     \<lparr>kp_param_set_id = 1, kp_k = 5, kp_penalty_mu = 0x3FCCCCCD, kp_max_overlap_ratio = 0x3F4CCCCD,
      kp_ps_formula = 1, kp_dedup = True, kp_key_cell_m = 0x41C80000\<rparr>"

definition kpath_params_to_bytes :: "kpath_params \<Rightarrow> bytes" where
  "kpath_params_to_bytes p =
     puts [\<lambda>b. put_u32 b 0 (kp_param_set_id p),
           \<lambda>b. put_u8 b 4 (kp_k p),
           \<lambda>b. put_f32 b 5 (kp_penalty_mu p),
           \<lambda>b. put_f32 b 9 (kp_max_overlap_ratio p),
           \<lambda>b. put_u8 b 13 (kp_ps_formula p),
           \<lambda>b. put_u8 b 14 (of_bool (kp_dedup p)),
           \<lambda>b. put_f32 b 15 (kp_key_cell_m p)]
       (replicate 20 0)"

definition kpath_params_from_bytes :: "bytes \<Rightarrow> kpath_params result" where
  "kpath_params_from_bytes buf =
     (if length buf < 20 then Inl (Truncated 0 20 (length buf))
      else
        rbind (get_u32 buf 0) (\<lambda>param_set_id.
        rbind (get_u8 buf 4) (\<lambda>k.
        rbind (get_f32 buf 5) (\<lambda>penalty_mu.
        rbind (get_f32 buf 9) (\<lambda>max_overlap_ratio.
        rbind (get_u8 buf 13) (\<lambda>ps_formula.
        rbind (get_u8 buf 14) (\<lambda>dedup.
        rbind (get_f32 buf 15) (\<lambda>key_cell_m.
          Inr \<lparr>kp_param_set_id = param_set_id, kp_k = k, kp_penalty_mu = penalty_mu,
               kp_max_overlap_ratio = max_overlap_ratio, kp_ps_formula = ps_formula,
               kp_dedup = dedup \<noteq> 0, kp_key_cell_m = key_cell_m\<rparr>))))))))"

record kpath =
  pa_total_cost :: f32
  pa_length_m :: f32
  pa_path_size :: f32
  pa_node_range :: "u32 \<times> u32"

definition kpath_to_bytes :: "kpath \<Rightarrow> bytes" where
  "kpath_to_bytes p =
     puts [\<lambda>b. put_f32 b 0 (pa_total_cost p),
           \<lambda>b. put_f32 b 4 (pa_length_m p),
           \<lambda>b. put_f32 b 8 (pa_path_size p),
           \<lambda>b. put_u32 b 12 (fst (pa_node_range p)),
           \<lambda>b. put_u32 b 16 (snd (pa_node_range p))]
       (replicate 20 0)"

definition kpath_from_bytes :: "bytes \<Rightarrow> kpath result" where
  "kpath_from_bytes buf =
     (if length buf < 20 then Inl (Truncated 0 20 (length buf))
      else
        rbind (get_f32 buf 0) (\<lambda>total_cost.
        rbind (get_f32 buf 4) (\<lambda>length_m.
        rbind (get_f32 buf 8) (\<lambda>path_size.
        rbind (get_u32 buf 12) (\<lambda>start.
        rbind (get_u32 buf 16) (\<lambda>n.
          Inr \<lparr>pa_total_cost = total_cost, pa_length_m = length_m, pa_path_size = path_size,
               pa_node_range = (start, n)\<rparr>))))))"

type_synonym od_cell = "i32 \<times> i32"

record od_entry =
  od_start_key :: od_cell
  od_goal_key :: od_cell
  od_set_index :: u32

text \<open>The key's ordering is that of signed integers, compared lexicographically.\<close>

type_synonym od_key = "(int \<times> int) \<times> int \<times> int"

definition signed_cell :: "od_cell \<Rightarrow> int \<times> int" where
  "signed_cell c = (sint (fst c), sint (snd c))"

definition od_key :: "od_entry \<Rightarrow> od_key" where
  "od_key e = (signed_cell (od_start_key e), signed_cell (od_goal_key e))"

definition od_entry_to_bytes :: "od_entry \<Rightarrow> bytes" where
  "od_entry_to_bytes e =
     puts [\<lambda>b. put_i32 b 0 (fst (od_start_key e)),
           \<lambda>b. put_i32 b 4 (snd (od_start_key e)),
           \<lambda>b. put_i32 b 8 (fst (od_goal_key e)),
           \<lambda>b. put_i32 b 12 (snd (od_goal_key e)),
           \<lambda>b. put_u32 b 16 (od_set_index e)]
       (replicate 20 0)"

definition od_entry_from_bytes :: "bytes \<Rightarrow> od_entry result" where
  "od_entry_from_bytes buf =
     (if length buf < 20 then Inl (Truncated 0 20 (length buf))
      else
        rbind (get_i32 buf 0) (\<lambda>s0.
        rbind (get_i32 buf 4) (\<lambda>s1.
        rbind (get_i32 buf 8) (\<lambda>g0.
        rbind (get_i32 buf 12) (\<lambda>g1.
        rbind (get_u32 buf 16) (\<lambda>set_index.
          Inr \<lparr>od_start_key = (s0, s1), od_goal_key = (g0, g1), od_set_index = set_index\<rparr>))))))"

lemma kpath_params_layout:
  "kpath_params_to_bytes p =
     layout (le_bytes 4 (kp_param_set_id p) @ [kp_k p] @ le_bytes 4 (kp_penalty_mu p)
       @ le_bytes 4 (kp_max_overlap_ratio p) @ [kp_ps_formula p, of_bool (kp_dedup p)]
       @ le_bytes 4 (kp_key_cell_m p)) 1"
  by (simp add: kpath_params_to_bytes_def layout_simps)

lemma kpath_layout:
  "kpath_to_bytes p =
     layout (le_bytes 4 (pa_total_cost p) @ le_bytes 4 (pa_length_m p) @ le_bytes 4 (pa_path_size p)
       @ le_bytes 4 (fst (pa_node_range p)) @ le_bytes 4 (snd (pa_node_range p))) 0"
  by (simp add: kpath_to_bytes_def layout_simps)

lemma od_entry_layout:
  "od_entry_to_bytes e =
     layout (le_bytes 4 (fst (od_start_key e)) @ le_bytes 4 (snd (od_start_key e))
       @ le_bytes 4 (fst (od_goal_key e)) @ le_bytes 4 (snd (od_goal_key e))
       @ le_bytes 4 (od_set_index e)) 0"
  by (simp add: od_entry_to_bytes_def layout_simps)

interpretation kpath_params_record:
  fixed_record 20 kpath_params_to_bytes kpath_params_from_bytes "\<lambda>_. True"
proof unfold_locales
  show "length (kpath_params_to_bytes p) = 20" for p
    by (simp add: kpath_params_layout layout_def)
  show "kpath_params_from_bytes (kpath_params_to_bytes p @ rest) = Inr p" for p rest
    unfolding kpath_params_layout kpath_params_from_bytes_def
    by (simp add: field_reads cong: rbind_cong)
  show "length bs < 20 \<Longrightarrow> kpath_params_from_bytes bs = Inl (Truncated 0 20 (length bs))" for bs
    by (simp add: kpath_params_from_bytes_def)
qed simp

interpretation kpath_record: fixed_record 20 kpath_to_bytes kpath_from_bytes "\<lambda>_. True"
proof unfold_locales
  show "length (kpath_to_bytes p) = 20" for p
    by (simp add: kpath_layout layout_def)
  show "kpath_from_bytes (kpath_to_bytes p @ rest) = Inr p" for p rest
    unfolding kpath_layout kpath_from_bytes_def by (simp add: field_reads cong: rbind_cong)
  show "length bs < 20 \<Longrightarrow> kpath_from_bytes bs = Inl (Truncated 0 20 (length bs))" for bs
    by (simp add: kpath_from_bytes_def)
qed simp

interpretation od_entry_record: fixed_record 20 od_entry_to_bytes od_entry_from_bytes "\<lambda>_. True"
proof unfold_locales
  show "length (od_entry_to_bytes e) = 20" for e
    by (simp add: od_entry_layout layout_def)
  show "od_entry_from_bytes (od_entry_to_bytes e @ rest) = Inr e" for e rest
    unfolding od_entry_layout od_entry_from_bytes_def by (simp add: field_reads cong: rbind_cong)
  show "length bs < 20 \<Longrightarrow> od_entry_from_bytes bs = Inl (Truncated 0 20 (length bs))" for bs
    by (simp add: od_entry_from_bytes_def)
qed simp

section \<open>The library\<close>

record kpath_library =
  kl_params :: kpath_params
  kl_od_index :: "od_entry list"
  kl_sets :: "kpath list list"
  kl_nodes :: "point3 list"

definition kpath_find :: "kpath_library \<Rightarrow> od_cell \<Rightarrow> od_cell \<Rightarrow> kpath list option" where
  "kpath_find lib start goal =
     (case binary_search_by_key od_key (signed_cell start, signed_cell goal) (kl_od_index lib) of
        Inl _ \<Rightarrow> None
      | Inr i \<Rightarrow>
          let k = unat (od_set_index (kl_od_index lib ! i))
          in if k < length (kl_sets lib) then Some (kl_sets lib ! k) else None)"

definition kpath_insert_set :: "od_entry \<Rightarrow> kpath list \<Rightarrow> kpath_library \<Rightarrow> kpath_library" where
  "kpath_insert_set entry paths lib =
     (case binary_search_by_key od_key (od_key entry) (kl_od_index lib) of
        Inr i \<Rightarrow> lib\<lparr>kl_sets := (kl_sets lib)[unat (od_set_index (kl_od_index lib ! i)) := paths]\<rparr>
      | Inl _ \<Rightarrow>
          let set_index = word_of_nat (length (kl_sets lib));
              lib = lib\<lparr>kl_sets := kl_sets lib @ [paths]\<rparr>;
              entry = entry\<lparr>od_set_index := set_index\<rparr>
          in case binary_search_by_key od_key (od_key entry) (kl_od_index lib) of
               Inr _ \<Rightarrow> lib
             | Inl i \<Rightarrow> lib\<lparr>kl_od_index := insert_at i entry (kl_od_index lib)\<rparr>)"

definition kpath_push_nodes :: "point3 list \<Rightarrow> kpath_library \<Rightarrow> (u32 \<times> u32) \<times> kpath_library" where
  "kpath_push_nodes points lib =
     (let start = word_of_nat (length (kl_nodes lib))
      in ((start, word_of_nat (length points)), lib\<lparr>kl_nodes := kl_nodes lib @ points\<rparr>))"

definition kpath_points :: "kpath \<Rightarrow> point3 list \<Rightarrow> point3 list" where
  "kpath_points p nodes =
     (let start = unat (fst (pa_node_range p)); end = start + unat (snd (pa_node_range p))
      in if end \<le> length nodes then take (end - start) (drop start nodes) else [])"

definition kpath_start_point :: "kpath \<Rightarrow> point3 list \<Rightarrow> point3 option" where
  "kpath_start_point p nodes = (case kpath_points p nodes of [] \<Rightarrow> None | x # _ \<Rightarrow> Some x)"

definition kpath_end_point :: "kpath \<Rightarrow> point3 list \<Rightarrow> point3 option" where
  "kpath_end_point p nodes =
     (let ps = kpath_points p nodes in if ps = [] then None else Some (last ps))"

text \<open>The invariant: the index is strictly sorted, refers inside the sets, and no two entries
  share a set.\<close>

definition kpath_ok :: "kpath_library \<Rightarrow> bool" where
  "kpath_ok lib \<longleftrightarrow>
     sorted_by od_key (kl_od_index lib)
     \<and> list_all (\<lambda>e. unat (od_set_index e) < length (kl_sets lib)) (kl_od_index lib)
     \<and> distinct (map od_set_index (kl_od_index lib))"

text \<open>The library as a map from keys to candidate sets.\<close>

definition kpath_map :: "kpath_library \<Rightarrow> od_key \<Rightarrow> kpath list option" where
  "kpath_map lib k =
     map_option (\<lambda>e. kl_sets lib ! unat (od_set_index e)) (sorted_find od_key (kl_od_index lib) k)"

lemma kpath_find_map:
  assumes "kpath_ok lib"
  shows "kpath_find lib s g = kpath_map lib (signed_cell s, signed_cell g)"
proof -
  have "sorted_by od_key (kl_od_index lib)" using assms by (simp add: kpath_ok_def)
  then show ?thesis
  proof (cases rule: search_by_key_cases [of od_key "kl_od_index lib" "(signed_cell s, signed_cell g)"])
    case (found i)
    then have "unat (od_set_index (kl_od_index lib ! i)) < length (kl_sets lib)"
      using assms by (simp add: kpath_ok_def list_all_length)
    with found show ?thesis by (simp add: kpath_find_def kpath_map_def sorted_find_def)
  next
    case (absent i)
    then show ?thesis by (simp add: kpath_find_def kpath_map_def sorted_find_def)
  qed
qed

lemma signed_cell_inj: "signed_cell a = signed_cell b \<longleftrightarrow> a = b"
  by (auto simp: signed_cell_def prod_eq_iff signed_word_eqI)

lemma sorted_find_nth:
  assumes "sorted_by key rs" and "i < length rs"
  shows "sorted_find key rs (key (rs ! i)) = Some (rs ! i)"
  using assms by (simp add: sorted_find_Some_iff)

lemma kpath_insert_existing:
  fixes paths :: "kpath list"
  assumes "kpath_ok lib" and "i < length (kl_od_index lib)" and "od_key (kl_od_index lib ! i) = k"
  defines "lib' \<equiv> lib\<lparr>kl_sets := (kl_sets lib)[unat (od_set_index (kl_od_index lib ! i)) := paths]\<rparr>"
  shows "kpath_ok lib'" and "kpath_map lib' = (kpath_map lib)(k := Some paths)"
proof -
  let ?ix = "kl_od_index lib" and ?n = "length (kl_sets lib)"
  have s: "sorted_by od_key ?ix" and d: "distinct (map od_set_index ?ix)"
    and b: "\<And>e. e \<in> set ?ix \<Longrightarrow> unat (od_set_index e) < ?n"
    using assms(1) by (auto simp: kpath_ok_def list_all_iff)
  show "kpath_ok lib'" using assms(1) by (simp add: kpath_ok_def lib'_def)
  show "kpath_map lib' = (kpath_map lib)(k := Some paths)"
  proof
    fix q
    show "kpath_map lib' q = ((kpath_map lib)(k := Some paths)) q"
    proof (cases "sorted_find od_key ?ix q")
      case None
      then have "q \<noteq> k" using sorted_find_nth [OF s assms(2)] assms(3) by auto
      with None show ?thesis by (simp add: kpath_map_def lib'_def)
    next
      case (Some e)
      then have e: "e \<in> set ?ix" "od_key e = q" using sorted_find_Some_iff [OF s] by auto
      show ?thesis
      proof (cases "q = k")
        case True
        then have "e = ?ix ! i" using sorted_find_nth [OF s assms(2)] assms(3) Some by simp
        then show ?thesis using True Some b [OF e(1)] by (simp add: kpath_map_def lib'_def)
      next
        case False
        then have "e \<noteq> ?ix ! i" using e assms(3) by auto
        then have "od_set_index e \<noteq> od_set_index (?ix ! i)"
          using d e(1) nth_mem [OF assms(2)] by (auto simp: distinct_map dest: inj_onD)
        then have "unat (od_set_index e) \<noteq> unat (od_set_index (?ix ! i))"
          by (simp add: word_unat_eq_iff)
        then show ?thesis using False Some by (simp add: kpath_map_def lib'_def)
      qed
    qed
  qed
qed

lemma kpath_insert_new:
  fixes paths :: "kpath list"
  assumes "kpath_ok lib" and "length (kl_sets lib) < 2 ^ 32"
    and "binary_search_by_key od_key (od_key entry) (kl_od_index lib) = Inl i"
  defines "e \<equiv> entry\<lparr>od_set_index := word_of_nat (length (kl_sets lib))\<rparr>"
  defines "lib' \<equiv> lib\<lparr>kl_sets := kl_sets lib @ [paths], kl_od_index := insert_at i e (kl_od_index lib)\<rparr>"
  shows "kpath_ok lib'" and "kpath_map lib' = (kpath_map lib)(od_key entry := Some paths)"
proof -
  let ?ix = "kl_od_index lib" and ?n = "length (kl_sets lib)"
  have s: "sorted_by od_key ?ix" and d: "distinct (map od_set_index ?ix)"
    and b: "\<And>x. x \<in> set ?ix \<Longrightarrow> unat (od_set_index x) < ?n"
    using assms(1) by (auto simp: kpath_ok_def list_all_iff)
  have k: "od_key e = od_key entry" by (simp add: e_def od_key_def)
  have n: "unat (od_set_index e) = ?n" using assms(2) by (simp add: e_def unat_of_nat_u32)
  have up: "insert_at i e ?ix = sorted_upsert od_key e ?ix"
    using assms(3) by (simp add: sorted_upsert_def k)
  have s': "sorted_by od_key (insert_at i e ?ix)" unfolding up by (rule sorted_by_upsert [OF s])
  have "od_set_index e \<notin> od_set_index ` set ?ix" using b n by (metis imageE less_irrefl)
  then have d': "distinct (map od_set_index (insert_at i e ?ix))"
    by (rule distinct_insert_at [OF d])
  have "unat (od_set_index x) < Suc ?n" if "x \<in> set (insert_at i e ?ix)" for x
    using that b n by (fastforce simp: set_insert_at)
  then show "kpath_ok lib'"
    using s' d' by (simp add: kpath_ok_def lib'_def list_all_iff)
  show "kpath_map lib' = (kpath_map lib)(od_key entry := Some paths)"
  proof
    fix q
    have f: "sorted_find od_key (kl_od_index lib') q = ((sorted_find od_key ?ix)(od_key entry := Some e)) q"
      using sorted_find_upsert [OF s, of e] by (simp add: lib'_def up k)
    show "kpath_map lib' q = ((kpath_map lib)(od_key entry := Some paths)) q"
    proof (cases "q = od_key entry")
      case True
      then show ?thesis using f n by (simp add: kpath_map_def lib'_def)
    next
      case False
      have "unat (od_set_index x) < ?n" if "sorted_find od_key ?ix q = Some x" for x
        using that b sorted_find_Some_iff [OF s] by blast
      then show ?thesis using f False
        by (cases "sorted_find od_key ?ix q") (simp_all add: kpath_map_def lib'_def nth_append)
    qed
  qed
qed

lemma kpath_insert_set_cases:
  assumes "kpath_ok lib"
  obtains (replace) i where "i < length (kl_od_index lib)" "od_key (kl_od_index lib ! i) = od_key entry"
      "kpath_insert_set entry paths lib =
        lib\<lparr>kl_sets := (kl_sets lib)[unat (od_set_index (kl_od_index lib ! i)) := paths]\<rparr>"
    | (insert) i where "binary_search_by_key od_key (od_key entry) (kl_od_index lib) = Inl i"
      "kpath_insert_set entry paths lib =
        lib\<lparr>kl_sets := kl_sets lib @ [paths],
            kl_od_index := insert_at i (entry\<lparr>od_set_index := word_of_nat (length (kl_sets lib))\<rparr>)
              (kl_od_index lib)\<rparr>"
proof -
  have "sorted_by od_key (kl_od_index lib)" using assms by (simp add: kpath_ok_def)
  then show thesis
  proof (cases rule: search_by_key_cases [of od_key "kl_od_index lib" "od_key entry"])
    case (found i)
    then show thesis by (intro replace [of i]) (simp_all add: kpath_insert_set_def)
  next
    case (absent i)
    have "od_key (entry\<lparr>od_set_index := n\<rparr>) = od_key entry" for n by (simp add: od_key_def)
    with absent(1) show thesis by (intro insert [of i]) (simp_all add: kpath_insert_set_def)
  qed
qed

lemma kpath_insert_set_spec:
  assumes "kpath_ok lib" and "length (kl_sets lib) < 2 ^ 32"
  shows "kpath_ok (kpath_insert_set entry paths lib)"
    and "kpath_map (kpath_insert_set entry paths lib) = (kpath_map lib)(od_key entry := Some paths)"
proof -
  have "kpath_ok (kpath_insert_set entry paths lib) \<and>
    kpath_map (kpath_insert_set entry paths lib) = (kpath_map lib)(od_key entry := Some paths)"
    using assms(1)
  proof (cases rule: kpath_insert_set_cases [of lib entry paths])
    case (replace i)
    then show ?thesis using kpath_insert_existing [OF assms(1) replace(1,2)] by simp
  next
    case (insert i)
    then show ?thesis using kpath_insert_new [OF assms insert(1)] by simp
  qed
  then show "kpath_ok (kpath_insert_set entry paths lib)"
    "kpath_map (kpath_insert_set entry paths lib) = (kpath_map lib)(od_key entry := Some paths)"
    by simp_all
qed

text \<open>Samples pushed to the table are the points of a path over the returned range, ever after.\<close>

lemma kpath_push_nodes_points:
  assumes "kpath_push_nodes points lib = (rng, lib')" and "pa_node_range p = rng"
    and "length (kl_nodes lib) < 2 ^ 32" and "length points < 2 ^ 32"
  shows "kpath_points p (kl_nodes lib' @ later) = points"
proof -
  have "pa_node_range p = (word_of_nat (length (kl_nodes lib)), word_of_nat (length points))"
    and nodes: "kl_nodes lib' = kl_nodes lib @ points"
    using assms(1) unfolding assms(2) by (simp_all add: kpath_push_nodes_def Let_def prod_eq_iff) auto
  then have "fst (pa_node_range p) = word_of_nat (length (kl_nodes lib))"
    "snd (pa_node_range p) = word_of_nat (length points)" by simp_all
  then show ?thesis using assms(3,4) nodes by (simp add: kpath_points_def unat_of_nat_u32)
qed

section \<open>Encoding\<close>

definition kpath_od_body :: "kpath_library \<Rightarrow> bytes" where
  "kpath_od_body lib = write_each (\<lambda>e. write_bytes (od_entry_to_bytes e)) (kl_od_index lib) []"

definition kpath_sets_body :: "kpath_library \<Rightarrow> bytes" where
  "kpath_sets_body lib =
     write_seq [write_u32 (word_of_nat (length (kl_sets lib))),
                write_each (\<lambda>s. write_seq [write_u32 (word_of_nat (length s)),
                   write_each (\<lambda>p. write_bytes (kpath_to_bytes p)) s]) (kl_sets lib)] []"

definition kpath_nodes_body :: "kpath_library \<Rightarrow> bytes" where
  "kpath_nodes_body lib =
     write_seq [write_u32 (word_of_nat (length (kl_nodes lib))),
                write_each (\<lambda>p. write_seq [write_f32 (fst p), write_f32 (fst (snd p)),
                   write_f32 (snd (snd p))]) (kl_nodes lib)] []"

definition kpath_encode :: "kpath_library \<Rightarrow> bytes" where
  "kpath_encode lib =
     write_seq [write_bytes (write_section KPathParams (kpath_params_to_bytes (kl_params lib))),
                write_bytes (write_section KPathOdIndex (kpath_od_body lib)),
                write_bytes (write_section KPathSets (kpath_sets_body lib)),
                write_bytes (write_section KPathNodes (kpath_nodes_body lib))] []"

definition read_path_set :: "kpath list rd" where
  "read_path_set =
     rd_bind read_u32 (\<lambda>path_count.
     rd_bind (rd_require (unat path_count) 20 ''path count overflows'') (\<lambda>_.
       rd_times (unat path_count) (read_record 20 kpath_from_bytes)))"

definition read_path_sets :: "kpath list list rd" where
  "read_path_sets r =
     (if remaining r \<ge> 4
      then rd_bind read_u32 (\<lambda>set_count.
           rd_bind (rd_require (unat set_count) 4 ''path set count overflows'') (\<lambda>_.
             rd_times (unat set_count) read_path_set)) r
      else Inr ([], r))"

definition read_point3 :: "point3 rd" where
  "read_point3 =
     rd_bind read_f32 (\<lambda>x. rd_bind read_f32 (\<lambda>y. rd_bind read_f32 (\<lambda>z. rd_return (x, y, z))))"

definition read_path_nodes :: "point3 list rd" where
  "read_path_nodes r =
     (if remaining r \<ge> 4
      then rd_bind read_u32 (\<lambda>node_count.
           rd_bind (rd_require (unat node_count) 12 ''node count overflows'') (\<lambda>_.
             rd_times (unat node_count) read_point3)) r
      else Inr ([], r))"

text \<open>The index loop reads while a whole record is left: the full chunks of its section.\<close>

definition kpath_decode :: "bytes \<Rightarrow> kpath_library result" where
  "kpath_decode bs =
     rbind (read_sections (reader_new bs)) (\<lambda>ss.
     rbind (kpath_params_from_bytes (last_section KPathParams ss)) (\<lambda>params.
     rbind (rmapM od_entry_from_bytes (chunks_exact 20 (last_section KPathOdIndex ss))) (\<lambda>od_index.
     rbind (rd_run read_path_sets (last_section KPathSets ss)) (\<lambda>sets.
     rbind (rd_run read_path_nodes (last_section KPathNodes ss)) (\<lambda>nodes.
     case find (\<lambda>e. unat (od_set_index e) \<ge> length sets) od_index of
       Some e \<Rightarrow> Inl (invalid (''OD entry references path set '' @ show_nat (unat (od_set_index e))
                         @ '', only '' @ show_nat (length sets) @ '' present''))
     | None \<Rightarrow> Inr \<lparr>kl_params = params, kl_od_index = od_index, kl_sets = sets, kl_nodes = nodes\<rparr>)))))"

definition kpath_refs_ok :: "kpath_library \<Rightarrow> bool" where
  "kpath_refs_ok lib \<longleftrightarrow> list_all (\<lambda>e. unat (od_set_index e) < length (kl_sets lib)) (kl_od_index lib)"

definition kpath_wf :: "kpath_library \<Rightarrow> bool" where
  "kpath_wf lib \<longleftrightarrow> kpath_refs_ok lib
     \<and> length (kpath_od_body lib) < 2 ^ 32 \<and> length (kpath_sets_body lib) < 2 ^ 32
     \<and> length (kpath_nodes_body lib) < 2 ^ 32"

lemma kpath_decode_refs: "kpath_decode bs = Inr lib \<Longrightarrow> kpath_refs_ok lib"
  by (auto simp: kpath_decode_def rbind_Inr_iff kpath_refs_ok_def list_all_iff find_None_iff
      split: option.splits)

definition path_set_bytes :: "kpath list \<Rightarrow> bytes" where
  "path_set_bytes s = le_bytes 4 (word_of_nat (length s) :: u32) @ concat (map kpath_to_bytes s)"

definition point3_bytes :: "point3 \<Rightarrow> bytes" where
  "point3_bytes p = le_bytes 4 (fst p) @ le_bytes 4 (fst (snd p)) @ le_bytes 4 (snd (snd p))"

lemma kpath_bodies:
  "kpath_od_body lib = concat (map od_entry_to_bytes (kl_od_index lib))"
  "kpath_sets_body lib = le_bytes 4 (word_of_nat (length (kl_sets lib)) :: u32)
     @ concat (map path_set_bytes (kl_sets lib))"
  "kpath_nodes_body lib = le_bytes 4 (word_of_nat (length (kl_nodes lib)) :: u32)
     @ concat (map point3_bytes (kl_nodes lib))"
  by (simp_all add: kpath_od_body_def kpath_sets_body_def kpath_nodes_body_def wire_simps
      path_set_bytes_def [abs_def] point3_bytes_def [abs_def])

lemma reads_point3: "reads read_point3 (point3_bytes p) p"
  unfolding read_point3_def point3_bytes_def by (rule reads_combs reads_intros | simp)+

lemma reads_path_set:
  assumes "length (path_set_bytes s) < 2 ^ 32"
  shows "reads read_path_set (path_set_bytes s) s"
proof -
  have len: "length (concat (map kpath_to_bytes s)) = 20 * length s" by (rule kpath_record.array_length)
  then have n: "length s < 2 ^ 32" using assms by (simp add: path_set_bytes_def)
  show ?thesis
    unfolding read_path_set_def path_set_bytes_def
    by (rule reads_bind, rule reads_scalar, rule reads_require, rule kpath_record.reads_records)
      (use n len in \<open>simp_all add: unat_of_nat_u32 list_all_iff\<close>)
qed

lemma rd_run_if_remaining:
  "4 \<le> length bs \<Longrightarrow> rd_run (\<lambda>r. if remaining r \<ge> 4 then p r else q r) bs = rd_run p bs"
  by (simp add: rd_run_def reader_new_def remaining_def)

lemma read_path_sets_run:
  assumes "length (kpath_sets_body lib) < 2 ^ 32"
  shows "rd_run read_path_sets (kpath_sets_body lib) = Inr (kl_sets lib)"
proof -
  have sets: "length (kl_sets lib) * 4 \<le> length (concat (map path_set_bytes (kl_sets lib)))"
    by (rule length_concat_ge) (simp add: path_set_bytes_def)
  then have n: "length (kl_sets lib) < 2 ^ 32" using assms by (simp add: kpath_bodies)
  have item: "reads read_path_set (path_set_bytes s) s" if "s \<in> set (kl_sets lib)" for s
    using length_concat_member [OF that, of path_set_bytes] assms
    by (intro reads_path_set) (simp add: kpath_bodies)
  have "reads (rd_bind read_u32 (\<lambda>set_count.
      rd_bind (rd_require (unat set_count) 4 ''path set count overflows'') (\<lambda>_.
        rd_times (unat set_count) read_path_set))) (kpath_sets_body lib) (kl_sets lib)"
    unfolding kpath_bodies
    by (rule reads_bind, rule reads_scalar, rule reads_require, rule reads_times)
      (use n sets item in \<open>simp_all add: unat_of_nat_u32\<close>)
  from rd_run_reads_all [OF this] show ?thesis
    unfolding read_path_sets_def [abs_def]
    using assms by (subst rd_run_if_remaining) (simp_all add: fits_def kpath_bodies(2))
qed

lemma read_path_nodes_run:
  assumes "length (kpath_nodes_body lib) < 2 ^ 32"
  shows "rd_run read_path_nodes (kpath_nodes_body lib) = Inr (kl_nodes lib)"
proof -
  have nodes: "length (kl_nodes lib) * 12 \<le> length (concat (map point3_bytes (kl_nodes lib)))"
    by (rule length_concat_ge) (simp add: point3_bytes_def)
  then have n: "length (kl_nodes lib) < 2 ^ 32" using assms by (simp add: kpath_bodies)
  have "reads (rd_bind read_u32 (\<lambda>node_count.
      rd_bind (rd_require (unat node_count) 12 ''node count overflows'') (\<lambda>_.
        rd_times (unat node_count) read_point3))) (kpath_nodes_body lib) (kl_nodes lib)"
    unfolding kpath_bodies
    by (rule reads_bind, rule reads_scalar, rule reads_require, rule reads_times)
      (use n nodes reads_point3 in \<open>simp_all add: unat_of_nat_u32\<close>)
  from rd_run_reads_all [OF this] show ?thesis
    unfolding read_path_nodes_def [abs_def]
    using assms by (subst rd_run_if_remaining) (simp_all add: fits_def kpath_bodies(3))
qed

definition kpath_sections :: "kpath_library \<Rightarrow> (u16 \<times> bytes) list" where
  "kpath_sections lib =
     [(section_id_u16 KPathParams, kpath_params_to_bytes (kl_params lib)),
      (section_id_u16 KPathOdIndex, kpath_od_body lib),
      (section_id_u16 KPathSets, kpath_sets_body lib),
      (section_id_u16 KPathNodes, kpath_nodes_body lib)]"

lemma kpath_roundtrip:
  assumes "kpath_wf lib"
  shows "kpath_decode (kpath_encode lib) = Inr lib"
proof -
  have od: "length (kpath_od_body lib) < 2 ^ 32" and sets: "length (kpath_sets_body lib) < 2 ^ 32"
    and nodes: "length (kpath_nodes_body lib) < 2 ^ 32" and refs: "kpath_refs_ok lib"
    using assms by (simp_all add: kpath_wf_def)
  have enc: "kpath_encode lib = concat (map section_bytes (kpath_sections lib))"
    using od sets nodes
    by (simp add: kpath_encode_def kpath_sections_def wire_simps write_section_bytes
        kpath_params_record.to_bytes_length)
  have ok: "list_all section_ok (kpath_sections lib)"
    using od sets nodes
    by (simp add: kpath_sections_def section_ok_def kpath_params_record.to_bytes_length)
  have "fits (kpath_encode lib)"
    using od sets nodes unfolding enc
    by (simp add: kpath_sections_def fits_def length_section_bytes kpath_params_record.to_bytes_length)
  with read_sections_at [OF ok, of "[]"]
  have rs: "read_sections (reader_new (kpath_encode lib)) = Inr (kpath_sections lib)"
    by (simp add: reader_new_rd_at enc)
  have last: "last_section KPathParams (kpath_sections lib) = kpath_params_to_bytes (kl_params lib)"
    "last_section KPathOdIndex (kpath_sections lib) = kpath_od_body lib"
    "last_section KPathSets (kpath_sections lib) = kpath_sets_body lib"
    "last_section KPathNodes (kpath_sections lib) = kpath_nodes_body lib"
    by (simp_all add: last_section_def kpath_sections_def)
  have "rmapM od_entry_from_bytes (chunks_exact 20 (kpath_od_body lib)) = Inr (kl_od_index lib)"
    unfolding kpath_bodies by (rule od_entry_record.array_roundtrip) (simp add: list_all_iff)
  moreover have "find (\<lambda>e. unat (od_set_index e) \<ge> length (kl_sets lib)) (kl_od_index lib) = None"
    using refs by (auto simp: kpath_refs_ok_def list_all_iff find_None_iff)
  ultimately show ?thesis
    by (simp add: kpath_decode_def rs last kpath_params_record.from_to_bytes_exact
        read_path_sets_run [OF sets] read_path_nodes_run [OF nodes])
qed

section \<open>Properties\<close>

text \<open>C16: the candidate library is a map from ordered pairs of cells to path sets. Inserting keeps the
  invariant, \<open>find\<close> of the inserted pair returns the inserted paths, and every other pair keeps its
  own, whether the pair was new or replaced.\<close>

theorem kpath_insert_find:
  assumes "kpath_ok lib" and "length (kl_sets lib) < 2 ^ 32"
  shows "kpath_ok (kpath_insert_set entry paths lib)
    \<and> kpath_find (kpath_insert_set entry paths lib) s g =
        (if (s, g) = (od_start_key entry, od_goal_key entry) then Some paths else kpath_find lib s g)"
proof
  show ok: "kpath_ok (kpath_insert_set entry paths lib)" by (rule kpath_insert_set_spec(1) [OF assms])
  have "(signed_cell s, signed_cell g) = od_key entry \<longleftrightarrow> (s, g) = (od_start_key entry, od_goal_key entry)"
    by (simp add: od_key_def signed_cell_inj)
  then show "kpath_find (kpath_insert_set entry paths lib) s g =
      (if (s, g) = (od_start_key entry, od_goal_key entry) then Some paths else kpath_find lib s g)"
    unfolding kpath_find_map [OF ok] kpath_find_map [OF assms(1)] kpath_insert_set_spec(2) [OF assms] by simp
qed

definition empty_library :: kpath_library where
  "empty_library = \<lparr>kl_params = kpath_params_default, kl_od_index = [], kl_sets = [], kl_nodes = []\<rparr>"

theorem kpath_insert_find_witness:
  "kpath_find (kpath_insert_set \<lparr>od_start_key = (1, 2), od_goal_key = (-1, 4), od_set_index = 0\<rparr> [] empty_library)
     (1, 2) (-1, 4) = Some []"
  using kpath_insert_find [of empty_library "\<lparr>od_start_key = (1, 2), od_goal_key = (-1, 4), od_set_index = 0\<rparr>"
      "[]" "(1, 2)" "(-1, 4)"]
  by (simp add: kpath_ok_def empty_library_def)

text \<open>A library survives encoding, and no library that decodes refers to a path set it does not
  have, whatever the bytes.\<close>

theorem kpath_library_survives:
  "(kpath_wf lib \<longrightarrow> kpath_decode (kpath_encode lib) = Inr lib)
   \<and> (kpath_decode bs = Inr lib' \<longrightarrow>
        (\<forall>e \<in> set (kl_od_index lib'). unat (od_set_index e) < length (kl_sets lib')))"
  using kpath_roundtrip [of lib] kpath_decode_refs [of bs lib']
  by (auto simp: kpath_refs_ok_def list_all_iff)

theorem kpath_library_survives_witness: "kpath_decode (kpath_encode empty_library) = Inr empty_library"
  using kpath_library_survives [of empty_library]
  by (simp add: kpath_wf_def kpath_refs_ok_def kpath_bodies empty_library_def)

text \<open>Points pushed to the shared node table are the points of a path over the range the push
  returned, and stay so whatever is pushed later.\<close>

theorem kpath_pushed_points:
  assumes "kpath_push_nodes points lib = (rng, lib')" and "pa_node_range p = rng"
    and "length (kl_nodes lib) < 2 ^ 32" and "length points < 2 ^ 32"
  shows "kpath_points p (kl_nodes lib' @ later) = points"
  using assms by (rule kpath_push_nodes_points)

theorem kpath_pushed_points_witness:
  "kpath_points \<lparr>pa_total_cost = 0, pa_length_m = 0, pa_path_size = 0, pa_node_range = (0, 1)\<rparr>
     (kl_nodes (empty_library\<lparr>kl_nodes := [(1, 2, 3)]\<rparr>) @ [(4, 5, 6)]) = [(1, 2, 3)]"
  by (rule kpath_pushed_points [where lib = empty_library and rng = "(0, 1)"])
    (simp_all add: kpath_push_nodes_def empty_library_def)

end
