(* ===== verification/Omf_Patch.thy ===== *)
theory Omf_Patch
  imports Omf_Tlv Omf_Header Omf_Directory
begin

text \<open>
  The patch file (\<open>crates/map-format/src/patch.rs\<close>): replacement chunks and metadata records on top
  of a base file. The parser refuses a record count whose fixed bytes cannot fit in what is left,
  taking 22 bytes for each record; the encoder writes 20. The lemmas give the outcome of parsing
  an encoded patch in full: the patch itself when its payloads make up for the difference, the
  error of a truncated file when they do not.
\<close>

section \<open>Patches\<close>

definition PATCH_MAGIC :: bytes where "PATCH_MAGIC = [0x4F, 0x4D, 0x46, 0x50]"

record chunk_replacement =
  rp_layer_id :: layer_id
  rp_level :: u8
  rp_chunk_id :: u32
  rp_codec :: u8
  rp_payload :: bytes
  rp_raw_len :: u32

definition chunk_replacement_new ::
  "layer_id \<Rightarrow> u8 \<Rightarrow> u32 \<Rightarrow> u8 \<Rightarrow> bytes \<Rightarrow> u32 \<Rightarrow> chunk_replacement" where
  "chunk_replacement_new l v c codec payload raw_len =
     \<lparr>rp_layer_id = l, rp_level = v, rp_chunk_id = c, rp_codec = codec, rp_payload = payload,
      rp_raw_len = raw_len\<rparr>"

definition replacement_crc32 :: "(bytes \<Rightarrow> u32) \<Rightarrow> chunk_replacement \<Rightarrow> u32" where
  "replacement_crc32 crc32 r = crc32 (rp_payload r)"

record patch =
  pt_base_hash :: u64
  pt_replacements :: "chunk_replacement list"
  pt_meta_patch :: "tlv_record list"

definition block_from_records :: "tlv_record list \<Rightarrow> tlv_block" where
  "block_from_records rs = fold tlv_push rs []"

definition patch_with_meta :: "('a \<Rightarrow> bytes) \<Rightarrow> u32 \<Rightarrow> 'a \<Rightarrow> patch \<Rightarrow> patch" where
  "patch_with_meta enc tag v p =
     p\<lparr>pt_meta_patch := pt_meta_patch p @ [tlv_record_encode enc tag v]\<rparr>"

definition write_replacement :: "chunk_replacement \<Rightarrow> writer \<Rightarrow> writer" where
  "write_replacement r =
     write_seq [write_u16 (rp_layer_id r), write_u8 (rp_level r), write_u8 0,
                write_u32 (rp_chunk_id r), write_u8 (rp_codec r), write_u8 0, write_u16 0,
                write_u32 (rp_raw_len r), write_u32 (word_of_nat (length (rp_payload r))),
                write_bytes (rp_payload r)]"

definition patch_encode :: "patch \<Rightarrow> bytes" where
  "patch_encode p =
     (let meta_bytes = tlv_to_bytes (block_from_records (pt_meta_patch p))
      in write_seq
           [write_bytes PATCH_MAGIC, write_u16 VERSION_MAJOR, write_u16 VERSION_MINOR,
            write_u64 (pt_base_hash p),
            write_u32 (word_of_nat (min (length (pt_replacements p)) (2 ^ 32 - 1))),
            write_u32 (word_of_nat (length meta_bytes)),
            write_each write_replacement (pt_replacements p),
            write_bytes meta_bytes] [])"

definition REPLACEMENT_HEADER :: usize where "REPLACEMENT_HEADER = 22"

definition read_patch_head :: "(u64 \<times> nat \<times> nat) rd" where
  "read_patch_head =
     rd_bind (read_bytes 4) (\<lambda>magic.
     if magic \<noteq> PATCH_MAGIC then rd_lift (Inl (BadMagic PATCH_MAGIC magic))
     else
       rd_bind read_u16 (\<lambda>_.
       rd_bind read_u16 (\<lambda>_.
       rd_bind read_u64 (\<lambda>base_hash.
       rd_bind read_u32 (\<lambda>n.
       rd_bind read_u32 (\<lambda>meta_len.
         rd_return (base_hash, unat n, unat meta_len)))))))"

definition patch_check_count :: "nat \<Rightarrow> nat \<Rightarrow> unit rd" where
  "patch_check_count n meta_len r =
     (case usize_checked_mul n REPLACEMENT_HEADER of
        None \<Rightarrow> Inl (invalid ''patch replacement count overflows'')
      | Some records_len \<Rightarrow>
          let available = remaining r - meta_len
          in if records_len > available
             then Inl (Truncated (rd_pos r) records_len available)
             else Inr ((), r))"

definition read_replacement :: "chunk_replacement rd" where
  "read_replacement =
     rd_bind read_u16 (\<lambda>l.
     rd_bind read_u8 (\<lambda>v.
     rd_bind read_u8 (\<lambda>_.
     rd_bind read_u32 (\<lambda>c.
     rd_bind read_u8 (\<lambda>codec.
     rd_bind read_u8 (\<lambda>_.
     rd_bind read_u16 (\<lambda>_.
     rd_bind read_u32 (\<lambda>raw_len.
     rd_bind read_u32 (\<lambda>len.
     rd_bind (read_bytes (unat len)) (\<lambda>payload.
       rd_return \<lparr>rp_layer_id = l, rp_level = v, rp_chunk_id = c, rp_codec = codec,
                  rp_payload = payload, rp_raw_len = raw_len\<rparr>))))))))))"

definition read_patch_body :: "u64 \<times> nat \<times> nat \<Rightarrow> patch rd" where
  "read_patch_body = (\<lambda>(base_hash, n, meta_len).
     rd_bind (patch_check_count n meta_len) (\<lambda>_.
     rd_bind (rd_times n read_replacement) (\<lambda>replacements.
     rd_bind (read_bytes meta_len) (\<lambda>meta_bytes.
     rd_bind (rd_lift (tlv_from_bytes meta_bytes)) (\<lambda>meta_patch.
       rd_return \<lparr>pt_base_hash = base_hash, pt_replacements = replacements,
                  pt_meta_patch = meta_patch\<rparr>)))))"

definition patch_decode :: "bytes \<Rightarrow> patch result" where
  "patch_decode bs = rd_run (rd_bind read_patch_head read_patch_body) bs"

section \<open>What parsing an encoded patch returns\<close>

definition replacement_bytes :: "chunk_replacement \<Rightarrow> bytes" where
  "replacement_bytes r =
     le_bytes 2 (rp_layer_id r) @ [rp_level r, 0] @ le_bytes 4 (rp_chunk_id r) @ [rp_codec r, 0]
       @ le_bytes 2 (0 :: u16) @ le_bytes 4 (rp_raw_len r)
       @ le_bytes 4 (word_of_nat (length (rp_payload r)) :: u32) @ rp_payload r"

definition patch_wf :: "patch \<Rightarrow> bool" where
  "patch_wf p \<longleftrightarrow> list_all tlv_record_ok (pt_meta_patch p)
     \<and> list_all (\<lambda>r. length (rp_payload r) < 2 ^ 32) (pt_replacements p)
     \<and> length (pt_replacements p) < 2 ^ 32
     \<and> length (tlv_to_bytes (pt_meta_patch p)) < 2 ^ 32
     \<and> fits (patch_encode p)"

definition payload_bytes :: "patch \<Rightarrow> nat" where
  "payload_bytes p = sum_list (map (\<lambda>r. length (rp_payload r)) (pt_replacements p))"

lemma block_from_records_id: "block_from_records rs = rs"
proof -
  have "fold tlv_push rs b = b @ rs" for b
    by (induction rs arbitrary: b) (simp_all add: tlv_push_def)
  then show ?thesis by (simp add: block_from_records_def)
qed

lemma write_replacement_append: "write_replacement r w = w @ replacement_bytes r"
  by (simp add: write_replacement_def replacement_bytes_def write_bytes_def write_u8_def write_u16_def write_u32_def)

lemma patch_encode_bytes:
  assumes "length (pt_replacements p) < 2 ^ 32"
  shows "patch_encode p =
    (PATCH_MAGIC @ le_bytes 2 VERSION_MAJOR @ le_bytes 2 VERSION_MINOR @ le_bytes 8 (pt_base_hash p)
      @ le_bytes 4 (word_of_nat (length (pt_replacements p)) :: u32)
      @ le_bytes 4 (word_of_nat (length (tlv_to_bytes (pt_meta_patch p))) :: u32))
    @ concat (map replacement_bytes (pt_replacements p)) @ tlv_to_bytes (pt_meta_patch p)"
proof -
  have min: "min (length (pt_replacements p)) (2 ^ 32 - 1) = length (pt_replacements p)"
    using assms by simp
  have each: "write_each write_replacement rs w = w @ concat (map replacement_bytes rs)" for rs w
    by (induction rs arbitrary: w) (simp_all add: write_each_def write_replacement_append)
  show ?thesis
    unfolding patch_encode_def Let_def block_from_records_id min
    by (simp add: each write_bytes_def write_u16_def write_u32_def write_u64_def)
qed

lemma reads_replacement:
  "length (rp_payload r) < 2 ^ 32 \<Longrightarrow> reads read_replacement (replacement_bytes r) r"
  unfolding read_replacement_def replacement_bytes_def
  by simp (rule reads_combs reads_intros | simp add: unat_of_nat_u32)+

lemma length_replacement_bytes: "length (replacement_bytes r) = 20 + length (rp_payload r)"
  by (simp add: replacement_bytes_def)

lemma length_replacements:
  "length (concat (map replacement_bytes (pt_replacements p))) =
     20 * length (pt_replacements p) + payload_bytes p"
proof -
  have "length (concat (map replacement_bytes rs)) =
      20 * length rs + sum_list (map (\<lambda>r. length (rp_payload r)) rs)" for rs
    by (induction rs) (simp_all add: length_replacement_bytes)
  then show ?thesis by (simp add: payload_bytes_def)
qed

lemma rd_run_bind:
  assumes "reads p b1 x" and "fits (b1 @ b2)"
  shows "rd_run (rd_bind p f) (b1 @ b2) = rbind (f x (rd_at b1 b2)) (\<lambda>(y, r). Inr y)"
  using readsD [OF assms(1), of "[]" b2] assms(2)
  by (simp add: rd_run_def rd_bind_def reader_new_rd_at)

lemma reads_patch_head:
  assumes "length (pt_replacements p) < 2 ^ 32" and "length (tlv_to_bytes (pt_meta_patch p)) < 2 ^ 32"
  shows "reads read_patch_head
    (PATCH_MAGIC @ le_bytes 2 VERSION_MAJOR @ le_bytes 2 VERSION_MINOR @ le_bytes 8 (pt_base_hash p)
      @ le_bytes 4 (word_of_nat (length (pt_replacements p)) :: u32)
      @ le_bytes 4 (word_of_nat (length (tlv_to_bytes (pt_meta_patch p))) :: u32))
    (pt_base_hash p, length (pt_replacements p), length (tlv_to_bytes (pt_meta_patch p)))"
proof -
  have u: "unat (word_of_nat (length (pt_replacements p)) :: u32) = length (pt_replacements p)"
    "unat (word_of_nat (length (tlv_to_bytes (pt_meta_patch p))) :: u32) = length (tlv_to_bytes (pt_meta_patch p))"
    using assms by (simp_all add: unat_of_nat_u32)
  show ?thesis
    unfolding read_patch_head_def
    by (rule reads_bind, rule reads_bytes, simp add: PATCH_MAGIC_def, simp)
      (rule reads_combs reads_intros | simp add: u)+
qed

lemma patch_decode_encode:
  assumes "patch_wf p"
  shows "patch_decode (patch_encode p) =
    (if 2 * length (pt_replacements p) \<le> payload_bytes p then Inr p
     else Inl (Truncated 24 (22 * length (pt_replacements p))
                 (20 * length (pt_replacements p) + payload_bytes p)))"
proof -
  define rs meta where "rs = pt_replacements p" and "meta = tlv_to_bytes (pt_meta_patch p)"
  define head where "head = PATCH_MAGIC @ le_bytes 2 VERSION_MAJOR @ le_bytes 2 VERSION_MINOR
    @ le_bytes 8 (pt_base_hash p) @ le_bytes 4 (word_of_nat (length rs) :: u32)
    @ le_bytes 4 (word_of_nat (length meta) :: u32)"
  define tail where "tail = concat (map replacement_bytes rs) @ meta"
  have wf: "list_all tlv_record_ok (pt_meta_patch p)" "list_all (\<lambda>r. length (rp_payload r) < 2 ^ 32) rs"
    "length rs < 2 ^ 32" "length meta < 2 ^ 32" "fits (patch_encode p)"
    using assms by (simp_all add: patch_wf_def rs_def meta_def)
  have enc: "patch_encode p = head @ tail"
    using patch_encode_bytes wf(3) unfolding head_def tail_def rs_def meta_def by blast
  have head: "reads read_patch_head head (pt_base_hash p, length rs, length meta)"
    unfolding head_def rs_def meta_def by (rule reads_patch_head) (use wf in \<open>simp_all add: rs_def meta_def\<close>)
  have head_len: "length head = 24" by (simp add: head_def PATCH_MAGIC_def)
  have tail_len: "length tail = 20 * length rs + payload_bytes p + length meta"
    using length_replacements [of p] by (simp add: tail_def rs_def)
  have check: "patch_check_count (length rs) (length meta) (rd_at head tail) =
      (if 2 * length rs \<le> payload_bytes p then Inr ((), rd_at head tail)
       else Inl (Truncated 24 (22 * length rs) (20 * length rs + payload_bytes p)))"
    using wf(3) by (auto simp: patch_check_count_def usize_checked_mul_def REPLACEMENT_HEADER_def
        tail_len head_len mult.commute)
  have run: "patch_decode (patch_encode p) =
      rbind (read_patch_body (pt_base_hash p, length rs, length meta) (rd_at head tail)) (\<lambda>(y, r). Inr y)"
    unfolding patch_decode_def enc by (rule rd_run_bind [OF head]) (use wf(5) enc in simp)
  show ?thesis
  proof (cases "2 * length rs \<le> payload_bytes p")
    case False
    then show ?thesis
      using check unfolding run by (simp add: read_patch_body_def rd_bind_def rs_def)
  next
    case True
    have "reads (rd_bind (rd_times (length rs) read_replacement) (\<lambda>replacements.
        rd_bind (read_bytes (length meta)) (\<lambda>meta_bytes.
        rd_bind (rd_lift (tlv_from_bytes meta_bytes)) (\<lambda>meta_patch.
          rd_return \<lparr>pt_base_hash = pt_base_hash p, pt_replacements = replacements,
            pt_meta_patch = meta_patch\<rparr>)))) tail p"
      unfolding tail_def
      by (rule reads_bind, rule reads_times, simp, rule reads_replacement, use wf in \<open>simp add: list_all_iff\<close>,
          rule reads_bind_last, rule reads_bytes, simp, rule reads_bind_lift, unfold meta_def,
          rule tlv_from_to_bytes, use wf in simp, use wf in \<open>simp add: fits_def meta_def\<close>)
        (simp add: reads_return_eq rs_def)
    from readsD [OF this, of head "[]"] show ?thesis
      using True check wf(5) enc unfolding run
      by (simp add: read_patch_body_def rd_bind_def rs_def)
  qed
qed

text \<open>A patch is read back only with its magic, and a reader that accepts it got every replacement.\<close>

lemma patch_decode_magic: "patch_decode bs = Inr p \<Longrightarrow> take 4 bs = PATCH_MAGIC"
  by (auto simp: patch_decode_def rd_run_def rd_bind_def read_patch_head_def rbind_Inr_iff
      read_bytes_def rd_lift_def reader_new_rd_at usize_checked_add_def split: if_splits)

section \<open>Properties\<close>

text \<open>C21: what parsing an encoded patch returns, in full. The parser takes 22 fixed bytes for each
  replacement where the encoder writes 20, so a patch is read back exactly when its payloads hold at
  least two bytes per replacement on average; otherwise the parser reports the file as truncated.\<close>

theorem patch_parse_of_encode:
  assumes "patch_wf p"
  shows "patch_decode (patch_encode p) =
    (if 2 * length (pt_replacements p) \<le> payload_bytes p then Inr p
     else Inl (Truncated 24 (22 * length (pt_replacements p))
                 (20 * length (pt_replacements p) + payload_bytes p)))"
  using assms by (rule patch_decode_encode)

theorem patch_parse_of_encode_witness:
  "patch_decode (patch_encode \<lparr>pt_base_hash = 1, pt_replacements =
     [\<lparr>rp_layer_id = 3, rp_level = 0, rp_chunk_id = 0, rp_codec = 0, rp_payload = [5], rp_raw_len = 1\<rparr>],
     pt_meta_patch = []\<rparr>) = Inl (Truncated 24 22 21)"
proof -
  let ?p = "\<lparr>pt_base_hash = 1, pt_replacements =
     [\<lparr>rp_layer_id = 3, rp_level = 0, rp_chunk_id = 0, rp_codec = 0, rp_payload = [5], rp_raw_len = 1\<rparr>],
     pt_meta_patch = []\<rparr>"
  have "patch_wf ?p"
    by (simp add: patch_wf_def patch_encode_bytes fits_def tlv_to_bytes_concat length_replacement_bytes PATCH_MAGIC_def)
  from patch_parse_of_encode [OF this] show ?thesis by (simp add: payload_bytes_def)
qed

end
