(* ===== verification/Omf_Grid.thy ===== *)
theory Omf_Grid
  imports Omf_Geometry Omf_Entropy
begin

text \<open>
  The chunk geometry of a map (\<open>ChunkGrid\<close> of \<open>crates/map-format/src/raster.rs\<close>): cell and chunk
  counts per level, the chunk of a position, the chunks of a box, and the check a header's geometry has
  to pass. The lemmas bound what the queries return: ids inside the grid, without duplicates, never more
  than the limit, and safe to cast to 16 bits per axis.
\<close>

section \<open>The grid\<close>

record chunk_grid =
  cg_bounds :: aabb
  cg_base_res_m :: f64
  cg_chunk_size :: u32
  cg_lod_count :: u8

definition grid_new :: "aabb \<Rightarrow> f64 \<Rightarrow> u32 \<Rightarrow> u8 \<Rightarrow> chunk_grid" where
  "grid_new bounds base_res_m chunk_size lod_count =
     \<lparr>cg_bounds = bounds, cg_base_res_m = base_res_m, cg_chunk_size = chunk_size, cg_lod_count = lod_count\<rparr>"

definition F64_MIN_POSITIVE :: f64 where "F64_MIN_POSITIVE = 0x0010000000000000"

definition grid_cell_size_m :: "chunk_grid \<Rightarrow> u8 \<Rightarrow> f64" where
  "grid_cell_size_m g level = f64_mul (cg_base_res_m g) (f64_two_pow (unat level))"

definition grid_cell_dims :: "chunk_grid \<Rightarrow> u8 \<Rightarrow> u32 \<times> u32" where
  "grid_cell_dims g level =
     (let cell = f64_max (grid_cell_size_m g level) F64_MIN_POSITIVE
      in (f64_to_u32 (f64_max (f64_ceil (f64_div (aabb_width (cg_bounds g)) cell)) f64_one),
          f64_to_u32 (f64_max (f64_ceil (f64_div (aabb_height (cg_bounds g)) cell)) f64_one)))"

definition grid_chunk_dims :: "chunk_grid \<Rightarrow> u8 \<Rightarrow> u32 \<times> u32" where
  "grid_chunk_dims g level =
     (let (cx, cy) = grid_cell_dims g level;
          size = max (cg_chunk_size g) 1
      in (word_of_nat (div_ceil (unat cx) (unat size)), word_of_nat (div_ceil (unat cy) (unat size))))"

definition axis_addressable :: "u32 \<Rightarrow> bool" where
  "axis_addressable n \<longleftrightarrow> 1 \<le> n \<and> n \<le> 65536"

definition grid_chunk_index_at :: "chunk_grid \<Rightarrow> f64 \<Rightarrow> f64 \<Rightarrow> u8 \<Rightarrow> (u16 \<times> u16) option" where
  "grid_chunk_index_at g x y level =
     (if \<not> aabb_contains (cg_bounds g) x y then None
      else
        let cell = f64_max (grid_cell_size_m g level) F64_MIN_POSITIVE;
            cx = f64_to_u32 (f64_max (f64_floor (f64_div (f64_sub x (min_x (cg_bounds g))) cell)) 0);
            cy = f64_to_u32 (f64_max (f64_floor (f64_div (f64_sub y (min_y (cg_bounds g))) cell)) 0);
            size = max (cg_chunk_size g) 1;
            ix = cx div size; iy = cy div size;
            (dim_x, dim_y) = grid_chunk_dims g level
        in if ix \<ge> dim_x \<or> iy \<ge> dim_y \<or> \<not> axis_addressable dim_x \<or> \<not> axis_addressable dim_y
           then None else Some (ucast ix, ucast iy))"

definition grid_chunk_id_at :: "chunk_grid \<Rightarrow> f64 \<Rightarrow> f64 \<Rightarrow> u8 \<Rightarrow> u32 option" where
  "grid_chunk_id_at g x y level =
     map_option (\<lambda>(ix, iy). morton_encode_chunk ix iy) (grid_chunk_index_at g x y level)"

definition grid_chunk_bounds :: "chunk_grid \<Rightarrow> u8 \<Rightarrow> u32 \<Rightarrow> aabb option" where
  "grid_chunk_bounds g level chunk_id =
     (let (ix, iy) = morton_decode_chunk chunk_id;
          (dim_x, dim_y) = grid_chunk_dims g level
      in if ucast ix \<ge> dim_x \<or> ucast iy \<ge> dim_y then None
         else
           let chunk_m = f64_mul (grid_cell_size_m g level) (f64_of_nat (unat (cg_chunk_size g)));
               x0 = f64_add (min_x (cg_bounds g)) (f64_mul (f64_of_nat (unat ix)) chunk_m);
               y0 = f64_add (min_y (cg_bounds g)) (f64_mul (f64_of_nat (unat iy)) chunk_m)
           in Some (aabb_new x0 y0 (f64_add x0 chunk_m) (f64_add y0 chunk_m)))"

definition MAX_BBOX_CHUNKS :: u64 where "MAX_BBOX_CHUNKS = push_bit 20 1"

text \<open>One axis of a box query: the first and last chunk of the clipped range.\<close>

definition first_chunk :: "f64 \<Rightarrow> f64 \<Rightarrow> f64 \<Rightarrow> u32 \<Rightarrow> u32" where
  "first_chunk lo origin chunk_m chunks =
     f64_to_u32 (f64_min (f64_max (f64_floor (f64_div (f64_sub lo origin) chunk_m)) 0)
                   (f64_of_nat (unat (chunks - 1))))"

definition last_chunk :: "f64 \<Rightarrow> f64 \<Rightarrow> f64 \<Rightarrow> u32 \<Rightarrow> u32" where
  "last_chunk hi origin chunk_m chunks =
     min (f64_to_u32 (f64_floor (f64_div (f64_sub hi origin) chunk_m))) (chunks - 1)"

definition enumerate_chunks :: "u32 \<Rightarrow> u32 \<Rightarrow> u32 \<Rightarrow> u32 \<Rightarrow> u32 list" where
  "enumerate_chunks ix0 ix1 iy0 iy1 =
     concat (map (\<lambda>iy. map (\<lambda>ix. morton_encode_chunk (word_of_nat ix) (word_of_nat iy))
       [unat ix0..<unat ix1 + 1]) [unat iy0..<unat iy1 + 1])"

definition grid_chunks_in_bbox :: "chunk_grid \<Rightarrow> aabb \<Rightarrow> u8 \<Rightarrow> u32 list" where
  "grid_chunks_in_bbox g bbox level =
     (let chunk_m = f64_mul (grid_cell_size_m g level) (f64_of_nat (unat (cg_chunk_size g)))
      in if f64_le chunk_m 0 \<or> \<not> f64_is_finite chunk_m then []
         else
           let (dim_x, dim_y) = grid_chunk_dims g level
           in if \<not> axis_addressable dim_x \<or> \<not> axis_addressable dim_y then []
              else case aabb_intersection (cg_bounds g) bbox of
                None \<Rightarrow> []
              | Some clipped \<Rightarrow>
                  let ix0 = first_chunk (min_x clipped) (min_x (cg_bounds g)) chunk_m dim_x;
                      iy0 = first_chunk (min_y clipped) (min_y (cg_bounds g)) chunk_m dim_y;
                      ix1 = last_chunk (max_x clipped) (min_x (cg_bounds g)) chunk_m dim_x;
                      iy1 = last_chunk (max_y clipped) (min_y (cg_bounds g)) chunk_m dim_y
                  in if ix0 > ix1 \<or> iy0 > iy1 then []
                     else if ucast (ix1 - ix0 + 1) * ucast (iy1 - iy0 + 1) > MAX_BBOX_CHUNKS then []
                     else enumerate_chunks ix0 ix1 iy0 iy1)"

definition grid_validate :: "chunk_grid \<Rightarrow> unit result" where
  "grid_validate g =
     (if cg_chunk_size g = 0 then Inl (invalid ''chunk_size must be non-zero'')
      else if \<not> f64_is_finite (cg_base_res_m g) \<or> f64_le (cg_base_res_m g) 0
      then Inl (invalid ''base resolution must be positive'')
      else if \<not> f64_is_finite (aabb_width (cg_bounds g)) \<or> f64_le (aabb_width (cg_bounds g)) 0
            \<or> \<not> f64_is_finite (aabb_height (cg_bounds g)) \<or> f64_le (aabb_height (cg_bounds g)) 0
      then Inl (invalid ''map bounds must have finite positive extent'')
      else
        let (dim_x, dim_y) = grid_chunk_dims g 0
        in if \<not> axis_addressable dim_x \<or> \<not> axis_addressable dim_y
           then Inl (invalid (''map grid spans '' @ show_nat (unat dim_x) @ '' x '' @ show_nat (unat dim_y)
                      @ '' chunk(s) per axis, more than the '' @ show_nat 65536
                      @ '' a 16-bit chunk index addresses''))
           else Inr ())"

definition grid_chunk_origin_cell :: "chunk_grid \<Rightarrow> u32 \<Rightarrow> u32 \<times> u32" where
  "grid_chunk_origin_cell g chunk_id =
     (let (ix, iy) = morton_decode_chunk chunk_id
      in (ucast ix * cg_chunk_size g, ucast iy * cg_chunk_size g))"

definition grid_chunk_shape :: "chunk_grid \<Rightarrow> layer_desc \<Rightarrow> u8 \<Rightarrow> chunk_shape" where
  "grid_chunk_shape g d level =
     (let size = max (cg_chunk_size g) 1
      in \<lparr>cs_width = size, cs_height = size, cs_channels = max (ld_channels d) 1, cs_dtype = ld_dtype d\<rparr>)"

definition grid_cell_center :: "chunk_grid \<Rightarrow> u32 \<Rightarrow> u32 \<Rightarrow> u8 \<Rightarrow> f64 \<times> f64" where
  "grid_cell_center g x y level =
     (let cell = grid_cell_size_m g level
      in (f64_add (min_x (cg_bounds g)) (f64_mul (f64_add (f64_of_nat (unat x)) f64_half) cell),
          f64_add (min_y (cg_bounds g)) (f64_mul (f64_add (f64_of_nat (unat y)) f64_half) cell)))"

section \<open>What a box query returns\<close>

lemma unat_ucast_widen:
  "unat (ucast (x :: u16) :: u32) = unat x" "unat (ucast (y :: u32) :: u64) = unat y"
proof -
  have "unat x < 2 ^ 32" by (rule less_le_trans [OF unat_lt_65536]) simp
  then show "unat (ucast x :: u32) = unat x" by (simp add: unsigned_ucast_eq take_bit_nat_eq_self)
  have "unat y < 2 ^ 32" using unsigned_less [of y, where 'a = nat] by simp
  then have "unat y < 2 ^ 64" by (rule less_le_trans) simp
  then show "unat (ucast y :: u64) = unat y" by (simp add: unsigned_ucast_eq take_bit_nat_eq_self)
qed

lemma axis_addressable_unat:
  "axis_addressable n \<longleftrightarrow> 1 \<le> unat n \<and> unat n \<le> 65536"
  by (simp add: axis_addressable_def word_le_nat_alt)

lemma last_chunk_less:
  assumes "axis_addressable n"
  shows "unat (last_chunk hi origin chunk_m n) < unat n"
proof -
  have n: "1 \<le> unat n" using assms by (simp add: axis_addressable_unat)
  then have "n \<noteq> 0" by auto
  then have "unat (n - 1) = unat n - 1" by (simp add: unat_minus_one)
  then have "unat (last_chunk hi origin chunk_m n) \<le> unat n - 1"
    unfolding last_chunk_def by (metis min.cobounded2 word_le_nat_alt)
  then show ?thesis using n by linarith
qed

text \<open>The enumeration as the product of the two ranges.\<close>

lemma enumerate_chunks_product:
  "enumerate_chunks ix0 ix1 iy0 iy1 =
     map (\<lambda>(iy, ix). morton_encode_chunk (word_of_nat ix) (word_of_nat iy))
       (List.product [unat iy0..<unat iy1 + 1] [unat ix0..<unat ix1 + 1])"
  by (simp add: enumerate_chunks_def product_concat_map map_concat comp_def)

lemma length_enumerate_chunks:
  "length (enumerate_chunks ix0 ix1 iy0 iy1) = (unat ix1 + 1 - unat ix0) * (unat iy1 + 1 - unat iy0)"
  unfolding enumerate_chunks_product by (simp only: length_map length_product length_upt mult.commute)

lemma enumerate_chunks_ids:
  assumes "unat ix1 < 65536" and "unat iy1 < 65536"
  shows "distinct (enumerate_chunks ix0 ix1 iy0 iy1)"
    and "c \<in> set (enumerate_chunks ix0 ix1 iy0 iy1) \<longleftrightarrow>
      (case morton_decode_chunk c of (x, y) \<Rightarrow>
         unat ix0 \<le> unat x \<and> unat x \<le> unat ix1 \<and> unat iy0 \<le> unat y \<and> unat y \<le> unat iy1)"
proof -
  have cast: "unat (word_of_nat i :: u16) = i" if "i \<le> unat ix1 \<or> i \<le> unat iy1" for i
    using that assms by (intro unat_of_nat_u16) auto
  have "inj_on (\<lambda>(iy, ix). morton_encode_chunk (word_of_nat ix) (word_of_nat iy))
      (set (List.product [unat iy0..<unat iy1 + 1] [unat ix0..<unat ix1 + 1]))"
  proof (rule inj_onI)
    fix p q
    assume p: "p \<in> set (List.product [unat iy0..<unat iy1 + 1] [unat ix0..<unat ix1 + 1])"
      and q: "q \<in> set (List.product [unat iy0..<unat iy1 + 1] [unat ix0..<unat ix1 + 1])"
      and e: "(\<lambda>(iy, ix). morton_encode_chunk (word_of_nat ix) (word_of_nat iy)) p =
        (\<lambda>(iy, ix). morton_encode_chunk (word_of_nat ix) (word_of_nat iy)) q"
    obtain a b where ab: "p = (a, b)" by (cases p)
    obtain c d where cd: "q = (c, d)" by (cases q)
    have r: "a \<le> unat iy1" "b \<le> unat ix1" "c \<le> unat iy1" "d \<le> unat ix1"
      using p q by (auto simp: ab cd)
    have "(word_of_nat b :: u16, word_of_nat a :: u16) = (word_of_nat d, word_of_nat c)"
      using e unfolding ab cd by (metis (no_types, lifting) case_prod_conv morton_decode_encode_chunk)
    then have "unat (word_of_nat b :: u16) = unat (word_of_nat d :: u16)"
      "unat (word_of_nat a :: u16) = unat (word_of_nat c :: u16)" by simp_all
    with r show "p = q" by (simp add: cast ab cd)
  qed
  then show "distinct (enumerate_chunks ix0 ix1 iy0 iy1)"
    by (simp add: enumerate_chunks_product distinct_map distinct_product del: upt_Suc)
  obtain x y where c: "morton_decode_chunk c = (x, y)" by (cases "morton_decode_chunk c")
  then have e: "morton_encode_chunk x y = c" using morton_encode_decode_chunk [of c] by simp
  show "c \<in> set (enumerate_chunks ix0 ix1 iy0 iy1) \<longleftrightarrow>
      (case morton_decode_chunk c of (x, y) \<Rightarrow>
         unat ix0 \<le> unat x \<and> unat x \<le> unat ix1 \<and> unat iy0 \<le> unat y \<and> unat y \<le> unat iy1)"
  proof
    assume "c \<in> set (enumerate_chunks ix0 ix1 iy0 iy1)"
    then obtain i j where ij: "c = morton_encode_chunk (word_of_nat i) (word_of_nat j)"
        "unat ix0 \<le> i" "i \<le> unat ix1" "unat iy0 \<le> j" "j \<le> unat iy1"
      by (auto simp: enumerate_chunks_product simp del: upt_Suc)
    then show "case morton_decode_chunk c of (x, y) \<Rightarrow>
         unat ix0 \<le> unat x \<and> unat x \<le> unat ix1 \<and> unat iy0 \<le> unat y \<and> unat y \<le> unat iy1"
      by (simp add: morton_decode_encode_chunk cast)
  next
    assume "case morton_decode_chunk c of (x, y) \<Rightarrow>
         unat ix0 \<le> unat x \<and> unat x \<le> unat ix1 \<and> unat iy0 \<le> unat y \<and> unat y \<le> unat iy1"
    then have "(unat y, unat x) \<in> set (List.product [unat iy0..<unat iy1 + 1] [unat ix0..<unat ix1 + 1])"
      by (auto simp: c)
    moreover have "c = (\<lambda>(iy, ix). morton_encode_chunk (word_of_nat ix) (word_of_nat iy)) (unat y, unat x)"
      using e by simp
    ultimately show "c \<in> set (enumerate_chunks ix0 ix1 iy0 iy1)"
      unfolding enumerate_chunks_product set_map by (rule rev_image_eqI)
  qed
qed

text \<open>The shape of an answer: a rectangle of chunks inside the grid, of at most the limit.\<close>

lemma grid_chunks_in_bbox_shape:
  assumes "grid_chunks_in_bbox g b level = cs" and "cs \<noteq> []"
  obtains ix0 ix1 iy0 iy1 clipped where
    "cs = enumerate_chunks ix0 ix1 iy0 iy1"
    "axis_addressable (fst (grid_chunk_dims g level))" "axis_addressable (snd (grid_chunk_dims g level))"
    "ix0 \<le> ix1" "iy0 \<le> iy1"
    "unat ix1 < unat (fst (grid_chunk_dims g level))" "unat iy1 < unat (snd (grid_chunk_dims g level))"
    "ucast (ix1 - ix0 + 1) * ucast (iy1 - iy0 + 1) \<le> MAX_BBOX_CHUNKS"
    "f64_positive (f64_mul (grid_cell_size_m g level) (f64_of_nat (unat (cg_chunk_size g))))"
    "aabb_intersection (cg_bounds g) b = Some clipped"
    "ix0 = first_chunk (min_x clipped) (min_x (cg_bounds g))
       (f64_mul (grid_cell_size_m g level) (f64_of_nat (unat (cg_chunk_size g)))) (fst (grid_chunk_dims g level))"
    "iy0 = first_chunk (min_y clipped) (min_y (cg_bounds g))
       (f64_mul (grid_cell_size_m g level) (f64_of_nat (unat (cg_chunk_size g)))) (snd (grid_chunk_dims g level))"
    "ix1 = last_chunk (max_x clipped) (min_x (cg_bounds g))
       (f64_mul (grid_cell_size_m g level) (f64_of_nat (unat (cg_chunk_size g)))) (fst (grid_chunk_dims g level))"
    "iy1 = last_chunk (max_y clipped) (min_y (cg_bounds g))
       (f64_mul (grid_cell_size_m g level) (f64_of_nat (unat (cg_chunk_size g)))) (snd (grid_chunk_dims g level))"
proof -
  define chunk_m where "chunk_m = f64_mul (grid_cell_size_m g level) (f64_of_nat (unat (cg_chunk_size g)))"
  obtain nx ny where d: "grid_chunk_dims g level = (nx, ny)" by (cases "grid_chunk_dims g level")
  have pos: "f64_positive chunk_m" and ax: "axis_addressable nx" "axis_addressable ny"
    using assms by (auto simp: grid_chunks_in_bbox_def d chunk_m_def f64_positive_def Let_def split: if_splits)
  obtain clipped where cl: "aabb_intersection (cg_bounds g) b = Some clipped"
    using assms pos ax
    by (auto simp: grid_chunks_in_bbox_def d f64_positive_def chunk_m_def [symmetric] Let_def split: if_splits option.splits)
  define ix0 iy0 ix1 iy1 where "ix0 = first_chunk (min_x clipped) (min_x (cg_bounds g)) chunk_m nx"
    and "iy0 = first_chunk (min_y clipped) (min_y (cg_bounds g)) chunk_m ny"
    and "ix1 = last_chunk (max_x clipped) (min_x (cg_bounds g)) chunk_m nx"
    and "iy1 = last_chunk (max_y clipped) (min_y (cg_bounds g)) chunk_m ny"
  note defs = ix0_def iy0_def ix1_def iy1_def
  have "cs = enumerate_chunks ix0 ix1 iy0 iy1 \<and> ix0 \<le> ix1 \<and> iy0 \<le> iy1
      \<and> ucast (ix1 - ix0 + 1) * ucast (iy1 - iy0 + 1) \<le> MAX_BBOX_CHUNKS"
    using assms pos ax
    by (auto simp: grid_chunks_in_bbox_def d cl f64_positive_def chunk_m_def [symmetric] defs [symmetric] Let_def
        not_less split: if_splits)
  with that [of ix0 ix1 iy0 iy1 clipped] pos ax cl last_chunk_less [OF ax(1)] last_chunk_less [OF ax(2)]
  show thesis by (simp add: d chunk_m_def [symmetric] defs)
qed

text \<open>The product the limit is checked on does not wrap.\<close>

lemma chunk_count_exact:
  fixes ix0 ix1 iy0 iy1 :: u32
  assumes "ix0 \<le> ix1" and "iy0 \<le> iy1" and "unat ix1 < 65536" and "unat iy1 < 65536"
  shows "ucast (ix1 - ix0 + 1) * ucast (iy1 - iy0 + 1) \<le> MAX_BBOX_CHUNKS \<longleftrightarrow>
    (unat ix1 + 1 - unat ix0) * (unat iy1 + 1 - unat iy0) \<le> 2 ^ 20"
proof -
  have step: "unat (b - a + 1) = unat b + 1 - unat a" if "a \<le> b" "unat b < 65536" for a b :: u32
  proof -
    have "unat (b - a) = unat b - unat a" using that(1) by (rule unat_sub)
    then have "unat (b - a) + 1 < 2 ^ 32" using that(2) by simp
    then have "unat (b - a + 1) = unat (b - a) + 1" by (simp add: unat_word_ariths take_bit_nat_eq_self)
    with \<open>unat (b - a) = unat b - unat a\<close> show ?thesis using that(1) by (simp add: word_le_nat_alt)
  qed
  define m n where "m = unat ix1 + 1 - unat ix0" and "n = unat iy1 + 1 - unat iy0"
  have "m \<le> 65536" "n \<le> 65536" using assms by (simp_all add: m_def n_def)
  then have "m * n \<le> 65536 * 65536" by (rule mult_le_mono)
  moreover have "unat (ucast (ix1 - ix0 + 1) :: u64) = m" "unat (ucast (iy1 - iy0 + 1) :: u64) = n"
    using step [OF assms(1,3)] step [OF assms(2,4)] by (simp_all add: unat_ucast_widen m_def n_def)
  ultimately have "unat (ucast (ix1 - ix0 + 1) * ucast (iy1 - iy0 + 1) :: u64) = m * n"
    by (simp add: unat_word_ariths take_bit_nat_eq_self)
  then show ?thesis by (simp add: word_le_nat_alt MAX_BBOX_CHUNKS_def m_def n_def)
qed

text \<open>The first and last chunk grow with the position.\<close>

lemma f64_of_nat_not_nan: "\<not> f64_is_nan (f64_of_nat n)"
  by (simp add: f64_is_nan_fl f64_of_nat_def f64_fl_of_not_nan)

lemma f64_zero_not_nan: "\<not> f64_is_nan 0"
  by (simp add: f64_is_nan_def f64_frac_def)

lemma first_chunk_mono:
  assumes "f64_is_finite a" and "f64_is_finite b" and "f64_is_finite origin" and "f64_positive chunk_m" and "f64_le a b"
  shows "first_chunk a origin chunk_m n \<le> first_chunk b origin chunk_m n"
  unfolding first_chunk_def
  by (intro f64_to_u32_mono f64_min_mono(1) f64_max_mono(1) f64_floor_mono f64_div_mono f64_sub_mono
      f64_of_nat_not_nan f64_zero_not_nan assms)

lemma last_chunk_mono:
  assumes "f64_is_finite a" and "f64_is_finite b" and "f64_is_finite origin" and "f64_positive chunk_m" and "f64_le a b"
  shows "last_chunk a origin chunk_m n \<le> last_chunk b origin chunk_m n"
  unfolding last_chunk_def
  by (intro min.mono order_refl f64_to_u32_mono f64_floor_mono f64_div_mono f64_sub_mono assms)

lemma aabb_intersection_finite:
  "aabb_finite a \<Longrightarrow> aabb_finite b \<Longrightarrow> aabb_intersection a b = Some c \<Longrightarrow> aabb_finite c"
  by (auto simp: aabb_intersection_def aabb_finite_def Let_def f64_max_finite f64_min_finite split: if_splits)

lemma chunks_in_bbox_monotone:
  assumes "aabb_finite (cg_bounds g)" and "aabb_finite a" and "aabb_finite b" and "aabb_within a b"
    and "grid_chunks_in_bbox g b level \<noteq> []"
  shows "set (grid_chunks_in_bbox g a level) \<subseteq> set (grid_chunks_in_bbox g b level)"
proof (cases "grid_chunks_in_bbox g a level = []")
  case True
  then show ?thesis by simp
next
  case False
  define chunk_m where "chunk_m = f64_mul (grid_cell_size_m g level) (f64_of_nat (unat (cg_chunk_size g)))"
  from grid_chunks_in_bbox_shape [OF refl False] obtain ax0 ax1 ay0 ay1 c where
    A: "grid_chunks_in_bbox g a level = enumerate_chunks ax0 ax1 ay0 ay1"
      "axis_addressable (fst (grid_chunk_dims g level))" "axis_addressable (snd (grid_chunk_dims g level))"
      "unat ax1 < unat (fst (grid_chunk_dims g level))" "unat ay1 < unat (snd (grid_chunk_dims g level))"
      "f64_positive chunk_m" "aabb_intersection (cg_bounds g) a = Some c"
      "ax0 = first_chunk (min_x c) (min_x (cg_bounds g)) chunk_m (fst (grid_chunk_dims g level))"
      "ay0 = first_chunk (min_y c) (min_y (cg_bounds g)) chunk_m (snd (grid_chunk_dims g level))"
      "ax1 = last_chunk (max_x c) (min_x (cg_bounds g)) chunk_m (fst (grid_chunk_dims g level))"
      "ay1 = last_chunk (max_y c) (min_y (cg_bounds g)) chunk_m (snd (grid_chunk_dims g level))"
    unfolding chunk_m_def by metis
  from grid_chunks_in_bbox_shape [OF refl assms(5)] obtain bx0 bx1 by0 by1 d where
    B: "grid_chunks_in_bbox g b level = enumerate_chunks bx0 bx1 by0 by1"
      "unat bx1 < unat (fst (grid_chunk_dims g level))" "unat by1 < unat (snd (grid_chunk_dims g level))"
      "aabb_intersection (cg_bounds g) b = Some d"
      "bx0 = first_chunk (min_x d) (min_x (cg_bounds g)) chunk_m (fst (grid_chunk_dims g level))"
      "by0 = first_chunk (min_y d) (min_y (cg_bounds g)) chunk_m (snd (grid_chunk_dims g level))"
      "bx1 = last_chunk (max_x d) (min_x (cg_bounds g)) chunk_m (fst (grid_chunk_dims g level))"
      "by1 = last_chunk (max_y d) (min_y (cg_bounds g)) chunk_m (snd (grid_chunk_dims g level))"
    unfolding chunk_m_def by metis
  have w: "aabb_within c d" using aabb_intersection_within [OF assms(4,1) A(7)] B(4) by auto
  have fin: "aabb_finite c" "aabb_finite d"
    using aabb_intersection_finite [OF assms(1,2) A(7)] aabb_intersection_finite [OF assms(1,3) B(4)] by blast+
  have r: "bx0 \<le> ax0" "by0 \<le> ay0" "ax1 \<le> bx1" "ay1 \<le> by1"
    using w fin assms(1) A(6) unfolding A(8-11) B(5-8) aabb_within_def aabb_finite_def
    by (auto intro!: first_chunk_mono last_chunk_mono)
  have lim: "unat ax1 < 65536" "unat ay1 < 65536" "unat bx1 < 65536" "unat by1 < 65536"
    using A(2-5) B(2,3) by (auto simp: axis_addressable_unat)
  show ?thesis
    unfolding A(1) B(1) using r
    by (auto simp: enumerate_chunks_ids(2) [OF lim(1,2)] enumerate_chunks_ids(2) [OF lim(3,4)] word_le_nat_alt
        split: prod.splits)
qed

section \<open>A grid of 0.3 m cells\<close>

text \<open>A grid over a square kilometre with 0.3 m cells in chunks of 96, evaluated operation by operation.\<close>

definition border_grid :: chunk_grid where
  "border_grid = grid_new (aabb_new 0 0 0x408F400000000000 0x408F400000000000) 0x3FD3333333333333 96 1"

definition border_point :: f64 where "border_point = 0x407AFFFFFFFFFFFF"

definition map_box :: aabb where
  "map_box = \<lparr>min_x = 0, min_y = 0, max_x = 0x408F400000000000, max_y = 0x408F400000000000\<rparr>"

definition border_box :: aabb where
  "border_box = \<lparr>min_x = border_point, min_y = 0, max_x = border_point, max_y = 0\<rparr>"

lemma border_grid_fields:
  "cg_bounds border_grid = map_box" "cg_chunk_size border_grid = 96" "cg_base_res_m border_grid = 0x3FD3333333333333"
  by (simp_all add: border_grid_def grid_new_def aabb_new_def f64_cmp_eval map_box_def)

lemma border_ops:
  "f64_two_pow 0 = 0x3FF0000000000000"
  "f64_mul 0x3FD3333333333333 0x3FF0000000000000 = 0x3FD3333333333333"
  "f64_sub 0x408F400000000000 0 = 0x408F400000000000"
  "f64_div 0x408F400000000000 0x3FD3333333333333 = 0x40AA0AAAAAAAAAAB"
  "f64_ceil 0x40AA0AAAAAAAAAAB = 0x40AA0C0000000000"
  "f64_to_u32 0x40AA0C0000000000 = 3334"
  "f64_sub 0x407AFFFFFFFFFFFF 0 = 0x407AFFFFFFFFFFFF"
  "f64_sub 0 0 = 0"
  "f64_div 0x407AFFFFFFFFFFFF 0x3FD3333333333333 = 0x40967FFFFFFFFFFF"
  "f64_div 0 0x3FD3333333333333 = 0"
  "f64_floor 0x40967FFFFFFFFFFF = 0x40967C0000000000"
  "f64_floor 0 = 0"
  "f64_to_u32 0x40967C0000000000 = 1439"
  "f64_to_u32 0 = 0"
  "f64_of_nat 96 = 0x4058000000000000"
  "f64_mul 0x3FD3333333333333 0x4058000000000000 = 0x403CCCCCCCCCCCCC"
  "f64_div 0x407AFFFFFFFFFFFF 0x403CCCCCCCCCCCCC = 0x402E000000000000"
  "f64_div 0 0x403CCCCCCCCCCCCC = 0"
  "f64_div 0x408F400000000000 0x403CCCCCCCCCCCCC = 0x40415C71C71C71C8"
  "f64_floor 0x40415C71C71C71C8 = 0x4041000000000000"
  "f64_to_u32 0x4041000000000000 = 34"
  "f64_floor 0x402E000000000000 = 0x402E000000000000"
  "f64_to_u32 0x402E000000000000 = 15"
  "f64_of_nat 34 = 0x4041000000000000"
  by (simp_all add: float_eval)

lemma max_96_1: "max (96 :: u32) 1 = 96"
  by (simp add: max_def word_le_nat_alt)

lemma border_dims: "grid_chunk_dims border_grid 0 = (35, 35)"
  by (simp add: grid_chunk_dims_def grid_cell_dims_def grid_cell_size_m_def border_grid_fields map_box_def border_ops
      aabb_width_def aabb_height_def f64_cmp_eval f64_one_def F64_MIN_POSITIVE_def div_ceil_def max_96_1)

lemmas border_query = grid_chunks_in_bbox_def border_dims grid_cell_size_m_def border_grid_fields border_ops
  map_box_def border_box_def border_point_def aabb_intersection_def f64_cmp_eval first_chunk_def last_chunk_def
  axis_addressable_def f64_is_finite_def fl_is_finite_def f64_fl_def MAX_BBOX_CHUNKS_def word_le_nat_alt word_less_nat_alt

lemma border_index: "grid_chunk_index_at border_grid border_point 0 0 = Some (14, 0)"
  by (simp add: grid_chunk_index_at_def border_dims grid_cell_size_m_def border_grid_fields map_box_def border_ops
      border_point_def aabb_contains_def f64_cmp_eval F64_MIN_POSITIVE_def max_96_1 axis_addressable_def)

lemma border_box_query: "grid_chunks_in_bbox border_grid border_box 0 = enumerate_chunks 15 15 0 0"
  by (simp add: border_query min_def)

lemma map_box_query: "grid_chunks_in_bbox border_grid map_box 0 = enumerate_chunks 0 34 0 34"
  by (simp add: border_query min_def)

section \<open>Properties\<close>

text \<open>C30: a box query is safe and exact about its own rectangle. Whatever the grid and the box, the ids it
  returns are distinct, at most \<open>2 ^ 20\<close>, and each is a chunk of the grid, for which \<open>chunk_bounds\<close> has
  an area.\<close>

theorem bbox_query_in_grid:
  "distinct (grid_chunks_in_bbox g b level)
   \<and> length (grid_chunks_in_bbox g b level) \<le> 2 ^ 20
   \<and> (\<forall>c \<in> set (grid_chunks_in_bbox g b level). grid_chunk_bounds g level c \<noteq> None)"
proof (cases "grid_chunks_in_bbox g b level = []")
  case False
  from grid_chunks_in_bbox_shape [OF refl False] obtain ix0 ix1 iy0 iy1 where
    q: "grid_chunks_in_bbox g b level = enumerate_chunks ix0 ix1 iy0 iy1"
    and ax: "axis_addressable (fst (grid_chunk_dims g level))" "axis_addressable (snd (grid_chunk_dims g level))"
    and le: "ix0 \<le> ix1" "iy0 \<le> iy1"
    and lt: "unat ix1 < unat (fst (grid_chunk_dims g level))" "unat iy1 < unat (snd (grid_chunk_dims g level))"
    and cap: "ucast (ix1 - ix0 + 1) * ucast (iy1 - iy0 + 1) \<le> MAX_BBOX_CHUNKS"
    by metis
  have lim: "unat ix1 < 65536" "unat iy1 < 65536" using lt ax by (auto simp: axis_addressable_unat)
  note ids = enumerate_chunks_ids [OF lim, where ?ix0.0 = ix0 and ?iy0.0 = iy0]
  have "length (enumerate_chunks ix0 ix1 iy0 iy1) \<le> 2 ^ 20"
    unfolding length_enumerate_chunks using chunk_count_exact [OF le lim] cap by simp
  moreover have "grid_chunk_bounds g level c \<noteq> None" if "c \<in> set (enumerate_chunks ix0 ix1 iy0 iy1)" for c
  proof -
    obtain x y where c: "morton_decode_chunk c = (x, y)" by (cases "morton_decode_chunk c")
    have "unat x \<le> unat ix1" "unat y \<le> unat iy1" using that ids(2) [where c = c] by (simp_all add: c)
    then have "(ucast x :: u32) < fst (grid_chunk_dims g level)" "(ucast y :: u32) < snd (grid_chunk_dims g level)"
      using lt by (simp_all add: word_less_nat_alt unat_ucast_widen)
    then show ?thesis
      by (cases "grid_chunk_dims g level") (simp add: grid_chunk_bounds_def c Let_def leD linorder_not_le)
  qed
  ultimately show ?thesis using ids(1) by (simp add: q)
qed simp

theorem bbox_query_in_grid_witness:
  "length (grid_chunks_in_bbox border_grid map_box 0) \<le> 2 ^ 20
   \<and> grid_chunk_bounds border_grid 0 (morton_encode_chunk 14 0) \<noteq> None"
proof -
  have "morton_encode_chunk 14 0 \<in> set (grid_chunks_in_bbox border_grid map_box 0)"
    by (simp add: map_box_query enumerate_chunks_ids(2) morton_decode_encode_chunk)
  with bbox_query_in_grid [of border_grid map_box 0] show ?thesis by blast
qed

text \<open>A box query is monotone, rounding included. If an answered query's box holds another box, its
  answer holds the other's, so no chunk is lost by asking for a larger area.\<close>

theorem bbox_query_monotone:
  assumes "aabb_finite (cg_bounds g)" and "aabb_finite a" and "aabb_finite b" and "aabb_within a b"
    and "grid_chunks_in_bbox g b level \<noteq> []"
  shows "set (grid_chunks_in_bbox g a level) \<subseteq> set (grid_chunks_in_bbox g b level)"
  using assms by (rule chunks_in_bbox_monotone)

theorem bbox_query_monotone_witness:
  "set (grid_chunks_in_bbox border_grid border_box 0) \<subseteq> set (grid_chunks_in_bbox border_grid map_box 0)"
proof (rule bbox_query_monotone)
  have "length (enumerate_chunks 0 34 0 34) \<noteq> 0" unfolding length_enumerate_chunks by simp
  then show "grid_chunks_in_bbox border_grid map_box 0 \<noteq> []" by (auto simp: map_box_query)
qed (simp_all add: border_grid_fields aabb_finite_def aabb_within_def map_box_def border_box_def border_point_def
    f64_is_finite_def fl_is_finite_def f64_fl_def f64_cmp_eval)

text \<open>C31: the two ways of finding a chunk disagree at a border. In a valid grid there is a position whose
  chunk, by \<open>chunk_id_at\<close>, is not among the chunks of the box that holds just this position: one divides
  by the cell and then by the chunk size, the other by the rounded product of the two.\<close>

theorem border_chunk_missed:
  "grid_validate border_grid = Inr ()
   \<and> aabb_contains border_box border_point 0
   \<and> (\<exists>c. grid_chunk_id_at border_grid border_point 0 0 = Some c
        \<and> c \<notin> set (grid_chunks_in_bbox border_grid border_box 0))"
proof -
  have "grid_validate border_grid = Inr ()"
    by (simp add: grid_validate_def border_dims border_grid_fields border_ops map_box_def aabb_width_def
        aabb_height_def f64_is_finite_def fl_is_finite_def f64_fl_def f64_cmp_eval axis_addressable_def)
  moreover have "aabb_contains border_box border_point 0"
    by (simp add: aabb_contains_def border_box_def border_point_def f64_cmp_eval)
  moreover have "grid_chunk_id_at border_grid border_point 0 0 = Some (morton_encode_chunk 14 0)"
    by (simp add: grid_chunk_id_at_def border_index)
  moreover have "morton_encode_chunk 14 0 \<notin> set (enumerate_chunks 15 15 0 0)"
    by (simp add: enumerate_chunks_ids(2) morton_decode_encode_chunk)
  ultimately show ?thesis by (auto simp: border_box_query)
qed

end
