(* ===== verification/Omf_Raster.thy ===== *)
theory Omf_Raster
  imports Omf_Grid Omf_Delta Omf_Sparse Omf_Table
begin

text \<open>
  Raster chunks and the quantisation boundary (\<open>RasterChunk\<close>, \<open>pack\<close>, \<open>unpack\<close>, \<open>RasterLayerView\<close> of
  \<open>crates/map-format/src/raster.rs\<close>, \<open>quantise\<close> and \<open>dequantise\<close> of \<open>layer.rs\<close>). The \<open>half\<close> crate's
  conversions are a parameter. Reading a sample past the end of \<open>data\<close>, which panics, is \<open>None\<close>. The
  main lemma: what packs is unpacked sample by sample as the layer's quantisation and element type keep it, padding of
  bit rows included; under identity quantisation the samples the type can store are unchanged.
\<close>

section \<open>Quantisation\<close>

definition dequantise :: "layer_desc \<Rightarrow> f32 \<Rightarrow> f32" where
  "dequantise d raw = f32_add (f32_mul raw (ld_scale d)) (ld_bias d)"

definition quantise :: "layer_desc \<Rightarrow> f32 \<Rightarrow> f32" where
  "quantise d v =
     (if f32_is_zero (ld_scale d) then 0 else f32_div (f32_sub v (ld_bias d)) (ld_scale d))"

section \<open>Chunks\<close>

record raster_chunk =
  rc_width :: u32
  rc_height :: u32
  rc_channels :: u8
  rc_data :: "f32 list"

definition raster_zeros :: "u32 \<Rightarrow> u32 \<Rightarrow> u8 \<Rightarrow> raster_chunk" where
  "raster_zeros width height channels =
     \<lparr>rc_width = width, rc_height = height, rc_channels = max channels 1,
      rc_data = replicate (unat width * unat height * unat (max channels 1)) 0\<rparr>"

definition raster_from_vec :: "u32 \<Rightarrow> u32 \<Rightarrow> u8 \<Rightarrow> f32 list \<Rightarrow> raster_chunk result" where
  "raster_from_vec width height channels samples =
     (if length samples \<noteq> unat width * unat height * unat (max channels 1)
      then Inl (invalid (''chunk data length '' @ show_nat (length samples) @ '' does not match ''
                 @ show_nat (unat width) @ ''x'' @ show_nat (unat height) @ ''x'' @ show_nat (unat channels)))
      else Inr \<lparr>rc_width = width, rc_height = height, rc_channels = max channels 1, rc_data = samples\<rparr>)"

definition raster_index :: "raster_chunk \<Rightarrow> nat \<Rightarrow> nat \<Rightarrow> nat \<Rightarrow> nat" where
  "raster_index c x y channel = (y * unat (rc_width c) + x) * unat (rc_channels c) + channel"

definition raster_get :: "raster_chunk \<Rightarrow> nat \<Rightarrow> nat \<Rightarrow> nat \<Rightarrow> f32 option" where
  "raster_get c x y channel =
     (if x \<ge> unat (rc_width c) \<or> y \<ge> unat (rc_height c) \<or> channel \<ge> unat (rc_channels c) then Some 0
      else if raster_index c x y channel < length (rc_data c)
      then Some (rc_data c ! raster_index c x y channel) else None)"

definition raster_set :: "nat \<Rightarrow> nat \<Rightarrow> nat \<Rightarrow> f32 \<Rightarrow> raster_chunk \<Rightarrow> raster_chunk option" where
  "raster_set x y channel v c =
     (if x < unat (rc_width c) \<and> y < unat (rc_height c) \<and> channel < unat (rc_channels c)
      then if raster_index c x y channel < length (rc_data c)
           then Some (c\<lparr>rc_data := (rc_data c)[raster_index c x y channel := v]\<rparr>) else None
      else Some c)"

definition raster_cell :: "raster_chunk \<Rightarrow> nat \<Rightarrow> nat \<Rightarrow> f32 list option" where
  "raster_cell c x y =
     (let start = raster_index c x y 0
      in if start + unat (rc_channels c) \<le> length (rc_data c)
         then Some (take (unat (rc_channels c)) (drop start (rc_data c))) else None)"

definition raster_ok :: "raster_chunk \<Rightarrow> bool" where
  "raster_ok c \<longleftrightarrow> 1 \<le> rc_channels c
     \<and> length (rc_data c) = unat (rc_width c) * unat (rc_height c) * unat (rc_channels c)"

section \<open>Elements\<close>

record half_crate =
  hc_from_f32 :: "f32 \<Rightarrow> u16"
  hc_to_f32 :: "u16 \<Rightarrow> f32"

text \<open>The limits of the clamps as floats: \<open>i32::MIN\<close>, \<open>i32::MAX\<close> (rounded up), the \<open>i16\<close> limits, 255.\<close>

fun clamp_range :: "dtype \<Rightarrow> f32 \<times> f32" where
  "clamp_range I32 = (0xCF000000, 0x4F000000)"
| "clamp_range I16 = (0xC7000000, 0x46FFFE00)"
| "clamp_range _ = (0, 0x437F0000)"

definition rounded :: "dtype \<Rightarrow> int \<Rightarrow> int \<Rightarrow> f32 \<Rightarrow> int" where
  "rounded t lo hi raw = f32_to_int lo hi (f32_clamp (f32_round raw) (fst (clamp_range t)) (snd (clamp_range t)))"

fun write_element :: "half_crate \<Rightarrow> bytes \<Rightarrow> f32 \<Rightarrow> dtype \<Rightarrow> bytes" where
  "write_element H out raw F32 = put_ignored (put_f32 out 0 raw) out"
| "write_element H out raw F16 = le_bytes 2 (hc_from_f32 H raw) @ drop 2 out"
| "write_element H out raw I32 =
     put_ignored (put_i32 out 0 (word_of_int (rounded I32 (- (2 ^ 31)) (2 ^ 31 - 1) raw))) out"
| "write_element H out raw I16 =
     put_ignored (put_i16 out 0 (word_of_int (rounded I16 (- (2 ^ 15)) (2 ^ 15 - 1) raw))) out"
| "write_element H out raw U8 = out[0 := word_of_int (rounded U8 0 255 raw)]"
| "write_element H out raw Bit = out[0 := word_of_int (rounded Bit 0 255 raw)]"

fun read_element :: "half_crate \<Rightarrow> bytes \<Rightarrow> dtype \<Rightarrow> f32" where
  "read_element H b F32 = unwrap_or 0 (get_f32 b 0)"
| "read_element H b F16 = hc_to_f32 H (le_value (take 2 b))"
| "read_element H b I32 = f32_of_int (sint (unwrap_or 0 (get_i32 b 0)))"
| "read_element H b I16 = f32_of_int (sint (unwrap_or 0 (get_i16 b 0)))"
| "read_element H b U8 = f32_of_int (uint (b ! 0))"
| "read_element H b Bit = f32_of_int (uint (b ! 0))"

section \<open>Packing\<close>

text \<open>The loops \<open>for y\<close>, \<open>for x\<close>, \<open>for channel\<close>, and the index they compute.\<close>

definition raster_cells :: "nat \<Rightarrow> nat \<Rightarrow> nat \<Rightarrow> (nat \<times> nat \<times> nat) list" where
  "raster_cells width height channels =
     concat (map (\<lambda>y. concat (map (\<lambda>x. map (\<lambda>channel. (x, y, channel)) [0..<channels]) [0..<width])) [0..<height])"

fun cell_offset :: "nat \<Rightarrow> nat \<Rightarrow> nat \<times> nat \<times> nat \<Rightarrow> nat" where
  "cell_offset width channels (x, y, channel) = (y * width + x) * channels + channel"

text \<open>The samples in loop order; \<open>None\<close> when one is past the end of the data.\<close>

definition raster_samples :: "raster_chunk \<Rightarrow> nat \<Rightarrow> f32 list option" where
  "raster_samples c channels =
     those (map (\<lambda>(x, y, channel). raster_get c x y channel)
       (raster_cells (unat (rc_width c)) (unat (rc_height c)) channels))"

definition pack_bits :: "raster_chunk \<Rightarrow> f32 list \<Rightarrow> bytes" where
  "pack_bits c vs =
     (let row_len = div_ceil (unat (rc_width c)) 8
      in fold (\<lambda>((x, y, _), v) out.
           if \<not> f32_is_zero v
           then out[y * row_len + x div 8 := out ! (y * row_len + x div 8) OR push_bit (x mod 8) 1] else out)
           (zip (raster_cells (unat (rc_width c)) (unat (rc_height c)) 1) vs)
           (replicate (row_len * unat (rc_height c)) 0))"

definition pack_elements :: "half_crate \<Rightarrow> layer_desc \<Rightarrow> raster_chunk \<Rightarrow> nat \<Rightarrow> f32 list \<Rightarrow> bytes" where
  "pack_elements H d c channels vs =
     (let elem = element_size (ld_dtype d);
          cells = raster_cells (unat (rc_width c)) (unat (rc_height c)) channels
      in fold (\<lambda>(cell, v) out.
           let i = cell_offset (unat (rc_width c)) channels cell
           in set_slot elem i (write_element H (slot elem out i) (quantise d v) (ld_dtype d)) out)
           (zip cells vs)
           (replicate (unat (rc_width c) * unat (rc_height c) * channels * elem) 0))"

definition raster_pack :: "half_crate \<Rightarrow> layer_desc \<Rightarrow> raster_chunk \<Rightarrow> bytes result option" where
  "raster_pack H d c =
     (let channels = max (rc_channels c) 1
      in if ld_dtype d = Bit then
           (if channels \<noteq> 1 then Some (Inl (invalid ''bit layers must have exactly one channel''))
            else map_option (\<lambda>vs. Inr (pack_bits c vs)) (raster_samples c 1))
         else
           case usize_checked_mul (unat (rc_width c) * unat (rc_height c)) (unat channels) of
             None \<Rightarrow> Some (Inl (invalid ''chunk shape overflows''))
           | Some samples \<Rightarrow>
               (case usize_checked_mul samples (element_size (ld_dtype d)) of
                  None \<Rightarrow> Some (Inl (invalid ''chunk shape overflows''))
                | Some _ \<Rightarrow>
                    map_option (\<lambda>vs. Inr (pack_elements H d c (unat channels) vs))
                      (raster_samples c (unat channels))))"

section \<open>Unpacking\<close>

definition unpack_bits :: "nat \<Rightarrow> nat \<Rightarrow> nat \<Rightarrow> nat \<Rightarrow> bytes \<Rightarrow> f32 list" where
  "unpack_bits width height channels row_len b =
     map (\<lambda>(x, y, channel).
       let k = x * channels + channel
       in if b ! (y * row_len + k div 8) AND push_bit (k mod 8) 1 \<noteq> 0 then f32_one else 0)
       (raster_cells width height channels)"

definition unpack_elements :: "half_crate \<Rightarrow> layer_desc \<Rightarrow> nat \<Rightarrow> nat \<Rightarrow> nat \<Rightarrow> bytes \<Rightarrow> f32 list" where
  "unpack_elements H d width height channels b =
     map (\<lambda>cell. dequantise d (read_element H
         (slot (element_size (ld_dtype d)) b (cell_offset width channels cell)) (ld_dtype d)))
       (raster_cells width height channels)"

text \<open>\<open>None\<close> is the slice out of range when the shape's elements are smaller than the layer's.\<close>

definition raster_unpack :: "half_crate \<Rightarrow> layer_desc \<Rightarrow> chunk_shape \<Rightarrow> bytes \<Rightarrow> raster_chunk result option" where
  "raster_unpack H d s b =
     (let width = unat (cs_width s); height = unat (cs_height s); channels = unat (max (cs_channels s) 1);
          overflow = invalid ''chunk shape overflows''
      in case (case usize_checked_mul width height of None \<Rightarrow> None | Some cells \<Rightarrow> usize_checked_mul cells channels) of
           None \<Rightarrow> Some (Inl overflow)
         | Some samples \<Rightarrow>
             if ld_dtype d = Bit then
               Some (rbind (ok_or overflow (usize_checked_mul width channels)) (\<lambda>row_bits.
                 let row_len = div_ceil row_bits 8 in
                 rbind (ok_or overflow (usize_checked_mul row_len height)) (\<lambda>expected.
                 if length b < expected then Inl (Truncated 0 expected (length b))
                 else raster_from_vec (cs_width s) (cs_height s) (cs_channels s)
                        (unpack_bits width height channels row_len b))))
             else
               case total_bytes_checked s of
                 None \<Rightarrow> Some (Inl overflow)
               | Some expected \<Rightarrow>
                   if length b \<noteq> expected
                   then Some (Inl (invalid (''stored payload has '' @ show_nat (length b)
                                    @ '' byte(s), expected '' @ show_nat expected)))
                   else if samples * element_size (ld_dtype d) > length b then None
                   else Some (raster_from_vec (cs_width s) (cs_height s) (cs_channels s)
                                (unpack_elements H d width height channels b)))"

section \<open>Layer views\<close>

record raster_view =
  rv_desc :: layer_desc
  rv_grid :: chunk_grid
  rv_levels :: "u8 list"

definition raster_view_new :: "layer_desc \<Rightarrow> chunk_grid \<Rightarrow> u8 list \<Rightarrow> raster_view" where
  "raster_view_new d g levels = \<lparr>rv_desc = d, rv_grid = g, rv_levels = remdups_adj (sort levels)\<rparr>"

definition raster_view_has_level :: "raster_view \<Rightarrow> u8 \<Rightarrow> bool" where
  "raster_view_has_level v level =
     (case binary_search (rv_levels v) level of Inl _ \<Rightarrow> False | Inr _ \<Rightarrow> True)"

definition raster_view_chunk_shape :: "raster_view \<Rightarrow> u8 \<Rightarrow> chunk_shape" where
  "raster_view_chunk_shape v level = grid_chunk_shape (rv_grid v) (rv_desc v) level"

definition raster_view_channels :: "raster_view \<Rightarrow> u8" where
  "raster_view_channels v = max (ld_channels (rv_desc v)) 1"


section \<open>Identity quantisation\<close>

definition identity_quantised :: "layer_desc \<Rightarrow> bool" where
  "identity_quantised d \<longleftrightarrow> ld_scale d = f32_one \<and> ld_bias d = 0"

lemma f32_one_fl: "f32_fl f32_one = (False, 127 * 2 ^ 23)"
  by (simp add: f32_fl_def f32_neg_def f32_one_def)

lemma quantise_identity:
  assumes "identity_quantised d" and "\<not> f32_is_nan v"
  shows "quantise d v = v"
proof -
  have n: "\<not> fl_is_nan Single (f32_fl v)" using assms(2) by (simp add: f32_is_nan_fl)
  have "f32_sub v 0 = v" using n by (simp add: f32_sub_def f32_zero_fl fl_sub_zero)
  moreover have "f32_div v f32_one = v" by (simp only: f32_div_def f32_one_fl fl_div_one [OF n] f32_of_fl)
  moreover have "\<not> f32_is_zero f32_one" by (simp add: f32_is_zero_def fl_is_zero_def f32_one_fl)
  ultimately show ?thesis using assms(1) by (simp add: quantise_def identity_quantised_def)
qed

lemma dequantise_identity:
  assumes "identity_quantised d" and "\<not> f32_is_nan v" and "v \<noteq> 0x80000000"
  shows "dequantise d v = v"
proof -
  have n: "\<not> fl_is_nan Single (f32_fl v)" using assms(2) by (simp add: f32_is_nan_fl)
  have "f32_of (True, 0) = 0x80000000" by (simp add: f32_of_def)
  then have "f32_fl v \<noteq> (True, 0)" using assms(3) f32_of_fl [of v] by metis
  then have "f32_add v 0 = v" using n by (simp add: f32_add_def f32_zero_fl fl_add_zero)
  moreover have "f32_mul v f32_one = v" by (simp only: f32_mul_def f32_one_fl fl_mul_one [OF n] f32_of_fl)
  ultimately show ?thesis using assms(1) by (simp add: dequantise_def identity_quantised_def)
qed


section \<open>Elements that survive\<close>

lemma clamp_range_rat:
  "fl_is_finite Single (f32_fl (fst (clamp_range t)))" "fl_is_finite Single (f32_fl (snd (clamp_range t)))"
  "fl_rat Single (f32_fl (fst (clamp_range t))) = (case t of I32 \<Rightarrow> - (2 ^ 31) | I16 \<Rightarrow> - 32768 | _ \<Rightarrow> 0)"
  "fl_rat Single (f32_fl (snd (clamp_range t))) = (case t of I32 \<Rightarrow> 2 ^ 31 | I16 \<Rightarrow> 32767 | _ \<Rightarrow> 255)"
  by (cases t; simp add: float_eval)+

text \<open>The integers each type stores without loss.\<close>

fun storable_int :: "dtype \<Rightarrow> int \<Rightarrow> bool" where
  "storable_int I32 i \<longleftrightarrow> \<bar>i\<bar> < 2 ^ 24"
| "storable_int I16 i \<longleftrightarrow> - 32768 \<le> i \<and> i \<le> 32767"
| "storable_int U8 i \<longleftrightarrow> 0 \<le> i \<and> i \<le> 255"
| "storable_int _ i \<longleftrightarrow> False"

lemma storable_int_small: "storable_int t i \<Longrightarrow> \<bar>i\<bar> < 2 ^ 24"
  by (cases t) (auto simp: abs_less_iff)

lemma rounded_int:
  assumes "storable_int t i" and "lo \<le> i" and "i \<le> hi"
  shows "rounded t lo hi (f32_of_int i) = i"
proof -
  have i: "\<bar>i\<bar> < 2 ^ 24" using assms(1) by (rule storable_int_small)
  note x = f32_fl_of_int [OF i]
  have "\<not> f32_lt (f32_of_int i) (fst (clamp_range t))" "\<not> f32_lt (snd (clamp_range t)) (f32_of_int i)"
    unfolding f32_lt_rat [OF x(1) clamp_range_rat(1)] f32_lt_rat [OF clamp_range_rat(2) x(1)] x(2) clamp_range_rat(3,4)
    using assms(1) by (cases t; simp)+
  then have "f32_clamp (f32_of_int i) (fst (clamp_range t)) (snd (clamp_range t)) = f32_of_int i"
    by (simp add: f32_clamp_def Let_def)
  then show ?thesis
    using x assms(2,3) by (simp add: rounded_def f32_round_int [OF i] f32_to_int_def fl_to_int_def
        fl_finite_not_nan fl_is_inf_def fl_is_finite_def Let_def)
qed

text \<open>What a layer with identity quantisation gives back: for an integer type the integers it stores, for
  a float type every value but NaN and negative zero, the half type as far as its crate does.\<close>

definition storable :: "half_crate \<Rightarrow> dtype \<Rightarrow> f32 \<Rightarrow> bool" where
  "storable H t v \<longleftrightarrow>
     (case t of
        F32 \<Rightarrow> \<not> f32_is_nan v \<and> v \<noteq> 0x80000000
      | F16 \<Rightarrow> \<not> f32_is_nan v \<and> v \<noteq> 0x80000000 \<and> hc_to_f32 H (hc_from_f32 H v) = v
      | Bit \<Rightarrow> v = 0 \<or> v = f32_one
      | _ \<Rightarrow> \<exists>i. storable_int t i \<and> v = f32_of_int i)"

lemma put_get_word:
  "put_ignored (put_f32 (replicate 4 0) 0 v) (replicate 4 0) = le_bytes 4 v"
  "put_ignored (put_i32 (replicate 4 0) 0 v) (replicate 4 0) = le_bytes 4 v"
  "put_ignored (put_i16 (replicate 2 0) 0 u) (replicate 2 0) = le_bytes 2 u"
  "unwrap_or 0 (get_f32 (le_bytes 4 v) 0) = v"
  "unwrap_or 0 (get_i32 (le_bytes 4 v) 0) = v"
  "unwrap_or 0 (get_i16 (le_bytes 2 u) 0) = u"
  by (simp_all add: put_ignored_def unwrap_or_def put_f32_def put_i32_def put_i16_def put_slice_def
      get_f32_def get_i32_def get_i16_def slice_def usize_checked_add_def)

lemma sint_of_int:
  "- 32768 \<le> i \<Longrightarrow> i \<le> 32767 \<Longrightarrow> sint (word_of_int i :: u16) = i"
  "\<bar>i\<bar> < 2 ^ 24 \<Longrightarrow> sint (word_of_int i :: u32) = i"
  by (simp_all add: signed_of_int signed_take_bit_int_eq_self)

lemma element_survives:
  assumes "storable H t v" and "t \<noteq> Bit"
  shows "read_element H (write_element H (replicate (element_size t) 0) v t) t = v"
proof (cases t)
  case I32
  then obtain i where i: "\<bar>i\<bar> < 2 ^ 24" "v = f32_of_int i" using assms(1) by (auto simp: storable_def)
  have "rounded I32 (- (2 ^ 31)) (2 ^ 31 - 1) v = i" unfolding i(2) using i(1) by (intro rounded_int) simp_all
  then show ?thesis using i by (simp add: I32 put_get_word sint_of_int)
next
  case I16
  then obtain i where i: "- 32768 \<le> i" "i \<le> 32767" "v = f32_of_int i" using assms(1) by (auto simp: storable_def)
  have "rounded I16 (- (2 ^ 15)) (2 ^ 15 - 1) v = i" unfolding i(3) using i(1,2) by (intro rounded_int) simp_all
  then show ?thesis using i by (simp add: I16 put_get_word sint_of_int)
next
  case U8
  then obtain i where i: "0 \<le> i" "i \<le> 255" "v = f32_of_int i" using assms(1) by (auto simp: storable_def)
  have "rounded U8 0 255 v = i" unfolding i(3) using i(1,2) by (intro rounded_int) simp_all
  then show ?thesis using i by (simp add: U8 uint_word_of_int)
qed (use assms in \<open>simp_all add: storable_def put_get_word\<close>)

lemma length_write_element: "length b = element_size t \<Longrightarrow> length (write_element H b v t) = element_size t"
  by (cases t) (auto simp: put_ignored_def put_f32_def put_i32_def put_i16_def dest: put_slice_length split: sum.splits)

lemma storable_not_nan:
  assumes "storable H t v"
  shows "\<not> f32_is_nan v"
proof -
  have "\<not> f32_is_nan (f32_of_int i)" if "storable_int t i" for i
    using f32_fl_of_int(1) [OF storable_int_small [OF that]] by (simp add: f32_is_nan_fl fl_finite_not_nan)
  moreover have "\<not> f32_is_nan 0" "\<not> f32_is_nan f32_one"
    by (simp_all add: f32_is_nan_fl f32_zero_fl f32_one_fl fl_is_nan_def)
  ultimately show ?thesis using assms by (cases t) (auto simp: storable_def)
qed

lemma storable_not_minus_zero:
  assumes "storable H t v"
  shows "v \<noteq> 0x80000000"
proof -
  have m: "f32_fl 0x80000000 = (True, 0)" by (simp add: f32_fl_def f32_neg_def)
  have "f32_of_int i \<noteq> 0x80000000" for i
  proof
    assume e: "f32_of_int i = 0x80000000"
    have "snd (fl_round Single False (of_int i)) < 2 ^ 31"
      using fl_round_bound [of Single False "of_int i"] by simp
    then have "f32_fl (f32_of_int i) = fl_round Single False (of_int i)" by (simp add: f32_of_int_def f32_fl_of)
    then have r: "fl_round Single False (of_int i) = (True, 0)" using e m by simp
    then have "i < 0" by (auto simp: fl_round_def split: if_splits)
    then have "of_int i \<le> (- 1 :: rat)" by simp
    then have "fl_key (fl_round Single False (of_int i)) \<le> fl_key (fl_round Single False (- 1))"
      by (rule fl_key_round_mono)
    also have "\<dots> < 0" by (simp add: fl_key_def float_eval)
    finally show False unfolding r by (simp add: fl_key_def)
  qed
  then show ?thesis using assms by (cases t) (auto simp: storable_def f32_one_def)
qed


text \<open>What a layer gives back for a sample, whatever its quantisation: the value its stored element stands for.\<close>

definition restored :: "half_crate \<Rightarrow> layer_desc \<Rightarrow> f32 \<Rightarrow> f32" where
  "restored H d v =
     (if ld_dtype d = Bit then if f32_is_zero v then 0 else f32_one
      else dequantise d (read_element H
        (write_element H (replicate (element_size (ld_dtype d)) 0) (quantise d v) (ld_dtype d)) (ld_dtype d)))"

definition raster_restored :: "half_crate \<Rightarrow> layer_desc \<Rightarrow> raster_chunk \<Rightarrow> raster_chunk" where
  "raster_restored H d c = c\<lparr>rc_data := map (restored H d) (rc_data c)\<rparr>"

lemma restored_storable:
  assumes "identity_quantised d" and "storable H (ld_dtype d) v"
  shows "restored H d v = v"
proof (cases "ld_dtype d = Bit")
  case True
  then show ?thesis using assms(2) by (auto simp: restored_def storable_def f32_is_zero_def fl_is_zero_def f32_zero_fl f32_one_fl)
next
  case False
  then show ?thesis using assms
    by (simp add: restored_def quantise_identity storable_not_nan element_survives dequantise_identity storable_not_minus_zero)
qed

lemma raster_restored_storable:
  "identity_quantised d \<Longrightarrow> \<forall>v \<in> set (rc_data c). storable H (ld_dtype d) v \<Longrightarrow> raster_restored H d c = c"
  unfolding raster_restored_def by (subst map_idI) (auto simp: restored_storable)


section \<open>The loops\<close>

lemma concat_upt_blocks:
  "concat (map (\<lambda>k. [a + k * n..<a + (k + 1) * n]) [0..<m]) = [a..<a + m * n]"
proof (induction m)
  case (Suc m)
  have "[a..<a + Suc m * n] = [a..<a + m * n] @ [a + m * n..<a + (m + 1) * n]"
    using upt_add_eq_append [of a "a + m * n" n] by (simp add: algebra_simps)
  with Suc show ?case by simp
qed simp

lemma upt_shift: "map (\<lambda>c. a + c) [0..<n] = [a..<a + n]"
  by (induction n) simp_all

text \<open>The index the loops compute counts up from 0.\<close>

lemma cell_offsets: "map (cell_offset width channels) (raster_cells width height channels) = [0..<height * width * channels]"
proof -
  have cell: "map (\<lambda>c. (y * width + x) * channels + c) [0..<channels]
      = [y * (width * channels) + x * channels..<y * (width * channels) + (x + 1) * channels]" for x y
    unfolding upt_shift by (simp add: algebra_simps)
  have row: "concat (map (\<lambda>x. map (\<lambda>c. (y * width + x) * channels + c) [0..<channels]) [0..<width])
      = [0 + y * (width * channels)..<0 + (y + 1) * (width * channels)]" for y
    unfolding cell concat_upt_blocks by (simp add: algebra_simps)
  show ?thesis
    unfolding raster_cells_def map_concat map_map comp_def cell_offset.simps row
    using concat_upt_blocks [of 0 "width * channels" height] by (simp add: mult.assoc)
qed

lemma length_raster_cells: "length (raster_cells width height channels) = height * width * channels"
  using arg_cong [OF cell_offsets, of length width channels height] by simp

lemma raster_cells_nth:
  "i < height * width * channels \<Longrightarrow> cell_offset width channels (raster_cells width height channels ! i) = i"
  using arg_cong [OF cell_offsets, of "\<lambda>xs. xs ! i" width channels height] by (simp add: length_raster_cells)

lemma raster_cells_bounds:
  "(x, y, c) \<in> set (raster_cells width height channels) \<longleftrightarrow> x < width \<and> y < height \<and> c < channels"
  by (auto simp: raster_cells_def image_iff)

lemma those_map_Some: "those (map (\<lambda>x. Some (f x)) xs) = Some (map f xs)"
  by (induction xs) simp_all

lemma raster_samples_ok:
  assumes "raster_ok c"
  shows "raster_samples c (unat (rc_channels c)) = Some (rc_data c)"
proof -
  let ?cells = "raster_cells (unat (rc_width c)) (unat (rc_height c)) (unat (rc_channels c))"
  have len: "length (rc_data c) = length ?cells"
    using assms by (simp add: raster_ok_def length_raster_cells mult.commute mult.left_commute)
  have "raster_get c x y ch = Some (rc_data c ! cell_offset (unat (rc_width c)) (unat (rc_channels c)) (x, y, ch))"
    if "(x, y, ch) \<in> set ?cells" for x y ch
  proof -
    have "cell_offset (unat (rc_width c)) (unat (rc_channels c)) (x, y, ch)
        \<in> set (map (cell_offset (unat (rc_width c)) (unat (rc_channels c))) ?cells)"
      using that by (simp only: set_map image_eqI)
    then have "raster_index c x y ch < length (rc_data c)"
      unfolding cell_offsets len length_raster_cells by (simp add: raster_index_def)
    with that show ?thesis by (auto simp: raster_get_def raster_cells_bounds raster_index_def not_le)
  qed
  then have "map (\<lambda>(x, y, ch). raster_get c x y ch) ?cells =
      map (\<lambda>i. Some (rc_data c ! i)) (map (cell_offset (unat (rc_width c)) (unat (rc_channels c))) ?cells)"
    by (auto simp del: cell_offset.simps)
  then have "raster_samples c (unat (rc_channels c)) = Some (map (\<lambda>i. rc_data c ! i) [0..<length (rc_data c)])"
    unfolding raster_samples_def cell_offsets those_map_Some by (simp only: those_map_Some len length_raster_cells)
  then show ?thesis by (simp only: map_nth)
qed

text \<open>Filling equal slots one after the other.\<close>

lemma fold_set_slot:
  assumes "\<And>v. length (f (replicate k 0) v) = k"
  shows "fold (\<lambda>(i, v) out. set_slot k i (f (slot k out i) v) out) (zip [0..<length vs] vs)
     (replicate ((length vs + m) * k) 0) = concat (map (f (replicate k 0)) vs) @ replicate (m * k) 0"
proof (induction vs arbitrary: m rule: rev_induct)
  case (snoc v vs)
  let ?c = "concat (map (f (replicate k 0)) vs)"
  have len: "length ?c = length vs * k" using length_concat_const [of vs "f (replicate k 0)" k] assms by simp
  have z: "zip [0..<length (vs @ [v])] (vs @ [v]) = zip [0..<length vs] vs @ [(length vs, v)]" by simp
  have "fold (\<lambda>(i, v) out. set_slot k i (f (slot k out i) v) out) (zip [0..<length vs] vs)
      (replicate ((length (vs @ [v]) + m) * k) 0) = ?c @ replicate (Suc m * k) 0"
    using snoc [of "Suc m"] by simp
  moreover have "set_slot k (length vs) (f (slot k (?c @ replicate (Suc m * k) 0) (length vs)) v) (?c @ replicate (Suc m * k) 0)
      = ?c @ f (replicate k 0) v @ replicate (m * k) 0"
    by (simp add: slot_def set_slot_def len flip: replicate_add)
  ultimately show ?case unfolding z fold_append by simp
qed simp

lemma fold_zip_map:
  "fold (\<lambda>(x, v). f (g x, v)) (zip xs vs) out = fold f (zip (map g xs) vs) out"
  by (induction xs vs arbitrary: out rule: list_induct2') simp_all

lemma pack_elements_concat:
  assumes "length vs = unat (rc_width c) * unat (rc_height c) * channels"
  shows "pack_elements H d c channels vs =
     concat (map (\<lambda>v. write_element H (replicate (element_size (ld_dtype d)) 0) (quantise d v) (ld_dtype d)) vs)"
proof -
  define k where "k = element_size (ld_dtype d)"
  define f where "f = (\<lambda>b v. write_element H b (quantise d v) (ld_dtype d))"
  let ?cells = "raster_cells (unat (rc_width c)) (unat (rc_height c)) channels"
  have len: "length vs = unat (rc_height c) * unat (rc_width c) * channels" using assms by (simp add: mult.commute)
  have "pack_elements H d c channels vs =
      fold (\<lambda>(i, v) out. set_slot k i (f (slot k out i) v) out)
        (zip (map (cell_offset (unat (rc_width c)) channels) ?cells) vs) (replicate ((length vs + 0) * k) 0)"
    unfolding fold_zip_map [symmetric]
    by (simp add: pack_elements_def k_def f_def Let_def assms case_prod_beta)
  also have "\<dots> = concat (map (f (replicate k 0)) vs) @ replicate (0 * k) 0"
    unfolding cell_offsets len [symmetric]
    by (rule fold_set_slot) (simp add: f_def k_def length_write_element)
  finally show ?thesis by (simp add: f_def k_def)
qed

lemma unpack_pack_elements:
  assumes "ld_dtype d \<noteq> Bit" and "length vs = height * width * channels"
  shows "unpack_elements H d width height channels
     (concat (map (\<lambda>v. write_element H (replicate (element_size (ld_dtype d)) 0) (quantise d v) (ld_dtype d)) vs)) = map (restored H d) vs"
proof (rule nth_equalityI)
  let ?k = "element_size (ld_dtype d)"
  let ?g = "\<lambda>v. write_element H (replicate ?k 0) (quantise d v) (ld_dtype d)"
  show "length (unpack_elements H d width height channels (concat (map ?g vs))) = length (map (restored H d) vs)"
    by (simp add: unpack_elements_def length_raster_cells assms(2))
  fix i assume "i < length (unpack_elements H d width height channels (concat (map ?g vs)))"
  then have i: "i < length vs" by (simp add: unpack_elements_def length_raster_cells assms(2))
  have "slot ?k (concat (map ?g vs)) i = ?g (vs ! i)"
  proof -
    have "concat (map ?g vs) = concat (map ?g (take i vs @ vs ! i # drop (Suc i) vs))"
      by (simp only: id_take_nth_drop [OF i, symmetric])
    then have "concat (map ?g vs) = concat (map ?g (take i vs)) @ ?g (vs ! i) @ concat (map ?g (drop (Suc i) vs))"
      by (simp only: map_append concat_append list.map concat.simps)
    moreover have "length (concat (map ?g (take i vs))) = i * ?k"
      using length_concat_const [of "take i vs" ?g ?k] i by (simp add: length_write_element)
    ultimately show ?thesis by (simp add: slot_def length_write_element)
  qed
  then have "dequantise d (read_element H (slot ?k (concat (map ?g vs)) i) (ld_dtype d)) = restored H d (vs ! i)"
    using assms(1) by (simp add: restored_def)
  then show "unpack_elements H d width height channels (concat (map ?g vs)) ! i = map (restored H d) vs ! i"
    using i by (simp add: unpack_elements_def raster_cells_nth length_raster_cells assms(2))
qed


section \<open>Bit rows\<close>

text \<open>The position of a cell's bit: rows start at byte boundaries.\<close>

fun bit_position :: "nat \<Rightarrow> nat \<times> nat \<times> nat \<Rightarrow> nat" where
  "bit_position row_len (x, y, channel) = y * row_len * 8 + x"

lemma bit_position_div: "bit_position row_len (x, y, c) div 8 = y * row_len + x div 8"
    "bit_position row_len (x, y, c) mod 8 = x mod 8"
  by simp_all

lemma fold_set_mask_bit:
  assumes "\<forall>(i, v) \<in> set ivs. i div 8 < length out"
  shows "length (fold (\<lambda>(i, v) out. if P v then set_mask_bit i out else out) ivs out) = length out"
    and "mask_bit (fold (\<lambda>(i, v) out. if P v then set_mask_bit i out else out) ivs out) j
      \<longleftrightarrow> mask_bit out j \<or> (\<exists>v. (j, v) \<in> set ivs \<and> P v)"
proof -
  have "length (fold (\<lambda>(i, v) out. if P v then set_mask_bit i out else out) ivs out) = length out
    \<and> (\<forall>j. mask_bit (fold (\<lambda>(i, v) out. if P v then set_mask_bit i out else out) ivs out) j
      \<longleftrightarrow> mask_bit out j \<or> (\<exists>v. (j, v) \<in> set ivs \<and> P v))"
    using assms
  proof (induction ivs arbitrary: out)
    case (Cons iv ivs)
    obtain i v where iv: "iv = (i, v)" by (cases iv)
    define out' where "out' = (if P v then set_mask_bit i out else out)"
    have len: "length out' = length out" by (simp add: out'_def)
    have "mask_bit out' j \<longleftrightarrow> mask_bit out j \<or> j = i \<and> P v" for j
      using Cons.prems iv by (auto simp: out'_def mask_bit_set_mask_bit)
    with Cons.IH [of out'] Cons.prems show ?case by (auto simp: iv len out'_def [symmetric])
  qed simp
  then show "length (fold (\<lambda>(i, v) out. if P v then set_mask_bit i out else out) ivs out) = length out"
    "mask_bit (fold (\<lambda>(i, v) out. if P v then set_mask_bit i out else out) ivs out) j
      \<longleftrightarrow> mask_bit out j \<or> (\<exists>v. (j, v) \<in> set ivs \<and> P v)" by blast+
qed

lemma pack_bits_mask:
  assumes "length vs = unat (rc_width c) * unat (rc_height c)"
  defines "row_len \<equiv> div_ceil (unat (rc_width c)) 8"
    and "cells \<equiv> raster_cells (unat (rc_width c)) (unat (rc_height c)) 1"
  shows "length (pack_bits c vs) = row_len * unat (rc_height c)"
    and "i < length vs \<Longrightarrow> mask_bit (pack_bits c vs) (bit_position row_len (cells ! i)) \<longleftrightarrow> \<not> f32_is_zero (vs ! i)"
proof -
  have inside: "bit_position row_len p div 8 < row_len * unat (rc_height c)" if "p \<in> set cells" for p
  proof -
    obtain x y ch where p: "p = (x, y, ch)" by (cases p)
    then have b: "x < unat (rc_width c)" "y < unat (rc_height c)"
      using that by (simp_all add: cells_def raster_cells_bounds)
    have "x div 8 < row_len" unfolding row_len_def using b(1) by (rule div_ceil_8_bound)
    moreover have "(y + 1) * row_len \<le> unat (rc_height c) * row_len" using b(2) by (intro mult_le_mono1) simp
    ultimately show ?thesis unfolding p bit_position_div by (simp add: mult.commute)
  qed
  have inj: "p = q" if "p \<in> set cells" "q \<in> set cells" "bit_position row_len p = bit_position row_len q" for p q
  proof -
    obtain x y ch where p: "p = (x, y, ch)" by (cases p)
    obtain x' y' ch' where q: "q = (x', y', ch')" by (cases q)
    have b: "x < unat (rc_width c)" "ch < 1" "x' < unat (rc_width c)" "ch' < 1"
      using that(1,2) by (simp_all add: p q cells_def raster_cells_bounds)
    have "unat (rc_width c) \<le> row_len * 8" unfolding row_len_def div_ceil_8 by simp
    then have lt: "x < row_len * 8" "x' < row_len * 8" using b by simp_all
    have e: "x + y * (row_len * 8) = x' + y' * (row_len * 8)" using that(3) by (simp add: p q algebra_simps)
    have "(x + y * (row_len * 8)) mod (row_len * 8) = x" "(x' + y' * (row_len * 8)) mod (row_len * 8) = x'"
      using lt by simp_all
    then have x: "x = x'" using e by simp
    then have "y * (row_len * 8) = y' * (row_len * 8)" using e by simp
    then have "y = y'" using lt by simp
    with x b show ?thesis by (simp add: p q)
  qed
  have len: "length vs = length cells" using assms(1) by (simp add: cells_def length_raster_cells mult.commute)
  define ivs where "ivs = zip (map (bit_position row_len) cells) vs"
  have pb: "pack_bits c vs =
      fold (\<lambda>(i, v) out. if \<not> f32_is_zero v then set_mask_bit i out else out) ivs
        (replicate (row_len * unat (rc_height c)) 0)"
  proof -
    have "(\<lambda>((x, y, _), v) out.
           if \<not> f32_is_zero v
           then out[y * row_len + x div 8 := out ! (y * row_len + x div 8) OR push_bit (x mod 8) 1] else out)
       = (\<lambda>(p, v). (\<lambda>(i, v) out. if \<not> f32_is_zero v then set_mask_bit i out else out) (bit_position row_len p, v))"
      by (auto simp: fun_eq_iff set_mask_bit_def simp del: push_bit_of_1)
    then show ?thesis
      unfolding pack_bits_def ivs_def Let_def row_len_def [symmetric] cells_def [symmetric]
      by (simp only: fold_zip_map)
  qed
  have ok: "\<forall>(i, v) \<in> set ivs. i div 8 < length (replicate (row_len * unat (rc_height c)) (0 :: u8))"
    using inside by (auto simp: ivs_def dest!: set_zip_leftD)
  show "length (pack_bits c vs) = row_len * unat (rc_height c)"
    unfolding pb using fold_set_mask_bit(1) [OF ok] by simp
  assume i: "i < length vs"
  have "(bit_position row_len (cells ! i), v) \<in> set ivs \<longleftrightarrow> v = vs ! i" for v
  proof
    assume "(bit_position row_len (cells ! i), v) \<in> set ivs"
    then obtain k where k: "k < length vs" "bit_position row_len (cells ! k) = bit_position row_len (cells ! i)" "v = vs ! k"
      by (auto simp: ivs_def set_zip len)
    then have "cells ! k = cells ! i" using i len by (intro inj) simp_all
    moreover have "cell_offset (unat (rc_width c)) 1 (cells ! j) = j" if "j < length vs" for j
      using that unfolding len cells_def length_raster_cells by (rule raster_cells_nth)
    ultimately have "k = i" using i k(1) by metis
    with k show "v = vs ! i" by simp
  next
    assume "v = vs ! i"
    moreover have "map (bit_position row_len) cells ! i = bit_position row_len (cells ! i)" using i len by simp
    ultimately show "(bit_position row_len (cells ! i), v) \<in> set ivs"
      using i len unfolding ivs_def set_zip by (intro CollectI exI [of _ i]) simp
  qed
  moreover have "\<not> mask_bit (replicate (row_len * unat (rc_height c)) 0) (bit_position row_len (cells ! i))"
    using inside [of "cells ! i"] i len by (intro mask_bit_zero) simp
  ultimately show "mask_bit (pack_bits c vs) (bit_position row_len (cells ! i)) \<longleftrightarrow> \<not> f32_is_zero (vs ! i)"
    unfolding pb fold_set_mask_bit(2) [OF ok] by auto
qed

lemma unpack_pack_bits:
  assumes "length vs = unat (rc_width c) * unat (rc_height c)" and "ld_dtype d = Bit"
  shows "unpack_bits (unat (rc_width c)) (unat (rc_height c)) 1 (div_ceil (unat (rc_width c)) 8) (pack_bits c vs) = map (restored H d) vs"
proof (rule nth_equalityI)
  let ?cells = "raster_cells (unat (rc_width c)) (unat (rc_height c)) 1"
  show "length (unpack_bits (unat (rc_width c)) (unat (rc_height c)) 1 (div_ceil (unat (rc_width c)) 8) (pack_bits c vs)) = length (map (restored H d) vs)"
    using assms(1) by (simp add: unpack_bits_def length_raster_cells mult.commute)
  fix i assume "i < length (unpack_bits (unat (rc_width c)) (unat (rc_height c)) 1 (div_ceil (unat (rc_width c)) 8) (pack_bits c vs))"
  then have i: "i < length vs" "i < length ?cells"
    using assms(1) by (simp_all add: unpack_bits_def length_raster_cells mult.commute)
  obtain x y ch where p: "?cells ! i = (x, y, ch)" by (cases "?cells ! i")
  then have "ch = 0" using nth_mem [OF i(2)] by (simp add: raster_cells_bounds)
  then have "unpack_bits (unat (rc_width c)) (unat (rc_height c)) 1 (div_ceil (unat (rc_width c)) 8) (pack_bits c vs) ! i
      = (if mask_bit (pack_bits c vs) (bit_position (div_ceil (unat (rc_width c)) 8) (?cells ! i)) then f32_one else 0)"
    using i(2) unfolding mask_bit_def p bit_position_div by (simp add: unpack_bits_def p Let_def del: push_bit_of_1 One_nat_def)
  also have "\<dots> = restored H d (vs ! i)"
    using pack_bits_mask(2) [OF assms(1) i(1)] assms(2) by (simp add: restored_def)
  finally show "unpack_bits (unat (rc_width c)) (unat (rc_height c)) 1 (div_ceil (unat (rc_width c)) 8) (pack_bits c vs) ! i = map (restored H d) vs ! i" using i(1) by simp
qed


section \<open>The round trip\<close>

definition raster_shape :: "layer_desc \<Rightarrow> raster_chunk \<Rightarrow> chunk_shape" where
  "raster_shape d c =
     \<lparr>cs_width = rc_width c, cs_height = rc_height c, cs_channels = rc_channels c, cs_dtype = ld_dtype d\<rparr>"

lemma max_channels: "1 \<le> n \<Longrightarrow> max n 1 = (n :: u8)"
  by (simp add: max_def)

lemma raster_restores_elements:
  assumes "raster_ok c" and "ld_dtype d \<noteq> Bit" and "length (rc_data c) * 4 < usize_limit"
  shows "\<exists>b. raster_pack H d c = Some (Inr b) \<and> raster_unpack H d (raster_shape d c) b = Some (Inr (raster_restored H d c))"
proof -
  define w h n k where "w = unat (rc_width c)" and "h = unat (rc_height c)" and "n = unat (rc_channels c)"
    and "k = element_size (ld_dtype d)"
  have len: "length (rc_data c) = w * h * n" and n: "1 \<le> n" "max (rc_channels c) 1 = rc_channels c"
    using assms(1) by (simp_all add: raster_ok_def w_def h_def n_def word_le_nat_alt max_channels)
  have k: "1 \<le> k" "k \<le> 4" using element_size_pos [of "ld_dtype d"] element_size_le [of "ld_dtype d"]
    by (simp_all add: k_def)
  define b where "b = concat (map (\<lambda>v. write_element H (replicate k 0) (quantise d v) (ld_dtype d)) (rc_data c))"
  have lb: "length b = k * (w * h * n)"
    unfolding b_def len [symmetric] by (rule length_concat_const) (simp add: k_def length_write_element)
  have "w * h * n * k \<le> w * h * n * 4" using k(2) by (rule mult_le_mono2)
  then have lim: "w * h * n * k < usize_limit" using assms(3) unfolding len by (rule le_less_trans)
  then have lim2: "w * h * n < usize_limit" using k(1) by (metis le_less_trans mult.right_neutral mult_le_mono2)
  have lim3: "w * h < usize_limit" using lim2 n(1) by (metis le_less_trans mult.right_neutral mult_le_mono2)
  have "raster_pack H d c = Some (Inr (pack_elements H d c n (rc_data c)))"
    using assms(2) lim lim2 raster_samples_ok [OF assms(1)]
    by (simp add: raster_pack_def n(2) usize_checked_mul_def w_def [symmetric] h_def [symmetric] n_def [symmetric] k_def [symmetric])
  also have "pack_elements H d c n (rc_data c) = b"
    unfolding b_def k_def by (rule pack_elements_concat) (simp add: len w_def h_def)
  finally have pack: "raster_pack H d c = Some (Inr b)" .
  have total: "total_bytes_checked (raster_shape d c) = Some (length b)"
  proof -
    have "w * (n * k) * h < usize_limit" using lim by (simp add: mult.commute mult.left_commute)
    moreover have "w * (n * k) < usize_limit \<or> h = 0"
    proof (cases h)
      case (Suc h')
      then have "w * (n * k) \<le> w * (n * k) * h" by simp
      then show ?thesis using calculation by linarith
    qed simp
    moreover have "w * (n * k) < usize_limit" if "h = 0"
    proof -
      have "w < 2 ^ 32" "n < 2 ^ 8" unfolding w_def n_def by (rule unat_u8_u32)+
      then have "w * (n * k) \<le> 2 ^ 32 * (2 ^ 8 * 4)" using k(2) by (intro mult_le_mono) simp_all
      also have "\<dots> < usize_limit" by simp
      finally show ?thesis .
    qed
    ultimately have "w * (n * k) < usize_limit" "w * (n * k) * h < usize_limit" by blast+
    then show ?thesis
      using assms(2) unfolding total_bytes_checked_def row_bytes_checked_def cell_bytes_def raster_shape_def lb
      by (simp add: usize_checked_mul_def w_def [symmetric] h_def [symmetric] n_def [symmetric] k_def [symmetric]
          mult.commute mult.left_commute)
  qed
  have "unpack_elements H d w h n b = map (restored H d) (rc_data c)"
    unfolding b_def k_def by (rule unpack_pack_elements) (use assms len in simp_all)
  then have "raster_unpack H d (raster_shape d c) b =
      Some (raster_from_vec (rc_width c) (rc_height c) (rc_channels c) (map (restored H d) (rc_data c)))"
    using assms(2) lim2 lim3 total lb
    by (simp add: raster_unpack_def raster_shape_def n(2) usize_checked_mul_def Let_def w_def [symmetric]
        h_def [symmetric] n_def [symmetric] k_def [symmetric] mult.commute mult.left_commute)
  also have "raster_from_vec (rc_width c) (rc_height c) (rc_channels c) (map (restored H d) (rc_data c)) = Inr (raster_restored H d c)"
    using len n(2) by (simp add: raster_from_vec_def raster_restored_def w_def h_def n_def)
  finally show ?thesis using pack by blast
qed

lemma raster_restores_bits:
  assumes "raster_ok c" and "ld_dtype d = Bit" and "rc_channels c = 1"
    and "length (rc_data c) * 4 < usize_limit"
  shows "\<exists>b. raster_pack H d c = Some (Inr b) \<and> raster_unpack H d (raster_shape d c) b = Some (Inr (raster_restored H d c))"
proof -
  define w h where "w = unat (rc_width c)" and "h = unat (rc_height c)"
  have len: "length (rc_data c) = w * h" using assms(1,3) by (simp add: raster_ok_def w_def h_def)
  have samples: "raster_samples c 1 = Some (rc_data c)" using raster_samples_ok [OF assms(1)] assms(3) by simp
  have pack: "raster_pack H d c = Some (Inr (pack_bits c (rc_data c)))"
    using assms(2,3) samples by (simp add: raster_pack_def)
  have lp: "length (pack_bits c (rc_data c)) = div_ceil w 8 * h"
    using pack_bits_mask(1) [of "rc_data c" c] len by (simp add: w_def h_def)
  have "w * h \<le> w * h * 4" by simp
  then have lim: "w * h < usize_limit" using assms(4) unfolding len by (rule le_less_trans)
  have w: "w < 2 ^ 32" "h < 2 ^ 32" unfolding w_def h_def by (rule unat_u8_u32)+
  have "div_ceil w 8 \<le> 2 ^ 30" using w(1) unfolding div_ceil_8 by simp
  then have "div_ceil w 8 * h \<le> 2 ^ 30 * 2 ^ 32" using w(2) by (intro mult_le_mono) simp_all
  also have "\<dots> < usize_limit" by simp
  finally have lim2: "div_ceil w 8 * h < usize_limit" .
  have "w < usize_limit" using w(1) by simp
  then have "raster_unpack H d (raster_shape d c) (pack_bits c (rc_data c)) =
      Some (raster_from_vec (rc_width c) (rc_height c) 1 (unpack_bits w h 1 (div_ceil w 8) (pack_bits c (rc_data c))))"
    using assms(2,3) lim lim2 lp
    by (simp add: raster_unpack_def raster_shape_def usize_checked_mul_def Let_def w_def [symmetric] h_def [symmetric])
  also have "unpack_bits w h 1 (div_ceil w 8) (pack_bits c (rc_data c)) = map (restored H d) (rc_data c)"
    unfolding w_def h_def by (rule unpack_pack_bits) (use len assms(2) in \<open>simp_all add: w_def h_def\<close>)
  also have "raster_from_vec (rc_width c) (rc_height c) 1 (map (restored H d) (rc_data c)) = Inr (raster_restored H d c)"
    using len assms(3) by (simp add: raster_from_vec_def raster_restored_def w_def h_def)
  finally show ?thesis using pack by blast
qed

text \<open>A chunk that packs is given back sample by sample, padding of bit rows included.\<close>

lemma raster_chunk_restored:
  assumes "raster_ok c" and "ld_dtype d = Bit \<longrightarrow> rc_channels c = 1" and "length (rc_data c) * 4 < usize_limit"
  shows "\<exists>b. raster_pack H d c = Some (Inr b) \<and> raster_unpack H d (raster_shape d c) b = Some (Inr (raster_restored H d c))"
  using raster_restores_elements [OF assms(1) _ assms(3)] raster_restores_bits [OF assms(1) _ _ assms(3)] assms(2) by blast

lemma raster_view_has_level_iff: "raster_view_has_level (raster_view_new d g levels) level \<longleftrightarrow> level \<in> set levels"
proof -
  have s: "sorted (remdups_adj (sort levels))" by (simp add: sorted_remdups_adj)
  have "level \<in> set (remdups_adj (sort levels))" if "binary_search (remdups_adj (sort levels)) level = Inr i" for i
    using binary_search_Inr [OF that s] nth_mem by metis
  moreover have "level \<notin> set (remdups_adj (sort levels))" if "binary_search (remdups_adj (sort levels)) level = Inl i" for i
    using binary_search_Inl [OF that s] by (metis in_set_conv_nth less_irrefl not_le)
  ultimately show ?thesis
    by (cases "binary_search (remdups_adj (sort levels)) level") (auto simp: raster_view_has_level_def raster_view_new_def)
qed

section \<open>Properties\<close>

text \<open>C29: what a raster layer stores it gives back. With identity quantisation, a chunk whose samples the
  layer's element type can store (integers in its range, non-NaN floats other than negative zero, bits)
  packs without error, and unpacking the bytes with the chunk's shape gives the chunk, whatever its
  width: bit rows that end inside a byte included.\<close>

theorem raster_chunk_survives:
  assumes "raster_ok c" and "identity_quantised d" and "ld_dtype d = Bit \<longrightarrow> rc_channels c = 1"
    and "\<forall>v \<in> set (rc_data c). storable H (ld_dtype d) v"
    and "length (rc_data c) * 4 < usize_limit"
  shows "\<exists>b. raster_pack H d c = Some (Inr b) \<and> raster_unpack H d (raster_shape d c) b = Some (Inr c)"
  using raster_chunk_restored [OF assms(1,3,5), of H] unfolding raster_restored_storable [OF assms(2,4)] .

definition no_half :: half_crate where
  "no_half = \<lparr>hc_from_f32 = (\<lambda>_. 0), hc_to_f32 = (\<lambda>_. 0)\<rparr>"

definition bit_chunk :: raster_chunk where
  "bit_chunk = \<lparr>rc_width = 3, rc_height = 2, rc_channels = 1, rc_data = [0, f32_one, 0, f32_one, 0, 0]\<rparr>"

definition bit_layer :: layer_desc where
  "bit_layer = layer_desc_new 2 Bitmap 1 Bit 7"

theorem raster_chunk_survives_witness:
  "\<exists>b. raster_pack no_half bit_layer bit_chunk = Some (Inr b)
     \<and> raster_unpack no_half bit_layer (raster_shape bit_layer bit_chunk) b = Some (Inr bit_chunk)"
  by (rule raster_chunk_survives)
    (simp_all add: raster_ok_def bit_chunk_def bit_layer_def layer_desc_new_def identity_quantised_def storable_def)

end
