(* ===== verification/Omf_Widen.thy ===== *)
theory Omf_Widen
  imports Omf_Arith Omf_Layer
begin

text \<open>
  Two facts about the float operations that probabilities rest on: the cast from \<open>f32\<close> to \<open>f64\<close> keeps
  the value, and the unit interval is closed under the subtractions from one and the products of \<open>f32\<close>,
  rounding included.
\<close>

section \<open>Widening keeps the value\<close>

lemma fl_val_split:
  assumes "f < 2 ^ fb" and "0 < e"
  shows "fl_val fb emin (e * 2 ^ fb + f) = of_nat (2 ^ fb + f) * 2 powi (emin + int e - 1)"
proof -
  have "2 ^ fb \<le> e * 2 ^ fb" using assms(2) by simp
  then have "\<not> e * 2 ^ fb + f < 2 ^ fb" by linarith
  moreover have "(e * 2 ^ fb + f) mod 2 ^ fb = f" "(e * 2 ^ fb + f) div 2 ^ fb = e"
    using assms(1) by simp_all
  ultimately show ?thesis by (simp add: fl_val_def)
qed

lemma widen_normal_val:
  assumes "0 < e" and "f < 2 ^ 23"
  shows "fl_val 52 (- 1074) ((e + 896) * 2 ^ 52 + f * 2 ^ 29) = fl_val 23 (- 149) (e * 2 ^ 23 + f)"
proof -
  have f: "f * 2 ^ 29 < 2 ^ 52" using assms(2) by simp
  have "fl_val 52 (- 1074) ((e + 896) * 2 ^ 52 + f * 2 ^ 29) = of_nat (2 ^ 52 + f * 2 ^ 29) * 2 powi (int e - 179)"
    using fl_val_split [OF f, of "e + 896" "- 1074"] by simp
  also have "(of_nat (2 ^ 52 + f * 2 ^ 29) :: rat) = of_nat (2 ^ 23 + f) * 2 ^ 29" by simp
  also have "of_nat (2 ^ 23 + f) * 2 ^ 29 * (2 :: rat) powi (int e - 179) = of_nat (2 ^ 23 + f) * 2 powi (int e - 179 + int 29)"
    unfolding two_powi_nat by (simp only: mult_ac)
  also have "\<dots> = fl_val 23 (- 149) (e * 2 ^ 23 + f)"
    using fl_val_split [OF assms(2,1), of "- 149"] by simp
  finally show ?thesis .
qed

lemma widen_subnormal_val:
  assumes "0 < f" and "f < 2 ^ 23"
  shows "f * 2 ^ (52 - top_bit f) - 2 ^ 52 < 2 ^ 52" and "top_bit f < 23"
    and "fl_val 52 (- 1074) ((874 + top_bit f) * 2 ^ 52 + (f * 2 ^ (52 - top_bit f) - 2 ^ 52)) = fl_val 23 (- 149) f"
proof -
  define p where "p = top_bit f"
  have p: "2 ^ p \<le> f" "f < 2 ^ Suc p" using top_bit_bounds [OF assms(1)] by (simp_all add: p_def)
  show p23: "top_bit f < 23"
  proof (rule ccontr)
    assume "\<not> top_bit f < 23"
    then have "(2 :: nat) ^ 23 \<le> 2 ^ p" unfolding p_def by (intro power_increasing) simp_all
    with p(1) assms(2) show False by linarith
  qed
  then have split: "(2 :: nat) ^ p * 2 ^ (52 - p) = 2 ^ 52" unfolding p_def by (simp flip: power_add)
  have lo: "2 ^ 52 \<le> f * 2 ^ (52 - p)" using mult_le_mono1 [OF p(1), of "2 ^ (52 - p)"] split by simp
  have "f * 2 ^ (52 - p) < 2 ^ Suc p * 2 ^ (52 - p)" using p(2) by simp
  also have "\<dots> = 2 * 2 ^ 52" using split by (simp only: power_Suc mult.assoc)
  finally show hi: "f * 2 ^ (52 - top_bit f) - 2 ^ 52 < 2 ^ 52" using lo unfolding p_def by linarith
  have "fl_val 52 (- 1074) ((874 + p) * 2 ^ 52 + (f * 2 ^ (52 - p) - 2 ^ 52))
      = of_nat (2 ^ 52 + (f * 2 ^ (52 - p) - 2 ^ 52)) * 2 powi (int p - 201)"
    using fl_val_split [OF hi, of "874 + p" "- 1074"] unfolding p_def by simp
  also have "2 ^ 52 + (f * 2 ^ (52 - p) - 2 ^ 52) = f * 2 ^ (52 - p)" using lo by simp
  also have "(of_nat (f * 2 ^ (52 - p)) :: rat) * 2 powi (int p - 201) = of_nat f * 2 powi (int p - 201 + int (52 - p))"
    unfolding two_powi_nat by (simp add: mult_ac)
  also have "int p - 201 + int (52 - p) = - 149" using p23 by (simp add: p_def of_nat_diff)
  also have "of_nat f * 2 powi (- 149) = fl_val 23 (- 149) f" using assms(2) by (simp add: fl_val_def)
  finally show "fl_val 52 (- 1074) ((874 + top_bit f) * 2 ^ 52 + (f * 2 ^ (52 - top_bit f) - 2 ^ 52)) = fl_val 23 (- 149) f"
    unfolding p_def .
qed

lemma f64_fl_make:
  assumes "s < 2" and "e < 2048" and "f < 2 ^ 52"
  shows "f64_fl (f64_make s e f) = (s = 1, e * 2 ^ 52 + f)"
  unfolding f64_fl_def mag_div_64 f64_make_fields [OF assms] by simp

lemma f32_to_f64_value:
  assumes "f32_is_finite w"
  shows "f64_is_finite (f32_to_f64 w)" and "fl_rat Double (f64_fl (f32_to_f64 w)) = fl_rat Single (f32_fl w)"
proof -
  obtain s e f where s: "f32_neg w = s" and e: "f32_exp w = e" and f: "f32_frac w = f" by blast
  have b: "s < 2" "e < 256" "f < 2 ^ 23" using f32_split(2-4) [of w] s e f by simp_all
  have fl: "f32_fl w = (s = 1, e * 2 ^ 23 + f)" unfolding f32_fl_def mag_div_32 s e f ..
  have e255: "e < 255" using assms b by (simp add: f32_is_finite_def fl_is_finite_def fl)
  consider "e = 0" "f = 0" | "e = 0" "0 < f" | "0 < e" by linarith
  then have "\<exists>N. f64_fl (f32_to_f64 w) = (s = 1, N) \<and> N < 2047 * 2 ^ 52 \<and> fl_val 52 (- 1074) N = fl_val 23 (- 149) (e * 2 ^ 23 + f)"
  proof cases
    case 1
    then show ?thesis using b by (simp add: f32_to_f64_def s e f f64_fl_make fl_val_def)
  next
    case 2
    note v = widen_subnormal_val [OF 2(2) b(3)]
    have "f32_to_f64 w = f64_make s (874 + top_bit f) (f * 2 ^ (52 - top_bit f) - 2 ^ 52)"
      using 2 by (simp add: f32_to_f64_def s e f Let_def)
    moreover have "(874 + top_bit f) * 2 ^ 52 + (f * 2 ^ (52 - top_bit f) - 2 ^ 52) < 2047 * 2 ^ 52"
    proof -
      have "(874 + top_bit f) * 2 ^ 52 \<le> 897 * 2 ^ 52" using v(2) by (intro mult_le_mono1) simp
      then show ?thesis using v(1) by linarith
    qed
    ultimately show ?thesis using f64_fl_make [OF b(1) _ v(1), of "874 + top_bit f"] v 2(1) by simp
  next
    case 3
    have "f * 2 ^ 29 < 2 ^ 52" using b(3) by simp
    moreover have "f32_to_f64 w = f64_make s (e + 896) (f * 2 ^ 29)" using 3 e255 by (simp add: f32_to_f64_def s e f)
    ultimately show ?thesis
      using f64_fl_make [OF b(1), of "e + 896" "f * 2 ^ 29"] widen_normal_val [OF 3 b(3)] e255 b(3) by simp
  qed
  then show "f64_is_finite (f32_to_f64 w)" "fl_rat Double (f64_fl (f32_to_f64 w)) = fl_rat Single (f32_fl w)"
    by (auto simp: f64_is_finite_def fl_is_finite_def fl_rat_def fl Let_def)
qed

lemma f64_lt_rat:
  assumes "f64_is_finite a" and "f64_is_finite b"
  shows "f64_lt a b \<longleftrightarrow> fl_rat Double (f64_fl a) < fl_rat Double (f64_fl b)"
  using fl_finite_not_nan [OF assms(1) [unfolded f64_is_finite_def]]
    fl_finite_not_nan [OF assms(2) [unfolded f64_is_finite_def]] fl_key_le_iff [of "f64_fl b" "f64_fl a" Double]
  by (auto simp: f64_lt_def f64_is_nan_fl f64_order_key not_le)

section \<open>The unit interval\<close>

definition f32_unit :: "f32 \<Rightarrow> bool" where
  "f32_unit v \<longleftrightarrow> f32_is_finite v \<and> 0 \<le> fl_rat Single (f32_fl v) \<and> fl_rat Single (f32_fl v) \<le> 1"

lemma f32_one_value: "f32_fl f32_one = (False, 127 * 2 ^ 23)" "fl_rat Single (f32_fl f32_one) = 1" "f32_is_finite f32_one"
proof -
  show fl: "f32_fl f32_one = (False, 127 * 2 ^ 23)" by (simp add: f32_fl_def f32_neg_def f32_one_def)
  show "fl_rat Single (f32_fl f32_one) = 1" unfolding fl by (rule fl_rat_one)
  show "f32_is_finite f32_one" unfolding f32_is_finite_def fl fl_is_finite_def by simp
qed

lemma f32_zero_value: "fl_rat Single (f32_fl 0) = 0" "f32_is_finite 0"
  by (simp_all add: f32_zero_fl fl_rat_zero f32_is_finite_def fl_is_finite_def)

lemma f32_unit_round:
  assumes "0 \<le> v" and "v \<le> 1"
  shows "f32_unit (f32_of (fl_round Single s v))"
proof -
  define x where "x = fl_round Single s v"
  have one: "fl_round Single False 1 = (False, 127 * 2 ^ 23)"
    using fl_round_exact [of "(False, 127 * 2 ^ 23)" Single] unfolding fl_rat_one fst_conv by simp
  have "fl_key (fl_round Single False 0) \<le> fl_key x" "fl_key x \<le> fl_key (fl_round Single False 1)"
    unfolding x_def by (rule fl_key_round_mono [OF assms(1)], rule fl_key_round_mono [OF assms(2)])
  then have k: "fl_key (False, 0) \<le> fl_key x" "fl_key x \<le> fl_key (False, 127 * 2 ^ 23)"
    unfolding one by (simp_all add: fl_round_def)
  have "0 \<le> fl_rat Single x" "fl_rat Single x \<le> 1"
    using k fl_key_le_iff [of _ _ Single] fl_rat_one fl_rat_zero [of Single False] by metis+
  moreover have "snd x < inf_mag Single" using k by (auto simp: fl_key_def split: if_splits)
  moreover from this have "f32_fl (f32_of x) = x" by (intro f32_fl_of) simp
  ultimately show ?thesis
    unfolding x_def [symmetric] f32_unit_def f32_is_finite_def fl_is_finite_def by simp
qed

lemma f32_unit_one_minus:
  assumes "f32_unit a"
  shows "f32_unit (f32_sub f32_one a)"
proof -
  obtain s where "fl_sub Single (f32_fl f32_one) (f32_fl a) = fl_round Single s (1 - fl_rat Single (f32_fl a))"
    using fl_sub_finite [of Single "f32_fl f32_one" "f32_fl a"] assms f32_one_value
    by (auto simp: f32_unit_def f32_is_finite_def)
  then show ?thesis using assms unfolding f32_sub_def by (simp add: f32_unit_def [of a] f32_unit_round)
qed

lemma f32_unit_mul:
  assumes "f32_unit a" and "f32_unit b"
  shows "f32_unit (f32_mul a b)"
proof -
  have "fl_mul Single (f32_fl a) (f32_fl b)
      = fl_round Single (fst (f32_fl a) \<noteq> fst (f32_fl b)) (fl_rat Single (f32_fl a) * fl_rat Single (f32_fl b))"
    using assms by (simp add: fl_mul_def f32_unit_def f32_is_finite_def fl_finite_not_nan fl_is_finite_def fl_is_inf_def)
  then show ?thesis
    using assms unfolding f32_mul_def by (simp add: f32_unit_def [of a] f32_unit_def [of b] f32_unit_round mult_le_one)
qed

lemma f32_clamp_unit:
  assumes "\<not> f32_is_nan p"
  shows "f32_unit (f32_clamp p 0 f32_one)"
    and "fl_rat Single (f32_fl (f32_clamp p 0 f32_one)) = min 1 (max 0 (fl_rat Single (f32_fl p)))"
proof -
  have n: "\<not> f32_is_nan 0" "\<not> f32_is_nan f32_one"
    using f32_zero_value(2) f32_one_value(3)
    unfolding f32_is_nan_fl f32_is_finite_def by (simp_all add: fl_finite_not_nan)
  have lt: "f32_lt a b \<longleftrightarrow> fl_rat Single (f32_fl a) < fl_rat Single (f32_fl b)" if "\<not> f32_is_nan a" "\<not> f32_is_nan b" for a b
    using that fl_key_le_iff [of "f32_fl b" "f32_fl a" Single] by (auto simp: f32_lt_def f32_order_key not_le)
  have fin: "f32_is_finite a" if "\<not> f32_is_nan a" "0 \<le> fl_rat Single (f32_fl a)" "fl_rat Single (f32_fl a) \<le> 1" for a
  proof -
    have "fl_key (f32_fl a) \<le> fl_key (f32_fl f32_one)" "fl_key (f32_fl 0) \<le> fl_key (f32_fl a)"
      using that unfolding fl_key_le_iff [of _ _ Single] f32_one_value(2) f32_zero_value(1) by simp_all
    then show ?thesis
      unfolding f32_one_value f32_zero_fl f32_is_finite_def fl_is_finite_def by (auto simp: fl_key_def split: if_splits)
  qed
  show v: "fl_rat Single (f32_fl (f32_clamp p 0 f32_one)) = min 1 (max 0 (fl_rat Single (f32_fl p)))"
    using assms n by (auto simp: f32_clamp_def Let_def lt f32_zero_value(1) f32_one_value(2))
  have "\<not> f32_is_nan (f32_clamp p 0 f32_one)" using assms n by (simp add: f32_clamp_def Let_def)
  then have "f32_is_finite (f32_clamp p 0 f32_one)" by (rule fin) (simp_all add: v)
  then show "f32_unit (f32_clamp p 0 f32_one)" by (simp add: f32_unit_def v)
qed

end
