(* ===== verification/Omf_Region.thy ===== *)
theory Omf_Region
  imports Omf_Geometry Omf_Widen Omf_Section Omf_Fingerprint
begin

text \<open>
  Region annotations (\<open>crates/map-format/src/region.rs\<close>): the 20-byte feature record, polygon outlines,
  the bucket index over them and the event decisions. The hash map of buckets is a map from bucket
  coordinates to feature indices; a bucket coordinate, an \<open>i32\<close> in the code, is an integer in that
  range. Indexing out of range, which panics, is \<open>None\<close>. The lemmas show that the index answers as a
  scan of every feature would, at any bucket size, that a region set survives encoding, and the range
  of the loss probability and of the event decision.
\<close>

section \<open>Features\<close>

datatype region_tag = HighRise | Overpass | Canyon | Tunnel | Indoor | MagneticDisturbance

definition region_tag_from_u16 :: "u16 \<Rightarrow> region_tag option" where
  "region_tag_from_u16 v =
     (if v = 0 then Some HighRise
      else if v = 1 then Some Overpass
      else if v = 2 then Some Canyon
      else if v = 3 then Some Tunnel
      else if v = 4 then Some Indoor
      else if v = 5 then Some MagneticDisturbance
      else None)"

datatype trigger_mode = Probabilistic | SpatialDeterministic

fun trigger_mode_u8 :: "trigger_mode \<Rightarrow> u8" where
  "trigger_mode_u8 Probabilistic = 0"
| "trigger_mode_u8 SpatialDeterministic = 1"

definition trigger_mode_from_u8 :: "u8 \<Rightarrow> trigger_mode option" where
  "trigger_mode_from_u8 v =
     (if v = 0 then Some Probabilistic else if v = 1 then Some SpatialDeterministic else None)"

lemma trigger_mode_from_to [simp]: "trigger_mode_from_u8 (trigger_mode_u8 m) = Some m"
  by (cases m) (simp_all add: trigger_mode_from_u8_def)

record region_feature =
  rf_tag_id :: u16
  rf_geom_ref :: u16
  rf_p_mp :: f32
  rf_mp_bias_m :: f32
  rf_p_loss :: f32
  rf_mp_mode :: trigger_mode

definition region_feature_tag :: "region_feature \<Rightarrow> region_tag option" where
  "region_feature_tag f = region_tag_from_u16 (rf_tag_id f)"

definition region_feature_to_bytes :: "region_feature \<Rightarrow> bytes" where
  "region_feature_to_bytes f =
     puts [\<lambda>b. put_u16 b 0 (rf_tag_id f),
           \<lambda>b. put_u16 b 2 (rf_geom_ref f),
           \<lambda>b. put_f32 b 4 (rf_p_mp f),
           \<lambda>b. put_f32 b 8 (rf_mp_bias_m f),
           \<lambda>b. put_f32 b 12 (rf_p_loss f),
           \<lambda>b. put_u8 b 16 (trigger_mode_u8 (rf_mp_mode f))]
       (replicate 20 0)"

definition region_feature_from_bytes :: "bytes \<Rightarrow> region_feature result" where
  "region_feature_from_bytes buf =
     (if length buf < 20 then Inl (Truncated 0 20 (length buf))
      else
        rbind (get_u8 buf 16) (\<lambda>mode_raw.
        rbind (get_u16 buf 0) (\<lambda>tag_id.
        rbind (get_u16 buf 2) (\<lambda>geom_ref.
        rbind (get_f32 buf 4) (\<lambda>p_mp.
        rbind (get_f32 buf 8) (\<lambda>mp_bias_m.
        rbind (get_f32 buf 12) (\<lambda>p_loss.
          Inr \<lparr>rf_tag_id = tag_id, rf_geom_ref = geom_ref, rf_p_mp = p_mp, rf_mp_bias_m = mp_bias_m,
               rf_p_loss = p_loss,
               rf_mp_mode = (case trigger_mode_from_u8 mode_raw of Some m \<Rightarrow> m | None \<Rightarrow> Probabilistic)\<rparr>)))))))"

lemma region_feature_layout:
  "region_feature_to_bytes f =
     layout (le_bytes 2 (rf_tag_id f) @ le_bytes 2 (rf_geom_ref f) @ le_bytes 4 (rf_p_mp f)
       @ le_bytes 4 (rf_mp_bias_m f) @ le_bytes 4 (rf_p_loss f) @ [trigger_mode_u8 (rf_mp_mode f)]) 3"
  by (simp add: region_feature_to_bytes_def layout_simps)

interpretation region_feature_record:
  fixed_record 20 region_feature_to_bytes region_feature_from_bytes "\<lambda>_. True"
proof unfold_locales
  show "length (region_feature_to_bytes f) = 20" for f
    by (simp add: region_feature_layout layout_def)
  show "region_feature_from_bytes (region_feature_to_bytes f @ rest) = Inr f" for f rest
    unfolding region_feature_layout region_feature_from_bytes_def by (simp add: field_reads cong: rbind_cong)
  show "length bs < 20 \<Longrightarrow> region_feature_from_bytes bs = Inl (Truncated 0 20 (length bs))" for bs
    by (simp add: region_feature_from_bytes_def)
qed simp

section \<open>Outlines\<close>

type_synonym outline = "(f32 \<times> f32) list"

definition point_box :: "f32 \<times> f32 \<Rightarrow> aabb" where
  "point_box p = aabb_new (f32_to_f64 (fst p)) (f32_to_f64 (snd p)) (f32_to_f64 (fst p)) (f32_to_f64 (snd p))"

definition outline_bounds :: "outline \<Rightarrow> aabb" where
  "outline_bounds points =
     (case points of
        [] \<Rightarrow> aabb_new 0 0 0 0
      | p # ps \<Rightarrow> fold (\<lambda>q b. aabb_union b (point_box q)) ps (point_box p))"

text \<open>The loop over the edges; the state is the index of the previous vertex and \<open>inside\<close>.\<close>

definition crosses :: "f64 \<Rightarrow> f64 \<Rightarrow> outline \<Rightarrow> nat \<Rightarrow> nat \<Rightarrow> bool" where
  "crosses x y polygon i j =
     (let xi = f32_to_f64 (fst (polygon ! i)); yi = f32_to_f64 (snd (polygon ! i));
          xj = f32_to_f64 (fst (polygon ! j)); yj = f32_to_f64 (snd (polygon ! j))
      in if f64_lt y yi \<noteq> f64_lt y yj
         then let t = f64_div (f64_sub y yi) (f64_sub yj yi)
              in f64_lt x (f64_add xi (f64_mul t (f64_sub xj xi)))
         else False)"

definition point_in_polygon :: "f64 \<Rightarrow> f64 \<Rightarrow> outline \<Rightarrow> bool" where
  "point_in_polygon x y polygon =
     (if length polygon < 3 then False
      else snd (fold (\<lambda>i (j, inside). (i, if crosses x y polygon i j then \<not> inside else inside))
             [0..<length polygon] (length polygon - 1, False)))"

section \<open>Region sets\<close>

type_synonym buckets = "int \<times> int \<Rightarrow> u32 list option"

record region_set =
  rs_features :: "region_feature list"
  rs_polygons :: "outline list"
  rs_bounds :: "aabb list"
  rs_buckets :: buckets
  rs_bucket_size_m :: f32

definition region_default :: region_set where
  "region_default = \<lparr>rs_features = [], rs_polygons = [], rs_bounds = [], rs_buckets = Map.empty,
     rs_bucket_size_m = 0\<rparr>"

definition MAX_REGION_BUCKETS :: int where "MAX_REGION_BUCKETS = 2 ^ 22"

definition bucket_of :: "f32 \<Rightarrow> f64 \<Rightarrow> f64 \<Rightarrow> int \<times> int" where
  "bucket_of size_m x y =
     (f64_to_i32 (f64_floor (f64_div x (f32_to_f64 size_m))),
      f64_to_i32 (f64_floor (f64_div y (f32_to_f64 size_m))))"

definition push_bucket :: "u32 \<Rightarrow> int \<times> int \<Rightarrow> buckets \<Rightarrow> buckets" where
  "push_bucket index key m = m(key \<mapsto> (case m key of None \<Rightarrow> [] | Some l \<Rightarrow> l) @ [index])"

text \<open>The cells of the loops \<open>for iy in iy0..=iy1\<close>, \<open>for ix in ix0..=ix1\<close>.\<close>

definition bucket_cells :: "int \<times> int \<Rightarrow> int \<times> int \<Rightarrow> (int \<times> int) list" where
  "bucket_cells lo hi =
     concat (map (\<lambda>iy. map (\<lambda>ix. (ix, iy)) [fst lo..fst hi]) [snd lo..snd hi])"

text \<open>The conversion \<open>as u128\<close> of a difference of \<open>i64\<close> values.\<close>

definition as_u128 :: "int \<Rightarrow> int" where
  "as_u128 n = n mod 2 ^ 128"

definition bucket_span :: "int \<times> int \<Rightarrow> int \<times> int \<Rightarrow> int" where
  "bucket_span lo hi = as_u128 (fst hi - fst lo + 1) * as_u128 (snd hi - snd lo + 1)"

text \<open>The loop of \<open>rebuild_index\<close>: on the error the buckets filled so far stay.\<close>

fun index_features :: "f32 \<Rightarrow> aabb list \<Rightarrow> nat \<Rightarrow> region_feature list \<Rightarrow> buckets \<Rightarrow> buckets \<times> unit result" where
  "index_features size_m bounds index [] m = (m, Inr ())"
| "index_features size_m bounds index (f # fs) m =
     (if unat (rf_geom_ref f) < length bounds then
        let b = bounds ! unat (rf_geom_ref f);
            lo = bucket_of size_m (min_x b) (min_y b);
            hi = bucket_of size_m (max_x b) (max_y b)
        in if bucket_span lo hi > MAX_REGION_BUCKETS
           then (m, Inl (invalid (''region '' @ show_nat index @ '' spans '' @ show_nat (nat (bucket_span lo hi))
                      @ '' spatial-index buckets, over the '' @ show_nat (nat MAX_REGION_BUCKETS) @ '' limit'')))
           else index_features size_m bounds (Suc index) fs
                  (fold (push_bucket (word_of_nat index)) (bucket_cells lo hi) m)
      else index_features size_m bounds (Suc index) fs m)"

definition rebuild_index :: "region_set \<Rightarrow> region_set \<times> unit result" where
  "rebuild_index s =
     (let (m, r) = index_features (rs_bucket_size_m s) (rs_bounds s) 0 (rs_features s) Map.empty
      in (s\<lparr>rs_buckets := m\<rparr>, r))"

definition finite_point :: "f32 \<times> f32 \<Rightarrow> bool" where
  "finite_point p \<longleftrightarrow> f32_is_finite (fst p) \<and> f32_is_finite (snd p)"

definition f32_fifty :: f32 where "f32_fifty = 0x42480000"

definition region_set_new :: "region_feature list \<Rightarrow> outline list \<Rightarrow> region_set result" where
  "region_set_new features polygons =
     (case find (\<lambda>f. unat (rf_geom_ref f) \<ge> length polygons) features of
        Some f \<Rightarrow> Inl (invalid (''region references outline '' @ show_nat (unat (rf_geom_ref f)) @ '', only ''
                    @ show_nat (length polygons) @ '' present''))
      | None \<Rightarrow>
          if \<exists>p \<in> set (concat polygons). \<not> finite_point p
          then Inl (invalid ''region outline has a non-finite point'')
          else
            let (s, r) = rebuild_index \<lparr>rs_features = features, rs_polygons = polygons,
                  rs_bounds = map outline_bounds polygons, rs_buckets = Map.empty,
                  rs_bucket_size_m = f32_fifty\<rparr>
            in rbind r (\<lambda>_. Inr s))"

definition region_set_is_empty :: "region_set \<Rightarrow> bool" where
  "region_set_is_empty s \<longleftrightarrow> rs_features s = []"

definition region_outline :: "region_set \<Rightarrow> region_feature \<Rightarrow> outline option" where
  "region_outline s f =
     (if unat (rf_geom_ref f) < length (rs_polygons s) then Some (rs_polygons s ! unat (rf_geom_ref f)) else None)"

definition f32_max :: "f32 \<Rightarrow> f32 \<Rightarrow> f32" where
  "f32_max a b = (if f32_is_nan a then b else if f32_is_nan b then a else if f32_lt a b then b else a)"

definition set_bucket_size :: "f32 \<Rightarrow> region_set \<Rightarrow> region_set \<times> unit result" where
  "set_bucket_size size_m s = rebuild_index (s\<lparr>rs_bucket_size_m := f32_max size_m f32_one\<rparr>)"

text \<open>The two filters of \<open>regions_at\<close> on one candidate.\<close>

definition region_hit :: "region_set \<Rightarrow> f64 \<Rightarrow> f64 \<Rightarrow> nat \<Rightarrow> bool option" where
  "region_hit s x y i =
     (if \<not> i < length (rs_features s) then None
      else
        let g = unat (rf_geom_ref (rs_features s ! i))
        in if \<not> g < length (rs_bounds s) then None
           else if \<not> aabb_contains (rs_bounds s ! g) x y then Some False
           else if \<not> g < length (rs_polygons s) then None
           else Some (point_in_polygon x y (rs_polygons s ! g)))"

definition regions_at :: "region_set \<Rightarrow> f64 \<Rightarrow> f64 \<Rightarrow> nat list option" where
  "regions_at s x y =
     (case rs_buckets s (bucket_of (rs_bucket_size_m s) x y) of
        None \<Rightarrow> Some []
      | Some candidates \<Rightarrow>
          map_option (\<lambda>hits. map fst (filter snd hits))
            (those (map (\<lambda>i. map_option (Pair i) (region_hit s x y i)) (map unat candidates))))"

definition features_at :: "region_set \<Rightarrow> f64 \<Rightarrow> f64 \<Rightarrow> region_feature list option" where
  "features_at s x y = map_option (map ((!) (rs_features s))) (regions_at s x y)"

definition combine_loss :: "f32 \<Rightarrow> f32 \<Rightarrow> f32" where
  "combine_loss p acc =
     f32_sub f32_one (f32_mul (f32_sub f32_one acc) (f32_sub f32_one (f32_clamp p 0 f32_one)))"

definition loss_probability_at :: "region_set \<Rightarrow> f64 \<Rightarrow> f64 \<Rightarrow> f32 option" where
  "loss_probability_at s x y =
     map_option (\<lambda>fs. fold combine_loss (map rf_p_loss fs) 0) (features_at s x y)"

section \<open>The payload\<close>

definition region_set_body :: "region_set \<Rightarrow> bytes" where
  "region_set_body s =
     write_seq [write_list_u16 (\<lambda>f. write_bytes (region_feature_to_bytes f)) (rs_features s),
                write_list_u16 (write_list_u16 (\<lambda>p. write_seq [write_f32 (fst p), write_f32 (snd p)]))
                  (rs_polygons s)] []"

definition region_set_encode :: "region_set \<Rightarrow> bytes" where
  "region_set_encode s = write_section Vectors (region_set_body s)"

definition read_region_set :: "(region_feature list \<times> outline list) rd" where
  "read_region_set =
     rd_bind (read_list_u16 (read_record 20 region_feature_from_bytes)) (\<lambda>features.
     rd_bind (read_list_u16 (read_list_u16
       (rd_bind read_f32 (\<lambda>x. rd_bind read_f32 (\<lambda>y. rd_return (x, y)))))) (\<lambda>polygons.
       rd_return (features, polygons)))"

definition region_set_decode :: "bytes \<Rightarrow> region_set result" where
  "region_set_decode bs =
     rbind (section_find Vectors (reader_new bs)) (\<lambda>found.
     case found of
       None \<Rightarrow> Inr region_default
     | Some payload \<Rightarrow> rbind (rd_run read_region_set payload) (\<lambda>(features, polygons).
         region_set_new features polygons))"

section \<open>Event decisions\<close>

record region_event =
  se_triggered :: bool
  se_direction_rad :: f32
  se_magnitude :: f32

definition event_hash :: "xxh64_fn \<Rightarrow> u64 \<Rightarrow> u16 \<Rightarrow> u32 \<Rightarrow> u64" where
  "event_hash xxh64 seed region_id entry_index = xxh64 seed (le_bytes 2 region_id @ le_bytes 4 entry_index)"

text \<open>The constants are \<open>u32::MAX as f64\<close>, \<open>TAU\<close> and \<open>65535.0\<close>.\<close>

definition hash_event :: "u64 \<Rightarrow> f32 \<Rightarrow> region_event" where
  "hash_event h probability =
     (let unit = f64_div (f64_of_nat (unat (drop_bit 11 h))) (f64_of_nat (2 ^ 53))
      in \<lparr>se_triggered = f64_lt unit (f32_to_f64 (f32_clamp probability 0 f32_one)),
          se_direction_rad = f64_to_f32 (f64_mul (f64_div (f64_of_nat (unat (ucast (drop_bit 32 h) :: u32)))
                                                    (f64_of_nat (2 ^ 32 - 1))) 0x401921FB54442D18),
          se_magnitude = f32_div (f32_of_int (uint (h AND 0xFFFF))) 0x477FFF00\<rparr>)"

definition spatial_event :: "xxh64_fn \<Rightarrow> u64 \<Rightarrow> u16 \<Rightarrow> u32 \<Rightarrow> f32 \<Rightarrow> region_event" where
  "spatial_event xxh64 seed region_id entry_index probability =
     hash_event (event_hash xxh64 seed region_id entry_index) probability"

section \<open>The index answers as a scan\<close>

definition bucket_list :: "buckets \<Rightarrow> int \<times> int \<Rightarrow> u32 list" where
  "bucket_list m key = (case m key of None \<Rightarrow> [] | Some l \<Rightarrow> l)"

definition in_buckets :: "f32 \<Rightarrow> aabb \<Rightarrow> int \<times> int \<Rightarrow> bool" where
  "in_buckets size_m b key \<longleftrightarrow> key \<in> set (bucket_cells (bucket_of size_m (min_x b) (min_y b)) (bucket_of size_m (max_x b) (max_y b)))"

definition region_inside :: "region_feature list \<Rightarrow> outline list \<Rightarrow> f64 \<Rightarrow> f64 \<Rightarrow> nat \<Rightarrow> bool" where
  "region_inside features polygons x y i =
     (let polygon = polygons ! unat (rf_geom_ref (features ! i))
      in aabb_contains (outline_bounds polygon) x y \<and> point_in_polygon x y polygon)"

lemma set_bucket_cells: "set (bucket_cells lo hi) = {fst lo..fst hi} \<times> {snd lo..snd hi}"
  by (auto simp: bucket_cells_def)

lemma distinct_bucket_cells: "distinct (bucket_cells lo hi)"
proof (cases "fst lo \<le> fst hi")
  case True
  then show ?thesis
    unfolding bucket_cells_def by (intro distinct_concat) (auto simp: distinct_map inj_on_def dest!: map_eq_imp_length_eq)
next
  case False
  then have "bucket_cells lo hi = []" by (simp add: bucket_cells_def)
  then show ?thesis by simp
qed

lemma bucket_list_push: "bucket_list (push_bucket i key m) k = (if k = key then bucket_list m k @ [i] else bucket_list m k)"
  by (simp add: bucket_list_def push_bucket_def)

lemma bucket_list_fold:
  "distinct cells \<Longrightarrow>
     bucket_list (fold (push_bucket i) cells m) k = bucket_list m k @ (if k \<in> set cells then [i] else [])"
  by (induction cells arbitrary: m) (auto simp: bucket_list_push)

lemma index_features_lists:
  assumes "index_features size_m bounds index fs m = (m', Inr ())"
    and "\<forall>f \<in> set fs. unat (rf_geom_ref f) < length bounds"
  shows "bucket_list m' key = bucket_list m key
    @ map (\<lambda>(i, f). word_of_nat i) (filter (\<lambda>(i, f). in_buckets size_m (bounds ! unat (rf_geom_ref f)) key) (enumerate index fs))"
  using assms
proof (induction size_m bounds index fs m rule: index_features.induct)
  case (2 size_m bounds index f fs m)
  let ?b = "bounds ! unat (rf_geom_ref f)"
  let ?cells = "bucket_cells (bucket_of size_m (min_x ?b) (min_y ?b)) (bucket_of size_m (max_x ?b) (max_y ?b))"
  have g: "unat (rf_geom_ref f) < length bounds" using 2(4) by simp
  with 2(3) have s: "\<not> bucket_span (bucket_of size_m (min_x ?b) (min_y ?b)) (bucket_of size_m (max_x ?b) (max_y ?b)) > MAX_REGION_BUCKETS"
    and rest: "index_features size_m bounds (Suc index) fs (fold (push_bucket (word_of_nat index)) ?cells m) = (m', Inr ())"
    by (auto simp: Let_def split: if_splits)
  from 2(1) [OF g refl refl refl s rest] 2(4)
  show ?case by (simp add: bucket_list_fold distinct_bucket_cells in_buckets_def)
qed simp

lemma enumerate_filter:
  "map (\<lambda>(i, f). g i) (filter (\<lambda>(i, f). P f) (enumerate 0 fs)) = map g (filter (\<lambda>i. P (fs ! i)) [0..<length fs])"
proof -
  have e: "enumerate 0 fs = map (\<lambda>i. (i, fs ! i)) [0..<length fs]"
    by (rule nth_equalityI) (simp_all add: nth_enumerate_eq)
  show ?thesis unfolding e by (simp add: filter_map comp_def)
qed

text \<open>The coordinates of a position inside a box lie between those of its corners.\<close>

lemma bucket_of_between:
  assumes "f64_positive (f32_to_f64 size_m)" and "aabb_contains b x y"
  shows "in_buckets size_m b (bucket_of size_m x y)"
  using assms unfolding in_buckets_def set_bucket_cells
  by (auto simp: bucket_of_def aabb_contains_def intro!: f64_to_i32_mono f64_floor_mono f64_div_mono)

definition indexed :: "region_set \<Rightarrow> bool" where
  "indexed s \<longleftrightarrow> rs_bounds s = map outline_bounds (rs_polygons s)
     \<and> (\<forall>f \<in> set (rs_features s). unat (rf_geom_ref f) < length (rs_polygons s))
     \<and> index_features (rs_bucket_size_m s) (rs_bounds s) 0 (rs_features s) Map.empty = (rs_buckets s, Inr ())
     \<and> f64_positive (f32_to_f64 (rs_bucket_size_m s))"

lemma those_map_pointwise: "(\<And>i. i \<in> set xs \<Longrightarrow> f i = Some (g i)) \<Longrightarrow> those (map f xs) = Some (map g xs)"
  by (induction xs) auto

lemma indexed_regions_at:
  assumes "indexed s" and "length (rs_features s) \<le> 2 ^ 32"
  shows "regions_at s x y
    = Some (filter (region_inside (rs_features s) (rs_polygons s) x y) [0..<length (rs_features s)])"
proof -
  define fs where "fs = rs_features s"
  define inside where "inside = region_inside fs (rs_polygons s) x y"
  define covered where "covered i = in_buckets (rs_bucket_size_m s) (rs_bounds s ! unat (rf_geom_ref (fs ! i)))
      (bucket_of (rs_bucket_size_m s) x y)" for i
  have ok: "rs_bounds s = map outline_bounds (rs_polygons s)" "\<forall>f \<in> set fs. unat (rf_geom_ref f) < length (rs_polygons s)"
    and idx: "index_features (rs_bucket_size_m s) (rs_bounds s) 0 fs Map.empty = (rs_buckets s, Inr ())"
    and pos: "f64_positive (f32_to_f64 (rs_bucket_size_m s))"
    using assms(1) by (auto simp: indexed_def fs_def)
  have small: "i < 2 ^ 32" if "i < length fs" for i using that assms(2) by (simp add: fs_def)
  have cand: "map unat (bucket_list (rs_buckets s) (bucket_of (rs_bucket_size_m s) x y)) = filter covered [0..<length fs]"
  proof -
    have "bucket_list (rs_buckets s) (bucket_of (rs_bucket_size_m s) x y)
        = map word_of_nat (filter covered [0..<length fs])"
      using index_features_lists [OF idx] ok
      by (simp add: enumerate_filter bucket_list_def [of Map.empty] covered_def [abs_def])
    moreover have "map (unat \<circ> (word_of_nat :: nat \<Rightarrow> u32)) (filter covered [0..<length fs]) = filter covered [0..<length fs]"
      using small by (intro map_idI) (auto simp: unat_of_nat_u32)
    ultimately show ?thesis by simp
  qed
  have hit: "region_hit s x y i = Some (inside i)" if "i < length fs" for i
    using that ok by (auto simp: region_hit_def inside_def region_inside_def Let_def fs_def)
  have sub: "covered i" if "i < length fs" "inside i" for i
    using that ok bucket_of_between [OF pos, of _ x y]
    by (auto simp: covered_def inside_def region_inside_def Let_def)
  have "those (map (\<lambda>i. map_option (Pair i) (region_hit s x y i)) (filter covered [0..<length fs]))
      = Some (map (\<lambda>i. (i, inside i)) (filter covered [0..<length fs]))"
    by (rule those_map_pointwise) (simp add: hit)
  then have "regions_at s x y = Some (map fst (filter snd (map (\<lambda>i. (i, inside i)) (filter covered [0..<length fs]))))"
    using cand by (auto simp: regions_at_def bucket_list_def simp del: map_map split: option.splits)
  also have "map fst (filter snd (map (\<lambda>i. (i, inside i)) (filter covered [0..<length fs]))) = filter inside [0..<length fs]"
    using sub by (auto simp: filter_map comp_def intro!: filter_cong)
  finally show ?thesis by (simp add: inside_def fs_def)
qed

lemma find_None_all: "find P xs = None \<Longrightarrow> \<forall>x \<in> set xs. \<not> P x"
  by (auto simp: find_None_iff)

lemma fifty_positive: "f64_positive (f32_to_f64 f32_fifty)"
proof -
  have "f32_to_f64 f32_fifty = 0x4049000000000000"
    by (simp add: f32_to_f64_def f32_fifty_def f32_exp_def f32_frac_def f32_neg_def f64_make_def)
  then show ?thesis by (simp add: f64_positive_def f64_cmp_eval f64_is_finite_def fl_is_finite_def f64_fl_def)
qed

lemma region_set_new_Inr:
  assumes "region_set_new features polygons = Inr s"
  shows "indexed s" and "rs_features s = features" and "rs_polygons s = polygons" and "rs_bucket_size_m s = f32_fifty"
    and "rs_bounds s = map outline_bounds polygons"
  using assms fifty_positive
  by (auto simp: region_set_new_def rebuild_index_def indexed_def rbind_Inr_iff not_le
      dest!: find_None_all split: option.splits if_splits prod.splits)

text \<open>Any bucket size but infinity gives a positive divisor: it is at least one.\<close>

lemma f32_max_one_positive:
  assumes "size_m \<noteq> 0x7F800000"
  shows "f64_positive (f32_to_f64 (f32_max size_m f32_one))"
proof -
  define w where "w = f32_max size_m f32_one"
  have one: "f32_order f32_one = 127 * 2 ^ 23" "\<not> f32_is_nan f32_one"
    by (simp_all add: f32_order_def f32_one_def f32_neg_def f32_is_nan_def f32_exp_def f32_frac_def)
  have "f32_order f32_one \<le> f32_order w" "\<not> f32_is_nan w"
    using one by (auto simp: w_def f32_max_def f32_lt_def)
  moreover have "w \<noteq> 0x7F800000" using assms by (auto simp: w_def f32_max_def f32_one_def)
  ultimately show ?thesis unfolding w_def [symmetric] using f32_widen_positive one by simp
qed

lemma set_bucket_size_indexed:
  assumes "indexed s" and "size_m \<noteq> 0x7F800000" and "set_bucket_size size_m s = (s', Inr ())"
  shows "indexed s'" and "rs_features s' = rs_features s" and "rs_polygons s' = rs_polygons s"
  using assms f32_max_one_positive [OF assms(2)]
  by (auto simp: indexed_def set_bucket_size_def rebuild_index_def split: prod.splits)

section \<open>The payload survives\<close>

definition region_set_fits :: "region_feature list \<Rightarrow> outline list \<Rightarrow> bool" where
  "region_set_fits features polygons \<longleftrightarrow> length features \<le> 65535 \<and> length polygons \<le> 65535
     \<and> list_all (\<lambda>p. length p \<le> 65535) polygons"

lemma appending_write_list_u16 [wire_simps]: "(\<And>x. appending (f x)) \<Longrightarrow> appending (write_list_u16 f xs)"
  by (rule write_lists_append)

lemma region_set_body_bytes:
  "region_set_body s = list_bytes_u16 region_feature_to_bytes (rs_features s)
     @ list_bytes_u16 (list_bytes_u16 (\<lambda>p. le_bytes 4 (fst p) @ le_bytes 4 (snd p))) (rs_polygons s)"
  by (simp add: region_set_body_def wire_simps)

lemma reads_region_set:
  assumes "region_set_fits (rs_features s) (rs_polygons s)"
  shows "reads read_region_set (region_set_body s) (rs_features s, rs_polygons s)"
  unfolding read_region_set_def region_set_body_bytes
proof (rule reads_bind)
  show "reads (read_list_u16 (read_record 20 region_feature_from_bytes))
      (list_bytes_u16 region_feature_to_bytes (rs_features s)) (rs_features s)"
    using assms by (intro reads_list_u16 region_feature_record.reads_record) (simp_all add: region_set_fits_def)
  have point: "reads (rd_bind read_f32 (\<lambda>x. rd_bind read_f32 (\<lambda>y. rd_return (x, y))))
      (le_bytes 4 (fst p) @ le_bytes 4 (snd p)) p" for p :: "f32 \<times> f32"
    by (rule reads_bind, rule reads_scalar, rule reads_bind_last, rule reads_scalar) (simp add: reads_return_eq)
  show "reads (rd_bind (read_list_u16 (read_list_u16
       (rd_bind read_f32 (\<lambda>x. rd_bind read_f32 (\<lambda>y. rd_return (x, y)))))) (\<lambda>polygons.
       rd_return (rs_features s, polygons)))
    (list_bytes_u16 (list_bytes_u16 (\<lambda>p. le_bytes 4 (fst p) @ le_bytes 4 (snd p))) (rs_polygons s))
    (rs_features s, rs_polygons s)"
    using assms by (intro reads_bind_last [OF reads_list_u16] reads_list_u16 point reads_return_eq)
      (auto simp: region_set_fits_def list_all_iff)
qed

lemma region_set_roundtrip:
  assumes "region_set_fits (rs_features s) (rs_polygons s)" and "length (region_set_body s) < 2 ^ 32"
  shows "region_set_decode (region_set_encode s) = region_set_new (rs_features s) (rs_polygons s)"
proof -
  have "section_find Vectors (reader_new (region_set_encode s)) = Inr (Some (region_set_body s))"
    using section_find_at [of "[(section_id_u16 Vectors, region_set_body s)]" "[]" Vectors] assms(2)
    by (simp add: region_set_encode_def write_section_bytes reader_new_rd_at section_ok_def fits_def
        length_section_bytes)
  moreover have "rd_run read_region_set (region_set_body s) = Inr (rs_features s, rs_polygons s)"
    using assms(2) by (intro rd_run_reads_all reads_region_set assms(1)) (simp add: fits_def)
  ultimately show ?thesis by (simp add: region_set_decode_def)
qed

section \<open>Probabilities and events\<close>

lemma loss_fold_unit:
  assumes "f32_unit acc" and "\<forall>p \<in> set ps. \<not> f32_is_nan p"
  shows "f32_unit (fold combine_loss ps acc)"
  using assms
proof (induction ps arbitrary: acc)
  case (Cons p ps)
  have "f32_unit (combine_loss p acc)"
    unfolding combine_loss_def using Cons.prems
    by (intro f32_unit_one_minus f32_unit_mul f32_clamp_unit(1)) simp_all
  then show ?case using Cons by simp
qed simp

lemma f32_of_nan: "f32_is_nan (f32_of (fl_nan Single))"
  by (simp add: f32_is_nan_fl f32_fl_of fl_nan_def fl_is_nan_def)

lemma f32_nan_spreads:
  "f32_is_nan a \<or> f32_is_nan b \<Longrightarrow> f32_is_nan (f32_sub a b)" "f32_is_nan a \<or> f32_is_nan b \<Longrightarrow> f32_is_nan (f32_mul a b)"
  "f32_is_nan a \<Longrightarrow> f32_is_nan (f32_clamp a lo hi)"
proof -
  have neg: "fl_is_nan Single (fl_negate x) = fl_is_nan Single x" for x by (simp add: fl_is_nan_def fl_negate_def)
  show "f32_is_nan a \<or> f32_is_nan b \<Longrightarrow> f32_is_nan (f32_sub a b)"
    unfolding f32_sub_def fl_sub_def fl_add_def f32_is_nan_fl [of a] f32_is_nan_fl [of b] neg by (simp add: f32_of_nan)
  show "f32_is_nan a \<or> f32_is_nan b \<Longrightarrow> f32_is_nan (f32_mul a b)"
    unfolding f32_mul_def fl_mul_def f32_is_nan_fl [of a] f32_is_nan_fl [of b] by (simp add: f32_of_nan)
qed (simp add: f32_clamp_def f32_lt_def)

lemma loss_fold_nan:
  "f32_is_nan acc \<or> (\<exists>p \<in> set ps. f32_is_nan p) \<Longrightarrow> f32_is_nan (fold combine_loss ps acc)"
proof (induction ps arbitrary: acc)
  case (Cons p ps)
  then have "f32_is_nan (combine_loss p acc) \<or> (\<exists>q \<in> set ps. f32_is_nan q)"
    unfolding combine_loss_def by (auto intro!: f32_nan_spreads)
  then show ?case using Cons.IH by simp
qed simp

lemma unit_of_hash:
  assumes "n < 2 ^ 53"
  shows "f64_is_finite (f64_div (f64_of_nat n) (f64_of_nat (2 ^ 53)))"
    and "fl_rat Double (f64_fl (f64_div (f64_of_nat n) (f64_of_nat (2 ^ 53)))) = of_nat n / 2 ^ 53"
proof -
  define a b where "a = fl_round Double False (of_nat n)" and "b = fl_round Double False (of_nat (2 ^ 53))"
  have a: "fl_is_finite Double a" "fl_rat Double a = of_nat n"
    using f64_of_nat_exact [OF assms, of False] by (simp_all add: a_def)
  have b: "fl_is_finite Double b \<and> fl_rat Double b = of_nat (2 ^ 53)"
    unfolding b_def
  proof (rule fl_round_value)
    show "\<bar>of_nat (2 ^ 53) :: rat\<bar> = of_nat 1 * 2 powi 53" by simp
    show "\<bar>of_nat (2 ^ 53) :: rat\<bar> < fl_val (frac_bits Double) (least_exp Double) (inf_mag Double)"
      by (simp only: frac_bits.simps least_exp.simps inf_mag.simps fl_val_inf) simp
  qed simp_all
  have fl: "f64_fl (f64_of_nat n) = a" "f64_fl (f64_of_nat (2 ^ 53)) = b"
    unfolding f64_of_nat_def a_def b_def by (simp_all add: f64_fl_of_not_nan del: of_nat_power)
  have "\<not> fl_is_zero b"
  proof
    assume "fl_is_zero b"
    then have "fl_rat Double b = 0" by (cases b) (simp add: fl_is_zero_def fl_rat_zero)
    with b show False by simp
  qed
  define s where "s = (fst a \<noteq> fst b)"
  have d: "fl_div Double a b = fl_round Double s (of_nat n / 2 ^ 53)"
    using fl_div_finite [OF a(1) conjunct1 [OF b] \<open>\<not> fl_is_zero b\<close>]
    unfolding a(2) conjunct2 [OF b] of_nat_power of_nat_numeral s_def .
  have "fl_is_finite Double (fl_round Double s (of_nat n / 2 ^ 53)) \<and> fl_rat Double (fl_round Double s (of_nat n / 2 ^ 53)) = of_nat n / 2 ^ 53"
  proof (rule fl_round_value)
    show "\<bar>of_nat n / 2 ^ 53 :: rat\<bar> = of_nat n * 2 powi (- 53)" by (simp add: power_int_minus field_simps)
    have "(of_nat n :: rat) < of_nat (2 ^ 53)" using assms unfolding of_nat_less_iff .
    then have "\<bar>of_nat n / 2 ^ 53 :: rat\<bar> < 1" by simp
    also have "1 < fl_val (frac_bits Double) (least_exp Double) (inf_mag Double)"
      by (simp only: frac_bits.simps least_exp.simps inf_mag.simps fl_val_inf) simp
    finally show "\<bar>of_nat n / 2 ^ 53 :: rat\<bar> < fl_val (frac_bits Double) (least_exp Double) (inf_mag Double)" .
  qed (use assms in simp_all)
  moreover have "f64_fl (f64_div (f64_of_nat n) (f64_of_nat (2 ^ 53))) = fl_div Double a b"
    unfolding f64_div_def fl using d by (simp add: f64_fl_of_not_nan)
  ultimately show "f64_is_finite (f64_div (f64_of_nat n) (f64_of_nat (2 ^ 53)))"
    "fl_rat Double (f64_fl (f64_div (f64_of_nat n) (f64_of_nat (2 ^ 53)))) = of_nat n / 2 ^ 53"
    unfolding f64_is_finite_def d by simp_all
qed

lemma hash_event_triggered:
  assumes "\<not> f32_is_nan p"
  shows "se_triggered (hash_event h p)
    \<longleftrightarrow> of_nat (unat (drop_bit 11 h)) / 2 ^ 53 < min 1 (max 0 (fl_rat Single (f32_fl p)))"
proof -
  have n: "unat (drop_bit 11 h) < 2 ^ 53"
    using unsigned_less [of h, where 'a = nat] trans [OF unat_drop_bit_eq drop_bit_eq_div, of 11 h]
    by (simp add: less_mult_imp_div_less del: drop_bit_eq_div)
  note u = unit_of_hash [OF n]
  note c = f32_clamp_unit [OF assms]
  have fin: "f32_is_finite (f32_clamp p 0 f32_one)" using c(1) by (simp add: f32_unit_def)
  show ?thesis
    unfolding hash_event_def Let_def region_event.simps
    by (simp only: f64_lt_rat [OF u(1) f32_to_f64_value(1) [OF fin]] u(2) f32_to_f64_value(2) [OF fin] c(2))
qed

section \<open>A sample region\<close>

definition tunnel :: region_feature where
  "tunnel = \<lparr>rf_tag_id = 3, rf_geom_ref = 0, rf_p_mp = 0, rf_mp_bias_m = 0, rf_p_loss = f32_one,
     rf_mp_mode = SpatialDeterministic\<rparr>"

text \<open>An empty outline: its box is the origin.\<close>

definition origin_box :: aabb where
  "origin_box = \<lparr>min_x = 0, min_y = 0, max_x = 0, max_y = 0\<rparr>"

lemma empty_outline_bounds: "outline_bounds [] = origin_box"
  by (simp add: outline_bounds_def origin_box_def aabb_new_def f64_cmp_eval)

lemma tunnel_bucket: "bucket_of f32_fifty 0 0 = (0, 0)" "bucket_of f32_one 0 0 = (0, 0)"
proof -
  have "f32_to_f64 f32_fifty = 0x4049000000000000" "f32_to_f64 f32_one = 0x3FF0000000000000"
    by (simp_all add: f32_to_f64_def f32_fifty_def f32_one_def f32_exp_def f32_frac_def f32_neg_def f64_make_def)
  moreover have "f64_div 0 0x4049000000000000 = 0" "f64_div 0 0x3FF0000000000000 = 0" "f64_floor 0 = 0" "f64_to_i32 0 = 0"
    by (simp_all add: float_eval)
  ultimately show "bucket_of f32_fifty 0 0 = (0, 0)" "bucket_of f32_one 0 0 = (0, 0)"
    by (simp_all add: bucket_of_def)
qed

lemma tunnel_index:
  "index_features f32_fifty [origin_box] 0 [tunnel] Map.empty = ([(0, 0) \<mapsto> [0]], Inr ())"
  "index_features f32_one [origin_box] 0 [tunnel] Map.empty = ([(0, 0) \<mapsto> [0]], Inr ())"
  by (simp_all add: tunnel_def origin_box_def tunnel_bucket bucket_span_def as_u128_def MAX_REGION_BUCKETS_def
      bucket_cells_def push_bucket_def)

definition tunnel_set :: region_set where
  "tunnel_set = \<lparr>rs_features = [tunnel], rs_polygons = [[]], rs_bounds = [origin_box],
     rs_buckets = [(0, 0) \<mapsto> [0]], rs_bucket_size_m = f32_fifty\<rparr>"

lemma tunnel_set_new: "region_set_new [tunnel] [[]] = Inr tunnel_set"
proof -
  have "unat (rf_geom_ref tunnel) = 0" by (simp add: tunnel_def)
  then show ?thesis
    by (simp add: region_set_new_def rebuild_index_def empty_outline_bounds tunnel_index tunnel_set_def del: index_features.simps)
qed

text \<open>Two regions over a square two metres a side, and the position at its middle.\<close>

definition square :: outline where
  "square = [(0, 0), (0x40000000, 0), (0x40000000, 0x40000000), (0, 0x40000000)]"

definition square_box :: aabb where
  "square_box = \<lparr>min_x = 0, min_y = 0, max_x = 0x4000000000000000, max_y = 0x4000000000000000\<rparr>"

lemma square_points: "f32_to_f64 0 = 0" "f32_to_f64 0x40000000 = 0x4000000000000000"
  by (simp_all add: f32_to_f64_def f32_exp_def f32_frac_def f32_neg_def f64_make_def)

lemma square_bounds: "outline_bounds square = square_box"
proof -
  let ?two = "0x4000000000000000 :: f64"
  have "f64_min 0 0 = 0" "f64_max 0 0 = 0" "f64_min 0 ?two = 0" "f64_min ?two 0 = 0" "f64_max 0 ?two = ?two" "f64_max ?two 0 = ?two"
    "f64_min ?two ?two = ?two" "f64_max ?two ?two = ?two" by (simp_all add: f64_cmp_eval)
  then show ?thesis
    by (simp add: outline_bounds_def square_def square_box_def aabb_new_def aabb_union_def point_box_def square_points)
qed

lemma square_finite: "\<forall>p \<in> set square. finite_point p"
  by (simp add: square_def finite_point_def f32_is_finite_def fl_is_finite_def f32_fl_def)

lemma square_inside: "region_inside [tunnel\<lparr>rf_p_loss := p\<rparr>, tunnel\<lparr>rf_p_loss := q\<rparr>] [square] f64_one f64_one 0"
  "region_inside [tunnel\<lparr>rf_p_loss := p\<rparr>, tunnel\<lparr>rf_p_loss := q\<rparr>] [square] f64_one f64_one 1"
proof -
  have "f64_sub 0x3FF0000000000000 0 = 0x3FF0000000000000" "f64_sub 0x4000000000000000 0 = 0x4000000000000000" "f64_sub 0 0 = 0"
    "f64_div 0x3FF0000000000000 0x4000000000000000 = 0x3FE0000000000000" "f64_mul 0x3FE0000000000000 0 = 0" "f64_add 0 0 = 0"
    "f64_sub 0x3FF0000000000000 0x4000000000000000 = 0xBFF0000000000000" "f64_sub 0 0x4000000000000000 = 0xC000000000000000"
    "f64_div 0xBFF0000000000000 0xC000000000000000 = 0x3FE0000000000000" "f64_sub 0x4000000000000000 0x4000000000000000 = 0"
    "f64_add 0x4000000000000000 0 = 0x4000000000000000"
    by (simp_all add: float_eval)
  note ops = this
  have lt: "f64_lt 0x3FF0000000000000 0x4000000000000000" "\<not> f64_lt 0x3FF0000000000000 0" by (simp_all add: f64_cmp_eval)
  have "point_in_polygon f64_one f64_one square"
    by (simp add: point_in_polygon_def square_def crosses_def square_points f64_one_def ops lt Let_def)
  moreover have "aabb_contains square_box f64_one f64_one"
    by (simp add: aabb_contains_def square_box_def f64_cmp_eval f64_one_def)
  ultimately show "region_inside [tunnel\<lparr>rf_p_loss := p\<rparr>, tunnel\<lparr>rf_p_loss := q\<rparr>] [square] f64_one f64_one 0"
    "region_inside [tunnel\<lparr>rf_p_loss := p\<rparr>, tunnel\<lparr>rf_p_loss := q\<rparr>] [square] f64_one f64_one 1"
    by (simp_all add: region_inside_def square_bounds tunnel_def)
qed

lemma square_features:
  "\<exists>s. region_set_new [tunnel\<lparr>rf_p_loss := p\<rparr>, tunnel\<lparr>rf_p_loss := q\<rparr>] [square] = Inr s
     \<and> features_at s f64_one f64_one = Some [tunnel\<lparr>rf_p_loss := p\<rparr>, tunnel\<lparr>rf_p_loss := q\<rparr>]"
proof -
  let ?fs = "[tunnel\<lparr>rf_p_loss := p\<rparr>, tunnel\<lparr>rf_p_loss := q\<rparr>]"
  have "f32_to_f64 f32_fifty = 0x4049000000000000"
    by (simp add: f32_to_f64_def f32_fifty_def f32_exp_def f32_frac_def f32_neg_def f64_make_def)
  moreover have "f64_div 0x4000000000000000 0x4049000000000000 = 0x3FA47AE147AE147B" "f64_floor 0x3FA47AE147AE147B = 0" "f64_to_i32 0 = 0"
    by (simp_all add: float_eval)
  ultimately have "bucket_of f32_fifty 0x4000000000000000 0x4000000000000000 = (0, 0)" by (simp add: bucket_of_def)
  then have "\<exists>m. index_features f32_fifty [square_box] 0 ?fs Map.empty = (m, Inr ())"
    by (simp add: tunnel_def square_box_def tunnel_bucket bucket_span_def as_u128_def MAX_REGION_BUCKETS_def
        bucket_cells_def push_bucket_def)
  then obtain s where s: "region_set_new ?fs [square] = Inr s"
    using square_finite by (force simp: region_set_new_def rebuild_index_def square_bounds tunnel_def Let_def simp del: index_features.simps)
  have "regions_at s f64_one f64_one = Some [0, 1]"
    using indexed_regions_at [OF region_set_new_Inr(1) [OF s], of f64_one f64_one] region_set_new_Inr(2,3) [OF s] square_inside [of p q]
    by (simp add: upt_rec)
  then show ?thesis using s region_set_new_Inr(2) [OF s] by (simp add: features_at_def)
qed

section \<open>Properties\<close>

text \<open>C26: the bucket index loses nothing. Once a region set is built, \<open>regions_at\<close> returns exactly the
  regions that a scan of all features would: those whose outline's box and outline hold the position, in
  order and each once; and no lookup panics.\<close>

theorem region_index_is_scan:
  assumes "region_set_new features polygons = Inr s" and "length features \<le> 2 ^ 32"
  shows "regions_at s x y = Some (filter (region_inside features polygons x y) [0..<length features])"
  using indexed_regions_at [OF region_set_new_Inr(1) [OF assms(1)]] region_set_new_Inr(2,3) [OF assms(1)] assms(2)
  by simp

theorem region_index_is_scan_witness:
  "\<exists>s. region_set_new [tunnel, tunnel] [square] = Inr s \<and> regions_at s f64_one f64_one = Some [0, 1]
     \<and> filter (region_inside [tunnel, tunnel] [square] f64_one f64_one) [0..<2] = [0, 1]"
proof -
  have t: "tunnel\<lparr>rf_p_loss := f32_one\<rparr> = tunnel" by (simp add: tunnel_def)
  obtain s where s: "region_set_new [tunnel, tunnel] [square] = Inr s" using square_features [of f32_one f32_one] t by auto
  have scan: "filter (region_inside [tunnel, tunnel] [square] f64_one f64_one) [0..<2] = [0, 1]"
    using square_inside [of f32_one f32_one] by (simp add: t upt_rec)
  have "length [tunnel, tunnel] = 2" by simp
  then have "regions_at s f64_one f64_one = Some [0, 1]"
    using region_index_is_scan [OF s, of f64_one f64_one] scan by (simp only:) simp
  then show ?thesis using s scan by blast
qed

text \<open>The bucket size is only a matter of speed: after \<open>set_bucket_size\<close> has succeeded with any size
  but infinity (NaN, zero and negative sizes included), every lookup answers as before.\<close>

theorem bucket_size_irrelevant:
  assumes "region_set_new features polygons = Inr s" and "length features \<le> 2 ^ 32"
    and "size_m \<noteq> 0x7F800000" and "set_bucket_size size_m s = (s', Inr ())"
  shows "regions_at s' x y = regions_at s x y"
proof -
  note s = region_set_new_Inr [OF assms(1)]
  note s' = set_bucket_size_indexed [OF s(1) assms(3,4)]
  show ?thesis using indexed_regions_at [OF s(1)] indexed_regions_at [OF s'(1)] s' s assms(2) by simp
qed

theorem bucket_size_irrelevant_witness:
  "regions_at (tunnel_set\<lparr>rs_bucket_size_m := f32_one\<rparr>) 0 0 = regions_at tunnel_set 0 0"
proof (rule bucket_size_irrelevant [OF tunnel_set_new, of 0])
  have "f32_max 0 f32_one = f32_one"
    by (simp add: f32_max_def f32_is_nan_def f32_exp_def f32_frac_def f32_lt_def f32_order_def f32_neg_def f32_one_def)
  then show "set_bucket_size 0 tunnel_set = (tunnel_set\<lparr>rs_bucket_size_m := f32_one\<rparr>, Inr ())"
    using tunnel_index(2) by (simp add: set_bucket_size_def rebuild_index_def tunnel_set_def del: index_features.simps)
qed simp_all

text \<open>A region set survives encoding, its index rebuilt: decoding the payload gives an equal set.\<close>

theorem region_set_survives:
  assumes "region_set_new features polygons = Inr s" and "region_set_fits features polygons"
    and "length (region_set_body s) < 2 ^ 32"
  shows "region_set_decode (region_set_encode s) = Inr s"
  using region_set_roundtrip [of s] region_set_new_Inr(2,3) [OF assms(1)] assms by simp

theorem region_set_survives_witness:
  "region_set_decode (region_set_encode tunnel_set) = Inr tunnel_set"
  by (rule region_set_survives [OF tunnel_set_new])
    (simp_all add: region_set_fits_def region_set_body_bytes tunnel_set_def list_bytes_u16_def
      region_feature_record.to_bytes_length)

text \<open>C27: the dropout probability at a position is a probability, or not a number at all: when the \<open>p_loss\<close> of a
  region there is NaN, which decoding accepts, it is NaN; otherwise it is a finite number between 0 and 1,
  however many regions overlap and however the products round.\<close>

theorem loss_probability_unit:
  assumes "loss_probability_at s x y = Some p" and "features_at s x y = Some fs"
  shows "if \<exists>f \<in> set fs. f32_is_nan (rf_p_loss f) then f32_is_nan p
    else f32_is_finite p \<and> 0 \<le> fl_rat Single (f32_fl p) \<and> fl_rat Single (f32_fl p) \<le> 1"
proof -
  have p: "p = fold combine_loss (map rf_p_loss fs) 0" using assms by (simp add: loss_probability_at_def)
  show ?thesis
  proof (cases "\<exists>f \<in> set fs. f32_is_nan (rf_p_loss f)")
    case True
    then show ?thesis unfolding p by (simp add: loss_fold_nan)
  next
    case False
    have "f32_unit 0" by (simp add: f32_unit_def f32_zero_value)
    then have "f32_unit p" unfolding p using False by (intro loss_fold_unit) auto
    then show ?thesis using False by (simp add: f32_unit_def)
  qed
qed

text \<open>Two regions that lose half of the fixes each lose three quarters together, and one with a NaN spoils the other.\<close>

theorem loss_probability_unit_witness:
  "(\<exists>s. region_set_new [tunnel\<lparr>rf_p_loss := 0x3F000000\<rparr>, tunnel\<lparr>rf_p_loss := 0x3F000000\<rparr>] [square] = Inr s
     \<and> loss_probability_at s f64_one f64_one = Some 0x3F400000 \<and> f32_is_finite 0x3F400000
     \<and> fl_rat Single (f32_fl 0x3F400000) \<le> 1)
   \<and> (\<exists>s p. region_set_new [tunnel\<lparr>rf_p_loss := 0x3F000000\<rparr>, tunnel\<lparr>rf_p_loss := 0x7FC00000\<rparr>] [square] = Inr s
     \<and> loss_probability_at s f64_one f64_one = Some p \<and> f32_is_nan p)"
proof (intro conjI)
  have half: "f32_is_nan 0x7FC00000" "\<not> f32_is_nan 0x3F000000" by (simp_all add: f32_is_nan_def f32_exp_def f32_frac_def)
  obtain s where s: "region_set_new [tunnel\<lparr>rf_p_loss := 0x3F000000\<rparr>, tunnel\<lparr>rf_p_loss := 0x3F000000\<rparr>] [square] = Inr s"
    "features_at s f64_one f64_one = Some [tunnel\<lparr>rf_p_loss := 0x3F000000\<rparr>, tunnel\<lparr>rf_p_loss := 0x3F000000\<rparr>]"
    using square_features by blast
  have "f32_clamp 0x3F000000 0 0x3F800000 = 0x3F000000" "f32_sub 0x3F800000 0x3F000000 = 0x3F000000" "f32_sub 0x3F800000 0 = 0x3F800000"
    "f32_mul 0x3F800000 0x3F000000 = 0x3F000000" "f32_mul 0x3F000000 0x3F000000 = 0x3E800000" "f32_sub 0x3F800000 0x3E800000 = 0x3F400000"
    by (simp_all add: float_eval f32_is_nan_def f32_exp_def f32_frac_def f32_order_def)
  then have p: "loss_probability_at s f64_one f64_one = Some 0x3F400000"
    by (simp add: loss_probability_at_def s(2) combine_loss_def f32_one_def)
  from loss_probability_unit [OF p s(2)] s(1) p half(2)
  show "\<exists>s. region_set_new [tunnel\<lparr>rf_p_loss := 0x3F000000\<rparr>, tunnel\<lparr>rf_p_loss := 0x3F000000\<rparr>] [square] = Inr s
     \<and> loss_probability_at s f64_one f64_one = Some 0x3F400000 \<and> f32_is_finite 0x3F400000
     \<and> fl_rat Single (f32_fl 0x3F400000) \<le> 1" by (intro exI [of _ s]) simp
  obtain s where s: "region_set_new [tunnel\<lparr>rf_p_loss := 0x3F000000\<rparr>, tunnel\<lparr>rf_p_loss := 0x7FC00000\<rparr>] [square] = Inr s"
    "features_at s f64_one f64_one = Some [tunnel\<lparr>rf_p_loss := 0x3F000000\<rparr>, tunnel\<lparr>rf_p_loss := 0x7FC00000\<rparr>]"
    using square_features by blast
  then obtain p where p: "loss_probability_at s f64_one f64_one = Some p" by (simp add: loss_probability_at_def)
  from loss_probability_unit [OF p s(2)] s(1) p half(1)
  show "\<exists>s p. region_set_new [tunnel\<lparr>rf_p_loss := 0x3F000000\<rparr>, tunnel\<lparr>rf_p_loss := 0x7FC00000\<rparr>] [square] = Inr s
     \<and> loss_probability_at s f64_one f64_one = Some p \<and> f32_is_nan p" by (intro exI [of _ s] exI [of _ p]) simp
qed

text \<open>A deterministic event fires exactly when the hash's top 53 bits, as a fraction, are below the
  probability clamped to the unit interval: no rounding shifts the threshold. So a probability of at most
  0 never fires and one of at least 1 always does.\<close>

theorem spatial_event_threshold:
  assumes "\<not> f32_is_nan p"
  shows "se_triggered (spatial_event xxh64 seed region_id entry_index p)
    \<longleftrightarrow> of_nat (unat (drop_bit 11 (event_hash xxh64 seed region_id entry_index))) / 2 ^ 53
        < min 1 (max 0 (fl_rat Single (f32_fl p)))"
  unfolding spatial_event_def by (rule hash_event_triggered [OF assms])

theorem spatial_event_threshold_witness:
  "se_triggered (spatial_event (\<lambda>_ _. 7) 1 2 3 f32_one)"
proof -
  have "\<not> f32_is_nan f32_one" by (simp add: f32_is_nan_def f32_exp_def f32_frac_def f32_one_def)
  from spatial_event_threshold [OF this, of "\<lambda>_ _. 7" 1 2 3] show ?thesis
    by (simp add: event_hash_def f32_one_value(2) drop_bit_eq_div)
qed

end
