(* ===== verification/Omf_Writer.thy ===== *)
theory Omf_Writer
  imports Omf_Raster Omf_Codec Omf_Footer Omf_Quadtree Omf_Fingerprint "HOL-Library.Sublist"
begin

text \<open>
  The streaming writer (\<open>crates/map-format/src/writer.rs\<close>) over an in-memory sink (a \<open>Cursor\<close> on a
  vector, whose writes do not fail). The streaming body hasher is the list of the bytes fed to it; its
  digest is \<open>xxh128\<close> of that list. An operation that may fail returns its result with the writer it
  leaves behind. The lemmas keep the invariant that ties the file image, the hashed bytes and the
  directory together through every operation, and say what \<open>finish\<close> puts into the file.
\<close>

section \<open>The sink\<close>

record sink =
  sk_bytes :: bytes
  sk_pos :: nat

definition sink_write :: "bytes \<Rightarrow> sink \<Rightarrow> sink" where
  "sink_write bs s =
     (let p = sk_pos s; file = sk_bytes s @ replicate (p - length (sk_bytes s)) 0
      in \<lparr>sk_bytes = take p file @ bs @ drop (p + length bs) file, sk_pos = p + length bs\<rparr>)"

definition sink_seek :: "nat \<Rightarrow> sink \<Rightarrow> sink" where
  "sink_seek n s = s\<lparr>sk_pos := n\<rparr>"

definition sink_empty :: sink where
  "sink_empty = \<lparr>sk_bytes = [], sk_pos = 0\<rparr>"

section \<open>The writer\<close>

record map_header_spec =
  hs_ref_lon :: f64
  hs_ref_lat :: f64
  hs_epsg :: u32
  hs_bounds :: aabb
  hs_base_res_cm :: u16
  hs_chunk_size :: u16
  hs_lod_count :: u8

text \<open>The default bounds are \<open>1000.0\<close> a side.\<close>

definition header_spec_default :: map_header_spec where
  "header_spec_default =
     \<lparr>hs_ref_lon = 0, hs_ref_lat = 0, hs_epsg = 0, hs_bounds = aabb_new 0 0 0x408F400000000000 0x408F400000000000,
      hs_base_res_cm = 50, hs_chunk_size = 256, hs_lod_count = 1\<rparr>"

definition header_spec_grid :: "map_header_spec \<Rightarrow> chunk_grid" where
  "header_spec_grid s =
     grid_new (hs_bounds s) (f64_div (f64_of_nat (unat (hs_base_res_cm s))) f64_hundred)
       (ucast (hs_chunk_size s)) (hs_lod_count s)"

record prologue =
  pr_meta_offset :: u64
  pr_meta_len :: u32
  pr_ext_offset :: u64
  pr_ext_len :: u32

record map_writer =
  mw_sink :: sink
  mw_spec :: map_header_spec
  mw_meta :: tlv_block
  mw_ext_meta :: "tlv_record list"
  mw_skeleton :: "qnode list"
  mw_layers :: "layer_desc list"
  mw_directory :: chunk_directory
  mw_hashed :: bytes
  mw_prologue :: "prologue option"
  mw_finished :: bool

type_synonym 'a wr = "map_writer \<Rightarrow> 'a result \<times> map_writer"

definition writer_new :: "sink \<Rightarrow> map_header_spec \<Rightarrow> map_writer result" where
  "writer_new sink s =
     (if hs_chunk_size s = 0 then Inl (invalid ''chunk_size must be non-zero'')
      else if hs_base_res_cm s = 0 then Inl (invalid ''base_res_cm must be non-zero'')
      else if f64_le (aabb_width (hs_bounds s)) 0 \<or> f64_le (aabb_height (hs_bounds s)) 0
      then Inl (invalid ''map bounds must have positive extent'')
      else rbind (grid_validate (header_spec_grid s)) (\<lambda>_.
        Inr \<lparr>mw_sink = sink, mw_spec = s, mw_meta = [], mw_ext_meta = [], mw_skeleton = [], mw_layers = [],
             mw_directory = [], mw_hashed = [], mw_prologue = None, mw_finished = False\<rparr>))"

definition writer_grid :: "map_writer \<Rightarrow> chunk_grid" where
  "writer_grid w = header_spec_grid (mw_spec w)"

definition writer_chunk_count :: "map_writer \<Rightarrow> nat" where
  "writer_chunk_count w = length (mw_directory w)"

definition ensure_metadata_mutable :: "string \<Rightarrow> map_writer \<Rightarrow> unit result" where
  "ensure_metadata_mutable what w =
     (if mw_prologue w \<noteq> None
      then Inl (invalid (''cannot set '' @ what
                 @ '' after the first chunk was written; set all metadata first''))
      else Inr ())"

text \<open>A change of the metadata, guarded by the check.\<close>

definition guarded :: "string \<Rightarrow> (map_writer \<Rightarrow> map_writer) \<Rightarrow> unit wr" where
  "guarded what f w =
     (case ensure_metadata_mutable what w of Inl e \<Rightarrow> (Inl e, w) | Inr _ \<Rightarrow> (Inr (), f w))"

definition writer_set_meta :: "('a \<Rightarrow> bytes) \<Rightarrow> u32 \<Rightarrow> string \<Rightarrow> 'a \<Rightarrow> unit wr" where
  "writer_set_meta enc tag nm v = guarded nm (\<lambda>w. w\<lparr>mw_meta := tlv_set (tlv_record_encode enc tag v) (mw_meta w)\<rparr>)"

definition writer_set_meta_raw :: "tlv_record \<Rightarrow> unit wr" where
  "writer_set_meta_raw r = guarded ''a metadata record'' (\<lambda>w. w\<lparr>mw_meta := tlv_set r (mw_meta w)\<rparr>)"

definition push_ext_meta :: "tlv_record \<Rightarrow> unit wr" where
  "push_ext_meta r = guarded ''an extension record'' (\<lambda>w. w\<lparr>mw_ext_meta := mw_ext_meta w @ [r]\<rparr>)"

definition set_map_info :: "map_info \<Rightarrow> unit wr" where
  "set_map_info = writer_set_meta map_info_encode TAG_MAP_INFO ''MAP_INFO''"

definition set_feature_schema :: "feature_schema \<Rightarrow> unit wr" where
  "set_feature_schema = writer_set_meta feature_schema_encode TAG_FEATURE_SCHEMA ''FEATURE_SCHEMA''"

definition set_weight_prior :: "weight_prior \<Rightarrow> unit wr" where
  "set_weight_prior = writer_set_meta weight_prior_encode TAG_WEIGHT_PRIOR ''WEIGHT_PRIOR''"

definition set_slope_model :: "slope_model \<Rightarrow> unit wr" where
  "set_slope_model = writer_set_meta slope_model_encode TAG_SLOPE_MODEL ''SLOPE_MODEL''"

definition set_connectors :: "connector_table \<Rightarrow> unit wr" where
  "set_connectors = writer_set_meta connector_table_encode TAG_CONNECTOR_TABLE ''CONNECTOR_TABLE''"

definition set_magnetic_field :: "magnetic_field \<Rightarrow> unit wr" where
  "set_magnetic_field = writer_set_meta magnetic_field_encode TAG_MAGNETIC_FIELD ''MAGNETIC_FIELD''"

definition set_provenance :: "provenance \<Rightarrow> unit wr" where
  "set_provenance = writer_set_meta provenance_encode TAG_PROVENANCE ''PROVENANCE''"

definition set_global_stats :: "global_stats \<Rightarrow> unit wr" where
  "set_global_stats = writer_set_meta global_stats_encode TAG_GLOBAL_STATS ''GLOBAL_STATS''"

definition set_aggregation_rules :: "aggregation_rules \<Rightarrow> unit wr" where
  "set_aggregation_rules = writer_set_meta aggregation_rules_encode TAG_AGGREGATION_RULES ''AGGREGATION_RULES''"

definition set_chunk_layout :: "chunk_layout \<Rightarrow> unit wr" where
  "set_chunk_layout = writer_set_meta chunk_layout_encode TAG_CHUNK_LAYOUT ''CHUNK_LAYOUT''"

definition set_prm_seeds :: "prm_seeds \<Rightarrow> unit wr" where
  "set_prm_seeds = writer_set_meta prm_seeds_encode TAG_PRM_SEEDS ''PRM_SEEDS''"

definition set_derived_layers :: "derived_layers \<Rightarrow> unit wr" where
  "set_derived_layers = writer_set_meta derived_layers_encode TAG_DERIVED_LAYERS ''DERIVED_LAYERS''"

definition set_zstd_dict :: "bytes \<Rightarrow> unit wr" where
  "set_zstd_dict = writer_set_meta zstd_dict_encode TAG_ZSTD_DICT ''ZSTD_DICT''"

definition layer_chunk_shape :: "map_header_spec \<Rightarrow> layer_desc \<Rightarrow> chunk_shape" where
  "layer_chunk_shape s d =
     \<lparr>cs_width = ucast (hs_chunk_size s), cs_height = ucast (hs_chunk_size s), cs_channels = ld_channels d,
      cs_dtype = ld_dtype d\<rparr>"

definition writer_set_layer :: "layer_desc \<Rightarrow> unit wr" where
  "writer_set_layer d w =
     (case ensure_metadata_mutable ''a layer descriptor'' w of
        Inl e \<Rightarrow> (Inl e, w)
      | Inr _ \<Rightarrow>
          if ld_channels d = 0
          then (Inl (invalid (''layer '' @ layer_text (ld_layer_id d) @ '' declares zero channels'')), w)
          else
            case (if is_chunked (ld_kind d) then
                    rbind (ok_or (invalid ''chunk shape overflows'')
                             (total_bytes_checked (layer_chunk_shape (mw_spec w) d))) (\<lambda>n.
                    if n > MAX_RAW_CHUNK_BYTES
                    then Inl (invalid (''layer '' @ layer_text (ld_layer_id d) @ '' chunk payload of '' @ show_nat n
                               @ '' byte(s) exceeds the '' @ show_nat MAX_RAW_CHUNK_BYTES @ ''-byte limit''))
                    else Inr ())
                  else Inr ()) of
              Inl e \<Rightarrow> (Inl e, w)
            | Inr _ \<Rightarrow>
                (Inr (), w\<lparr>mw_layers := replace_or_push (\<lambda>x. ld_layer_id x = ld_layer_id d) d (mw_layers w)\<rparr>))"

definition set_skeleton :: "qnode list \<Rightarrow> unit wr" where
  "set_skeleton nodes = guarded ''the quadtree skeleton'' (\<lambda>w. w\<lparr>mw_skeleton := nodes\<rparr>)"

section \<open>Chunks\<close>

definition align8 :: "u64 \<Rightarrow> u64" where
  "align8 v = (v + 7) AND NOT 7"

definition writer_zstd_dict :: "map_writer \<Rightarrow> bytes option" where
  "writer_zstd_dict w =
     (case tlv_get (mw_meta w) TAG_ZSTD_DICT of
        None \<Rightarrow> None
      | Some r \<Rightarrow>
          (case tlv_record_decode zstd_dict_decode r of
             Inl _ \<Rightarrow> None
           | Inr dict \<Rightarrow> if dict = [] then None else Some dict))"

definition write_hashed :: "bytes \<Rightarrow> map_writer \<Rightarrow> map_writer" where
  "write_hashed bs w = w\<lparr>mw_sink := sink_write bs (mw_sink w), mw_hashed := mw_hashed w @ bs\<rparr>"

definition ext_area :: "tlv_record list \<Rightarrow> bytes" where
  "ext_area records = (if records = [] then [] else tlv_to_bytes (fold tlv_push records []))"

definition ensure_prologue :: "ext_crates \<Rightarrow> unit wr" where
  "ensure_prologue E w =
     (if mw_prologue w \<noteq> None then (Inr (), w)
      else
        let w = w\<lparr>mw_meta := tlv_set (tlv_record_encode layer_table_encode TAG_LAYER_TABLE (mw_layers w)) (mw_meta w)\<rparr>;
            meta_bytes = tlv_to_bytes (mw_meta w)
        in case zstd_compress E meta_bytes None of
             Inl e \<Rightarrow> (Inl e, w)
           | Inr compressed \<Rightarrow>
               let ext_bytes = ext_area (mw_ext_meta w);
                   skeleton_bytes = concat (map qnode_to_bytes (mw_skeleton w));
                   meta_offset = 128;
                   ext_offset = (if ext_bytes = [] then 0 else meta_offset + word_of_nat (length compressed));
                   skeleton_offset = align8 (meta_offset + word_of_nat (length compressed) + word_of_nat (length ext_bytes));
                   w = w\<lparr>mw_sink := sink_write (replicate 128 0) (sink_seek 0 (mw_sink w))\<rparr>;
                   w = write_hashed compressed w;
                   w = (if ext_bytes \<noteq> [] then write_hashed ext_bytes w else w);
                   written = meta_offset + word_of_nat (length compressed) + word_of_nat (length ext_bytes);
                   w = (if skeleton_offset > written
                        then write_hashed (replicate (unat (skeleton_offset - written)) 0) w else w);
                   w = write_hashed skeleton_bytes w
               in (Inr (), w\<lparr>mw_prologue := Some \<lparr>pr_meta_offset = meta_offset,
                     pr_meta_len = word_of_nat (length compressed), pr_ext_offset = ext_offset,
                     pr_ext_len = word_of_nat (length ext_bytes)\<rparr>\<rparr>))"

definition stream_position :: "map_writer \<Rightarrow> u64" where
  "stream_position w = word_of_nat (sk_pos (mw_sink w))"

definition u32_try_from :: "nat \<Rightarrow> u32 option" where
  "u32_try_from n = (if n < 2 ^ 32 then Some (word_of_nat n) else None)"

definition append_chunk ::
  "ext_crates \<Rightarrow> (bytes \<Rightarrow> u32) \<Rightarrow> layer_desc \<Rightarrow> u8 \<Rightarrow> u32 \<Rightarrow> u8 \<Rightarrow> nat \<Rightarrow> bytes \<Rightarrow> u32 wr" where
  "append_chunk E crc32 d level chunk_id codec_id raw_len stored w =
     (case ensure_prologue E w of
        (Inl e, w) \<Rightarrow> (Inl e, w)
      | (Inr _, w) \<Rightarrow>
          let offset = stream_position w; w = write_hashed stored w; crc = crc32 stored
          in case u32_try_from raw_len of
               None \<Rightarrow> (Inl (invalid ''chunk payload length exceeds the u32 field''), w)
             | Some raw_len \<Rightarrow>
                 (case u32_try_from (length stored) of
                    None \<Rightarrow> (Inl (invalid ''stored chunk length exceeds the u32 field''), w)
                  | Some comp_len \<Rightarrow>
                      (Inr crc, w\<lparr>mw_directory := directory_upsert
                         (chunk_record_new (ld_layer_id d) level chunk_id codec_id offset comp_len raw_len crc)
                         (mw_directory w)\<rparr>)))"

definition write_encoded_chunk ::
  "ext_crates \<Rightarrow> (bytes \<Rightarrow> u32) \<Rightarrow> layer_id \<Rightarrow> u8 \<Rightarrow> u32 \<Rightarrow> u8 \<Rightarrow> bytes \<Rightarrow> u32 \<Rightarrow> u32 wr" where
  "write_encoded_chunk E crc32 layer_id level chunk_id codec_id stored raw_len w =
     (case ensure_prologue E w of
        (Inl e, w) \<Rightarrow> (Inl e, w)
      | (Inr _, w) \<Rightarrow>
          let offset = stream_position w; w = write_hashed stored w; crc = crc32 stored
          in case u32_try_from (length stored) of
               None \<Rightarrow> (Inl (invalid ''stored chunk length exceeds the u32 field''), w)
             | Some comp_len \<Rightarrow>
                 (Inr crc, w\<lparr>mw_directory := directory_upsert
                    (chunk_record_new layer_id level chunk_id codec_id offset comp_len raw_len crc)
                    (mw_directory w)\<rparr>))"

definition write_payload ::
  "ext_crates \<Rightarrow> (bytes \<Rightarrow> u32) \<Rightarrow> layer_desc \<Rightarrow> u8 \<Rightarrow> u32 \<Rightarrow> u8 option \<Rightarrow> chunk_shape \<Rightarrow> bytes \<Rightarrow> u32 wr" where
  "write_payload E crc32 d level chunk_id codec_override s payload w =
     (let codec_id = (case codec_override of Some c \<Rightarrow> c | None \<Rightarrow> ld_codec d);
          ctx = \<lparr>ctx_dict = writer_zstd_dict w, ctx_parent = None\<rparr>
      in case codec_encode E codec_id s payload ctx of
           Inl e \<Rightarrow> (Inl e, w)
         | Inr stored \<Rightarrow> append_chunk E crc32 d level chunk_id codec_id (length payload) stored w)"

text \<open>\<open>None\<close> is the panic of \<open>pack\<close> on a chunk whose data is shorter than its shape.\<close>

definition write_raster_chunk ::
  "half_crate \<Rightarrow> ext_crates \<Rightarrow> (bytes \<Rightarrow> u32) \<Rightarrow> layer_desc \<Rightarrow> u8 \<Rightarrow> u32 \<Rightarrow> u8 option \<Rightarrow> raster_chunk \<Rightarrow>
     map_writer \<Rightarrow> (u32 result \<times> map_writer) option" where
  "write_raster_chunk H E crc32 d level chunk_id codec_override c w =
     (if rc_width c \<noteq> ucast (hs_chunk_size (mw_spec w)) \<or> rc_height c \<noteq> ucast (hs_chunk_size (mw_spec w))
      then Some (Inl (invalid (''chunk is '' @ show_nat (unat (rc_width c)) @ ''x'' @ show_nat (unat (rc_height c))
                   @ '' cells but the map declares '' @ show_nat (unat (hs_chunk_size (mw_spec w))) @ ''x''
                   @ show_nat (unat (hs_chunk_size (mw_spec w))) @ ''; pad edge chunks to the full size'')), w)
      else
        let s = \<lparr>cs_width = rc_width c, cs_height = rc_height c, cs_channels = rc_channels c, cs_dtype = ld_dtype d\<rparr>
        in case raster_pack H d c of
             None \<Rightarrow> None
           | Some (Inl e) \<Rightarrow> Some (Inl e, w)
           | Some (Inr payload) \<Rightarrow> Some (write_payload E crc32 d level chunk_id codec_override s payload w))"

definition writer_write_section :: "ext_crates \<Rightarrow> (bytes \<Rightarrow> u32) \<Rightarrow> layer_desc \<Rightarrow> bytes \<Rightarrow> u32 wr" where
  "writer_write_section E crc32 d payload = append_chunk E crc32 d 0 0 RAW (length payload) payload"

section \<open>Finishing\<close>

definition derive_flags :: "map_writer \<Rightarrow> header_flags" where
  "derive_flags w =
     (let layers = directory_layers (mw_directory w);
          flags = (0 :: u32);
          flags = (if PRM_GRAPH \<in> set layers then flags_insert HAS_PRM flags else flags);
          flags = (if KPATH_LIBRARY \<in> set layers then flags_insert HAS_KPATH_LIB flags else flags);
          flags = (if REGIONS \<in> set layers then flags_insert HAS_REGIONS flags else flags);
          flags = (if VECTORS \<in> set layers then flags_insert HAS_VECTORS flags else flags);
          flags = (if tlv_get (mw_meta w) TAG_ZSTD_DICT \<noteq> None then flags_insert HAS_ZSTD_DICT flags else flags)
      in flags)"

definition writer_feature_dim :: "map_writer \<Rightarrow> u8" where
  "writer_feature_dim w =
     (case tlv_get (mw_meta w) TAG_FEATURE_SCHEMA of
        None \<Rightarrow> 0
      | Some r \<Rightarrow> (case tlv_record_decode feature_schema_decode r of Inl _ \<Rightarrow> 0 | Inr schema \<Rightarrow> feature_schema_dim schema))"

definition writer_header :: "map_writer \<Rightarrow> prologue \<Rightarrow> u64 \<Rightarrow> nat \<Rightarrow> header" where
  "writer_header w p dir_offset dir_len =
     \<lparr>h_version_major = VERSION_MAJOR, h_version_minor = VERSION_MINOR, h_flags = derive_flags w,
      h_ref_lon = hs_ref_lon (mw_spec w), h_ref_lat = hs_ref_lat (mw_spec w), h_epsg = hs_epsg (mw_spec w),
      h_bounds = hs_bounds (mw_spec w), h_base_res_cm = hs_base_res_cm (mw_spec w),
      h_chunk_size = hs_chunk_size (mw_spec w), h_lod_count = hs_lod_count (mw_spec w),
      h_feature_dim = writer_feature_dim w, h_layer_count = word_of_nat (min (length (mw_layers w)) 65535),
      h_meta_offset = pr_meta_offset p, h_meta_len = pr_meta_len p, h_dir_offset = dir_offset,
      h_dir_len = word_of_nat dir_len, h_footer_offset = dir_offset + word_of_nat dir_len,
      h_ext_meta_offset = pr_ext_offset p, h_ext_meta_len = pr_ext_len p\<rparr>"

definition writer_footer :: "map_writer \<Rightarrow> u64 \<Rightarrow> nat \<Rightarrow> footer" where
  "writer_footer w dir_offset dir_len =
     \<lparr>f_version_major = VERSION_MAJOR, f_version_minor = VERSION_MINOR, f_flags = derive_flags w,
      f_dir_len = word_of_nat dir_len, f_dir_offset = dir_offset,
      f_dir_record_count = word_of_nat (length (mw_directory w)),
      f_chunk_count = word_of_nat (length (mw_directory w)), f_node_count = word_of_nat (length (mw_skeleton w)),
      f_layer_count = word_of_nat (length (mw_layers w)),
      f_file_len = dir_offset + word_of_nat dir_len + 64, f_file_hash = replicate 16 0\<rparr>"

definition writer_finish :: "ext_crates \<Rightarrow> (bytes \<Rightarrow> u32) \<Rightarrow> (bytes \<Rightarrow> 128 word) \<Rightarrow> map_writer \<Rightarrow> bytes result" where
  "writer_finish E crc32 xxh128 w =
     (if mw_finished w then Inr (sk_bytes (mw_sink w))
      else
        case ensure_prologue E w of
          (Inl e, _) \<Rightarrow> Inl e
        | (Inr _, w) \<Rightarrow>
            rbind (ok_or (invalid ''writer prologue was not written'') (mw_prologue w)) (\<lambda>p.
              let dir_bytes = directory_to_bytes (mw_directory w);
                  dir_offset = stream_position w;
                  w = write_hashed dir_bytes w;
                  header_bytes = header_to_bytes crc32 (writer_header w p dir_offset (length dir_bytes));
                  footer = writer_footer w dir_offset (length dir_bytes);
                  w = write_hashed (take 48 (footer_to_bytes footer)) w;
                  body_digest = le_bytes 16 (xxh128 (mw_hashed w));
                  file_hash = compose_file_hash xxh128 header_bytes body_digest;
                  footer_bytes = footer_to_bytes (footer\<lparr>f_file_hash := file_hash\<rparr>);
                  sink = sink_write (drop 48 footer_bytes) (mw_sink w);
                  sink = sink_write header_bytes (sink_seek 0 sink)
              in Inr (sk_bytes sink)))"

section \<open>The invariant\<close>

definition prologue_pad :: "bytes \<Rightarrow> bytes \<Rightarrow> nat" where
  "prologue_pad compressed ext =
     (let written = 128 + word_of_nat (length compressed) + word_of_nat (length ext) :: u64
      in if align8 written > written then unat (align8 written - written) else 0)"

definition prologue_bytes :: "bytes \<Rightarrow> bytes \<Rightarrow> qnode list \<Rightarrow> bytes" where
  "prologue_bytes compressed ext nodes =
     compressed @ ext @ replicate (prologue_pad compressed ext) 0 @ concat (map qnode_to_bytes nodes)"

definition prologue_of :: "bytes \<Rightarrow> bytes \<Rightarrow> prologue" where
  "prologue_of compressed ext =
     \<lparr>pr_meta_offset = 128, pr_meta_len = word_of_nat (length compressed),
      pr_ext_offset = (if ext = [] then 0 else 128 + word_of_nat (length compressed)),
      pr_ext_len = word_of_nat (length ext)\<rparr>"

text \<open>The sink is what was hashed, behind the room for the header, and is written at its end.\<close>

definition at_end :: "map_writer \<Rightarrow> bool" where
  "at_end w \<longleftrightarrow> mw_sink w = \<lparr>sk_bytes = replicate 128 0 @ mw_hashed w, sk_pos = 128 + length (mw_hashed w)\<rparr>"

definition prologue_ok :: "ext_crates \<Rightarrow> map_writer \<Rightarrow> prologue \<Rightarrow> bool" where
  "prologue_ok E w p \<longleftrightarrow> at_end w \<and>
     (\<exists>meta compressed.
        mw_meta w = tlv_set (tlv_record_encode layer_table_encode TAG_LAYER_TABLE (mw_layers w)) meta
        \<and> zstd_compress E (tlv_to_bytes (mw_meta w)) None = Inr compressed
        \<and> p = prologue_of compressed (ext_area (mw_ext_meta w))
        \<and> prefix (prologue_bytes compressed (ext_area (mw_ext_meta w)) (mw_skeleton w)) (mw_hashed w))"

definition writer_ok :: "ext_crates \<Rightarrow> map_writer \<Rightarrow> bool" where
  "writer_ok E w \<longleftrightarrow> \<not> mw_finished w \<and> directory_ok (mw_directory w) \<and>
     (case mw_prologue w of
        None \<Rightarrow> mw_sink w = sink_empty \<and> mw_hashed w = [] \<and> mw_directory w = []
      | Some p \<Rightarrow> prologue_ok E w p)"

text \<open>A chunk is in the file and the directory: what a reader needs to find its stored bytes.\<close>

definition chunk_stored :: "(bytes \<Rightarrow> u32) \<Rightarrow> map_writer \<Rightarrow> dir_key \<Rightarrow> u8 \<Rightarrow> u32 \<Rightarrow> bytes \<Rightarrow> bool" where
  "chunk_stored crc32 w key codec raw_len stored \<longleftrightarrow>
     (\<exists>r. directory_map (mw_directory w) key = Some r \<and> cr_codec r = codec \<and> cr_raw_len r = raw_len
        \<and> cr_flags r = 0 \<and> cr_crc32 r = crc32 stored \<and> unat (cr_comp_len r) = length stored
        \<and> 128 \<le> unat (cr_offset r)
        \<and> unat (cr_offset r) + length stored \<le> 128 + length (mw_hashed w)
        \<and> take (length stored) (drop (unat (cr_offset r) - 128) (mw_hashed w)) = stored)"

lemma sink_write_end:
  "sk_pos s = length (sk_bytes s) \<Longrightarrow>
     sink_write bs s = \<lparr>sk_bytes = sk_bytes s @ bs, sk_pos = length (sk_bytes s) + length bs\<rparr>"
  by (simp add: sink_write_def Let_def)

lemma at_end_write_hashed: "at_end w \<Longrightarrow> at_end (write_hashed bs w)"
  by (simp add: at_end_def write_hashed_def sink_write_end)

lemma write_hashed_simps [simp]:
  "mw_hashed (write_hashed bs w) = mw_hashed w @ bs" "mw_directory (write_hashed bs w) = mw_directory w"
  "mw_meta (write_hashed bs w) = mw_meta w" "mw_ext_meta (write_hashed bs w) = mw_ext_meta w"
  "mw_skeleton (write_hashed bs w) = mw_skeleton w" "mw_layers (write_hashed bs w) = mw_layers w"
  "mw_prologue (write_hashed bs w) = mw_prologue w" "mw_finished (write_hashed bs w) = mw_finished w"
  "mw_spec (write_hashed bs w) = mw_spec w"
  by (simp_all add: write_hashed_def)

text \<open>What \<open>ensure_prologue\<close> leaves unchanged.\<close>

lemma ensure_prologue_frame:
  assumes "ensure_prologue E w = (r, w')"
  shows "mw_directory w' = mw_directory w" and "mw_layers w' = mw_layers w" and "mw_skeleton w' = mw_skeleton w"
    and "mw_spec w' = mw_spec w" and "mw_ext_meta w' = mw_ext_meta w" and "mw_finished w' = mw_finished w"
    and "prefix (mw_hashed w) (mw_hashed w')" and "mw_prologue w = None \<or> w' = w"
  using assms by (auto simp: ensure_prologue_def Let_def split: sum.splits if_splits)

lemma directory_ok_Nil [simp]: "directory_ok []"
  by (simp add: directory_ok_def sorted_by_def)

lemma ensure_prologue_ok:
  assumes "writer_ok E w" and "ensure_prologue E w = (r, w')"
  shows "writer_ok E w'" and "r = Inr () \<Longrightarrow> mw_prologue w' \<noteq> None"
proof -
  have "writer_ok E w' \<and> (r = Inr () \<longrightarrow> mw_prologue w' \<noteq> None)"
  proof (cases "mw_prologue w = None")
    case False
    then show ?thesis using assms by (simp add: ensure_prologue_def)
  next
    case True
    define w1 where "w1 = w\<lparr>mw_meta := tlv_set (tlv_record_encode layer_table_encode TAG_LAYER_TABLE (mw_layers w)) (mw_meta w)\<rparr>"
    have w1: "writer_ok E w1" "mw_prologue w1 = None" using assms(1) True by (simp_all add: writer_ok_def w1_def)
    show ?thesis
    proof (cases "zstd_compress E (tlv_to_bytes (mw_meta w1)) None")
      case (Inl e)
      then have "w' = w1" "r = Inl e" using assms(2) True by (simp_all add: ensure_prologue_def Let_def w1_def)
      then show ?thesis using w1 by simp
    next
      case (Inr c)
      define ext where "ext = ext_area (mw_ext_meta w)"
      define w2 where "w2 = w1\<lparr>mw_sink := sink_write (replicate 128 0) (sink_seek 0 (mw_sink w1))\<rparr>"
      define w3 where "w3 = write_hashed c w2"
      define w4 where "w4 = (if ext \<noteq> [] then write_hashed ext w3 else w3)"
      define written where "written = 128 + word_of_nat (length c) + (word_of_nat (length ext) :: u64)"
      define w5 where "w5 = (if align8 written > written then write_hashed (replicate (unat (align8 written - written)) 0) w4 else w4)"
      define w6 where "w6 = write_hashed (concat (map qnode_to_bytes (mw_skeleton w))) w5"
      have "ensure_prologue E w = (Inr (), w6\<lparr>mw_prologue := Some (prologue_of c ext)\<rparr>)"
        using True Inr
        by (cases "ext = []")
          (simp_all add: ensure_prologue_def Let_def w6_def w5_def w4_def w3_def w2_def w1_def ext_def written_def prologue_of_def)
      then have w': "w' = w6\<lparr>mw_prologue := Some (prologue_of c ext)\<rparr>" "r = Inr ()" using assms(2) by simp_all
      have "mw_sink w = sink_empty" "mw_hashed w = []" using assms(1) True by (simp_all add: writer_ok_def)
      then have "at_end w2" by (simp add: at_end_def w2_def w1_def sink_write_def sink_seek_def sink_empty_def)
      then have e6: "at_end w6"
        unfolding w6_def w5_def w4_def w3_def by (auto intro: at_end_write_hashed)
      have h6: "mw_hashed w6 = prologue_bytes c ext (mw_skeleton w)"
        using \<open>mw_hashed w = []\<close>
        by (simp add: w6_def w5_def w4_def w3_def w2_def w1_def prologue_bytes_def prologue_pad_def written_def Let_def)
      have rest: "mw_meta w6 = mw_meta w1" "mw_ext_meta w6 = mw_ext_meta w" "mw_skeleton w6 = mw_skeleton w"
        "mw_layers w6 = mw_layers w" "mw_directory w6 = mw_directory w" "mw_finished w6 = mw_finished w"
        by (simp_all add: w6_def w5_def w4_def w3_def w2_def w1_def)
      have "prologue_ok E w' (prologue_of c ext)"
        unfolding prologue_ok_def
        using e6 h6 rest Inr
        by (auto simp: w' at_end_def ext_def w1_def intro!: exI [of _ "mw_meta w"] exI [of _ c])
      then show ?thesis using assms(1) rest by (simp add: writer_ok_def w')
    qed
  qed
  then show "writer_ok E w'" "r = Inr () \<Longrightarrow> mw_prologue w' \<noteq> None" by simp_all
qed

section \<open>Steps\<close>

text \<open>Every operation of the writer on a writer it leaves behind, and the key it may write.\<close>

inductive writer_step :: "ext_crates \<Rightarrow> (bytes \<Rightarrow> u32) \<Rightarrow> dir_key option \<Rightarrow> map_writer \<Rightarrow> map_writer \<Rightarrow> bool"
  for E crc32 where
  meta: "writer_step E crc32 None w (snd (guarded what (\<lambda>w. w\<lparr>mw_meta := tlv_set r (mw_meta w)\<rparr>) w))"
| ext: "writer_step E crc32 None w (snd (push_ext_meta r w))"
| layer: "writer_step E crc32 None w (snd (writer_set_layer d w))"
| skeleton: "writer_step E crc32 None w (snd (set_skeleton nodes w))"
| append: "writer_step E crc32 (Some (ld_layer_id d, level, chunk_id)) w
    (snd (append_chunk E crc32 d level chunk_id codec_id raw_len stored w))"
| encoded: "writer_step E crc32 (Some (layer_id, level, chunk_id)) w
    (snd (write_encoded_chunk E crc32 layer_id level chunk_id codec_id stored len w))"

inductive writer_run :: "ext_crates \<Rightarrow> (bytes \<Rightarrow> u32) \<Rightarrow> dir_key set \<Rightarrow> map_writer \<Rightarrow> map_writer \<Rightarrow> bool"
  for E crc32 where
  refl: "writer_run E crc32 K w w"
| step: "writer_run E crc32 K w w' \<Longrightarrow> writer_step E crc32 key w' w'' \<Longrightarrow> set_option key \<subseteq> K \<Longrightarrow> writer_run E crc32 K w w''"

lemmas ensure_prologue_success = ensure_prologue_ok(1) [where r = "Inr ()"] ensure_prologue_ok(2) [where r = "Inr ()", OF _ _ HOL.refl]

text \<open>A change made only while there is no prologue keeps the invariant, if it touches metadata only.\<close>

lemma guarded_ok:
  assumes "writer_ok E w"
    and "\<And>w. mw_sink (f w) = mw_sink w" "\<And>w. mw_hashed (f w) = mw_hashed w" "\<And>w. mw_directory (f w) = mw_directory w"
    "\<And>w. mw_prologue (f w) = mw_prologue w" "\<And>w. mw_finished (f w) = mw_finished w"
  shows "writer_ok E (snd (guarded what f w))"
    and "mw_hashed (snd (guarded what f w)) = mw_hashed w" and "mw_directory (snd (guarded what f w)) = mw_directory w"
  using assms by (auto simp: guarded_def ensure_metadata_mutable_def writer_ok_def split: option.splits)

lemma writer_set_layer_ok:
  assumes "writer_ok E w"
  shows "writer_ok E (snd (writer_set_layer d w))"
    and "mw_hashed (snd (writer_set_layer d w)) = mw_hashed w"
    and "mw_directory (snd (writer_set_layer d w)) = mw_directory w"
  using assms by (auto simp: writer_set_layer_def ensure_metadata_mutable_def writer_ok_def split: option.splits sum.splits)

text \<open>Appending bytes and a record for them.\<close>

lemma prologue_ok_write:
  assumes "prologue_ok E w p"
  shows "prologue_ok E (write_hashed bs w) p"
  using assms at_end_write_hashed unfolding prologue_ok_def by (fastforce intro: prefix_order.trans)

definition with_record :: "bytes \<Rightarrow> chunk_record option \<Rightarrow> map_writer \<Rightarrow> map_writer" where
  "with_record stored r w =
     (let w = write_hashed stored w
      in case r of None \<Rightarrow> w | Some r \<Rightarrow> w\<lparr>mw_directory := directory_upsert r (mw_directory w)\<rparr>)"

lemma with_record_ok:
  assumes "writer_ok E w" and "mw_prologue w \<noteq> None"
  shows "writer_ok E (with_record stored r w)"
proof -
  obtain p where p: "mw_prologue w = Some p" "prologue_ok E w p" "directory_ok (mw_directory w)" "\<not> mw_finished w"
    using assms by (auto simp: writer_ok_def)
  have "prologue_ok E (write_hashed stored w) p" by (rule prologue_ok_write [OF p(2)])
  then have "prologue_ok E (write_hashed stored w\<lparr>mw_directory := d\<rparr>) p" for d
    by (simp add: prologue_ok_def at_end_def)
  then show ?thesis
    using p prologue_ok_write [OF p(2)] directory.wf_upsert [OF p(3)]
    by (auto simp: with_record_def writer_ok_def Let_def split: option.split)
qed

lemma append_chunk_cases:
  obtains (fail) e w' where "append_chunk E crc32 d level chunk_id codec_id raw_len stored w = (Inl e, w')"
      "ensure_prologue E w = (Inl e, w')"
    | (partial) e w1 where "ensure_prologue E w = (Inr (), w1)"
      "append_chunk E crc32 d level chunk_id codec_id raw_len stored w = (Inl e, with_record stored None w1)"
    | (stored) w1 where "ensure_prologue E w = (Inr (), w1)" "raw_len < 2 ^ 32" "length stored < 2 ^ 32"
      "append_chunk E crc32 d level chunk_id codec_id raw_len stored w = (Inr (crc32 stored), with_record stored
         (Some (chunk_record_new (ld_layer_id d) level chunk_id codec_id (stream_position w1)
            (word_of_nat (length stored)) (word_of_nat raw_len) (crc32 stored))) w1)"
proof (cases "ensure_prologue E w")
  case (Pair r w1)
  then show ?thesis
    by (cases r; cases "raw_len < 2 ^ 32"; cases "length stored < 2 ^ 32")
      (simp_all add: append_chunk_def u32_try_from_def with_record_def Let_def fail partial stored)
qed

lemma write_encoded_cases:
  obtains (fail) e w' where "write_encoded_chunk E crc32 layer_id level chunk_id codec_id stored len w = (Inl e, w')"
      "ensure_prologue E w = (Inl e, w')"
    | (partial) e w1 where "ensure_prologue E w = (Inr (), w1)"
      "write_encoded_chunk E crc32 layer_id level chunk_id codec_id stored len w = (Inl e, with_record stored None w1)"
    | (stored) w1 where "ensure_prologue E w = (Inr (), w1)" "length stored < 2 ^ 32"
      "write_encoded_chunk E crc32 layer_id level chunk_id codec_id stored len w = (Inr (crc32 stored), with_record stored
         (Some (chunk_record_new layer_id level chunk_id codec_id (stream_position w1)
            (word_of_nat (length stored)) len (crc32 stored))) w1)"
proof (cases "ensure_prologue E w")
  case (Pair r w1)
  then show ?thesis
    by (cases r; cases "length stored < 2 ^ 32")
      (simp_all add: write_encoded_chunk_def u32_try_from_def with_record_def Let_def fail partial stored)
qed

text \<open>A stored chunk stays stored under writes of other keys.\<close>

lemma chunk_stored_frame:
  assumes "chunk_stored crc32 w key codec raw_len stored" and "prefix (mw_hashed w) (mw_hashed w')"
    and "directory_map (mw_directory w') key = directory_map (mw_directory w) key"
  shows "chunk_stored crc32 w' key codec raw_len stored"
proof -
  obtain zs where zs: "mw_hashed w' = mw_hashed w @ zs" using assms(2) by (auto simp: prefix_def)
  obtain r where r: "directory_map (mw_directory w) key = Some r" "cr_codec r = codec" "cr_raw_len r = raw_len"
      "cr_flags r = 0" "cr_crc32 r = crc32 stored" "unat (cr_comp_len r) = length stored" "128 \<le> unat (cr_offset r)"
      "unat (cr_offset r) + length stored \<le> 128 + length (mw_hashed w)"
      "take (length stored) (drop (unat (cr_offset r) - 128) (mw_hashed w)) = stored"
    using assms(1) by (auto simp: chunk_stored_def)
  have "take (length stored) (drop (unat (cr_offset r) - 128) (mw_hashed w')) = stored"
    using r(7-9) by (simp add: zs)
  then show ?thesis using r assms(3) by (auto simp: chunk_stored_def zs)
qed

lemma record_key_new: "record_key (chunk_record_new l v c codec pos clen n crc) = (l, v, c)"
  by (simp add: chunk_record_new_def record_key_def)

lemma with_record_frame:
  assumes "directory_ok (mw_directory w)"
  shows "prefix (mw_hashed w) (mw_hashed (with_record stored r w))"
    and "(\<And>x. r = Some x \<Longrightarrow> record_key x \<noteq> k) \<Longrightarrow>
      directory_map (mw_directory (with_record stored r w)) k = directory_map (mw_directory w) k"
  using assms by (auto simp: with_record_def Let_def directory.lookup_upsert split: option.split)

lemma with_record_stored:
  assumes "at_end w" and "directory_ok (mw_directory w)"
    and "128 + length (mw_hashed w) < 2 ^ 64" and "length stored < 2 ^ 32"
  shows "chunk_stored crc32 (with_record stored (Some (chunk_record_new l v c codec (stream_position w)
      (word_of_nat (length stored)) n (crc32 stored))) w) (l, v, c) codec n stored"
proof -
  have "stream_position w = word_of_nat (128 + length (mw_hashed w))"
    using assms(1) by (simp only: stream_position_def at_end_def sink.simps)
  then have "unat (stream_position w) = 128 + length (mw_hashed w)"
    using unat_of_nat_u64 [OF assms(3)] by (simp only:)
  moreover have "unat (word_of_nat (length stored) :: u32) = length stored"
    using assms(4) by (simp add: unat_of_nat take_bit_nat_eq_self)
  ultimately show ?thesis
    using assms(2)
    by (simp add: chunk_stored_def with_record_def Let_def directory.lookup_upsert chunk_record_new_def record_key_def)
qed

text \<open>One step, and a run, keep the invariant, extend what was hashed and leave the other keys' records alone.\<close>

definition extends :: "ext_crates \<Rightarrow> dir_key set \<Rightarrow> map_writer \<Rightarrow> map_writer \<Rightarrow> bool" where
  "extends E K w w' \<longleftrightarrow> writer_ok E w' \<and> prefix (mw_hashed w) (mw_hashed w')
     \<and> (\<forall>k. k \<notin> K \<longrightarrow> directory_map (mw_directory w') k = directory_map (mw_directory w) k)"

lemma extends_trans: "extends E K w w' \<Longrightarrow> extends E K w' w'' \<Longrightarrow> extends E K w w''"
  by (auto simp: extends_def intro: prefix_order.trans)

lemma extends_mono: "extends E K w w' \<Longrightarrow> K \<subseteq> L \<Longrightarrow> extends E L w w'"
  by (auto simp: extends_def)

lemma ensure_prologue_extends:
  "writer_ok E w \<Longrightarrow> ensure_prologue E w = (r, w') \<Longrightarrow> extends E K w w'"
  using ensure_prologue_ok(1) ensure_prologue_frame by (auto simp: extends_def)

lemma with_record_extends:
  assumes "writer_ok E w" and "ensure_prologue E w = (Inr (), w1)"
  shows "extends E (record_key ` set_option r) w (with_record stored r w1)"
proof -
  note ok = ensure_prologue_success [OF assms]
  have "directory_ok (mw_directory w1)" using ok(1) by (simp add: writer_ok_def)
  note f = with_record_frame [OF this, where stored = stored and r = r]
  have "extends E (record_key ` set_option r) w1 (with_record stored r w1)"
    using f(1) with_record_ok [OF ok, of stored r] by (auto simp: extends_def intro!: f(2))
  with ensure_prologue_extends [OF assms] show ?thesis by (rule extends_trans)
qed

lemma writer_step_extends:
  assumes "writer_step E crc32 key w w'" and "writer_ok E w"
  shows "extends E (set_option key) w w'"
  using assms(1)
proof cases
  case (append d level chunk_id codec_id raw_len stored)
  show ?thesis
  proof (cases rule: append_chunk_cases [of E crc32 d level chunk_id codec_id raw_len stored w])
    case (fail e w1)
    with ensure_prologue_extends [OF assms(2) fail(2)] show ?thesis by (simp add: append)
  next
    case (partial e w1)
    then show ?thesis using with_record_extends [OF assms(2) partial(1), where r = None and stored = stored]
      by (auto simp: append intro: extends_mono)
  next
    case (stored w1)
    then show ?thesis using with_record_extends [OF assms(2) stored(1), where stored = stored and r = "Some (chunk_record_new (ld_layer_id d) level
          chunk_id codec_id (stream_position w1) (word_of_nat (length stored)) (word_of_nat raw_len) (crc32 stored))"]
      by (simp add: append record_key_new)
  qed
next
  case (encoded layer_id level chunk_id codec_id stored len)
  show ?thesis
  proof (cases rule: write_encoded_cases [of E crc32 layer_id level chunk_id codec_id stored len w])
    case (fail e w1)
    with ensure_prologue_extends [OF assms(2) fail(2)] show ?thesis by (simp add: encoded)
  next
    case (partial e w1)
    then show ?thesis using with_record_extends [OF assms(2) partial(1), where r = None and stored = stored]
      by (auto simp: encoded intro: extends_mono)
  next
    case (stored w1)
    then show ?thesis using with_record_extends [OF assms(2) stored(1), where stored = stored and r = "Some (chunk_record_new (layer_id) level
          chunk_id codec_id (stream_position w1) (word_of_nat (length stored)) len (crc32 stored))"]
      by (simp add: encoded record_key_new)
  qed
qed (use assms(2) guarded_ok writer_set_layer_ok in \<open>simp_all add: extends_def push_ext_meta_def set_skeleton_def\<close>)

lemma writer_run_extends:
  assumes "writer_run E crc32 K w w'" and "writer_ok E w"
  shows "extends E K w w'"
  using assms
proof induction
  case (step K w w' key w'')
  then have "extends E K w w'" by blast
  moreover from this have "writer_ok E w'" by (simp add: extends_def)
  ultimately show ?case using writer_step_extends [OF step.hyps(2)] step.hyps(3)
    by (blast intro: extends_trans extends_mono)
qed (simp add: extends_def)

text \<open>A chunk whose write succeeded is stored, and stays stored while its key is not written again.\<close>

lemma append_chunk_stored:
  assumes "writer_ok E w" and "append_chunk E crc32 d level chunk_id codec_id n stored w = (Inr crc, w')"
    and "128 + length (mw_hashed w') < 2 ^ 64"
  shows "chunk_stored crc32 w' (ld_layer_id d, level, chunk_id) codec_id (word_of_nat n) stored"
    and "n < 2 ^ 32"
proof -
  obtain w1 where w1: "ensure_prologue E w = (Inr (), w1)" and n: "n < 2 ^ 32" and len: "length stored < 2 ^ 32"
    and w': "w' = with_record stored (Some (chunk_record_new (ld_layer_id d) level chunk_id codec_id (stream_position w1)
              (word_of_nat (length stored)) (word_of_nat n) (crc32 stored))) w1"
    by (cases rule: append_chunk_cases [of E crc32 d level chunk_id codec_id n stored w]) (use assms(2) in auto)
  note ok = ensure_prologue_success [OF assms(1) w1]
  have "at_end w1" "directory_ok (mw_directory w1)"
    using ok by (auto simp: writer_ok_def prologue_ok_def)
  moreover have "128 + length (mw_hashed w1) < 2 ^ 64"
    using assms(3) with_record_frame(1) [OF calculation(2)]
    by (auto simp: w' dest!: prefix_length_le intro: le_less_trans)
  ultimately show "chunk_stored crc32 w' (ld_layer_id d, level, chunk_id) codec_id (word_of_nat n) stored"
    using len unfolding w' by (intro with_record_stored)
  show "n < 2 ^ 32" by (rule n)
qed

lemma chunk_stays_stored:
  assumes "chunk_stored crc32 w key codec n stored" and "extends E K w w'" and "key \<notin> K"
  shows "chunk_stored crc32 w' key codec n stored"
  by (rule chunk_stored_frame [OF assms(1)]) (use assms(2,3) in \<open>unfold extends_def, blast+\<close>)

text \<open>Once the prologue is written, no step changes what it was written from.\<close>

lemma frozen_guarded: "mw_prologue w \<noteq> None \<Longrightarrow> snd (guarded what f w) = w"
  by (simp add: guarded_def ensure_metadata_mutable_def)

lemma frozen_layer: "mw_prologue w \<noteq> None \<Longrightarrow> snd (writer_set_layer d w) = w"
  by (simp add: writer_set_layer_def ensure_metadata_mutable_def)

definition same_prologue :: "map_writer \<Rightarrow> map_writer \<Rightarrow> bool" where
  "same_prologue w w' \<longleftrightarrow> mw_prologue w' = mw_prologue w \<and> mw_meta w' = mw_meta w \<and> mw_ext_meta w' = mw_ext_meta w
     \<and> mw_layers w' = mw_layers w \<and> mw_skeleton w' = mw_skeleton w \<and> mw_spec w' = mw_spec w"

lemma same_prologue_refl [simp]: "same_prologue w w"
  by (simp add: same_prologue_def)

lemma same_prologue_record: "same_prologue w (with_record stored r w)"
  by (simp add: same_prologue_def with_record_def Let_def split: option.split)

lemma frozen_ensure: "mw_prologue w \<noteq> None \<Longrightarrow> ensure_prologue E w = (r, w') \<longleftrightarrow> r = Inr () \<and> w' = w"
  by (auto simp: ensure_prologue_def)

lemma writer_step_frozen:
  assumes "writer_step E crc32 key w w'" and p: "mw_prologue w \<noteq> None"
  shows "same_prologue w w'"
  using assms(1)
proof cases
  case (append d level chunk_id codec_id raw_len stored)
  show ?thesis
    by (cases rule: append_chunk_cases [of E crc32 d level chunk_id codec_id raw_len stored w])
      (simp_all add: append frozen_ensure [OF p] same_prologue_record)
next
  case (encoded layer_id level chunk_id codec_id stored len)
  show ?thesis
    by (cases rule: write_encoded_cases [of E crc32 layer_id level chunk_id codec_id stored len w])
      (simp_all add: encoded frozen_ensure [OF p] same_prologue_record)
qed (simp_all add: push_ext_meta_def set_skeleton_def frozen_guarded [OF p] frozen_layer [OF p])

lemma writer_run_frozen:
  assumes "writer_run E crc32 K w w'" and "mw_prologue w \<noteq> None"
  shows "same_prologue w w'"
  using assms
proof induction
  case (step K w w' key w'')
  then have "same_prologue w w'" by blast
  moreover have "same_prologue w' w''"
    using writer_step_frozen [OF step.hyps(2)] calculation step.prems by (simp add: same_prologue_def)
  ultimately show ?case by (simp add: same_prologue_def)
qed simp

section \<open>The finished file\<close>

lemma footer_fixed_part:
  assumes "length (f_file_hash f) = 16" and "length h = 16"
  shows "footer_to_bytes (f\<lparr>f_file_hash := h\<rparr>) = take 48 (footer_to_bytes f) @ h"
  using assms by (simp add: footer_layout layout_def FOOTER_MAGIC_def)

lemma writer_new_ok: "writer_new sink_empty s = Inr w \<Longrightarrow> writer_ok E w"
  by (auto simp: writer_new_def rbind_Inr_iff writer_ok_def split: if_splits)

lemma writer_header_hashed [simp]:
  "writer_header (write_hashed bs w) = writer_header w" "writer_footer (write_hashed bs w) = writer_footer w"
  by (simp_all add: writer_header_def [abs_def] writer_footer_def [abs_def] derive_flags_def writer_feature_dim_def Let_def)

lemma writer_finish_bytes:
  assumes "writer_ok E w" and fin: "writer_finish E crc32 xxh128 w = Inr file"
  obtains w1 p where "ensure_prologue E w = (Inr (), w1)" and "mw_prologue w1 = Some p" and "writer_ok E w1"
    and "file = header_to_bytes crc32 (writer_header w1 p (stream_position w1) (length (directory_to_bytes (mw_directory w1))))
        @ mw_hashed w1 @ directory_to_bytes (mw_directory w1)
        @ footer_to_bytes (writer_footer w1 (stream_position w1) (length (directory_to_bytes (mw_directory w1)))
            \<lparr>f_file_hash := compute_file_hash xxh128 file\<rparr>)"
proof -
  have "\<not> mw_finished w" using assms(1) by (simp add: writer_ok_def)
  then obtain w1 where w1: "ensure_prologue E w = (Inr (), w1)"
    using fin by (auto simp: writer_finish_def split: prod.splits sum.splits)
  note ok = ensure_prologue_success [OF assms(1) w1]
  obtain p where p: "mw_prologue w1 = Some p" using ok(2) by auto
  define off where "off = stream_position w1"
  define dir where "dir = directory_to_bytes (mw_directory w1)"
  define hdr where "hdr = header_to_bytes crc32 (writer_header w1 p off (length dir))"
  define f where "f = writer_footer w1 off (length dir)"
  define body where "body = mw_hashed w1 @ dir @ take 48 (footer_to_bytes f)"
  define h where "h = compose_file_hash xxh128 hdr (le_bytes 16 (xxh128 body))"
  have lens: "length hdr = 128" "length h = 16" "length (f_file_hash f) = 16"
    by (simp_all add: hdr_def h_def f_def compose_file_hash_def writer_footer_def header_record.to_bytes_length)
  have "at_end w1" using ok p by (simp add: writer_ok_def prologue_ok_def)
  then have "at_end (write_hashed (take 48 (footer_to_bytes f)) (write_hashed dir w1))"
    by (intro at_end_write_hashed)
  then have sink: "mw_sink (write_hashed (take 48 (footer_to_bytes f)) (write_hashed dir w1))
      = \<lparr>sk_bytes = replicate 128 0 @ body, sk_pos = 128 + length body\<rparr>"
    by (simp add: at_end_def body_def)
  have drop48: "drop 48 (footer_to_bytes (f\<lparr>f_file_hash := h\<rparr>)) = h"
    by (simp add: footer_fixed_part lens footer_record.to_bytes_length)
  have "file = sk_bytes (sink_write hdr (sink_seek 0 (sink_write h \<lparr>sk_bytes = replicate 128 0 @ body, sk_pos = 128 + length body\<rparr>)))"
    using fin \<open>\<not> mw_finished w\<close>
    by (simp add: writer_finish_def w1 p Let_def sink drop48
        flip: off_def dir_def f_def hdr_def h_def body_def)
  then have image: "file = hdr @ body @ h"
    using lens(1) by (simp add: sink_write_end) (simp add: sink_write_def sink_seek_def)
  then have "h = compute_file_hash xxh128 file"
    using compute_file_hash_parts [OF lens(1,2), of xxh128 body] by (simp add: h_def compose_file_hash_def)
  then have "file = hdr @ mw_hashed w1 @ dir @ footer_to_bytes (f\<lparr>f_file_hash := compute_file_hash xxh128 file\<rparr>)"
    using image footer_fixed_part [OF lens(3,2)] by (simp add: body_def)
  then show ?thesis
    using that [OF w1 p ok(1)] by (simp only: hdr_def dir_def f_def off_def)
qed

lemma finished_footer:
  assumes "writer_ok E w" and "writer_finish E crc32 xxh128 w = Inr file"
  obtains f where "footer_from_bytes (drop (length file - 64) file) = Inr f"
    and "f_file_hash f = compute_file_hash xxh128 file" and "f_file_len f = word_of_nat (length file)"
proof -
  obtain w1 p where "ensure_prologue E w = (Inr (), w1)" and "mw_prologue w1 = Some p" and ok: "writer_ok E w1"
    and image: "file = header_to_bytes crc32 (writer_header w1 p (stream_position w1) (length (directory_to_bytes (mw_directory w1))))
        @ mw_hashed w1 @ directory_to_bytes (mw_directory w1)
        @ footer_to_bytes (writer_footer w1 (stream_position w1) (length (directory_to_bytes (mw_directory w1)))
            \<lparr>f_file_hash := compute_file_hash xxh128 file\<rparr>)"
    by (rule writer_finish_bytes [OF assms])
  define f where "f = writer_footer w1 (stream_position w1) (length (directory_to_bytes (mw_directory w1)))
            \<lparr>f_file_hash := compute_file_hash xxh128 file\<rparr>"
  note image = image [folded f_def]
  have len: "length file = 128 + length (mw_hashed w1) + length (directory_to_bytes (mw_directory w1)) + 64"
    using arg_cong [OF image, of length]
    by (simp add: header_record.to_bytes_length footer_record.to_bytes_length)
  have "drop (length file - 64) file = footer_to_bytes f @ []"
    by (subst (2) image) (simp add: len header_record.to_bytes_length)
  moreover have "footer_wf f" by (simp add: footer_wf_def f_def writer_footer_def)
  ultimately have "footer_from_bytes (drop (length file - 64) file) = Inr f"
    by (simp only: footer_from_to)
  moreover have "f_file_len f = word_of_nat (length file)"
    using ok \<open>mw_prologue w1 = Some p\<close>
    by (simp add: f_def writer_footer_def len writer_ok_def prologue_ok_def at_end_def stream_position_def)
  ultimately show ?thesis using that by (simp add: f_def writer_footer_def)
qed

section \<open>A small map\<close>

text \<open>Four metres a side, cells of a metre, chunks of two cells.\<close>

definition small_spec :: map_header_spec where
  "small_spec =
     \<lparr>hs_ref_lon = 0, hs_ref_lat = 0, hs_epsg = 0, hs_bounds = aabb_new 0 0 0x4010000000000000 0x4010000000000000,
      hs_base_res_cm = 100, hs_chunk_size = 2, hs_lod_count = 1\<rparr>"

definition small_box :: aabb where
  "small_box = \<lparr>min_x = 0, min_y = 0, max_x = 0x4010000000000000, max_y = 0x4010000000000000\<rparr>"

definition small_writer :: map_writer where
  "small_writer = \<lparr>mw_sink = sink_empty, mw_spec = small_spec, mw_meta = [], mw_ext_meta = [], mw_skeleton = [],
     mw_layers = [], mw_directory = [], mw_hashed = [], mw_prologue = None, mw_finished = False\<rparr>"

lemma small_bounds: "aabb_new 0 0 0x4010000000000000 0x4010000000000000 = small_box"
  by (simp add: aabb_new_def f64_cmp_eval small_box_def)

lemma small_ops:
  "f64_of_nat 100 = 0x4059000000000000"
  "f64_div 0x4059000000000000 0x4059000000000000 = 0x3FF0000000000000"
  "f64_two_pow 0 = 0x3FF0000000000000"
  "f64_mul 0x3FF0000000000000 0x3FF0000000000000 = 0x3FF0000000000000"
  "f64_sub 0x4010000000000000 0 = 0x4010000000000000"
  "f64_div 0x4010000000000000 0x3FF0000000000000 = 0x4010000000000000"
  "f64_ceil 0x4010000000000000 = 0x4010000000000000"
  "f64_to_u32 0x4010000000000000 = 4"
  by (simp_all add: float_eval)

lemma small_grid:
  "header_spec_grid small_spec = \<lparr>cg_bounds = small_box, cg_base_res_m = 0x3FF0000000000000, cg_chunk_size = 2, cg_lod_count = 1\<rparr>"
  by (simp add: header_spec_grid_def small_spec_def small_bounds f64_hundred_def small_ops grid_new_def)

lemma small_grid_valid: "grid_validate (header_spec_grid small_spec) = Inr ()"
  by (simp add: small_grid grid_validate_def grid_chunk_dims_def grid_cell_dims_def grid_cell_size_m_def small_ops
      aabb_width_def aabb_height_def small_box_def f64_cmp_eval f64_one_def F64_MIN_POSITIVE_def div_ceil_def
      f64_is_finite_def fl_is_finite_def f64_fl_def axis_addressable_def max_def word_le_nat_alt word_less_nat_alt)

lemma small_new: "writer_new sink_empty small_spec = Inr small_writer"
  by (simp add: writer_new_def small_grid_valid)
    (simp add: small_spec_def small_bounds small_box_def aabb_width_def aabb_height_def small_ops f64_cmp_eval small_writer_def)

lemma stored_compress: "zstd_compress stored_crates p None = Inr p"
  by (simp add: zstd_compress_def stored_crates_def)

lemma stored_finishes:
  assumes "writer_ok stored_crates w"
  shows "\<exists>file. writer_finish stored_crates crc32 xxh128 w = Inr file"
proof -
  obtain w1 where w1: "ensure_prologue stored_crates w = (Inr (), w1)"
    by (cases "mw_prologue w = None") (auto simp: ensure_prologue_def Let_def stored_compress)
  with ensure_prologue_success [OF assms w1] show ?thesis by (auto simp: writer_finish_def Let_def)
qed

section \<open>Properties\<close>

text \<open>C25: a finished file verifies. Whatever the writer was asked to do between \<open>new\<close> and \<open>finish\<close>, failed
  operations included, the last 64 bytes of the file \<open>finish\<close> returns are a footer, and that footer's
  length and hash are those of the whole file.\<close>

theorem finished_file_verifies:
  assumes "writer_new sink_empty s = Inr w0" and "writer_run E crc32 K w0 w"
    and "writer_finish E crc32 xxh128 w = Inr file"
  shows "\<exists>f. footer_from_bytes (drop (length file - 64) file) = Inr f \<and> footer_verify xxh128 f file = Inr ()"
proof -
  have "writer_ok E w" using writer_run_extends [OF assms(2) writer_new_ok [OF assms(1)]] by (simp add: extends_def)
  then obtain f where "footer_from_bytes (drop (length file - 64) file) = Inr f"
    "f_file_hash f = compute_file_hash xxh128 file" "f_file_len f = word_of_nat (length file)"
    using assms(3) by (rule finished_footer)
  then show ?thesis by (simp add: footer_verify_def)
qed

theorem finished_file_verifies_witness:
  "\<exists>w file f. writer_run stored_crates (\<lambda>_. 7) {} small_writer w \<and> mw_skeleton w = [qnode_new 1 0 0 0 0]
     \<and> writer_finish stored_crates (\<lambda>_. 7) (\<lambda>bs. word_of_nat (length bs)) w = Inr file
     \<and> footer_from_bytes (drop (length file - 64) file) = Inr f
     \<and> footer_verify (\<lambda>bs. word_of_nat (length bs)) f file = Inr ()"
proof -
  define w where "w = snd (set_skeleton [qnode_new 1 0 0 0 0] small_writer)"
  have run: "writer_run stored_crates (\<lambda>_. 7) {} small_writer w"
    unfolding w_def
    by (rule writer_run.step [OF writer_run.refl writer_step.skeleton]) simp
  have "writer_ok stored_crates w"
    using writer_run_extends [OF run writer_new_ok [OF small_new]] by (simp add: extends_def)
  then obtain img where image: "writer_finish stored_crates (\<lambda>_. 7) (\<lambda>bs. word_of_nat (length bs)) w = Inr img"
    using stored_finishes by blast
  have "mw_skeleton w = [qnode_new 1 0 0 0 0]"
    by (simp add: w_def set_skeleton_def guarded_def ensure_metadata_mutable_def small_writer_def)
  then show ?thesis using run image finished_file_verifies [OF small_new run image] by blast
qed

text \<open>C28: once the first chunk is written the metadata is frozen. Every metadata setter then fails and changes
  nothing, and no sequence of operations changes the metadata, the layer table, the skeleton or the place
  the prologue recorded for them.\<close>

theorem metadata_frozen:
  assumes "writer_ok E w" and "append_chunk E crc32 d level chunk_id codec n stored w = (Inr crc, w')"
  shows "(\<exists>e. guarded what f w' = (Inl e, w')) \<and> (\<exists>e. push_ext_meta r w' = (Inl e, w'))
    \<and> (\<exists>e. writer_set_layer d' w' = (Inl e, w')) \<and> (\<exists>e. set_skeleton nodes w' = (Inl e, w'))
    \<and> (writer_run E crc32 K w' w'' \<longrightarrow>
         mw_meta w'' = mw_meta w' \<and> mw_ext_meta w'' = mw_ext_meta w' \<and> mw_layers w'' = mw_layers w'
         \<and> mw_skeleton w'' = mw_skeleton w' \<and> mw_prologue w'' = mw_prologue w')"
proof -
  have p: "mw_prologue w' \<noteq> None"
  proof (cases rule: append_chunk_cases [of E crc32 d level chunk_id codec n stored w])
    case (stored w1)
    then show ?thesis
      using assms(2) ensure_prologue_success(2) [OF assms(1) stored(1)] same_prologue_record [of w1]
      by (auto simp: same_prologue_def)
  qed (use assms(2) in auto)
  then show ?thesis
    using writer_run_frozen [OF _ p, of E crc32 K w'']
    by (auto simp: guarded_def push_ext_meta_def set_skeleton_def writer_set_layer_def ensure_metadata_mutable_def
        same_prologue_def)
qed

theorem metadata_frozen_witness:
  "\<exists>w'. append_chunk stored_crates (\<lambda>_. 7) (layer_desc_new 1 Raster 1 U8 2) 0 0 RAW 2 [1, 2] small_writer = (Inr 7, w')
     \<and> (\<exists>e. set_skeleton [] w' = (Inl e, w'))"
proof -
  have ok: "writer_ok stored_crates small_writer" by (rule writer_new_ok [OF small_new])
  obtain w1 where "ensure_prologue stored_crates small_writer = (Inr (), w1)"
    by (auto simp: ensure_prologue_def Let_def stored_compress small_writer_def)
  then obtain w' where "append_chunk stored_crates (\<lambda>_. 7) (layer_desc_new 1 Raster 1 U8 2) 0 0 RAW 2 [1, 2] small_writer
      = (Inr 7, w')"
    by (simp add: append_chunk_def Let_def u32_try_from_def)
  with metadata_frozen [OF ok this] show ?thesis by blast
qed

end
