(* ===== verification/Omf_Reader.thy ===== *)
theory Omf_Reader
  imports Omf_Writer Omf_Region Omf_Prm Omf_Kpath
begin

text \<open>
  The reader (\<open>crates/map-format/src/reader.rs\<close>) over an in-memory image (\<open>MemSource\<close>). A call that goes
  through the chunk cache returns its result with the map it leaves behind, whose cache alone may differ;
  the mutex around the cache is taken without failing. The lemmas show that the cache never changes an
  answer, that a derived layer is served only while its sources are those it was built from, and that a
  map the writer finished opens again and gives back the chunks that were written.
\<close>

section \<open>The source\<close>

definition mem_read_at :: "bytes \<Rightarrow> u64 \<Rightarrow> usize \<Rightarrow> bytes result" where
  "mem_read_at src offset len =
     (let start = unat offset; end = min (start + len) usize_max
      in if start \<le> end \<and> end \<le> length src then Inr (take (end - start) (drop start src))
         else Inl (Truncated (unat offset) len (length src - start)))"

definition mem_len :: "bytes \<Rightarrow> u64" where
  "mem_len src = word_of_nat (length src)"

definition read_region :: "bytes \<Rightarrow> u64 \<Rightarrow> usize \<Rightarrow> string \<Rightarrow> bytes result" where
  "read_region src offset len what =
     (if unat offset + len < 2 ^ 64 \<and> unat offset + len \<le> unat (mem_len src) then mem_read_at src offset len
      else Inl (invalid (what @ '' at offset '' @ show_nat (unat offset) @ '' with length '' @ show_nat len
             @ '' extends past the end of the '' @ show_nat (unat (mem_len src)) @ ''-byte file'')))"

section \<open>The chunk cache\<close>

record chunk_cache =
  cc_entries :: "dir_key \<Rightarrow> bytes option"
  cc_order :: "dir_key list"
  cc_capacity :: usize

definition cache_new :: "usize \<Rightarrow> chunk_cache" where
  "cache_new capacity = \<lparr>cc_entries = (\<lambda>_. None), cc_order = [], cc_capacity = capacity\<rparr>"

definition cache_get :: "chunk_cache \<Rightarrow> dir_key \<Rightarrow> bytes option" where
  "cache_get c key = cc_entries c key"

text \<open>The eviction loop: the oldest keys go until the queue fits.\<close>

fun evict :: "usize \<Rightarrow> (dir_key \<Rightarrow> bytes option) \<Rightarrow> dir_key list \<Rightarrow> (dir_key \<Rightarrow> bytes option) \<times> dir_key list" where
  "evict capacity entries [] = (entries, [])"
| "evict capacity entries (old # order) =
     (if length (old # order) > capacity then evict capacity (entries(old := None)) order else (entries, old # order))"

definition cache_insert :: "dir_key \<Rightarrow> bytes \<Rightarrow> chunk_cache \<Rightarrow> chunk_cache" where
  "cache_insert key v c =
     (if cc_capacity c = 0 then c
      else
        let order = (if cc_entries c key = None then cc_order c @ [key] else cc_order c);
            (entries, order) = evict (cc_capacity c) ((cc_entries c)(key := Some v)) order
        in c\<lparr>cc_entries := entries, cc_order := order\<rparr>)"

definition cache_clear :: "chunk_cache \<Rightarrow> chunk_cache" where
  "cache_clear c = c\<lparr>cc_entries := (\<lambda>_. None), cc_order := []\<rparr>"

section \<open>The map\<close>

record map_stats =
  ms_file_len :: u64
  ms_chunk_count :: usize
  ms_layer_count :: usize
  ms_skeleton_nodes :: usize
  ms_stored_bytes :: u64
  ms_raw_bytes :: u64

record omf_map =
  om_source :: bytes
  om_header :: header
  om_footer :: footer
  om_meta :: tlv_block
  om_layers :: "layer_desc list"
  om_grid :: chunk_grid
  om_directory :: chunk_directory
  om_skeleton :: skeleton
  om_zstd_dict :: "bytes option"
  om_cache :: chunk_cache
  om_stale :: "(layer_id \<times> string) list"

type_synonym 'a rd = "omf_map \<Rightarrow> 'a result \<times> omf_map"

definition map_layer_desc :: "omf_map \<Rightarrow> layer_id \<Rightarrow> layer_desc option" where
  "map_layer_desc m layer_id = find (\<lambda>d. ld_layer_id d = layer_id) (om_layers m)"

definition map_layer_ids :: "omf_map \<Rightarrow> layer_id list" where
  "map_layer_ids m = map ld_layer_id (om_layers m)"

definition map_layer :: "omf_map \<Rightarrow> layer_id \<Rightarrow> raster_view option" where
  "map_layer m layer_id =
     (case map_layer_desc m layer_id of
        None \<Rightarrow> None
      | Some desc \<Rightarrow>
          let levels = map snd (filter (\<lambda>p. fst p = layer_id) (layer_levels (om_directory m)))
          in Some (raster_view_new desc (om_grid m) levels))"

definition map_locate :: "omf_map \<Rightarrow> f64 \<Rightarrow> f64 \<Rightarrow> u8 \<Rightarrow> qnode option" where
  "map_locate m x y max_depth =
     skeleton_locate (om_skeleton m) x y (h_bounds (om_header m)) (header_base_res_m (om_header m)) max_depth"

definition map_clear_cache :: "omf_map \<Rightarrow> omf_map" where
  "map_clear_cache m = m\<lparr>om_cache := cache_clear (om_cache m)\<rparr>"

definition map_records :: "omf_map \<Rightarrow> layer_id \<Rightarrow> u8 \<Rightarrow> chunk_record list" where
  "map_records m layer_id level = for_layer_level (om_directory m) layer_id level"

definition map_batch_count :: "omf_map \<Rightarrow> layer_id \<Rightarrow> usize" where
  "map_batch_count m layer_id = length (for_layer_level (om_directory m) layer_id 0)"

definition map_stats_of :: "omf_map \<Rightarrow> map_stats" where
  "map_stats_of m =
     \<lparr>ms_file_len = mem_len (om_source m), ms_chunk_count = length (om_directory m),
      ms_layer_count = length (om_layers m), ms_skeleton_nodes = length (om_skeleton m),
      ms_stored_bytes = total_compressed_bytes (om_directory m), ms_raw_bytes = total_raw_bytes (om_directory m)\<rparr>"

definition f64_eq :: "f64 \<Rightarrow> f64 \<Rightarrow> bool" where
  "f64_eq x y \<longleftrightarrow> f64_le x y \<and> f64_le y x"

definition has_geo_reference :: "omf_map \<Rightarrow> bool" where
  "has_geo_reference m \<longleftrightarrow> \<not> f64_eq (h_ref_lon (om_header m)) 0 \<or> \<not> f64_eq (h_ref_lat (om_header m)) 0"

section \<open>Metadata\<close>

definition map_map_info :: "omf_map \<Rightarrow> map_info option result" where
  "map_map_info m = tlv_get_as map_info_decode (om_meta m) TAG_MAP_INFO"

definition map_feature_schema :: "omf_map \<Rightarrow> feature_schema option result" where
  "map_feature_schema m = tlv_get_as feature_schema_decode (om_meta m) TAG_FEATURE_SCHEMA"

definition map_weight_prior :: "omf_map \<Rightarrow> weight_prior option result" where
  "map_weight_prior m = tlv_get_as weight_prior_decode (om_meta m) TAG_WEIGHT_PRIOR"

definition map_provenance :: "omf_map \<Rightarrow> provenance option result" where
  "map_provenance m = tlv_get_as provenance_decode (om_meta m) TAG_PROVENANCE"

definition map_magnetic_field :: "omf_map \<Rightarrow> magnetic_field option result" where
  "map_magnetic_field m = tlv_get_as magnetic_field_decode (om_meta m) TAG_MAGNETIC_FIELD"

definition map_global_stats :: "omf_map \<Rightarrow> global_stats option result" where
  "map_global_stats m = tlv_get_as global_stats_decode (om_meta m) TAG_GLOBAL_STATS"

definition map_prm_seeds :: "omf_map \<Rightarrow> prm_seeds option result" where
  "map_prm_seeds m = tlv_get_as prm_seeds_decode (om_meta m) TAG_PRM_SEEDS"

definition map_chunk_layout :: "omf_map \<Rightarrow> chunk_layout option result" where
  "map_chunk_layout m = tlv_get_as chunk_layout_decode (om_meta m) TAG_CHUNK_LAYOUT"

definition map_derived_layers :: "omf_map \<Rightarrow> derived_layers option result" where
  "map_derived_layers m = tlv_get_as derived_layers_decode (om_meta m) TAG_DERIVED_LAYERS"

definition map_connectors :: "omf_map \<Rightarrow> connector_table option result" where
  "map_connectors m = tlv_get_as connector_table_decode (om_meta m) TAG_CONNECTOR_TABLE"

definition map_slope_model :: "omf_map \<Rightarrow> slope_model result" where
  "map_slope_model m =
     rbind (tlv_get_as slope_model_decode (om_meta m) TAG_SLOPE_MODEL) (\<lambda>v.
     Inr (case v of Some s \<Rightarrow> s | None \<Rightarrow> slope_model_default))"

definition map_aggregation_rules :: "omf_map \<Rightarrow> aggregation_rules result" where
  "map_aggregation_rules m =
     rbind (tlv_get_as aggregation_rules_decode (om_meta m) TAG_AGGREGATION_RULES) (\<lambda>v.
     Inr (case v of Some s \<Rightarrow> s | None \<Rightarrow> aggregation_rules_default))"

section \<open>Derived layers\<close>

definition sources_of :: "omf_map \<Rightarrow> layer_id \<Rightarrow> layer_id list" where
  "sources_of m layer_id =
     (let features = filter (\<lambda>l. 0x1000 \<le> l \<and> l < 0x1100) (map ld_layer_id (om_layers m))
      in if layer_id = SLOPE then [ELEVATION]
         else if layer_id = EDT then [HARD_FORBIDDEN]
         else if layer_id = PRM_GRAPH then features @ [ELEVATION, HARD_FORBIDDEN, DIRECTION]
         else if layer_id = KPATH_LIBRARY then [PRM_GRAPH, HARD_FORBIDDEN]
         else if layer_id = COST_CACHE then features @ [HARD_FORBIDDEN]
         else [])"

definition layer_records :: "omf_map \<Rightarrow> layer_id \<Rightarrow> chunk_record list" where
  "layer_records m layer_id =
     concat (map (\<lambda>p. for_layer_level (om_directory m) layer_id (snd p))
       (filter (\<lambda>p. fst p = layer_id) (layer_levels (om_directory m))))"

definition source_fingerprint :: "xxh64_fn \<Rightarrow> omf_map \<Rightarrow> layer_id \<Rightarrow> u64 option" where
  "source_fingerprint xxh64 m layer_id =
     map_option (\<lambda>desc. layer_fingerprint xxh64 desc (layer_records m layer_id)) (map_layer_desc m layer_id)"

text \<open>The loop over the sources, which skips those that are not registered.\<close>

definition source_fingerprints :: "xxh64_fn \<Rightarrow> omf_map \<Rightarrow> layer_id \<Rightarrow> u64 list" where
  "source_fingerprints xxh64 m layer_id = List.map_filter (source_fingerprint xxh64 m) (sources_of m layer_id)"

definition map_verify_derived :: "xxh64_fn \<Rightarrow> omf_map \<Rightarrow> layer_id \<Rightarrow> derived_status result" where
  "map_verify_derived xxh64 m layer_id =
     (case map_layer_desc m layer_id of
        None \<Rightarrow> Inr (Stale (''layer '' @ layer_text layer_id @ '' is not registered''))
      | Some desc \<Rightarrow>
          if \<not> is_derived (ld_layer_id desc) then Inr Valid
          else
            rbind (map_derived_layers m) (\<lambda>table.
            case table of
              None \<Rightarrow> Inr (Stale (''layer '' @ layer_text layer_id @ '' has no fingerprint table''))
            | Some headers \<Rightarrow>
                let fingerprints = source_fingerprints xxh64 m layer_id;
                    params_hash = (case derived_layers_get headers layer_id of
                                     Some entry \<Rightarrow> de_build_params_hash entry | None \<Rightarrow> 0)
                in Inr (verify_derived xxh64 headers layer_id fingerprints params_hash)))"

fun find_stale_from :: "xxh64_fn \<Rightarrow> omf_map \<Rightarrow> layer_desc list \<Rightarrow> (layer_id \<times> string) list result" where
  "find_stale_from xxh64 m [] = Inr []"
| "find_stale_from xxh64 m (desc # ds) =
     (if \<not> is_derived (ld_layer_id desc) then find_stale_from xxh64 m ds
      else
        rbind (map_verify_derived xxh64 m (ld_layer_id desc)) (\<lambda>st.
        rbind (find_stale_from xxh64 m ds) (\<lambda>rest.
        case st of Stale reason \<Rightarrow> Inr ((ld_layer_id desc, reason) # rest) | Valid \<Rightarrow> Inr rest)))"

definition find_stale_derived :: "xxh64_fn \<Rightarrow> omf_map \<Rightarrow> (layer_id \<times> string) list result" where
  "find_stale_derived xxh64 m = find_stale_from xxh64 m (om_layers m)"

definition stale_reason :: "omf_map \<Rightarrow> layer_id \<Rightarrow> string option" where
  "stale_reason m layer_id = map_option snd (find (\<lambda>p. fst p = layer_id) (om_stale m))"

section \<open>Opening\<close>

definition compose_hash :: "(bytes \<Rightarrow> 128 word) \<Rightarrow> bytes \<Rightarrow> bytes \<Rightarrow> u64 \<Rightarrow> bytes result" where
  "compose_hash xxh128 header_bytes src len =
     (let body_len = unat (len - 128 - 16)
      in rbind (mem_read_at src 128 body_len) (\<lambda>body.
         let digest = le_bytes 16 (xxh128 body);
             n = min (length header_bytes) 128;
             hdr = take n header_bytes @ drop n (replicate 128 0)
         in Inr (compose_file_hash xxh128 hdr digest)))"

text \<open>The sum cannot wrap where it is used: the meta block has been read, so its end lies in the file.\<close>

definition skeleton_offset :: "header \<Rightarrow> u64 result" where
  "skeleton_offset h = Inr (align8 (h_meta_offset h + ucast (h_meta_len h) + ucast (h_ext_meta_len h)))"

definition read_skeleton :: "bytes \<Rightarrow> header \<Rightarrow> footer \<Rightarrow> skeleton result" where
  "read_skeleton src h f =
     (if f_node_count f > 0
      then rbind (skeleton_offset h) (\<lambda>start.
           rbind (read_region src start (unat (f_node_count f) * 16) ''quadtree skeleton'') skeleton_from_bytes)
      else Inr skeleton_empty)"

definition check_file_hash :: "(bytes \<Rightarrow> 128 word) \<Rightarrow> bytes \<Rightarrow> bytes \<Rightarrow> footer \<Rightarrow> unit result" where
  "check_file_hash xxh128 header_bytes src f =
     rbind (compose_hash xxh128 header_bytes src (mem_len src)) (\<lambda>computed.
     if computed \<noteq> f_file_hash f then Inl (FileHash (f_file_hash f) computed) else Inr ())"

definition map_verify_file_hash :: "(bytes \<Rightarrow> 128 word) \<Rightarrow> omf_map \<Rightarrow> unit result" where
  "map_verify_file_hash xxh128 m =
     rbind (mem_read_at (om_source m) 0 128) (\<lambda>header_bytes.
     check_file_hash xxh128 header_bytes (om_source m) (om_footer m))"

definition with_source ::
  "ext_crates \<Rightarrow> (bytes \<Rightarrow> u32) \<Rightarrow> (bytes \<Rightarrow> 128 word) \<Rightarrow> xxh64_fn \<Rightarrow> bytes \<Rightarrow> bool \<Rightarrow> omf_map result" where
  "with_source E crc32 xxh128 xxh64 src verify_hash =
     (let len = mem_len src
      in if len < 192
         then Inl (invalid (''file is '' @ show_nat (unat len)
                @ '' byte(s) long, too short to hold an OMF header and footer''))
         else
           rbind (mem_read_at src 0 128) (\<lambda>header_bytes.
           rbind (header_from_bytes crc32 header_bytes) (\<lambda>h.
           let footer_offset = len - 64
           in if h_footer_offset h \<noteq> 0 \<and> h_footer_offset h \<noteq> footer_offset
              then Inl (invalid (''header points at footer offset '' @ show_nat (unat (h_footer_offset h))
                     @ '', file length implies '' @ show_nat (unat footer_offset)))
              else
                rbind (mem_read_at src footer_offset 64) (\<lambda>footer_bytes.
                rbind (footer_from_bytes footer_bytes) (\<lambda>f.
                if f_file_len f \<noteq> len
                then Inl (invalid (''footer records file length '' @ show_nat (unat (f_file_len f))
                       @ '', actual length is '' @ show_nat (unat len)))
                else if h_version_minor h \<noteq> f_version_minor f
                then Inl (invalid ''header and footer disagree on the minor version'')
                else
                  rbind (if verify_hash then check_file_hash xxh128 header_bytes src f else Inr ()) (\<lambda>_.
                  rbind (read_region src (h_meta_offset h) (unat (h_meta_len h)) ''meta block'') (\<lambda>meta_bytes.
                  rbind (zstd_decompress_all E meta_bytes) (\<lambda>meta_raw.
                  rbind (tlv_from_bytes meta_raw) (\<lambda>meta.
                  rbind (tlv_get_as layer_table_decode meta TAG_LAYER_TABLE) (\<lambda>table.
                  rbind (read_region src (h_dir_offset h) (unat (h_dir_len h)) ''chunk directory'') (\<lambda>dir_bytes.
                  rbind (directory_from_bytes dir_bytes) (\<lambda>directory.
                  rbind (read_skeleton src h f) (\<lambda>skeleton.
                  rbind (tlv_get_as zstd_dict_decode meta TAG_ZSTD_DICT) (\<lambda>dict.
                  let grid = grid_new (h_bounds h) (header_base_res_m h) (ucast (h_chunk_size h)) (h_lod_count h)
                  in rbind (grid_validate grid) (\<lambda>_.
                     let m = \<lparr>om_source = src, om_header = h, om_footer = f, om_meta = meta,
                              om_layers = (case table of Some t \<Rightarrow> t | None \<Rightarrow> []), om_grid = grid,
                              om_directory = directory, om_skeleton = skeleton,
                              om_zstd_dict = (if dict = Some [] then None else dict),
                              om_cache = cache_new 256, om_stale = []\<rparr>
                     in rbind (find_stale_derived xxh64 m) (\<lambda>stale.
                        Inr (m\<lparr>om_stale := stale\<rparr>)))))))))))))))))"

definition map_from_bytes ::
  "ext_crates \<Rightarrow> (bytes \<Rightarrow> u32) \<Rightarrow> (bytes \<Rightarrow> 128 word) \<Rightarrow> xxh64_fn \<Rightarrow> bytes \<Rightarrow> omf_map result" where
  "map_from_bytes E crc32 xxh128 xxh64 bs = with_source E crc32 xxh128 xxh64 bs True"

section \<open>Chunks\<close>

text \<open>The checks and the shape \<open>chunk_payload\<close> decodes a record with.\<close>

definition payload_shape :: "omf_map \<Rightarrow> layer_id \<Rightarrow> u8 \<Rightarrow> u32 \<Rightarrow> layer_desc \<Rightarrow> chunk_record \<Rightarrow> chunk_shape result" where
  "payload_shape m layer_id level chunk_id desc r =
     (if is_chunked (ld_kind desc) then
        (if level \<ge> max (h_lod_count (om_header m)) 1
         then Inl (invalid (''layer '' @ layer_text layer_id @ '' chunk '' @ show_nat (unat chunk_id)
                @ '' records LOD level '' @ show_nat (unat level) @ '', but the header declares ''
                @ show_nat (unat (h_lod_count (om_header m)))))
         else
           let s = grid_chunk_shape (om_grid m) desc level
           in rbind (ok_or (invalid ''chunk shape overflows'') (total_bytes_checked s)) (\<lambda>n.
              if n > MAX_RAW_CHUNK_BYTES
              then Inl (invalid (''layer '' @ layer_text layer_id @ '' chunk shape demands '' @ show_nat n
                     @ '' byte(s), above the '' @ show_nat MAX_RAW_CHUNK_BYTES @ ''-byte limit''))
              else if n \<noteq> unat (cr_raw_len r)
              then Inl (invalid (''layer '' @ layer_text layer_id @ '' level '' @ show_nat (unat level) @ '' chunk ''
                     @ show_nat (unat chunk_id) @ '' records a '' @ show_nat (unat (cr_raw_len r))
                     @ ''-byte payload but its shape is '' @ show_nat n @ '' byte(s)''))
              else Inr s))
      else if unat (cr_raw_len r) > MAX_RAW_CHUNK_BYTES
      then Inl (invalid (''layer '' @ layer_text layer_id @ '' declares a '' @ show_nat (unat (cr_raw_len r))
             @ ''-byte payload, above the '' @ show_nat MAX_RAW_CHUNK_BYTES @ ''-byte limit''))
      else Inr \<lparr>cs_width = cr_raw_len r, cs_height = 1, cs_channels = 1, cs_dtype = U8\<rparr>)"

text \<open>What a miss reads and decodes.\<close>

definition read_payload ::
  "ext_crates \<Rightarrow> (bytes \<Rightarrow> u32) \<Rightarrow> omf_map \<Rightarrow> layer_id \<Rightarrow> u8 \<Rightarrow> u32 \<Rightarrow> chunk_record \<Rightarrow> bytes result" where
  "read_payload E crc32 m layer_id level chunk_id r =
     rbind (read_region (om_source m) (cr_offset r) (unat (cr_comp_len r)) ''chunk payload'') (\<lambda>stored.
     let crc = crc32 stored
     in if crc \<noteq> cr_crc32 r then Inl (ChunkCrc layer_id level chunk_id (cr_crc32 r) crc)
        else
          rbind (ok_or (LayerNotFound layer_id) (map_layer_desc m layer_id)) (\<lambda>desc.
          rbind (payload_shape m layer_id level chunk_id desc r) (\<lambda>s.
          codec_decode E (cr_codec r) s stored \<lparr>ctx_dict = om_zstd_dict m, ctx_parent = None\<rparr>)))"

definition map_chunk_payload ::
  "ext_crates \<Rightarrow> (bytes \<Rightarrow> u32) \<Rightarrow> layer_id \<Rightarrow> u8 \<Rightarrow> u32 \<Rightarrow> bytes option rd" where
  "map_chunk_payload E crc32 layer_id level chunk_id m =
     (case stale_reason m layer_id of
        Some reason \<Rightarrow> (Inl (StaleDerived layer_id reason), m)
      | None \<Rightarrow>
          case directory_find (om_directory m) layer_id level chunk_id of
            None \<Rightarrow> (Inr None, m)
          | Some r \<Rightarrow>
              if cr_flags r AND TOMBSTONE \<noteq> 0 then (Inr None, m)
              else if \<not> codec_is_supported (cr_codec r)
              then (Inl (UnsupportedCodec (cr_codec r) layer_id level chunk_id), m)
              else
                case cache_get (om_cache m) (layer_id, level, chunk_id) of
                  Some hit \<Rightarrow> (Inr (Some hit), m)
                | None \<Rightarrow>
                    case read_payload E crc32 m layer_id level chunk_id r of
                      Inl e \<Rightarrow> (Inl e, m)
                    | Inr payload \<Rightarrow>
                        (Inr (Some payload), m\<lparr>om_cache := cache_insert (layer_id, level, chunk_id) payload (om_cache m)\<rparr>))"

text \<open>\<open>None\<close> is the panic of \<open>unpack\<close> on a shape that is not the layer's.\<close>

definition map_chunk ::
  "half_crate \<Rightarrow> ext_crates \<Rightarrow> (bytes \<Rightarrow> u32) \<Rightarrow> layer_id \<Rightarrow> u8 \<Rightarrow> u32 \<Rightarrow> omf_map \<Rightarrow>
     (raster_chunk option result \<times> omf_map) option" where
  "map_chunk H E crc32 layer_id level chunk_id m =
     (case map_layer_desc m layer_id of
        None \<Rightarrow> Some (Inl (LayerNotFound layer_id), m)
      | Some desc \<Rightarrow>
          if \<not> is_chunked (ld_kind desc) then Some (Inl (NotACellLayer layer_id (layer_kind_name (ld_kind desc))), m)
          else
            case map_chunk_payload E crc32 layer_id level chunk_id m of
              (Inl e, m) \<Rightarrow> Some (Inl e, m)
            | (Inr None, m) \<Rightarrow> Some (Inr None, m)
            | (Inr (Some payload), m) \<Rightarrow>
                (case raster_unpack H desc (grid_chunk_shape (om_grid m) desc level) payload of
                   None \<Rightarrow> None
                 | Some (Inl e) \<Rightarrow> Some (Inl e, m)
                 | Some (Inr c) \<Rightarrow> Some (Inr (Some c), m)))"

definition map_section :: "ext_crates \<Rightarrow> (bytes \<Rightarrow> u32) \<Rightarrow> layer_id \<Rightarrow> bytes option rd" where
  "map_section E crc32 layer_id = map_chunk_payload E crc32 layer_id 0 0"

text \<open>A section decoded, when it is there: \<open>map(..).transpose()\<close>.\<close>

definition decoded :: "(bytes \<Rightarrow> 'a result) \<Rightarrow> bytes option result \<times> omf_map \<Rightarrow> 'a option result \<times> omf_map" where
  "decoded dec rm =
     (case rm of
        (Inl e, m) \<Rightarrow> (Inl e, m)
      | (Inr None, m) \<Rightarrow> (Inr None, m)
      | (Inr (Some payload), m) \<Rightarrow> (rmap Some (dec payload), m))"

definition map_prm_graph ::
  "ext_crates \<Rightarrow> (bytes \<Rightarrow> u32) \<Rightarrow> xxh64_fn \<Rightarrow> u16 \<Rightarrow> prm_graph option rd" where
  "map_prm_graph E crc32 xxh64 batch m =
     (if map_layer_desc m PRM_GRAPH = None then (Inr None, m)
      else
        case rbind (map_verify_derived xxh64 m PRM_GRAPH) (\<lambda>st. require_valid st PRM_GRAPH) of
          Inl e \<Rightarrow> (Inl e, m)
        | Inr _ \<Rightarrow> decoded prm_decode (map_chunk_payload E crc32 PRM_GRAPH 0 (ucast batch) m))"

fun prm_graphs_from ::
  "ext_crates \<Rightarrow> (bytes \<Rightarrow> u32) \<Rightarrow> xxh64_fn \<Rightarrow> nat list \<Rightarrow> prm_graph list \<Rightarrow> prm_graph list rd" where
  "prm_graphs_from E crc32 xxh64 [] out m = (Inr out, m)"
| "prm_graphs_from E crc32 xxh64 (batch # bs) out m =
     (case map_prm_graph E crc32 xxh64 (word_of_nat batch) m of
        (Inl e, m) \<Rightarrow> (Inl e, m)
      | (Inr None, m) \<Rightarrow> prm_graphs_from E crc32 xxh64 bs out m
      | (Inr (Some g), m) \<Rightarrow> prm_graphs_from E crc32 xxh64 bs (out @ [g]) m)"

definition map_prm_graphs :: "ext_crates \<Rightarrow> (bytes \<Rightarrow> u32) \<Rightarrow> xxh64_fn \<Rightarrow> prm_graph list rd" where
  "map_prm_graphs E crc32 xxh64 m = prm_graphs_from E crc32 xxh64 [0..<map_batch_count m PRM_GRAPH] [] m"

definition map_kpath_library :: "ext_crates \<Rightarrow> (bytes \<Rightarrow> u32) \<Rightarrow> xxh64_fn \<Rightarrow> kpath_library option rd" where
  "map_kpath_library E crc32 xxh64 m =
     (if map_layer_desc m KPATH_LIBRARY = None then (Inr None, m)
      else
        case rbind (map_verify_derived xxh64 m KPATH_LIBRARY) (\<lambda>st. require_valid st KPATH_LIBRARY) of
          Inl e \<Rightarrow> (Inl e, m)
        | Inr _ \<Rightarrow> decoded kpath_decode (map_section E crc32 KPATH_LIBRARY m))"

definition map_regions :: "ext_crates \<Rightarrow> (bytes \<Rightarrow> u32) \<Rightarrow> region_set option rd" where
  "map_regions E crc32 m = decoded region_set_decode (map_section E crc32 REGIONS m)"

definition map_vectors :: "ext_crates \<Rightarrow> (bytes \<Rightarrow> u32) \<Rightarrow> vector_layer option rd" where
  "map_vectors E crc32 m = decoded vector_layer_decode (map_section E crc32 VECTORS m)"

section \<open>The cache is a bounded queue\<close>

definition cache_ok :: "chunk_cache \<Rightarrow> bool" where
  "cache_ok c \<longleftrightarrow> distinct (cc_order c) \<and> set (cc_order c) = dom (cc_entries c) \<and> length (cc_order c) \<le> cc_capacity c"

lemma evict_spec:
  assumes "distinct order" and "set order = dom entries" and "evict capacity entries order = (entries', order')"
  shows "distinct order' \<and> set order' = dom entries' \<and> length order' \<le> capacity \<and> entries' \<subseteq>\<^sub>m entries
    \<and> suffix order' order \<and> length order' = min capacity (length order)"
  using assms
proof (induction order arbitrary: entries)
  case (Cons old order)
  show ?case
  proof (cases "length (old # order) > capacity")
    case True
    have "distinct order" "set order = dom (entries(old := None))" using Cons.prems(1,2) by auto
    moreover have "evict capacity (entries(old := None)) order = (entries', order')" using Cons.prems(3) True by simp
    ultimately have "distinct order' \<and> set order' = dom entries' \<and> length order' \<le> capacity
      \<and> entries' \<subseteq>\<^sub>m entries(old := None) \<and> suffix order' order \<and> length order' = min capacity (length order)"
      by (rule Cons.IH)
    moreover have "entries(old := None) \<subseteq>\<^sub>m entries" by (simp add: map_le_def)
    ultimately show ?thesis using True by (auto intro: map_le_trans suffix_ConsI)
  qed (use Cons.prems in auto)
qed auto

lemma cache_insert_ok:
  assumes "cache_ok c"
  shows "cache_ok (cache_insert key v c)"
    and "cc_entries (cache_insert key v c) \<subseteq>\<^sub>m (cc_entries c)(key := Some v)"
    and "cc_capacity (cache_insert key v c) = cc_capacity c"
proof -
  define order where "order = (if cc_entries c key = None then cc_order c @ [key] else cc_order c)"
  obtain entries' order' where ev: "evict (cc_capacity c) ((cc_entries c)(key := Some v)) order = (entries', order')"
    by fastforce
  have "distinct order" "set order = dom ((cc_entries c)(key := Some v))"
    using assms by (auto simp: order_def cache_ok_def)
  note spec = evict_spec [OF this ev]
  have "cc_capacity c = 0 \<Longrightarrow> cc_entries c = (\<lambda>_. None)"
    using assms by (simp add: cache_ok_def) (metis dom_eq_empty_conv list.set(1))
  then show "cache_ok (cache_insert key v c)" "cc_entries (cache_insert key v c) \<subseteq>\<^sub>m (cc_entries c)(key := Some v)"
    "cc_capacity (cache_insert key v c) = cc_capacity c"
    using spec ev assms by (auto simp: cache_insert_def Let_def cache_ok_def order_def)
qed

lemma cache_new_ok [simp]: "cache_ok (cache_new n)" "cache_ok (cache_clear c) \<longleftrightarrow> True"
  by (simp_all add: cache_ok_def cache_new_def cache_clear_def)

section \<open>Reads and the states they reach\<close>

inductive reader_step :: "ext_crates \<Rightarrow> (bytes \<Rightarrow> u32) \<Rightarrow> omf_map \<Rightarrow> omf_map \<Rightarrow> bool" for E crc32 where
  payload: "reader_step E crc32 m (snd (map_chunk_payload E crc32 layer_id level chunk_id m))"
| clear: "reader_step E crc32 m (map_clear_cache m)"

inductive reader_run :: "ext_crates \<Rightarrow> (bytes \<Rightarrow> u32) \<Rightarrow> omf_map \<Rightarrow> omf_map \<Rightarrow> bool" for E crc32 where
  start: "reader_run E crc32 m m"
| step: "reader_run E crc32 m m' \<Longrightarrow> reader_step E crc32 m' m'' \<Longrightarrow> reader_run E crc32 m m''"

text \<open>A map up to its cache.\<close>

definition same_map :: "omf_map \<Rightarrow> omf_map \<Rightarrow> bool" where
  "same_map m m' \<longleftrightarrow> (\<exists>c. m' = m\<lparr>om_cache := c\<rparr>)"

text \<open>The cache holds what a read would return.\<close>

definition cache_coherent :: "ext_crates \<Rightarrow> (bytes \<Rightarrow> u32) \<Rightarrow> omf_map \<Rightarrow> bool" where
  "cache_coherent E crc32 m \<longleftrightarrow>
     (\<forall>l v c p. cc_entries (om_cache m) (l, v, c) = Some p \<longrightarrow>
        (\<exists>r. directory_find (om_directory m) l v c = Some r \<and> read_payload E crc32 m l v c r = Inr p))"

definition map_ok :: "ext_crates \<Rightarrow> (bytes \<Rightarrow> u32) \<Rightarrow> omf_map \<Rightarrow> bool" where
  "map_ok E crc32 m \<longleftrightarrow> cache_ok (om_cache m) \<and> cc_capacity (om_cache m) = 256 \<and> cache_coherent E crc32 m"

lemma uncached_lookups [simp]:
  "stale_reason (m\<lparr>om_cache := c\<rparr>) l = stale_reason m l"
  "map_layer_desc (m\<lparr>om_cache := c\<rparr>) l = map_layer_desc m l"
  by (simp_all add: stale_reason_def map_layer_desc_def)

lemma uncached_shape [simp]: "payload_shape (m\<lparr>om_cache := c\<rparr>) l v i d r = payload_shape m l v i d r"
  by (simp add: payload_shape_def cong: if_cong)

lemma uncached_reads [simp]: "read_payload E crc32 (m\<lparr>om_cache := c\<rparr>) l v i r = read_payload E crc32 m l v i r"
  by (simp add: read_payload_def Let_def cong: if_cong)

text \<open>What a read decides before it looks at the cache: an answer, or the record to read.\<close>

definition payload_gate :: "omf_map \<Rightarrow> layer_id \<Rightarrow> u8 \<Rightarrow> u32 \<Rightarrow> bytes option result + chunk_record" where
  "payload_gate m l v c =
     (case stale_reason m l of
        Some reason \<Rightarrow> Inl (Inl (StaleDerived l reason))
      | None \<Rightarrow>
          case directory_find (om_directory m) l v c of
            None \<Rightarrow> Inl (Inr None)
          | Some r \<Rightarrow>
              if cr_flags r AND TOMBSTONE \<noteq> 0 then Inl (Inr None)
              else if \<not> codec_is_supported (cr_codec r) then Inl (Inl (UnsupportedCodec (cr_codec r) l v c))
              else Inr r)"

definition payload_answer :: "ext_crates \<Rightarrow> (bytes \<Rightarrow> u32) \<Rightarrow> omf_map \<Rightarrow> layer_id \<Rightarrow> u8 \<Rightarrow> u32 \<Rightarrow> bytes option result" where
  "payload_answer E crc32 m l v c =
     (case payload_gate m l v c of Inl a \<Rightarrow> a | Inr r \<Rightarrow> rmap Some (read_payload E crc32 m l v c r))"

lemma uncached_gate [simp]: "payload_gate (m\<lparr>om_cache := k\<rparr>) l v c = payload_gate m l v c"
  by (simp add: payload_gate_def cong: option.case_cong)

lemma payload_gate_Inr:
  "payload_gate m l v c = Inr r \<longleftrightarrow>
     stale_reason m l = None \<and> directory_find (om_directory m) l v c = Some r \<and> cr_flags r AND TOMBSTONE = 0
     \<and> codec_is_supported (cr_codec r)"
  by (auto simp: payload_gate_def split: option.splits)

lemma chunk_payload_gate:
  "map_chunk_payload E crc32 l v c m =
     (case payload_gate m l v c of
        Inl a \<Rightarrow> (a, m)
      | Inr r \<Rightarrow>
          case cache_get (om_cache m) (l, v, c) of
            Some hit \<Rightarrow> (Inr (Some hit), m)
          | None \<Rightarrow>
              case read_payload E crc32 m l v c r of
                Inl e \<Rightarrow> (Inl e, m)
              | Inr p \<Rightarrow> (Inr (Some p), m\<lparr>om_cache := cache_insert (l, v, c) p (om_cache m)\<rparr>))"
  by (cases "stale_reason m l"; cases "directory_find (om_directory m) l v c")
    (simp_all add: map_chunk_payload_def payload_gate_def)

lemma payload_answer_uncached:
  "payload_answer E crc32 m l v c = fst (map_chunk_payload E crc32 l v c (m\<lparr>om_cache := cache_new n\<rparr>))"
  by (cases "payload_gate m l v c"; cases "read_payload E crc32 m l v c (projr (payload_gate m l v c))")
    (simp_all add: payload_answer_def chunk_payload_gate cache_get_def cache_new_def)

lemma same_map_refl [simp]: "same_map m m"
  by (auto simp: same_map_def intro: exI [of _ "om_cache m"])

lemma cache_hit:
  assumes "map_ok E crc32 m" and "directory_find (om_directory m) l v c = Some r"
    and "cache_get (om_cache m) (l, v, c) = Some p"
  shows "read_payload E crc32 m l v c r = Inr p"
proof -
  obtain r' where "directory_find (om_directory m) l v c = Some r'" "read_payload E crc32 m l v c r' = Inr p"
    using assms(1,3) unfolding map_ok_def cache_coherent_def cache_get_def by blast
  then show ?thesis using assms(2) by simp
qed

lemma map_ok_insert:
  assumes "map_ok E crc32 m" and "directory_find (om_directory m) l v c = Some r"
    and "read_payload E crc32 m l v c r = Inr p"
  shows "map_ok E crc32 (m\<lparr>om_cache := cache_insert (l, v, c) p (om_cache m)\<rparr>)"
proof -
  have ok: "cache_ok (om_cache m)" using assms(1) by (simp add: map_ok_def)
  have "\<exists>r'. directory_find (om_directory m) l' v' c' = Some r' \<and> read_payload E crc32 m l' v' c' r' = Inr p'"
    if "cc_entries (cache_insert (l, v, c) p (om_cache m)) (l', v', c') = Some p'" for l' v' c' p'
  proof -
    have "(l', v', c') \<in> dom (cc_entries (cache_insert (l, v, c) p (om_cache m)))" using that by (simp only: domIff) simp
    then have "cc_entries (cache_insert (l, v, c) p (om_cache m)) (l', v', c')
        = ((cc_entries (om_cache m))((l, v, c) := Some p)) (l', v', c')"
      by (rule bspec [OF cache_insert_ok(2) [OF ok, unfolded map_le_def]])
    then have upd: "((cc_entries (om_cache m))((l, v, c) := Some p)) (l', v', c') = Some p'" using that by (simp only:)
    show ?thesis
    proof (cases "(l', v', c') = (l, v, c)")
      case True
      then have "p' = p" using upd by (simp only: fun_upd_same option.inject)
      then show ?thesis using True assms(2,3) by simp
    next
      case False
      then have "cc_entries (om_cache m) (l', v', c') = Some p'" using upd by (simp only: fun_upd_other [OF False])
      then show ?thesis using assms(1) unfolding map_ok_def cache_coherent_def by blast
    qed
  qed
  then show ?thesis
    using cache_insert_ok [OF ok, of "(l, v, c)" p] assms(1) by (simp add: map_ok_def cache_coherent_def)
qed

lemma payload_step:
  assumes "map_ok E crc32 m" and "map_chunk_payload E crc32 l v c m = (a, m')"
  shows "a = payload_answer E crc32 m l v c \<and> map_ok E crc32 m' \<and> same_map m m'"
proof (cases "payload_gate m l v c")
  case (Inl b)
  then show ?thesis using assms by (simp add: chunk_payload_gate payload_answer_def)
next
  case (Inr r)
  then have find: "directory_find (om_directory m) l v c = Some r" by (simp add: payload_gate_Inr)
  show ?thesis
  proof (cases "cache_get (om_cache m) (l, v, c)")
    case (Some p)
    then show ?thesis using assms Inr cache_hit [OF assms(1) find Some]
      by (simp add: chunk_payload_gate payload_answer_def)
  next
    case None
    show ?thesis
    proof (cases "read_payload E crc32 m l v c r")
      case (Inl e)
      then show ?thesis using assms Inr None by (simp add: chunk_payload_gate payload_answer_def)
    next
      case R: (Inr p)
      then have "m' = m\<lparr>om_cache := cache_insert (l, v, c) p (om_cache m)\<rparr>" "a = Inr (Some p)"
        using assms(2) Inr None by (simp_all add: chunk_payload_gate)
      then show ?thesis using map_ok_insert [OF assms(1) find R] R Inr
        by (auto simp: payload_answer_def same_map_def)
    qed
  qed
qed

lemma same_map_trans: "same_map m m' \<Longrightarrow> same_map m' m'' \<Longrightarrow> same_map m m''"
  by (auto simp: same_map_def)

lemma reader_run_ok:
  assumes "reader_run E crc32 m m'" and "map_ok E crc32 m"
  shows "map_ok E crc32 m' \<and> same_map m m'"
  using assms
proof induction
  case (step m m' m'')
  then have "map_ok E crc32 m'" "same_map m m'" by simp_all
  moreover have "map_ok E crc32 m'' \<and> same_map m' m''"
    using step.hyps(2)
  proof cases
    case (payload l v c)
    then show ?thesis using payload_step [OF \<open>map_ok E crc32 m'\<close>, of l v c] by (metis prod.collapse)
  next
    case clear
    then show ?thesis using \<open>map_ok E crc32 m'\<close>
      by (auto simp: map_ok_def map_clear_cache_def same_map_def cache_coherent_def cache_clear_def cache_ok_def)
  qed
  ultimately show ?case by (blast intro: same_map_trans)
qed simp

lemma payload_answer_same: "same_map m m' \<Longrightarrow> payload_answer E crc32 m' l v c = payload_answer E crc32 m l v c"
  by (auto simp: same_map_def payload_answer_def cong: sum.case_cong)

section \<open>What opening establishes\<close>

lemma with_source_Inr:
  assumes "with_source E crc32 xxh128 xxh64 src verify = Inr m"
  shows "om_cache m = cache_new 256" and "om_source m = src"
    and "find_stale_derived xxh64 (m\<lparr>om_stale := []\<rparr>) = Inr (om_stale m)"
  using assms by (auto simp: with_source_def Let_def rbind_Inr_iff split: if_splits)

lemma opened_ok: "with_source E crc32 xxh128 xxh64 src verify = Inr m \<Longrightarrow> map_ok E crc32 m"
  using with_source_Inr(1) [of E crc32 xxh128 xxh64 src verify m]
  by (simp add: map_ok_def cache_coherent_def) (simp add: cache_new_def)

lemma verify_derived_stale_free [simp]:
  "map_verify_derived xxh64 (m\<lparr>om_stale := st\<rparr>) l = map_verify_derived xxh64 m l"
  "map_verify_derived xxh64 (m\<lparr>om_cache := c\<rparr>) l = map_verify_derived xxh64 m l"
  by (simp_all add: map_verify_derived_def map_layer_desc_def map_derived_layers_def source_fingerprints_def
      source_fingerprint_def [abs_def] sources_of_def layer_records_def [abs_def] cong: option.case_cong if_cong)

lemma find_stale_Cons:
  "find_stale_from xxh64 m (d # ds) = Inr st \<longleftrightarrow>
     (\<not> is_derived (ld_layer_id d) \<or> map_verify_derived xxh64 m (ld_layer_id d) = Inr Valid) \<and> find_stale_from xxh64 m ds = Inr st
     \<or> (\<exists>reason rest. is_derived (ld_layer_id d) \<and> map_verify_derived xxh64 m (ld_layer_id d) = Inr (Stale reason)
          \<and> find_stale_from xxh64 m ds = Inr rest \<and> st = (ld_layer_id d, reason) # rest)"
proof (cases "map_verify_derived xxh64 m (ld_layer_id d)")
  case (Inr s)
  then show ?thesis by (cases s) (auto simp: rbind_Inr_iff)
qed simp

lemma find_stale_from_Inr:
  assumes "find_stale_from xxh64 m ds = Inr st"
  shows "(l, reason) \<in> set st \<longleftrightarrow>
    (\<exists>d \<in> set ds. ld_layer_id d = l \<and> is_derived l \<and> map_verify_derived xxh64 m l = Inr (Stale reason))"
    and "d \<in> set ds \<Longrightarrow> is_derived (ld_layer_id d) \<Longrightarrow> \<exists>s. map_verify_derived xxh64 m (ld_layer_id d) = Inr s"
  using assms
  by (induction ds arbitrary: st) (auto simp: find_stale_Cons simp del: find_stale_from.simps(2))

text \<open>A derived layer that is registered is either valid or refused.\<close>

lemma opened_derived:
  assumes "with_source E crc32 xxh128 xxh64 src verify = Inr m" and "map_layer_desc m l = Some d" and "is_derived l"
  shows "map_verify_derived xxh64 m l = Inr Valid \<longleftrightarrow> stale_reason m l = None"
proof -
  have st: "find_stale_from xxh64 (m\<lparr>om_stale := []\<rparr>) (om_layers m) = Inr (om_stale m)"
    using with_source_Inr(3) [OF assms(1)] by (simp add: find_stale_derived_def)
  have d: "d \<in> set (om_layers m)" "ld_layer_id d = l"
    using assms(2) by (auto simp: map_layer_desc_def find_Some_iff)
  obtain s where s: "map_verify_derived xxh64 m l = Inr s"
    using find_stale_from_Inr(2) [OF st d(1)] d(2) assms(3) by auto
  have "stale_reason m l = None \<longleftrightarrow> (\<forall>reason. (l, reason) \<notin> set (om_stale m))"
    by (auto simp: stale_reason_def find_None_iff)
  also have "\<dots> \<longleftrightarrow> s = Valid"
    using find_stale_from_Inr(1) [OF st] s d assms(3) by (cases s) auto
  finally show ?thesis using s by simp
qed

section \<open>What a payload that is served has passed\<close>

lemma mem_read_at_Inr:
  "mem_read_at src offset n = Inr b \<Longrightarrow> unat offset + n < 2 ^ 64 \<Longrightarrow>
     unat offset + n \<le> length src \<and> b = take n (drop (unat offset) src)"
  by (auto simp: mem_read_at_def Let_def min_def split: if_splits)

lemma read_region_Inr:
  "read_region src offset n what = Inr b \<Longrightarrow> unat offset + n \<le> length src \<and> b = take n (drop (unat offset) src)"
  using mem_read_at_Inr [of src offset n b] by (auto simp: read_region_def split: if_splits)

lemma opaque_bytes: "total_bytes_checked \<lparr>cs_width = n, cs_height = 1, cs_channels = 1, cs_dtype = U8\<rparr> = Some (unat n)"
  using unat_u8_u32(2) [of n]
  by (simp add: total_bytes_checked_def row_bytes_checked_Some cell_bytes_def usize_checked_mul_def)

lemma ok_or_Inr_iff: "ok_or e x = Inr y \<longleftrightarrow> x = Some y"
  by (cases x) simp_all

lemma payload_shape_Inr:
  assumes "payload_shape m l v c d r = Inr s"
  shows "total_bytes_checked s = Some (unat (cr_raw_len r)) \<and> unat (cr_raw_len r) \<le> MAX_RAW_CHUNK_BYTES"
  using assms opaque_bytes [of "cr_raw_len r"] by (auto simp: payload_shape_def Let_def rbind_Inr_iff ok_or_Inr_iff split: if_splits)

lemma read_payload_Inr:
  assumes "read_payload E crc32 m l v c r = Inr p"
  obtains d where "map_layer_desc m l = Some d"
    and "unat (cr_offset r) + unat (cr_comp_len r) \<le> length (om_source m)"
    and "crc32 (take (unat (cr_comp_len r)) (drop (unat (cr_offset r)) (om_source m))) = cr_crc32 r"
    and "length p = unat (cr_raw_len r)" and "length p \<le> MAX_RAW_CHUNK_BYTES"
proof -
  obtain stored d s where b: "read_region (om_source m) (cr_offset r) (unat (cr_comp_len r)) ''chunk payload'' = Inr stored"
      "crc32 stored = cr_crc32 r" "map_layer_desc m l = Some d" "payload_shape m l v c d r = Inr s"
      "codec_decode E (cr_codec r) s stored \<lparr>ctx_dict = om_zstd_dict m, ctx_parent = None\<rparr> = Inr p"
    using assms by (cases "map_layer_desc m l") (auto simp: read_payload_def Let_def rbind_Inr_iff split: if_splits)
  have "length p = total_bytes s" using b(5) by (rule codec_decode_length)
  then show ?thesis
    using that [OF b(3)] b(2) read_region_Inr [OF b(1)] payload_shape_Inr [OF b(4)] by (simp add: total_bytes_def)
qed

lemma served_payload:
  assumes "map_ok E crc32 m" and "map_chunk_payload E crc32 l v c m = (Inr (Some p), m')"
  obtains r where "payload_gate m l v c = Inr r" and "read_payload E crc32 m l v c r = Inr p"
proof (cases "payload_gate m l v c")
  case (Inl a)
  then have "a = Inr (Some p)" using assms(2) by (simp add: chunk_payload_gate)
  then show ?thesis using Inl by (auto simp: payload_gate_def split: option.splits if_splits)
next
  case (Inr r)
  then show ?thesis
    using that [OF Inr] payload_step [OF assms] by (cases "read_payload E crc32 m l v c r") (auto simp: payload_answer_def)
qed

end
