(* ===== verification/Omf_Image.thy ===== *)
theory Omf_Image
  imports Omf_Reader
begin

text \<open>
  Sealed images: a header, a body, a directory and a footer whose fields agree and whose hash is that of
  the file. The writer's \<open>finish\<close> (\<open>writer.rs\<close>) and the patch's \<open>apply\<close> (\<open>patch.rs\<close>) both build one. The
  lemmas say what the reader (\<open>reader.rs\<close>) finds in it: header, footer, hash and directory pass its
  checks, and every other read is a slice of the body.
\<close>

section \<open>Alignment\<close>

lemma align8_shift: "align8 v = v + 7 - take_bit 3 (v + 7)"
proof -
  have "(v + 7) AND NOT (mask 3) = push_bit 3 (drop_bit 3 (v + 7))"
    by (rule bit_eqI) (auto simp: bit_simps)
  moreover have "(mask 3 :: u64) = 7" by (simp add: mask_eq_exp_minus_1)
  ultimately have "align8 v = push_bit 3 (drop_bit 3 (v + 7))" by (simp add: align8_def)
  then show ?thesis using bits_ident [of 3 "v + 7"] by (metis add_diff_cancel_right')
qed

lemma unat_align8:
  assumes "unat v + 7 < 2 ^ 64"
  shows "unat v \<le> unat (align8 v)" and "unat (align8 v) \<le> unat v + 7"
proof -
  have v7: "unat (v + 7) = unat v + 7" using assms by (simp add: unat_word_ariths)
  have t: "unat (take_bit 3 (v + 7)) = (unat v + 7) mod 8"
    by (simp add: take_bit_eq_mod unat_mod v7)
  have "unat (take_bit 3 (v + 7)) \<le> unat (v + 7)" by (simp add: t v7)
  then have "unat (align8 v) = unat v + 7 - (unat v + 7) mod 8"
    by (simp add: align8_shift unat_sub_if' v7 t)
  then show "unat v \<le> unat (align8 v)" "unat (align8 v) \<le> unat v + 7"
    using mod_less_divisor [of 8 "unat v + 7"] by linarith+
qed

lemma ucast_of_nat_u32: "n < 2 ^ 32 \<Longrightarrow> (ucast (word_of_nat n :: u32) :: u64) = word_of_nat n"
  by (rule word_unat_eq_iff [THEN iffD2]) (simp add: unat_ucast_widen unat_of_nat_u32 unat_of_nat_u64)

section \<open>The metadata block\<close>

lemma tlv_value_small:
  assumes "r \<in> set b" and "length (tlv_to_bytes b) \<le> MAX_META_BYTES"
  shows "length (tlv_val r) \<le> MAX_META_BYTES"
proof -
  have "length (tlv_record_bytes r) \<le> length (tlv_to_bytes b)"
    unfolding tlv_to_bytes_concat using assms(1) by (auto intro: length_concat_member)
  then show ?thesis using assms(2) by (simp add: tlv_record_bytes_def)
qed

lemma meta_block_back:
  assumes "ext_ok E" and "zstd_compress E (tlv_to_bytes b) None = Inr c" and "length (tlv_to_bytes b) \<le> MAX_META_BYTES"
  shows "zstd_decompress_all E c = Inr (tlv_to_bytes b)" and "tlv_from_bytes (tlv_to_bytes b) = Inr b"
proof -
  show "zstd_decompress_all E c = Inr (tlv_to_bytes b)"
    using zstd_bounded_roundtrip [OF assms] by (simp add: zstd_decompress_all_def)
  have recs: "list_all tlv_record_ok b"
    using tlv_value_small [OF _ assms(3)] by (fastforce simp: list_all_iff tlv_record_ok_def MAX_META_BYTES_def)
  show "tlv_from_bytes (tlv_to_bytes b) = Inr b"
    by (rule tlv_from_to_bytes [OF recs]) (use assms(3) in \<open>simp add: fits_def MAX_META_BYTES_def\<close>)
qed

section \<open>Reading regions of a file\<close>

lemma mem_read_ok:
  assumes "unat offset + n \<le> length src" and "length src < 2 ^ 64"
  shows "mem_read_at src offset n = Inr (take n (drop (unat offset) src))"
  using assms by (simp add: mem_read_at_def min_def)

lemma mem_len_unat: "length src < 2 ^ 64 \<Longrightarrow> unat (mem_len src) = length src"
  by (simp add: mem_len_def unat_of_nat_u64)

lemma read_region_ok:
  assumes "unat offset + n \<le> length src" and "length src < 2 ^ 64"
  shows "read_region src offset n what = Inr (take n (drop (unat offset) src))"
  using assms mem_read_ok [OF assms] mem_len_unat [OF assms(2)] by (simp add: read_region_def)

lemma region_of: "unat offset = length a \<Longrightarrow> n = length b \<Longrightarrow> length (a @ b @ c) < 2 ^ 64 \<Longrightarrow>
    read_region (a @ b @ c) offset n what = Inr b"
  by (simp add: read_region_ok)

section \<open>Sealed images\<close>

definition sealed ::
  "(bytes \<Rightarrow> u32) \<Rightarrow> (bytes \<Rightarrow> 128 word) \<Rightarrow> header \<Rightarrow> footer \<Rightarrow> bytes \<Rightarrow> chunk_directory \<Rightarrow> bytes \<Rightarrow> bool" where
  "sealed crc32 xxh128 h f body d img \<longleftrightarrow>
     img = header_to_bytes crc32 h @ body @ directory_to_bytes d @ footer_to_bytes f
     \<and> f_file_hash f = compute_file_hash xxh128 img
     \<and> h_version_major h = VERSION_MAJOR \<and> f_version_major f = VERSION_MAJOR \<and> h_version_minor h = f_version_minor f
     \<and> directory_ok d \<and> 32 * length d < 2 ^ 32 \<and> length img < 2 ^ 64
     \<and> h_dir_offset h = word_of_nat (128 + length body) \<and> h_dir_len h = word_of_nat (32 * length d)
     \<and> h_footer_offset h = word_of_nat (128 + length body + 32 * length d) \<and> f_file_len f = word_of_nat (length img)"

lemma sealed_fields:
  assumes "sealed crc32 xxh128 h f body d img"
  shows "f_file_hash f = compute_file_hash xxh128 img" and "h_version_major h = VERSION_MAJOR"
    and "f_version_major f = VERSION_MAJOR" and "h_version_minor h = f_version_minor f" and "directory_ok d"
    and "32 * length d < 2 ^ 32" and "h_dir_len h = word_of_nat (32 * length d)"
    and "h_dir_offset h = word_of_nat (128 + length body)"
  using assms unfolding sealed_def by blast+

lemma dir_bytes_length: "length (directory_to_bytes d) = 32 * length d"
  by (simp add: directory_to_bytes_concat chunk_record.array_length)

lemma sealed_img:
  assumes "sealed crc32 xxh128 h f body d img"
  shows "img = header_to_bytes crc32 h @ body @ directory_to_bytes d @ footer_to_bytes f"
    and "length img = 192 + length body + 32 * length d" and "length img < 2 ^ 64"
    and "h_footer_offset h = mem_len img - 64" and "unat (mem_len img - 64) = length img - 64"
proof -
  show img: "img = header_to_bytes crc32 h @ body @ directory_to_bytes d @ footer_to_bytes f"
    using assms unfolding sealed_def by blast
  show len: "length img = 192 + length body + 32 * length d"
    using arg_cong [OF img, of length]
    by (simp add: header_record.to_bytes_length footer_record.to_bytes_length dir_bytes_length)
  show lt: "length img < 2 ^ 64" using assms unfolding sealed_def by blast
  have "h_footer_offset h = word_of_nat (128 + length body + 32 * length d)" using assms unfolding sealed_def by blast
  then show "h_footer_offset h = mem_len img - 64" by (simp add: mem_len_def len)
  have "(64 :: u64) \<le> mem_len img" using mem_len_unat [OF lt] len by (simp add: word_le_nat_alt)
  then show "unat (mem_len img - 64) = length img - 64" using mem_len_unat [OF lt] by (simp add: unat_sub)
qed

lemma sealed_header:
  assumes "sealed crc32 xxh128 h f body d img"
  shows "mem_read_at img 0 128 = Inr (header_to_bytes crc32 h)"
    and "header_from_bytes crc32 (header_to_bytes crc32 h) = Inr (h\<lparr>h_bounds := stored_bounds (h_bounds h)\<rparr>)"
proof -
  have "take 128 img = header_to_bytes crc32 h"
    by (subst sealed_img(1) [OF assms]) (simp add: header_record.to_bytes_length)
  then show "mem_read_at img 0 128 = Inr (header_to_bytes crc32 h)"
    using sealed_img(2,3) [OF assms] by (simp add: mem_read_ok)
  show "header_from_bytes crc32 (header_to_bytes crc32 h) = Inr (h\<lparr>h_bounds := stored_bounds (h_bounds h)\<rparr>)"
    using header_from_to [of h crc32 "[]"] sealed_fields(2) [OF assms] by simp
qed

lemma sealed_footer:
  assumes "sealed crc32 xxh128 h f body d img"
  shows "mem_read_at img (mem_len img - 64) 64 = Inr (footer_to_bytes f)"
    and "footer_from_bytes (footer_to_bytes f) = Inr f" and "f_file_len f = mem_len img"
proof -
  note sizes = sealed_img [OF assms]
  have "drop (length img - 64) img = footer_to_bytes f"
    by (subst (2) sizes(1)) (simp add: sizes(2) header_record.to_bytes_length dir_bytes_length)
  then show "mem_read_at img (mem_len img - 64) 64 = Inr (footer_to_bytes f)"
    using sizes(2,3,5) by (simp add: mem_read_ok footer_record.to_bytes_length)
  have "footer_wf f" using sealed_fields(1,3) [OF assms] by (simp add: footer_wf_def)
  then show "footer_from_bytes (footer_to_bytes f) = Inr f" using footer_from_to [of f "[]"] by simp
  show "f_file_len f = mem_len img" using assms unfolding sealed_def mem_len_def by blast
qed

lemma sealed_hash:
  assumes "sealed crc32 xxh128 h f body d img"
  shows "check_file_hash xxh128 (header_to_bytes crc32 h) img f = Inr ()"
proof -
  note sizes = sealed_img [OF assms]
  have "(144 :: u64) \<le> mem_len img" using sizes(2) mem_len_unat [OF sizes(3)] by (simp add: word_le_nat_alt)
  then have n: "unat (mem_len img - 144) = length img - 144" using mem_len_unat [OF sizes(3)] by (simp add: unat_sub)
  have hdr: "take 128 img = header_to_bytes crc32 h"
    by (subst sizes(1)) (simp add: header_record.to_bytes_length)
  have body: "mem_read_at img 128 (length img - 144) = Inr (drop 128 (take (length img - 16) img))"
    using sizes(2,3) by (simp add: mem_read_ok drop_take)
  have "compute_file_hash xxh128 img
      = compose_file_hash xxh128 (header_to_bytes crc32 h) (le_bytes 16 (xxh128 (drop 128 (take (length img - 16) img))))"
    using sizes(2) hdr
    by (simp add: compute_file_hash_def body_digest_def body_digest_from_def Let_def min_def max_def header_record.to_bytes_length)
  then show ?thesis
    using n body sealed_fields(1) [OF assms]
    by (simp add: check_file_hash_def compose_hash_def Let_def header_record.to_bytes_length diff_diff_eq)
qed

lemma sealed_region:
  assumes "sealed crc32 xxh128 h f body d img" and "body = a @ b @ z" and "unat offset = 128 + length a" and "n = length b"
  shows "read_region img offset n what = Inr b"
proof -
  let ?z = "z @ directory_to_bytes d @ footer_to_bytes f"
  have img: "img = (header_to_bytes crc32 h @ a) @ b @ ?z"
    by (subst sealed_img(1) [OF assms(1)]) (simp add: assms(2))
  have "length ((header_to_bytes crc32 h @ a) @ b @ ?z) < 2 ^ 64"
    using sealed_img(3) [OF assms(1)] by (simp only: img [symmetric])
  then show ?thesis
    by (subst img, intro region_of) (simp_all add: assms(3,4) header_record.to_bytes_length)
qed

lemma sealed_directory:
  assumes "sealed crc32 xxh128 h f body d img"
  shows "read_region img (h_dir_offset h) (unat (h_dir_len h)) what = Inr (directory_to_bytes d)"
    and "directory_from_bytes (directory_to_bytes d) = Inr d"
proof -
  let ?a = "header_to_bytes crc32 h @ body" and ?z = "footer_to_bytes f"
  note sizes = sealed_img [OF assms]
  have img: "img = ?a @ directory_to_bytes d @ ?z" by (subst sizes(1)) simp
  have "length (?a @ directory_to_bytes d @ ?z) < 2 ^ 64" using sizes(3) by (simp only: img [symmetric])
  moreover have "h_dir_len h = word_of_nat (length (directory_to_bytes d))" "32 * length d < 2 ^ 32"
    "h_dir_offset h = word_of_nat (128 + length body)" using sealed_fields(6-8) [OF assms] by (simp_all only: dir_bytes_length)
  moreover have "unat (word_of_nat (length (directory_to_bytes d)) :: u32) = length (directory_to_bytes d)"
    using calculation(3) by (intro unat_of_nat_u32) (simp add: dir_bytes_length)
  moreover have "unat (word_of_nat (128 + length body) :: u64) = 128 + length body"
    using sizes(2,3) by (intro unat_of_nat_u64) simp
  ultimately show "read_region img (h_dir_offset h) (unat (h_dir_len h)) what = Inr (directory_to_bytes d)"
    by (subst img, intro region_of) (simp_all only: length_append header_record.to_bytes_length)
  show "directory_from_bytes (directory_to_bytes d) = Inr d"
    using sealed_fields(5) [OF assms] by (simp add: directory_from_to_bytes directory_new_of_ok)
qed

text \<open>What is left of opening a sealed image: the metadata, the skeleton, the grid and the derived layers.\<close>

definition sealed_map :: "ext_crates \<Rightarrow> xxh64_fn \<Rightarrow> header \<Rightarrow> footer \<Rightarrow> chunk_directory \<Rightarrow> bytes \<Rightarrow> omf_map result" where
  "sealed_map E xxh64 h f d img =
     rbind (read_region img (h_meta_offset h) (unat (h_meta_len h)) ''meta block'') (\<lambda>meta_bytes.
     rbind (zstd_decompress_all E meta_bytes) (\<lambda>meta_raw.
     rbind (tlv_from_bytes meta_raw) (\<lambda>meta.
     rbind (tlv_get_as layer_table_decode meta TAG_LAYER_TABLE) (\<lambda>table.
     rbind (read_skeleton img h f) (\<lambda>skeleton.
     rbind (tlv_get_as zstd_dict_decode meta TAG_ZSTD_DICT) (\<lambda>dict.
     let grid = grid_new (h_bounds h) (header_base_res_m h) (ucast (h_chunk_size h)) (h_lod_count h)
     in rbind (grid_validate grid) (\<lambda>_.
        let m = \<lparr>om_source = img, om_header = h, om_footer = f, om_meta = meta,
                 om_layers = (case table of Some t \<Rightarrow> t | None \<Rightarrow> []), om_grid = grid,
                 om_directory = d, om_skeleton = skeleton,
                 om_zstd_dict = (if dict = Some [] then None else dict),
                 om_cache = cache_new 256, om_stale = []\<rparr>
        in rbind (find_stale_derived xxh64 m) (\<lambda>stale. Inr (m\<lparr>om_stale := stale\<rparr>)))))))))"

lemma sealed_map_fields:
  assumes "sealed_map E xxh64 h f d img = Inr m"
  shows "om_source m = img" and "om_footer m = f" and "om_header m = h" and "om_directory m = d"
    and "om_cache m = cache_new 256"
  using assms by (auto simp: sealed_map_def rbind_Inr_iff Let_def)

lemma sealed_opens:
  assumes "sealed crc32 xxh128 h f body d img"
  shows "with_source E crc32 xxh128 xxh64 img verify
    = sealed_map E xxh64 (h\<lparr>h_bounds := stored_bounds (h_bounds h)\<rparr>) f d img"
proof -
  have long: "\<not> mem_len img < 192"
    using sealed_img(2) [OF assms] mem_len_unat [OF sealed_img(3) [OF assms]] by (simp add: word_less_nat_alt)
  note minor = sealed_fields(4) [OF assms]
  show ?thesis
    using sealed_header [OF assms] sealed_footer [OF assms] sealed_hash [OF assms] sealed_directory [OF assms]
      sealed_img(4) [OF assms] long minor
    by (simp add: with_source_def sealed_map_def Let_def cong: if_cong)
qed

lemma find_stale_total:
  assumes "map_derived_layers m = Inr dl"
  shows "\<exists>st. find_stale_derived xxh64 m = Inr st"
proof -
  have "\<exists>s. map_verify_derived xxh64 m l = Inr s" for l
    using assms by (auto simp: map_verify_derived_def Let_def split: option.split)
  then have "\<exists>st. find_stale_from xxh64 m ds = Inr st" for ds
    by (induction ds) (simp, metis find_stale_Cons derived_status.exhaust)
  then show ?thesis by (simp add: find_stale_derived_def)
qed

lemma opened_dict_total: "\<exists>dict. tlv_get_as zstd_dict_decode b TAG_ZSTD_DICT = Inr dict"
  by (auto simp: tlv_get_as_def tlv_record_decode_def zstd_dict_decode_def split: option.splits)

end
