(* ===== verification/Omf_Roundtrip.thy ===== *)
theory Omf_Roundtrip
  imports Omf_Image
begin

text \<open>
  The writer (\<open>writer.rs\<close>) against the reader (\<open>reader.rs\<close>): a map finished within the limits of the
  file format's fields opens, with the layers, the directory, the metadata and the skeleton the writer
  held, and every chunk whose write succeeded reads back as it was written.
\<close>

section \<open>Padding\<close>

lemma prologue_pad_align:
  assumes "unat written + 7 < 2 ^ 64" and "written = 128 + word_of_nat (length c) + word_of_nat (length ext)"
  shows "unat (align8 written) = unat written + prologue_pad c ext"
  using unat_align8(1) [OF assms(1)]
  by (auto simp: prologue_pad_def Let_def assms(2) [symmetric] unat_sub word_less_nat_alt word_le_nat_alt)

section \<open>The limits of the format's fields\<close>

definition compressed_ok :: "ext_crates \<Rightarrow> map_writer \<Rightarrow> bool" where
  "compressed_ok E w \<longleftrightarrow>
     (case zstd_compress E (tlv_to_bytes (mw_meta w)) None of Inl _ \<Rightarrow> True | Inr c \<Rightarrow> length c < 2 ^ 32)"

definition field_limits :: "ext_crates \<Rightarrow> map_writer \<Rightarrow> bool" where
  "field_limits E w \<longleftrightarrow> length (tlv_to_bytes (mw_meta w)) \<le> MAX_META_BYTES \<and> compressed_ok E w
     \<and> length (mw_layers w) \<le> 65535 \<and> length (ext_area (mw_ext_meta w)) < 2 ^ 32
     \<and> length (mw_skeleton w) < 2 ^ 32 \<and> 32 * length (mw_directory w) < 2 ^ 32
     \<and> 192 + length (mw_hashed w) + 32 * length (mw_directory w) < 2 ^ 64"

section \<open>The parts of a finished file\<close>

abbreviation dir_bytes :: "map_writer \<Rightarrow> bytes" where
  "dir_bytes w \<equiv> directory_to_bytes (mw_directory w)"

definition final_header :: "map_writer \<Rightarrow> header" where
  "final_header w = writer_header w (the (mw_prologue w)) (stream_position w) (length (dir_bytes w))"

definition final_footer :: "(bytes \<Rightarrow> 128 word) \<Rightarrow> map_writer \<Rightarrow> bytes \<Rightarrow> footer" where
  "final_footer xxh128 w img =
     writer_footer w (stream_position w) (length (dir_bytes w))\<lparr>f_file_hash := compute_file_hash xxh128 img\<rparr>"

definition is_finished :: "ext_crates \<Rightarrow> (bytes \<Rightarrow> u32) \<Rightarrow> (bytes \<Rightarrow> 128 word) \<Rightarrow> map_writer \<Rightarrow> bytes \<Rightarrow> bool" where
  "is_finished E crc32 xxh128 w img \<longleftrightarrow> writer_ok E w \<and> mw_prologue w \<noteq> None \<and> field_limits E w
     \<and> img = header_to_bytes crc32 (final_header w) @ mw_hashed w @ dir_bytes w @ footer_to_bytes (final_footer xxh128 w img)"

lemma finish_is_finished:
  assumes "writer_ok E w" and "mw_prologue w \<noteq> None" and "field_limits E w"
    and "writer_finish E crc32 xxh128 w = Inr img"
  shows "is_finished E crc32 xxh128 w img"
proof -
  obtain w1 p where "ensure_prologue E w = (Inr (), w1)" and "mw_prologue w1 = Some p" and "writer_ok E w1"
    and "img = header_to_bytes crc32 (writer_header w1 p (stream_position w1) (length (directory_to_bytes (mw_directory w1))))
        @ mw_hashed w1 @ directory_to_bytes (mw_directory w1)
        @ footer_to_bytes (writer_footer w1 (stream_position w1) (length (directory_to_bytes (mw_directory w1)))
            \<lparr>f_file_hash := compute_file_hash xxh128 img\<rparr>)"
    by (rule writer_finish_bytes [OF assms(1,4)])
  moreover have "w1 = w" using calculation(1) frozen_ensure [OF assms(2)] by simp
  ultimately show ?thesis
    using assms(1-3) by (simp add: is_finished_def final_header_def final_footer_def)
qed

lemma finished_sizes:
  assumes "is_finished E crc32 xxh128 w img"
  shows "length img = 192 + length (mw_hashed w) + length (dir_bytes w)" and "length img < 2 ^ 64"
    and "unat (stream_position w) = 128 + length (mw_hashed w)"
    and "stream_position w + word_of_nat (length (dir_bytes w)) = mem_len img - 64"
    and "unat (mem_len img - 64) = length img - 64"
proof -
  have img: "img = header_to_bytes crc32 (final_header w) @ mw_hashed w @ dir_bytes w @ footer_to_bytes (final_footer xxh128 w img)"
    and lim: "field_limits E w" and ok: "writer_ok E w" "mw_prologue w \<noteq> None"
    using assms by (simp_all add: is_finished_def)
  show len: "length img = 192 + length (mw_hashed w) + length (dir_bytes w)"
    using arg_cong [OF img, of length] by (simp add: header_record.to_bytes_length footer_record.to_bytes_length)
  then show lt: "length img < 2 ^ 64" using lim by (simp add: field_limits_def dir_bytes_length)
  have pos: "stream_position w = word_of_nat (128 + length (mw_hashed w))"
    using ok by (auto simp: writer_ok_def prologue_ok_def at_end_def stream_position_def)
  then show "unat (stream_position w) = 128 + length (mw_hashed w)"
    using unat_of_nat_u64 [of "128 + length (mw_hashed w)"] len lt by (simp only:)
  show "stream_position w + word_of_nat (length (dir_bytes w)) = mem_len img - 64"
    by (simp add: pos mem_len_def len)
  have "(64 :: u64) \<le> mem_len img" using mem_len_unat [OF lt] len by (simp add: word_le_nat_alt)
  then show "unat (mem_len img - 64) = length img - 64" using mem_len_unat [OF lt] by (simp add: unat_sub)
qed

definition opened_header :: "map_writer \<Rightarrow> header" where
  "opened_header w = final_header w\<lparr>h_bounds := stored_bounds (hs_bounds (mw_spec w))\<rparr>"

lemma final_header_fields:
  "h_version_major (final_header w) = VERSION_MAJOR" "h_version_minor (final_header w) = VERSION_MINOR"
  "h_bounds (final_header w) = hs_bounds (mw_spec w)" "h_lod_count (final_header w) = hs_lod_count (mw_spec w)"
  "h_base_res_cm (final_header w) = hs_base_res_cm (mw_spec w)" "h_chunk_size (final_header w) = hs_chunk_size (mw_spec w)"
  "h_dir_offset (final_header w) = stream_position w" "h_dir_len (final_header w) = word_of_nat (length (dir_bytes w))"
  "h_footer_offset (final_header w) = stream_position w + word_of_nat (length (dir_bytes w))"
  "h_meta_offset (final_header w) = pr_meta_offset (the (mw_prologue w))" "h_meta_len (final_header w) = pr_meta_len (the (mw_prologue w))"
  "h_ext_meta_len (final_header w) = pr_ext_len (the (mw_prologue w))"
  by (simp_all add: final_header_def writer_header_def)

lemma finished_sealed:
  assumes "is_finished E crc32 xxh128 w img"
  shows "sealed crc32 xxh128 (final_header w) (final_footer xxh128 w img) (mw_hashed w) (mw_directory w) img"
proof -
  have img: "img = header_to_bytes crc32 (final_header w) @ mw_hashed w @ dir_bytes w @ footer_to_bytes (final_footer xxh128 w img)"
    and ok: "directory_ok (mw_directory w)" "32 * length (mw_directory w) < 2 ^ 32"
    using assms by (auto simp: is_finished_def writer_ok_def field_limits_def)
  have pos: "stream_position w = word_of_nat (128 + length (mw_hashed w))"
    using arg_cong [OF finished_sizes(3) [OF assms], of "word_of_nat :: nat \<Rightarrow> u64"] by simp
  have "h_footer_offset (final_header w) = word_of_nat (128 + length (mw_hashed w) + 32 * length (mw_directory w))"
    by (simp add: final_header_fields pos dir_bytes_length)
  moreover have "f_file_len (final_footer xxh128 w img) = word_of_nat (length img)"
    using finished_sizes(1) [OF assms] by (simp add: final_footer_def writer_footer_def pos dir_bytes_length)
  ultimately show ?thesis
    unfolding sealed_def using img ok finished_sizes(2) [OF assms]
    by (intro conjI) (simp_all add: final_header_fields final_footer_def writer_footer_def pos dir_bytes_length)
qed

text \<open>The prologue of a finished file, and what follows the header.\<close>

lemma finished_prologue:
  assumes "is_finished E crc32 xxh128 w img"
  obtains c ext rest meta where "zstd_compress E (tlv_to_bytes (mw_meta w)) None = Inr c" and "length c < 2 ^ 32"
    and "ext = ext_area (mw_ext_meta w)" and "length ext < 2 ^ 32"
    and "mw_hashed w = c @ ext @ replicate (prologue_pad c ext) 0 @ concat (map qnode_to_bytes (mw_skeleton w)) @ rest"
    and "h_meta_offset (opened_header w) = 128" and "h_meta_len (opened_header w) = word_of_nat (length c)"
    and "h_ext_meta_len (opened_header w) = word_of_nat (length ext)"
    and "mw_meta w = tlv_set (tlv_record_encode layer_table_encode TAG_LAYER_TABLE (mw_layers w)) meta"
proof -
  obtain p where p: "mw_prologue w = Some p" and "prologue_ok E w p" and lim: "field_limits E w"
    using assms by (auto simp: is_finished_def writer_ok_def)
  then obtain meta c where
      m: "mw_meta w = tlv_set (tlv_record_encode layer_table_encode TAG_LAYER_TABLE (mw_layers w)) meta"
      and c: "zstd_compress E (tlv_to_bytes (mw_meta w)) None = Inr c"
      and pr: "p = prologue_of c (ext_area (mw_ext_meta w))"
      and pre: "prefix (prologue_bytes c (ext_area (mw_ext_meta w)) (mw_skeleton w)) (mw_hashed w)"
    unfolding prologue_ok_def by blast
  obtain rest where "mw_hashed w = prologue_bytes c (ext_area (mw_ext_meta w)) (mw_skeleton w) @ rest"
    using pre by (auto simp: prefix_def)
  moreover have "length c < 2 ^ 32" "length (ext_area (mw_ext_meta w)) < 2 ^ 32"
    using lim c by (simp_all add: field_limits_def compressed_ok_def)
  ultimately show ?thesis
    using that [OF c _ HOL.refl _ _ _ _ _ m] p pr
    by (simp add: prologue_bytes_def opened_header_def final_header_fields prologue_of_def)
qed

lemma finished_skeleton:
  assumes "is_finished E crc32 xxh128 w img"
  shows "read_skeleton img (opened_header w) (final_footer xxh128 w img) = skeleton_build (mw_skeleton w)"
proof -
  obtain c ext rest meta where p: "length c < 2 ^ 32" "length ext < 2 ^ 32"
      "mw_hashed w = c @ ext @ replicate (prologue_pad c ext) 0 @ concat (map qnode_to_bytes (mw_skeleton w)) @ rest"
      "h_meta_offset (opened_header w) = 128" "h_meta_len (opened_header w) = word_of_nat (length c)"
      "h_ext_meta_len (opened_header w) = word_of_nat (length ext)"
    by (rule finished_prologue [OF assms]) blast
  define written :: u64 where "written = 128 + word_of_nat (length c) + word_of_nat (length ext)"
  have n: "unat (f_node_count (final_footer xxh128 w img)) = length (mw_skeleton w)"
    using assms by (simp add: final_footer_def writer_footer_def is_finished_def field_limits_def unat_of_nat_u32)
  have "written = word_of_nat (128 + length c + length ext)" by (simp add: written_def)
  then have w: "unat written = 128 + length c + length ext"
    using p(1,2) by (simp only:) (intro unat_of_nat_u64, simp)
  then have start: "unat (align8 written) = 128 + length (c @ ext @ replicate (prologue_pad c ext) (0::u8))"
    using prologue_pad_align [OF _ written_def] p(1,2) by simp
  have "skeleton_offset (opened_header w) = Inr (align8 written)"
    using p by (simp add: skeleton_offset_def ucast_of_nat_u32 written_def)
  moreover have "read_region img (align8 written) (length (mw_skeleton w) * 16) ''quadtree skeleton''
      = Inr (concat (map qnode_to_bytes (mw_skeleton w)))"
    by (rule sealed_region [OF finished_sealed [OF assms] _ start, where z = rest])
      (simp_all add: p(3) qnode_record.array_length mult.commute)
  moreover have "f_node_count (final_footer xxh128 w img) > 0 \<longleftrightarrow> mw_skeleton w \<noteq> []"
    using n by (simp add: word_less_nat_alt)
  moreover have "skeleton_from_bytes (concat (map qnode_to_bytes (mw_skeleton w))) = skeleton_build (mw_skeleton w)"
    using skeleton_from_to_bytes [of "mw_skeleton w"] by (simp add: skeleton_to_bytes_def fold_append_map)
  moreover have "skeleton_build [] = Inr []" by (simp add: skeleton_build_def)
  ultimately show ?thesis
    using n by (cases "mw_skeleton w = []") (simp_all add: read_skeleton_def skeleton_empty_def)
qed

lemma finished_meta:
  assumes "is_finished E crc32 xxh128 w img" and "ext_ok E"
  obtains c where "read_region img (h_meta_offset (opened_header w)) (unat (h_meta_len (opened_header w))) ''meta block'' = Inr c"
    and "zstd_decompress_all E c = Inr (tlv_to_bytes (mw_meta w))"
    and "tlv_from_bytes (tlv_to_bytes (mw_meta w)) = Inr (mw_meta w)"
    and "tlv_get_as layer_table_decode (mw_meta w) TAG_LAYER_TABLE = Inr (Some (mw_layers w))"
proof -
  obtain c ext rest meta where c: "zstd_compress E (tlv_to_bytes (mw_meta w)) None = Inr c" "length c < 2 ^ 32"
      "mw_hashed w = c @ ext @ replicate (prologue_pad c ext) 0 @ concat (map qnode_to_bytes (mw_skeleton w)) @ rest"
      "h_meta_offset (opened_header w) = 128" "h_meta_len (opened_header w) = word_of_nat (length c)"
      "mw_meta w = tlv_set (tlv_record_encode layer_table_encode TAG_LAYER_TABLE (mw_layers w)) meta"
    by (rule finished_prologue [OF assms(1)]) blast
  have lim: "length (tlv_to_bytes (mw_meta w)) \<le> MAX_META_BYTES" "length (mw_layers w) \<le> 65535"
    using assms(1) by (simp_all add: is_finished_def field_limits_def)
  note block = meta_block_back [OF assms(2) c(1) lim(1)]
  have "tlv_get (mw_meta w) TAG_LAYER_TABLE = Some (tlv_record_encode layer_table_encode TAG_LAYER_TABLE (mw_layers w))"
    using tlv_store.lookup_upsert_same [where t = meta and r = "tlv_record_encode layer_table_encode TAG_LAYER_TABLE (mw_layers w)"]
    by (simp add: c(6)) (simp add: tlv_record_encode_def)
  then have "tlv_record_encode layer_table_encode TAG_LAYER_TABLE (mw_layers w) \<in> set (mw_meta w)"
    by (auto simp: tlv_get_def find_Some_iff)
  from tlv_value_small [OF this lim(1)] have fits: "fits (layer_table_encode (mw_layers w))"
    by (simp add: tlv_record_encode_def fits_def MAX_META_BYTES_def)
  show ?thesis
  proof (rule that)
    show "read_region img (h_meta_offset (opened_header w)) (unat (h_meta_len (opened_header w))) ''meta block'' = Inr c"
      by (rule sealed_region [OF finished_sealed [OF assms(1)], where a = "[]"]) (use c in \<open>simp_all add: unat_of_nat_u32\<close>)
    show "zstd_decompress_all E c = Inr (tlv_to_bytes (mw_meta w))" by (rule block(1))
    show "tlv_from_bytes (tlv_to_bytes (mw_meta w)) = Inr (mw_meta w)" by (rule block(2))
    show "tlv_get_as layer_table_decode (mw_meta w) TAG_LAYER_TABLE = Inr (Some (mw_layers w))"
      unfolding c(6) by (rule layer_table_value.get_as_set [OF lim(2) fits])
  qed
qed

section \<open>A finished map opens\<close>

definition opened_grid :: "map_header_spec \<Rightarrow> chunk_grid" where
  "opened_grid s = header_spec_grid (s\<lparr>hs_bounds := stored_bounds (hs_bounds s)\<rparr>)"

lemma opened_dict: "tlv_get_as zstd_dict_decode (mw_meta w) TAG_ZSTD_DICT = Inr dict \<Longrightarrow>
    (if dict = Some [] then None else dict) = writer_zstd_dict w"
  by (auto simp: tlv_get_as_def writer_zstd_dict_def tlv_record_decode_def zstd_dict_decode_def split: option.splits)

lemma finished_opens:
  assumes fin: "is_finished E crc32 xxh128 w img" and "ext_ok E"
    and grid: "grid_validate (opened_grid (mw_spec w)) = Inr ()" and sk: "skeleton_build (mw_skeleton w) = Inr sk"
    and dl: "tlv_get_as derived_layers_decode (mw_meta w) TAG_DERIVED_LAYERS = Inr dl"
  obtains m where "with_source E crc32 xxh128 xxh64 img verify = Inr m" and "om_source m = img"
    and "om_header m = opened_header w" and "om_meta m = mw_meta w" and "om_layers m = mw_layers w"
    and "om_grid m = opened_grid (mw_spec w)" and "om_directory m = mw_directory w" and "om_skeleton m = sk"
    and "om_zstd_dict m = writer_zstd_dict w"
proof -
  obtain c where meta: "read_region img (h_meta_offset (opened_header w)) (unat (h_meta_len (opened_header w))) ''meta block'' = Inr c"
      "zstd_decompress_all E c = Inr (tlv_to_bytes (mw_meta w))" "tlv_from_bytes (tlv_to_bytes (mw_meta w)) = Inr (mw_meta w)"
      "tlv_get_as layer_table_decode (mw_meta w) TAG_LAYER_TABLE = Inr (Some (mw_layers w))"
    by (rule finished_meta [OF fin assms(2)])
  obtain dict where dict: "tlv_get_as zstd_dict_decode (mw_meta w) TAG_ZSTD_DICT = Inr dict"
    using opened_dict_total by blast
  define m where "m = \<lparr>om_source = img, om_header = opened_header w, om_footer = final_footer xxh128 w img,
      om_meta = mw_meta w, om_layers = mw_layers w, om_grid = opened_grid (mw_spec w), om_directory = mw_directory w,
      om_skeleton = sk, om_zstd_dict = (if dict = Some [] then None else dict), om_cache = cache_new 256, om_stale = []\<rparr>"
  have "map_derived_layers m = Inr dl" using dl by (simp add: map_derived_layers_def m_def)
  then obtain st where st: "find_stale_derived xxh64 m = Inr st" using find_stale_total by blast
  have h: "final_header w\<lparr>h_bounds := stored_bounds (h_bounds (final_header w))\<rparr> = opened_header w"
    by (simp add: opened_header_def final_header_fields)
  have g: "grid_new (h_bounds (opened_header w)) (header_base_res_m (opened_header w)) (ucast (h_chunk_size (opened_header w)))
      (h_lod_count (opened_header w)) = opened_grid (mw_spec w)"
    by (simp add: opened_header_def final_header_fields opened_grid_def header_spec_grid_def header_base_res_m_def)
  have "with_source E crc32 xxh128 xxh64 img verify = Inr (m\<lparr>om_stale := st\<rparr>)"
    unfolding sealed_opens [OF finished_sealed [OF fin]] h
    using meta finished_skeleton [OF fin] dict grid sk st by (simp add: sealed_map_def Let_def g m_def)
  then show ?thesis using that [of "m\<lparr>om_stale := st\<rparr>"] opened_dict [OF dict] by (simp add: m_def)
qed

section \<open>What every run keeps\<close>

definition layer_desc_ok :: "map_header_spec \<Rightarrow> layer_desc \<Rightarrow> bool" where
  "layer_desc_ok s d \<longleftrightarrow> ld_channels d \<noteq> 0
     \<and> (is_chunked (ld_kind d) \<longrightarrow> total_bytes (layer_chunk_shape s d) \<le> MAX_RAW_CHUNK_BYTES)"

definition layers_ok :: "map_header_spec \<Rightarrow> map_writer \<Rightarrow> bool" where
  "layers_ok s w \<longleftrightarrow> mw_spec w = s \<and> (\<forall>d \<in> set (mw_layers w). layer_desc_ok s d)"

lemma set_layer_cases:
  "snd (writer_set_layer d w) = w
   \<or> layer_desc_ok (mw_spec w) d
     \<and> snd (writer_set_layer d w) = w\<lparr>mw_layers := replace_or_push (\<lambda>x. ld_layer_id x = ld_layer_id d) d (mw_layers w)\<rparr>"
  by (cases "ensure_metadata_mutable ''a layer descriptor'' w"; cases "is_chunked (ld_kind d)";
      cases "total_bytes_checked (layer_chunk_shape (mw_spec w) d)")
    (simp_all add: writer_set_layer_def layer_desc_ok_def total_bytes_def)

lemma set_layer_ok: "layers_ok s w \<Longrightarrow> layers_ok s (snd (writer_set_layer d w))"
  using set_layer_cases [of d w] set_replace_or_push [of "\<lambda>x. ld_layer_id x = ld_layer_id d" d "mw_layers w"]
  by (auto simp: layers_ok_def)

lemma same_layers_ok: "layers_ok s w \<Longrightarrow> mw_spec w' = mw_spec w \<Longrightarrow> mw_layers w' = mw_layers w \<Longrightarrow> layers_ok s w'"
  by (simp add: layers_ok_def)

lemma ensure_record_layers:
  "ensure_prologue E w = (r, w') \<Longrightarrow> layers_ok s w \<Longrightarrow> layers_ok s w' \<and> layers_ok s (with_record stored rec w')"
  using ensure_prologue_frame(2,4) [of E w r w'] same_prologue_record [of w' stored rec]
  by (simp add: layers_ok_def same_prologue_def)

lemma writer_step_layers:
  assumes "writer_step E crc32 key w w'" and "layers_ok s w"
  shows "layers_ok s w'"
  using assms(1)
proof cases
  case (append d level chunk_id codec_id raw_len stored)
  show ?thesis
    by (cases rule: append_chunk_cases [of E crc32 d level chunk_id codec_id raw_len stored w])
      (use ensure_record_layers [OF _ assms(2)] in \<open>simp_all add: append\<close>)
next
  case (encoded layer_id level chunk_id codec_id stored len)
  show ?thesis
    by (cases rule: write_encoded_cases [of E crc32 layer_id level chunk_id codec_id stored len w])
      (use ensure_record_layers [OF _ assms(2)] in \<open>simp_all add: encoded\<close>)
next
  case (layer d)
  then show ?thesis using set_layer_ok [OF assms(2)] by simp
qed (use assms(2) in \<open>auto simp: layers_ok_def push_ext_meta_def set_skeleton_def guarded_def split: sum.split\<close>)

lemma writer_run_layers: "writer_run E crc32 K w w' \<Longrightarrow> layers_ok s w \<Longrightarrow> layers_ok s w'"
  by (induction rule: writer_run.induct) (auto intro: writer_step_layers)

lemma writer_new_layers: "writer_new sink_empty s = Inr w \<Longrightarrow> layers_ok s w \<and> hs_chunk_size s \<noteq> 0"
  by (auto simp: writer_new_def rbind_Inr_iff layers_ok_def split: if_splits)

text \<open>The dictionary chunks are compressed with is the one the reader will find.\<close>

lemma dict_kept:
  "same_prologue w w' \<Longrightarrow> writer_zstd_dict w' = writer_zstd_dict w"
  by (simp add: same_prologue_def writer_zstd_dict_def)

lemma dict_ensure: "ensure_prologue E w = (r, w') \<Longrightarrow> writer_zstd_dict w' = writer_zstd_dict w"
  using tlv_store.lookup_upsert_other [where t = "mw_meta w" and k = TAG_ZSTD_DICT
      and r = "tlv_record_encode layer_table_encode TAG_LAYER_TABLE (mw_layers w)"]
  by (auto simp: ensure_prologue_def writer_zstd_dict_def Let_def tlv_record_encode_def TAG_ZSTD_DICT_def TAG_LAYER_TABLE_def
      split: if_splits sum.splits)

lemma dict_append:
  assumes "append_chunk E crc32 d level chunk_id codec_id n stored w = (Inr crc, w')"
  shows "writer_zstd_dict w' = writer_zstd_dict w"
proof (cases rule: append_chunk_cases [of E crc32 d level chunk_id codec_id n stored w])
  case (stored w1)
  then show ?thesis using assms dict_ensure [OF stored(1)] dict_kept [OF same_prologue_record] by auto
qed (use assms in auto)

section \<open>Reading a stored chunk\<close>

lemma stored_region:
  assumes "is_finished E crc32 xxh128 w img" and "chunk_stored crc32 w (l, v, c) codec n stored"
  obtains r where "directory_find (mw_directory w) l v c = Some r" and "cr_codec r = codec" and "cr_raw_len r = n"
    and "cr_flags r = 0" and "cr_crc32 r = crc32 stored"
    and "read_region img (cr_offset r) (unat (cr_comp_len r)) ''chunk payload'' = Inr stored"
proof -
  obtain r where r: "directory_map (mw_directory w) (l, v, c) = Some r" "cr_codec r = codec" "cr_raw_len r = n"
      "cr_flags r = 0" "cr_crc32 r = crc32 stored" "unat (cr_comp_len r) = length stored" "128 \<le> unat (cr_offset r)"
      "unat (cr_offset r) + length stored \<le> 128 + length (mw_hashed w)"
      "take (length stored) (drop (unat (cr_offset r) - 128) (mw_hashed w)) = stored"
    using assms(2) unfolding chunk_stored_def by blast
  let ?k = "unat (cr_offset r) - 128"
  have "mw_hashed w = take ?k (mw_hashed w) @ stored @ drop (length stored) (drop ?k (mw_hashed w))"
    using r(9) append_take_drop_id [of "length stored" "drop ?k (mw_hashed w)"] by (metis append_take_drop_id)
  from sealed_region [OF finished_sealed [OF assms(1)] this] have "read_region img (cr_offset r) (unat (cr_comp_len r)) ''chunk payload'' = Inr stored"
    using r(6-8) by simp
  then show ?thesis using that r(1-5) by (simp add: directory_map_def)
qed

lemma stored_payload_served:
  assumes fin: "is_finished E crc32 xxh128 w img" and st: "chunk_stored crc32 w (l, v, c) codec n stored"
    and m: "om_source m = img" "om_directory m = mw_directory w" "om_zstd_dict m = writer_zstd_dict w" "map_ok E crc32 m"
    and d: "map_layer_desc m l = Some d" and valid: "stale_reason m l = None"
    and s: "\<And>r. cr_raw_len r = n \<Longrightarrow> payload_shape m l v c d r = Inr s"
    and dec: "codec_is_supported codec" "codec_decode E codec s stored \<lparr>ctx_dict = writer_zstd_dict w, ctx_parent = None\<rparr> = Inr p"
  shows "\<exists>m'. map_chunk_payload E crc32 l v c m = (Inr (Some p), m')"
proof -
  obtain r where r: "directory_find (mw_directory w) l v c = Some r" "cr_codec r = codec" "cr_raw_len r = n"
      "cr_flags r = 0" "cr_crc32 r = crc32 stored"
      "read_region img (cr_offset r) (unat (cr_comp_len r)) ''chunk payload'' = Inr stored"
    using stored_region [OF fin st] .
  have "payload_gate m l v c = Inr r" using r(1,2,4) m(2) valid dec(1) by (simp add: payload_gate_Inr)
  moreover have "read_payload E crc32 m l v c r = Inr p"
    using r m(1,3) d s [OF r(3)] dec(2) by (simp add: read_payload_def)
  ultimately have "payload_answer E crc32 m l v c = Inr (Some p)" by (simp add: payload_answer_def)
  then show ?thesis using payload_step [OF m(4), of l v c] by (cases "map_chunk_payload E crc32 l v c m") simp
qed

text \<open>A map that can be finished and opened again: what the operations between \<open>new\<close> and \<open>finish\<close> must have left.\<close>

definition openable :: "ext_crates \<Rightarrow> map_writer \<Rightarrow> bool" where
  "openable E w \<longleftrightarrow> field_limits E w \<and> is_ok (grid_validate (opened_grid (mw_spec w))) \<and> is_ok (skeleton_build (mw_skeleton w))
     \<and> is_ok (tlv_get_as derived_layers_decode (mw_meta w) TAG_DERIVED_LAYERS)"

lemma finished_map:
  assumes "ext_ok E" and "writer_ok E w" and "mw_prologue w \<noteq> None" and "openable E w"
    and "writer_finish E crc32 xxh128 w = Inr img"
  obtains m where "is_finished E crc32 xxh128 w img" and "map_from_bytes E crc32 xxh128 xxh64 img = Inr m"
    and "om_source m = img" and "om_header m = opened_header w" and "om_meta m = mw_meta w" and "om_layers m = mw_layers w"
    and "om_grid m = opened_grid (mw_spec w)" and "om_directory m = mw_directory w"
    and "skeleton_build (mw_skeleton w) = Inr (om_skeleton m)" and "om_zstd_dict m = writer_zstd_dict w" and "map_ok E crc32 m"
proof -
  have fin: "is_finished E crc32 xxh128 w img"
    using assms(4) by (intro finish_is_finished assms(2,3,5)) (simp add: openable_def)
  obtain sk dl where ok: "grid_validate (opened_grid (mw_spec w)) = Inr ()" "skeleton_build (mw_skeleton w) = Inr sk"
      "tlv_get_as derived_layers_decode (mw_meta w) TAG_DERIVED_LAYERS = Inr dl"
    using assms(4) by (auto simp: openable_def is_ok_iff)
  obtain m where m: "with_source E crc32 xxh128 xxh64 img True = Inr m" "om_source m = img"
      "om_header m = opened_header w" "om_meta m = mw_meta w" "om_layers m = mw_layers w"
      "om_grid m = opened_grid (mw_spec w)" "om_directory m = mw_directory w" "om_skeleton m = sk"
      "om_zstd_dict m = writer_zstd_dict w"
    by (rule finished_opens [OF fin assms(1) ok])
  show ?thesis
    by (rule that [of m]) (use fin m ok(2) opened_ok [OF m(1)] in \<open>simp_all add: map_from_bytes_def\<close>)
qed

lemma not_served_stale:
  assumes "map_from_bytes E crc32 xxh128 xxh64 img = Inr m" and "map_layer_desc m l = Some d"
    and "is_derived l \<Longrightarrow> map_verify_derived xxh64 m l = Inr Valid"
  shows "stale_reason m l = None"
proof (cases "is_derived l")
  case True
  then show ?thesis using opened_derived [OF _ assms(2) True] assms(1,3) by (simp add: map_from_bytes_def)
next
  case False
  have "find_stale_from xxh64 (m\<lparr>om_stale := []\<rparr>) (om_layers m) = Inr (om_stale m)"
    using with_source_Inr(3) [of E crc32 xxh128 xxh64 img True m] assms(1)
    by (simp add: find_stale_derived_def map_from_bytes_def)
  from find_stale_from_Inr(1) [OF this] False show ?thesis
    by (auto simp: stale_reason_def find_None_iff)
qed

lemma max_word_one: "n \<noteq> 0 \<Longrightarrow> max n 1 = (n :: 'a::len word)"
  using inc_le [of 0 n] by (simp add: word_gt_0 max_absorb1)

lemma ucast_chunk_size: "n \<noteq> 0 \<Longrightarrow> (ucast (n :: u16) :: u32) \<noteq> 0"
  using unat_ucast_widen(1) [of n] by (metis unat_0 unat_eq_0)

lemma raster_chunk_len:
  assumes "raster_ok c" and "rc_width c = ucast (n :: u16)" and "rc_height c = ucast n"
  shows "length (rc_data c) * 4 < usize_limit"
proof -
  have "unat (rc_width c) \<le> 2 ^ 16" "unat (rc_height c) \<le> 2 ^ 16"
    using less_imp_le [OF unat_lt_65536 [of n]] by (simp_all add: assms(2,3) unat_ucast_widen)
  moreover have "unat (rc_channels c) \<le> 2 ^ 8" using less_imp_le [OF unat_lt_256 [of "rc_channels c"]] by simp
  ultimately have "unat (rc_width c) * unat (rc_height c) * unat (rc_channels c) * 4 \<le> 2 ^ 16 * 2 ^ 16 * 2 ^ 8 * 4"
    by (intro mult_le_mono) simp_all
  then show ?thesis using assms(1) by (simp add: raster_ok_def)
qed

lemma write_payload_Inr:
  assumes "write_payload E crc32 d level chunk_id ov s payload w = (Inr crc, w')"
  obtains codec stored where "codec_encode E codec s payload \<lparr>ctx_dict = writer_zstd_dict w, ctx_parent = None\<rparr> = Inr stored"
    and "append_chunk E crc32 d level chunk_id codec (length payload) stored w = (Inr crc, w')"
  using assms by (auto simp: write_payload_def Let_def split: sum.splits)

text \<open>What a successful append leaves behind, as later operations on other keys find it.\<close>

lemma appended_chunk:
  assumes "writer_ok E w1" and "append_chunk E crc32 d level chunk_id codec n stored w1 = (Inr crc, w2)"
    and "writer_run E crc32 K w2 w" and "(ld_layer_id d, level, chunk_id) \<notin> K" and "field_limits E w"
  shows "writer_ok E w" and "mw_prologue w \<noteq> None" and "writer_zstd_dict w = writer_zstd_dict w1"
    and "chunk_stored crc32 w (ld_layer_id d, level, chunk_id) codec (word_of_nat n) stored" and "n < 2 ^ 32"
    and "layers_ok s w1 \<Longrightarrow> layers_ok s w"
proof -
  have step: "writer_step E crc32 (Some (ld_layer_id d, level, chunk_id)) w1 w2"
    using writer_step.append [of E crc32 d level chunk_id w1 codec n stored] assms(2) by simp
  have "writer_ok E w2" using writer_step_extends [OF step assms(1)] by (simp add: extends_def)
  note ext = writer_run_extends [OF assms(3) this]
  then show "writer_ok E w" by (simp add: extends_def)
  have p2: "mw_prologue w2 \<noteq> None"
  proof (cases rule: append_chunk_cases [of E crc32 d level chunk_id codec n stored w1])
    case (stored w1')
    then show ?thesis
      using assms(2) ensure_prologue_success(2) [OF assms(1) stored(1)] same_prologue_record [of w1']
      by (auto simp: same_prologue_def)
  qed (use assms(2) in auto)
  note frozen = writer_run_frozen [OF assms(3) p2]
  then show "mw_prologue w \<noteq> None" using p2 by (simp add: same_prologue_def)
  show "writer_zstd_dict w = writer_zstd_dict w1" using dict_kept [OF frozen] dict_append [OF assms(2)] by simp
  have "length (mw_hashed w2) \<le> length (mw_hashed w)" using ext by (auto simp: extends_def dest: prefix_length_le)
  then have "128 + length (mw_hashed w2) < 2 ^ 64" using assms(5) by (simp add: field_limits_def)
  note st = append_chunk_stored [OF assms(1,2) this]
  show "chunk_stored crc32 w (ld_layer_id d, level, chunk_id) codec (word_of_nat n) stored"
    by (rule chunk_stays_stored [OF st(1) ext assms(4)])
  show "n < 2 ^ 32" by (rule st(2))
  show "layers_ok s w1 \<Longrightarrow> layers_ok s w"
    using writer_step_layers [OF step] writer_run_layers [OF assms(3)] by blast
qed

section \<open>A small map with a layer\<close>

definition small_layer :: layer_desc where
  "small_layer = layer_desc_new 0x1000 Raster 1 U8 RAW"

definition small_section :: layer_desc where
  "small_section = layer_desc_new REGIONS RegionPolygons 1 U8 RAW"

definition stale_layer :: layer_desc where
  "stale_layer = layer_desc_new REGION_INTERFACE Graph 1 U8 RAW"

definition small_chunk :: raster_chunk where
  "small_chunk = \<lparr>rc_width = 2, rc_height = 2, rc_channels = 1, rc_data = [0, f32_one, f32_one, 0]\<rparr>"

definition layered_writer :: "layer_desc \<Rightarrow> map_writer" where
  "layered_writer d = small_writer\<lparr>mw_layers := [d]\<rparr>"

definition layered_meta :: "layer_desc \<Rightarrow> tlv_block" where
  "layered_meta d = [tlv_record_encode layer_table_encode TAG_LAYER_TABLE [d]]"

lemma small_shape: "total_bytes_checked (layer_chunk_shape small_spec small_layer) = Some 4"
  by (simp add: layer_chunk_shape_def small_spec_def small_layer_def layer_desc_new_def total_bytes_checked_def
      row_bytes_checked_Some cell_bytes_def usize_checked_mul_def)

lemma layered_run:
  assumes "d = small_layer \<or> d = small_section \<or> d = stale_layer"
  shows "writer_run stored_crates crc32 {} small_writer (layered_writer d)"
proof -
  have "snd (writer_set_layer d small_writer) = layered_writer d"
    using assms small_shape
    by (auto simp: writer_set_layer_def ensure_metadata_mutable_def small_writer_def layered_writer_def
        small_layer_def small_section_def stale_layer_def layer_desc_new_def MAX_RAW_CHUNK_BYTES_def)
  then show ?thesis
    using writer_run.step [OF writer_run.refl writer_step.layer, of "{}" stored_crates crc32 small_writer d] by simp
qed

lemma layered_meta_length: "length (tlv_to_bytes (layered_meta d)) = 34"
  by (simp add: layered_meta_def tlv_to_bytes_concat tlv_record_bytes_def tlv_record_encode_def layer_table_encode_def
      wire_simps list_bytes_u16_def layer_desc_record.to_bytes_length)

lemma layered_prologue:
  obtains w where "ensure_prologue stored_crates (layered_writer d) = (Inr (), w)" and "mw_meta w = layered_meta d"
    and "length (mw_hashed w) = 40" and "mw_directory w = []"
proof -
  have "(128 :: u64) + word_of_nat 34 + word_of_nat 0 = 162" by simp
  then have pad: "prologue_pad (tlv_to_bytes (layered_meta d)) [] = 6"
    by (simp add: prologue_pad_def layered_meta_length Let_def align8_def)
  have m: "tlv_set (tlv_record_encode layer_table_encode TAG_LAYER_TABLE [d]) [] = layered_meta d"
    by (simp add: tlv_set_def layered_meta_def)
  have "align8 (162 :: u64) = 168" by (simp add: align8_def)
  then obtain w where "ensure_prologue stored_crates (layered_writer d) = (Inr (), w)" "mw_meta w = layered_meta d"
      "length (mw_hashed w) = 40" "mw_directory w = []"
    by (auto simp: ensure_prologue_def Let_def stored_compress layered_writer_def small_writer_def m ext_area_def layered_meta_length)
  then show ?thesis by (rule that)
qed

lemma small_bound_ops:
  "f64_to_f32 0 = 0" "f64_to_f32 0x4010000000000000 = 0x40800000"
  "f32_to_f64 0 = 0" "f32_to_f64 0x40800000 = 0x4010000000000000"
  by (simp_all add: f64_to_f32_def f32_to_f64_def f64_neg_def f64_exp_def f64_frac_def f32_neg_def f32_exp_def f32_frac_def
      f32_make_def f64_make_def round_even_def Let_def)

lemma stored_small_bounds: "stored_bounds small_box = small_box"
  by (simp add: stored_bounds_def small_box_def f32_round_def small_bound_ops small_bounds)

lemma layered_append:
  assumes "length stored \<le> 100" and "n \<le> 100"
  obtains w where "append_chunk stored_crates crc32 d level chunk_id codec n stored (layered_writer d) = (Inr (crc32 stored), w)"
    and "openable stored_crates w" and "mw_layers w = [d]" and "mw_meta w = layered_meta d"
proof -
  obtain w where w: "ensure_prologue stored_crates (layered_writer d) = (Inr (), w)" "mw_meta w = layered_meta d"
      "length (mw_hashed w) = 40" "mw_directory w = []" by (rule layered_prologue)
  note fr = ensure_prologue_frame [OF w(1)]
  define w2 where "w2 = with_record stored (Some (chunk_record_new (ld_layer_id d) level chunk_id codec (stream_position w)
      (word_of_nat (length stored)) (word_of_nat n) (crc32 stored))) w"
  have app: "append_chunk stored_crates crc32 d level chunk_id codec n stored (layered_writer d) = (Inr (crc32 stored), w2)"
    using assms w(1) by (simp add: append_chunk_def u32_try_from_def Let_def w2_def with_record_def)
  have fields: "mw_meta w2 = layered_meta d" "mw_layers w2 = [d]" "mw_skeleton w2 = []" "mw_ext_meta w2 = []"
      "mw_spec w2 = small_spec" "length (mw_hashed w2) = 40 + length stored" "length (mw_directory w2) = 1"
    using w fr
    by (simp_all add: w2_def with_record_def Let_def layered_writer_def small_writer_def directory_upsert_def sorted_upsert_def
        binary_search_by_key_def binary_search_def insert_at_def)
  have "opened_grid small_spec = header_spec_grid small_spec"
    using stored_small_bounds by (simp add: opened_grid_def header_spec_grid_def small_spec_def small_bounds)
  then have "openable stored_crates w2"
    using assms(1) small_grid_valid
    by (simp add: openable_def field_limits_def compressed_ok_def stored_compress fields layered_meta_length ext_area_def
        MAX_META_BYTES_def skeleton_build_def)
      (simp add: tlv_get_as_def tlv_get_def layered_meta_def tlv_record_encode_def TAG_LAYER_TABLE_def TAG_DERIVED_LAYERS_def)
  then show ?thesis using that [OF app] fields(1,2) by simp
qed

lemma writer_run_mono: "writer_run E crc32 K w w' \<Longrightarrow> K \<subseteq> L \<Longrightarrow> writer_run E crc32 L w w'"
  by (induction rule: writer_run.induct) (auto intro: writer_run.intros)

lemma writer_run_single: "writer_run E crc32 K w w' \<Longrightarrow> writer_step E crc32 key w' w'' \<Longrightarrow> writer_run E crc32 (K \<union> set_option key) w w''"
  by (rule writer_run.step [where key = key], rule writer_run_mono) auto

lemma small_chunk_ok: "raster_ok small_chunk" "identity_quantised small_layer"
  "\<forall>v \<in> set (rc_data small_chunk). storable no_half (ld_dtype small_layer) v"
proof -
  show "raster_ok small_chunk" by (simp add: raster_ok_def small_chunk_def)
  show "identity_quantised small_layer" by (simp add: identity_quantised_def small_layer_def layer_desc_new_def)
  have "f32_of_int 0 = 0" "f32_of_int 1 = f32_one" by (simp_all add: f32_one_def float_eval)
  moreover have "storable no_half U8 (f32_of_int i)" if "storable_int U8 i" for i
    using that by (auto simp: storable_def)
  from this [of 0] this [of 1] have "storable no_half U8 (f32_of_int 0)" "storable no_half U8 (f32_of_int 1)" by simp_all
  ultimately have "storable no_half U8 0" "storable no_half U8 f32_one" by simp_all
  then show "\<forall>v \<in> set (rc_data small_chunk). storable no_half (ld_dtype small_layer) v"
    by (simp add: small_layer_def layer_desc_new_def small_chunk_def)
qed

lemma small_pack: obtains b where "raster_pack no_half small_layer small_chunk = Some (Inr b)" and "length b = 4"
proof -
  let ?b = "pack_elements no_half small_layer small_chunk 1 (rc_data small_chunk)"
  have fields: "rc_width small_chunk = 2" "rc_height small_chunk = 2" "rc_channels small_chunk = 1" "ld_dtype small_layer = U8"
    by (simp_all add: small_chunk_def small_layer_def layer_desc_new_def)
  then have "raster_samples small_chunk (Suc 0) = Some (rc_data small_chunk)"
    using raster_samples_ok [OF small_chunk_ok(1)] by simp
  then have "raster_pack no_half small_layer small_chunk = Some (Inr ?b)"
    by (simp add: raster_pack_def fields usize_checked_mul_def)
  moreover have "length ?b = element_size (ld_dtype small_layer) * length (rc_data small_chunk)"
    by (subst pack_elements_concat) (simp add: small_chunk_def, rule length_concat_const, simp add: length_write_element)
  then have "length ?b = 4" by (simp add: small_chunk_def small_layer_def layer_desc_new_def)
  ultimately show ?thesis by (rule that)
qed

lemma written_section_served:
  assumes "ext_ok E" and "writer_new sink_empty s = Inr w0" and "writer_run E crc32 K0 w0 w1"
    and "writer_write_section E crc32 d payload w1 = (Inr crc, w2)"
    and "writer_run E crc32 K w2 w" and "(ld_layer_id d, 0, 0) \<notin> K"
    and "openable E w" and "writer_finish E crc32 xxh128 w = Inr img"
    and "find (\<lambda>x. ld_layer_id x = ld_layer_id d) (mw_layers w) = Some d" and "\<not> is_chunked (ld_kind d)"
    and "length payload \<le> MAX_RAW_CHUNK_BYTES"
  shows "\<exists>m. map_from_bytes E crc32 xxh128 xxh64 img = Inr m
    \<and> (is_derived (ld_layer_id d) \<and> map_verify_derived xxh64 m (ld_layer_id d) \<noteq> Inr Valid
       \<or> (\<exists>m'. map_section E crc32 (ld_layer_id d) m = (Inr (Some payload), m')))"
proof -
  have w1: "writer_ok E w1"
    using writer_run_extends [OF assms(3) writer_new_ok [OF assms(2)]] by (simp add: extends_def)
  have app: "append_chunk E crc32 d 0 0 RAW (length payload) payload w1 = (Inr crc, w2)"
    using assms(4) by (simp add: writer_write_section_def)
  have lim: "field_limits E w" using assms(7) by (simp add: openable_def)
  note later = appended_chunk [OF w1 app assms(5,6) lim]
  obtain m where fin: "is_finished E crc32 xxh128 w img" and m: "map_from_bytes E crc32 xxh128 xxh64 img = Inr m"
      "om_source m = img" "om_layers m = mw_layers w" "om_directory m = mw_directory w"
      "om_zstd_dict m = writer_zstd_dict w" "map_ok E crc32 m"
    by (rule finished_map [OF assms(1) later(1,2) assms(7,8)])
  have desc: "map_layer_desc m (ld_layer_id d) = Some d" using assms(9) m(3) by (simp add: map_layer_desc_def)
  let ?s = "\<lparr>cs_width = word_of_nat (length payload), cs_height = 1, cs_channels = 1, cs_dtype = U8\<rparr>"
  have len: "unat (word_of_nat (length payload) :: u32) = length payload" by (rule unat_of_nat_u32 [OF later(5)])
  have shape: "payload_shape m (ld_layer_id d) 0 0 d r = Inr ?s" if "cr_raw_len r = word_of_nat (length payload)" for r
    using that assms(10,11) len by (simp add: payload_shape_def)
  have dec: "codec_is_supported RAW"
    "codec_decode E RAW ?s payload \<lparr>ctx_dict = writer_zstd_dict w, ctx_parent = None\<rparr> = Inr payload"
    using opaque_bytes [of "word_of_nat (length payload)"] len
    by (simp_all add: codec_is_supported_def codec_decode_def total_bytes_def)
  have "\<exists>m'. map_section E crc32 (ld_layer_id d) m = (Inr (Some payload), m')"
    if valid: "is_derived (ld_layer_id d) \<Longrightarrow> map_verify_derived xxh64 m (ld_layer_id d) = Inr Valid"
    unfolding map_section_def
    by (rule stored_payload_served [OF fin later(4) m(2,4,5,6) desc not_served_stale [OF m(1) desc valid] shape dec])
  then show ?thesis using m(1) by blast
qed

text \<open>A section written to the small map, finished and opened.\<close>

definition section_writer :: "layer_desc \<Rightarrow> map_writer" where
  "section_writer d = snd (append_chunk stored_crates (\<lambda>_. 7) d 0 0 RAW 3 [5, 6, 7] (layered_writer d))"

definition section_image :: "layer_desc \<Rightarrow> bytes" where
  "section_image d = projr (writer_finish stored_crates (\<lambda>_. 7) (\<lambda>bs. word_of_nat (length bs)) (section_writer d))"

definition small_image :: bytes where
  "small_image = section_image small_section"

definition stale_image :: bytes where
  "stale_image = section_image stale_layer"

lemma section_written:
  assumes "d = small_section \<or> d = stale_layer"
  shows "append_chunk stored_crates (\<lambda>_. 7) d 0 0 RAW 3 [5, 6, 7] (layered_writer d) = (Inr 7, section_writer d)"
    and "openable stored_crates (section_writer d)" and "mw_layers (section_writer d) = [d]"
    and "mw_meta (section_writer d) = layered_meta d"
    and "writer_run stored_crates (\<lambda>_. 7) {} small_writer (layered_writer d)"
    and "writer_finish stored_crates (\<lambda>_. 7) (\<lambda>bs. word_of_nat (length bs)) (section_writer d) = Inr (section_image d)"
proof -
  obtain w where w: "append_chunk stored_crates (\<lambda>_. 7) d 0 0 RAW 3 [5, 6, 7] (layered_writer d) = (Inr 7, w)"
      "openable stored_crates w" "mw_layers w = [d]" "mw_meta w = layered_meta d"
    by (rule layered_append [of "[5, 6, 7]" 3 "\<lambda>_. 7" d 0 0 RAW]) simp_all
  then have sw: "section_writer d = w" by (simp add: section_writer_def)
  then show "append_chunk stored_crates (\<lambda>_. 7) d 0 0 RAW 3 [5, 6, 7] (layered_writer d) = (Inr 7, section_writer d)"
    "openable stored_crates (section_writer d)" "mw_layers (section_writer d) = [d]" "mw_meta (section_writer d) = layered_meta d"
    using w by simp_all
  show run: "writer_run stored_crates (\<lambda>_. 7) {} small_writer (layered_writer d)" by (rule layered_run) (use assms in auto)
  have ok: "writer_ok stored_crates (layered_writer d)"
    using writer_run_extends [OF run writer_new_ok [OF small_new]] by (simp add: extends_def)
  have "writer_ok stored_crates w"
    using appended_chunk(1) [OF ok w(1) writer_run.refl, of "{}"] w(2) by (simp add: openable_def)
  from stored_finishes [OF this, of "\<lambda>_. 7" "\<lambda>bs. word_of_nat (length bs)"]
  show "writer_finish stored_crates (\<lambda>_. 7) (\<lambda>bs. word_of_nat (length bs)) (section_writer d) = Inr (section_image d)"
    by (auto simp: section_image_def sw)
qed

lemma small_image_served:
  obtains m m' where "map_from_bytes stored_crates (\<lambda>_. 7) (\<lambda>bs. word_of_nat (length bs)) length_hash small_image = Inr m"
    and "map_section stored_crates (\<lambda>_. 7) REGIONS m = (Inr (Some [5, 6, 7]), m')"
proof -
  note w = section_written [of small_section, simplified]
  have wr: "writer_write_section stored_crates (\<lambda>_. 7) small_section [5, 6, 7] (layered_writer small_section)
      = (Inr 7, section_writer small_section)"
    using w(1) by (simp add: writer_write_section_def eval_nat_numeral)
  show ?thesis
    using written_section_served [OF stored_crates_ok small_new w(5) wr writer_run.refl _ w(2,6), of "{}" length_hash] w(3) that
    by (auto simp: small_image_def small_section_def layer_desc_new_def is_derived_def word_le_nat_alt REGIONS_def MAX_RAW_CHUNK_BYTES_def)
qed

lemma stale_image_opened:
  obtains m where "map_from_bytes stored_crates (\<lambda>_. 7) (\<lambda>bs. word_of_nat (length bs)) length_hash stale_image = Inr m"
    and "directory_find (om_directory m) REGION_INTERFACE 0 0 \<noteq> None"
    and "map_verify_derived length_hash m REGION_INTERFACE \<noteq> Inr Valid"
proof -
  note w = section_written [of stale_layer, simplified]
  have ok: "writer_ok stored_crates (layered_writer stale_layer)"
    using writer_run_extends [OF w(5) writer_new_ok [OF small_new]] by (simp add: extends_def)
  have lim: "field_limits stored_crates (section_writer stale_layer)" using w(2) by (simp add: openable_def)
  have "(ld_layer_id stale_layer, 0, 0) \<notin> {}" by simp
  note later = appended_chunk [OF ok w(1) writer_run.refl this lim]
  obtain m where m: "map_from_bytes stored_crates (\<lambda>_. 7) (\<lambda>bs. word_of_nat (length bs)) length_hash (section_image stale_layer) = Inr m"
      "om_meta m = mw_meta (section_writer stale_layer)" "om_layers m = mw_layers (section_writer stale_layer)"
      "om_directory m = mw_directory (section_writer stale_layer)"
    by (rule finished_map [OF stored_crates_ok later(1,2) w(2,6)])
  have "map_derived_layers m = Inr None"
    using m(2) w(4)
    by (simp add: map_derived_layers_def tlv_get_as_def tlv_get_def layered_meta_def tlv_record_encode_def TAG_LAYER_TABLE_def
        TAG_DERIVED_LAYERS_def)
  then have "map_verify_derived length_hash m REGION_INTERFACE \<noteq> Inr Valid"
    using m(3) w(3)
    by (simp add: map_verify_derived_def map_layer_desc_def stale_layer_def layer_desc_new_def is_derived_def
        REGION_INTERFACE_def word_le_nat_alt)
  moreover have "directory_find (om_directory m) REGION_INTERFACE 0 0 \<noteq> None"
    using later(4) m(4) by (auto simp: chunk_stored_def directory_map_def stale_layer_def layer_desc_new_def)
  ultimately show ?thesis using that m(1) by (simp add: stale_image_def)
qed

section \<open>Properties\<close>

text \<open>C12: a finished map opens. Whatever was done between \<open>new\<close> and \<open>finish\<close>, if at least the prologue was
  written and what was left is within the format's limits (field widths, metadata of at most 64 MiB, a
  grid that validates with the bounds as stored, no duplicate skeleton node, a decodable table of derived
  layers), the file opens, its hash included, with the metadata, layers and directory the writer held and
  its skeleton in key order.\<close>

theorem finished_map_opens:
  assumes "ext_ok E" and "writer_new sink_empty s = Inr w0" and "writer_run E crc32 K w0 w"
    and "mw_prologue w \<noteq> None" and "openable E w" and "writer_finish E crc32 xxh128 w = Inr img"
  shows "\<exists>m. map_from_bytes E crc32 xxh128 xxh64 img = Inr m \<and> om_meta m = mw_meta w \<and> om_layers m = mw_layers w
    \<and> om_directory m = mw_directory w \<and> skeleton_build (mw_skeleton w) = Inr (om_skeleton m)
    \<and> map_verify_file_hash xxh128 m = Inr ()"
proof -
  have "writer_ok E w" using writer_run_extends [OF assms(3) writer_new_ok [OF assms(2)]] by (simp add: extends_def)
  then obtain m where fin: "is_finished E crc32 xxh128 w img" and m: "map_from_bytes E crc32 xxh128 xxh64 img = Inr m"
      "om_source m = img" "om_meta m = mw_meta w" "om_layers m = mw_layers w" "om_directory m = mw_directory w"
      "skeleton_build (mw_skeleton w) = Inr (om_skeleton m)"
    by (rule finished_map [OF assms(1) _ assms(4-6)])
  have "om_footer m = final_footer xxh128 w img"
    using m(1) sealed_map_fields(2) unfolding map_from_bytes_def sealed_opens [OF finished_sealed [OF fin]] by blast
  then have "map_verify_file_hash xxh128 m = Inr ()"
    using sealed_header(1) [OF finished_sealed [OF fin]] sealed_hash [OF finished_sealed [OF fin]] m(2)
    by (simp add: map_verify_file_hash_def)
  then show ?thesis using m by blast
qed

theorem finished_map_opens_witness:
  "\<exists>w img m. append_chunk stored_crates (\<lambda>_. 7) small_layer 0 0 RAW 4 [1, 2, 3, 4] (layered_writer small_layer) = (Inr 7, w)
     \<and> writer_finish stored_crates (\<lambda>_. 7) (\<lambda>bs. word_of_nat (length bs)) w = Inr img
     \<and> map_from_bytes stored_crates (\<lambda>_. 7) (\<lambda>bs. word_of_nat (length bs)) length_hash img = Inr m \<and> om_layers m = [small_layer]"
proof -
  have run: "writer_run stored_crates (\<lambda>_. 7) {} small_writer (layered_writer small_layer)" by (rule layered_run) simp
  have ok: "writer_ok stored_crates (layered_writer small_layer)"
    using writer_run_extends [OF run writer_new_ok [OF small_new]] by (simp add: extends_def)
  obtain w where w: "append_chunk stored_crates (\<lambda>_. 7) small_layer 0 0 RAW 4 [1, 2, 3, 4] (layered_writer small_layer) = (Inr 7, w)"
      "openable stored_crates w" "mw_layers w = [small_layer]"
    by (rule layered_append [of "[1, 2, 3, 4]" 4 "\<lambda>_. 7" small_layer 0 0 RAW]) simp_all
  note later = appended_chunk [OF ok w(1) writer_run.refl, of "{}"]
  obtain img where img: "writer_finish stored_crates (\<lambda>_. 7) (\<lambda>bs. word_of_nat (length bs)) w = Inr img"
    using stored_finishes [OF later(1)] w(2) by (auto simp: openable_def)
  note all = writer_run_single [OF run writer_step.append, of small_layer 0 0 RAW 4 "[1, 2, 3, 4]", unfolded w(1) snd_conv]
  have "field_limits stored_crates w" using w(2) by (simp add: openable_def)
  then have "mw_prologue w \<noteq> None" using later(2) by simp
  from finished_map_opens [OF stored_crates_ok small_new all this w(2) img, of length_hash] w(1,3) img show ?thesis
    by auto
qed

text \<open>C1: chunks read back. A raster chunk whose write succeeded is returned by the reader with every sample as the
  layer's quantisation and element type keep it (\<open>restored\<close>: quantised, stored, read and dequantised), in its place:
  whatever operations came before it and after it on other chunks, whatever codec it was stored with, through the
  compression, the file and its directory, scaled layers, saturated samples and NaN included. So it is exactly
  the chunk written when the layer's scale is one and its bias zero and its type can store every sample. The layer is
  registered with the descriptor the chunk was written with and is not a stale derived layer.\<close>

theorem raster_chunk_reads_back:
  assumes "ext_ok E" and "writer_new sink_empty s = Inr w0" and "writer_run E crc32 K0 w0 w1"
    and "write_raster_chunk H E crc32 d level chunk_id codec_override c w1 = Some (Inr crc, w2)"
    and "writer_run E crc32 K w2 w" and "(ld_layer_id d, level, chunk_id) \<notin> K"
    and "openable E w" and "writer_finish E crc32 xxh128 w = Inr img"
    and "find (\<lambda>x. ld_layer_id x = ld_layer_id d) (mw_layers w) = Some d" and "is_chunked (ld_kind d)"
    and "level < max (hs_lod_count s) 1" and "raster_ok c" and "rc_channels c = ld_channels d"
  shows "\<exists>m. map_from_bytes E crc32 xxh128 xxh64 img = Inr m
    \<and> (is_derived (ld_layer_id d) \<and> map_verify_derived xxh64 m (ld_layer_id d) \<noteq> Inr Valid
       \<or> (\<exists>m'. map_chunk H E crc32 (ld_layer_id d) level chunk_id m = Some (Inr (Some (raster_restored H d c)), m')
            \<and> (identity_quantised d \<and> (\<forall>v \<in> set (rc_data c). storable H (ld_dtype d) v) \<longrightarrow> raster_restored H d c = c)))"
proof -
  have spec1: "layers_ok s w1" "writer_ok E w1" and cs: "hs_chunk_size s \<noteq> 0"
    using writer_new_layers [OF assms(2)] writer_run_layers [OF assms(3)]
      writer_run_extends [OF assms(3) writer_new_ok [OF assms(2)]] by (auto simp: extends_def)
  then have dims: "rc_width c = ucast (hs_chunk_size s)" "rc_height c = ucast (hs_chunk_size s)"
    using assms(4) by (auto simp: write_raster_chunk_def layers_ok_def split: if_splits)
  have bits: "rc_channels c = 1" if "ld_dtype d = Bit"
    using assms(4,12) that by (auto simp: write_raster_chunk_def raster_pack_def raster_ok_def max_channels Let_def split: if_splits)
  obtain b where b: "raster_pack H d c = Some (Inr b)" "raster_unpack H d (raster_shape d c) b = Some (Inr (raster_restored H d c))"
    using raster_chunk_restored [OF assms(12) _ raster_chunk_len [OF assms(12) dims]] bits by blast
  have "write_payload E crc32 d level chunk_id codec_override (raster_shape d c) b w1 = (Inr crc, w2)"
    using assms(4) b(1) dims spec1 by (simp add: write_raster_chunk_def raster_shape_def layers_ok_def)
  then obtain codec stored where
      enc: "codec_encode E codec (raster_shape d c) b \<lparr>ctx_dict = writer_zstd_dict w1, ctx_parent = None\<rparr> = Inr stored"
      and app: "append_chunk E crc32 d level chunk_id codec (length b) stored w1 = (Inr crc, w2)"
    by (rule write_payload_Inr)
  have lim: "field_limits E w" using assms(7) by (simp add: openable_def)
  note later = appended_chunk [OF spec1(2) app assms(5,6) lim]
  obtain m where fin: "is_finished E crc32 xxh128 w img" and m: "map_from_bytes E crc32 xxh128 xxh64 img = Inr m"
      "om_source m = img" "om_header m = opened_header w" "om_layers m = mw_layers w" "om_grid m = opened_grid (mw_spec w)"
      "om_directory m = mw_directory w" "om_zstd_dict m = writer_zstd_dict w" "map_ok E crc32 m"
    by (rule finished_map [OF assms(1) later(1,2) assms(7,8)])
  have desc: "map_layer_desc m (ld_layer_id d) = Some d" using assms(9) m(4) by (simp add: map_layer_desc_def)
  have ok: "layers_ok s w" by (rule later(6) [OF spec1(1)])
  then have d: "ld_channels d \<noteq> 0" "total_bytes (layer_chunk_shape s d) \<le> MAX_RAW_CHUNK_BYTES" "mw_spec w = s"
    using assms(9,10) by (auto simp: layers_ok_def layer_desc_ok_def find_Some_iff)
  have shapes: "raster_shape d c = layer_chunk_shape s d" "grid_chunk_shape (om_grid m) d level = layer_chunk_shape s d"
    using dims assms(13) max_word_one [OF d(1)] max_word_one [OF ucast_chunk_size [OF cs]]
    by (simp_all add: raster_shape_def layer_chunk_shape_def grid_chunk_shape_def m(5) d(3) opened_grid_def
        header_spec_grid_def grid_new_def Let_def)
  have len: "length b = total_bytes (layer_chunk_shape s d)"
    using codec_encode_ok_supported [OF enc] by (simp add: shapes)
  have shape: "payload_shape m (ld_layer_id d) level chunk_id d r = Inr (layer_chunk_shape s d)"
    if "cr_raw_len r = word_of_nat (length b)" for r
    using that assms(10) assms(11) [unfolded not_le [symmetric]] d(2,3) len total_bytes_eq(1) [of "layer_chunk_shape s d"] unat_of_nat_u32 [OF later(5)]
    by (simp add: payload_shape_def shapes(2) m(3) opened_header_def final_header_fields MAX_RAW_CHUNK_BYTES_def)
  have dec: "codec_decode E codec (layer_chunk_shape s d) stored \<lparr>ctx_dict = writer_zstd_dict w, ctx_parent = None\<rparr> = Inr b"
    using codec_inverse [OF assms(1) _ enc] d(2) later(3) by (simp add: shapes)
  have sup: "codec_is_supported codec" using codec_encode_ok_supported [OF enc] by simp
  have "\<exists>m'. map_chunk H E crc32 (ld_layer_id d) level chunk_id m = Some (Inr (Some (raster_restored H d c)), m')"
    if valid: "is_derived (ld_layer_id d) \<Longrightarrow> map_verify_derived xxh64 m (ld_layer_id d) = Inr Valid"
  proof -
    obtain m' where m': "map_chunk_payload E crc32 (ld_layer_id d) level chunk_id m = (Inr (Some b), m')"
      using stored_payload_served [OF fin later(4) m(2,6,7,8) desc not_served_stale [OF m(1) desc valid] shape sup dec]
      by blast
    moreover have "om_grid m' = om_grid m" using payload_step [OF m(8) m'] by (auto simp: same_map_def)
    ultimately show ?thesis using b(2) desc assms(10) by (simp add: map_chunk_def shapes)
  qed
  then show ?thesis using m(1) raster_restored_storable by blast
qed

theorem raster_chunk_reads_back_witness:
  "\<exists>w img m m'. write_raster_chunk no_half stored_crates (\<lambda>_. 7) small_layer 0 0 (Some RAW) small_chunk (layered_writer small_layer)
       = Some (Inr 7, w)
     \<and> writer_finish stored_crates (\<lambda>_. 7) (\<lambda>bs. word_of_nat (length bs)) w = Inr img
     \<and> map_from_bytes stored_crates (\<lambda>_. 7) (\<lambda>bs. word_of_nat (length bs)) length_hash img = Inr m
     \<and> map_chunk no_half stored_crates (\<lambda>_. 7) 0x1000 0 0 m = Some (Inr (Some small_chunk), m')"
proof -
  have run: "writer_run stored_crates (\<lambda>_. 7) {} small_writer (layered_writer small_layer)" by (rule layered_run) simp
  have ok: "writer_ok stored_crates (layered_writer small_layer)"
    using writer_run_extends [OF run writer_new_ok [OF small_new]] by (simp add: extends_def)
  obtain b where b: "raster_pack no_half small_layer small_chunk = Some (Inr b)" and len: "length b = 4"
    by (rule small_pack)
  obtain w where w: "append_chunk stored_crates (\<lambda>_. 7) small_layer 0 0 RAW 4 b (layered_writer small_layer) = (Inr 7, w)"
      "openable stored_crates w" "mw_layers w = [small_layer]"
    by (rule layered_append [of b 4 "\<lambda>_. 7" small_layer 0 0 RAW]) (simp_all add: len)
  have wr: "write_raster_chunk no_half stored_crates (\<lambda>_. 7) small_layer 0 0 (Some RAW) small_chunk (layered_writer small_layer)
      = Some (Inr 7, w)"
    using w(1) b len small_shape
    by (simp add: write_raster_chunk_def write_payload_def codec_encode_def total_bytes_def layered_writer_def small_writer_def)
      (simp add: small_chunk_def small_spec_def layer_chunk_shape_def small_layer_def layer_desc_new_def)
  note later = appended_chunk [OF ok w(1) writer_run.refl, of "{}"]
  obtain img where img: "writer_finish stored_crates (\<lambda>_. 7) (\<lambda>bs. word_of_nat (length bs)) w = Inr img"
    using stored_finishes [OF later(1)] w(2) by (auto simp: openable_def)
  have "\<exists>m m'. map_from_bytes stored_crates (\<lambda>_. 7) (\<lambda>bs. word_of_nat (length bs)) length_hash img = Inr m
      \<and> map_chunk no_half stored_crates (\<lambda>_. 7) (ld_layer_id small_layer) 0 0 m = Some (Inr (Some small_chunk), m')"
    using raster_chunk_reads_back [OF stored_crates_ok small_new run wr writer_run.refl _ w(2) img _ _ _ small_chunk_ok(1),
        of "{}" length_hash] w(3) small_chunk_ok(2,3)
    by (auto simp: small_layer_def small_chunk_def layer_desc_new_def is_derived_def word_le_nat_alt small_spec_def
        word_less_nat_alt max_def)
  then show ?thesis using wr img by (auto simp: small_layer_def layer_desc_new_def)
qed

text \<open>Opaque layers read back. The payload of a region, vector or graph layer whose write succeeded is
  returned by the reader byte for byte, whatever operations came before it and after it on other chunks,
  unless the layer is derived and no longer valid.\<close>

theorem section_reads_back:
  assumes "ext_ok E" and "writer_new sink_empty s = Inr w0" and "writer_run E crc32 K0 w0 w1"
    and "writer_write_section E crc32 d payload w1 = (Inr crc, w2)"
    and "writer_run E crc32 K w2 w" and "(ld_layer_id d, 0, 0) \<notin> K"
    and "openable E w" and "writer_finish E crc32 xxh128 w = Inr img"
    and "find (\<lambda>x. ld_layer_id x = ld_layer_id d) (mw_layers w) = Some d" and "\<not> is_chunked (ld_kind d)"
    and "length payload \<le> MAX_RAW_CHUNK_BYTES"
  shows "\<exists>m. map_from_bytes E crc32 xxh128 xxh64 img = Inr m
    \<and> (is_derived (ld_layer_id d) \<and> map_verify_derived xxh64 m (ld_layer_id d) \<noteq> Inr Valid
       \<or> (\<exists>m'. map_section E crc32 (ld_layer_id d) m = (Inr (Some payload), m')))"
  using assms by (rule written_section_served)

theorem section_reads_back_witness:
  "\<exists>m m'. writer_write_section stored_crates (\<lambda>_. 7) small_section [5, 6, 7] (layered_writer small_section)
       = (Inr 7, section_writer small_section)
     \<and> map_from_bytes stored_crates (\<lambda>_. 7) (\<lambda>bs. word_of_nat (length bs)) length_hash small_image = Inr m
     \<and> map_section stored_crates (\<lambda>_. 7) REGIONS m = (Inr (Some [5, 6, 7]), m')"
proof -
  note w = section_written [of small_section, simplified]
  have wr: "writer_write_section stored_crates (\<lambda>_. 7) small_section [5, 6, 7] (layered_writer small_section)
      = (Inr 7, section_writer small_section)"
    using w(1) by (simp add: writer_write_section_def eval_nat_numeral)
  then show ?thesis
    using section_reads_back [OF stored_crates_ok small_new w(5) wr writer_run.refl _ w(2,6), of "{}" length_hash] w(3)
    by (auto simp: small_image_def small_section_def layer_desc_new_def is_derived_def word_le_nat_alt REGIONS_def MAX_RAW_CHUNK_BYTES_def)
qed

text \<open>C11: the cache is invisible. In every state that reads and cache clearings reach from a map just opened,
  a read answers what it would have answered then, error or payload, and the cache is a queue of at most
  256 distinct keys, exactly those it holds payloads for.\<close>

theorem cache_invisible:
  assumes "with_source E crc32 xxh128 xxh64 src verify = Inr m0" and "reader_run E crc32 m0 m"
  shows "fst (map_chunk_payload E crc32 l v c m) = fst (map_chunk_payload E crc32 l v c m0)
    \<and> length (cc_order (om_cache m)) \<le> 256 \<and> distinct (cc_order (om_cache m))
    \<and> set (cc_order (om_cache m)) = dom (cc_entries (om_cache m))"
proof -
  have ok: "map_ok E crc32 m0" using assms(1) by (rule opened_ok)
  note run = reader_run_ok [OF assms(2) ok]
  have "fst (map_chunk_payload E crc32 l v c x) = payload_answer E crc32 x l v c" if "map_ok E crc32 x" for x
    using payload_step [OF that] by (metis prod.collapse)
  then have "fst (map_chunk_payload E crc32 l v c m) = fst (map_chunk_payload E crc32 l v c m0)"
    using run ok payload_answer_same by simp
  then show ?thesis using run by (simp add: map_ok_def cache_ok_def)
qed

theorem cache_invisible_witness:
  "\<exists>m m'. map_from_bytes stored_crates (\<lambda>_. 7) (\<lambda>bs. word_of_nat (length bs)) length_hash small_image = Inr m
     \<and> map_section stored_crates (\<lambda>_. 7) REGIONS m = (Inr (Some [5, 6, 7]), m')
     \<and> fst (map_section stored_crates (\<lambda>_. 7) REGIONS m') = Inr (Some [5, 6, 7])"
proof -
  obtain m m' where m: "map_from_bytes stored_crates (\<lambda>_. 7) (\<lambda>bs. word_of_nat (length bs)) length_hash small_image = Inr m"
      "map_section stored_crates (\<lambda>_. 7) REGIONS m = (Inr (Some [5, 6, 7]), m')" by (rule small_image_served)
  have "reader_run stored_crates (\<lambda>_. 7) m m'"
    using reader_run.step [OF reader_run.start reader_step.payload, of stored_crates "\<lambda>_. 7" m REGIONS 0 0] m(2)
    by (simp add: map_section_def)
  from cache_invisible [OF m(1) [unfolded map_from_bytes_def] this, of REGIONS 0 0] m show ?thesis by (auto simp: map_section_def)
qed

text \<open>C2: no stale layer is served. Whatever was read before, no payload of a derived layer is handed out
  unless the layer's recorded fingerprint is that of its current sources.\<close>

theorem stale_never_served:
  assumes "with_source E crc32 xxh128 xxh64 src verify = Inr m0" and "reader_run E crc32 m0 m"
    and "is_derived l" and "map_verify_derived xxh64 m0 l \<noteq> Inr Valid"
  shows "fst (map_chunk_payload E crc32 l v c m) \<noteq> Inr (Some p)"
proof
  assume "fst (map_chunk_payload E crc32 l v c m) = Inr (Some p)"
  then obtain m' where served: "map_chunk_payload E crc32 l v c m = (Inr (Some p), m')"
    by (cases "map_chunk_payload E crc32 l v c m") simp
  have ok: "map_ok E crc32 m0" using assms(1) by (rule opened_ok)
  have run: "map_ok E crc32 m" "same_map m0 m" using reader_run_ok [OF assms(2) ok] by simp_all
  obtain r where r: "payload_gate m l v c = Inr r" "read_payload E crc32 m l v c r = Inr p"
    using served_payload [OF run(1) served] .
  obtain d where "map_layer_desc m l = Some d" using read_payload_Inr [OF r(2)] .
  moreover obtain k where "m = m0\<lparr>om_cache := k\<rparr>" using run(2) by (auto simp: same_map_def)
  ultimately have "map_layer_desc m0 l = Some d" "stale_reason m0 l = None"
    using r(1) by (simp_all add: payload_gate_Inr)
  then show False using opened_derived [OF assms(1) _ assms(3)] assms(4) by simp
qed

theorem stale_never_served_witness:
  "\<exists>m. map_from_bytes stored_crates (\<lambda>_. 7) (\<lambda>bs. word_of_nat (length bs)) length_hash stale_image = Inr m
     \<and> directory_find (om_directory m) REGION_INTERFACE 0 0 \<noteq> None
     \<and> fst (map_chunk_payload stored_crates (\<lambda>_. 7) REGION_INTERFACE 0 0 m) \<noteq> Inr (Some [5, 6, 7])"
proof -
  obtain m where m: "map_from_bytes stored_crates (\<lambda>_. 7) (\<lambda>bs. word_of_nat (length bs)) length_hash stale_image = Inr m"
      "directory_find (om_directory m) REGION_INTERFACE 0 0 \<noteq> None" "map_verify_derived length_hash m REGION_INTERFACE \<noteq> Inr Valid"
    by (rule stale_image_opened)
  have "is_derived REGION_INTERFACE" by (simp add: is_derived_def REGION_INTERFACE_def word_le_nat_alt)
  from stale_never_served [OF m(1) [unfolded map_from_bytes_def] reader_run.start this m(3)] m show ?thesis by blast
qed

text \<open>C13: what a payload that is served has passed, whatever the file: its record is in the directory, its
  stored bytes lie inside the file and have the recorded checksum, and it has exactly the recorded length,
  which is at most 256 MiB.\<close>

theorem served_payload_checked:
  assumes "with_source E crc32 xxh128 xxh64 src verify = Inr m0" and "reader_run E crc32 m0 m"
    and "map_chunk_payload E crc32 l v c m = (Inr (Some p), m')"
  shows "\<exists>r. directory_find (om_directory m0) l v c = Some r \<and> cr_flags r AND TOMBSTONE = 0
    \<and> unat (cr_offset r) + unat (cr_comp_len r) \<le> length src
    \<and> crc32 (take (unat (cr_comp_len r)) (drop (unat (cr_offset r)) src)) = cr_crc32 r
    \<and> length p = unat (cr_raw_len r) \<and> length p \<le> MAX_RAW_CHUNK_BYTES"
proof -
  have ok: "map_ok E crc32 m0" using assms(1) by (rule opened_ok)
  have run: "map_ok E crc32 m" "same_map m0 m" using reader_run_ok [OF assms(2) ok] by simp_all
  obtain r where r: "payload_gate m l v c = Inr r" "read_payload E crc32 m l v c r = Inr p"
    using served_payload [OF run(1) assms(3)] .
  have "om_source m = src" "om_directory m = om_directory m0"
    using run(2) with_source_Inr(2) [OF assms(1)] by (auto simp: same_map_def)
  then show ?thesis
    using r(1) by (auto simp: payload_gate_Inr intro: read_payload_Inr [OF r(2)])
qed

theorem served_payload_checked_witness:
  "\<exists>m r. map_from_bytes stored_crates (\<lambda>_. 7) (\<lambda>bs. word_of_nat (length bs)) length_hash small_image = Inr m
     \<and> directory_find (om_directory m) REGIONS 0 0 = Some r \<and> cr_raw_len r = 3"
proof -
  obtain m m' where m: "map_from_bytes stored_crates (\<lambda>_. 7) (\<lambda>bs. word_of_nat (length bs)) length_hash small_image = Inr m"
      "map_section stored_crates (\<lambda>_. 7) REGIONS m = (Inr (Some [5, 6, 7]), m')" by (rule small_image_served)
  then show ?thesis
    using served_payload_checked [OF m(1) [unfolded map_from_bytes_def] reader_run.start m(2) [unfolded map_section_def]]
    by (auto simp: word_unat_eq_iff)
qed

end
