(* ===== verification/Omf_Apply.thy ===== *)
theory Omf_Apply
  imports Omf_Roundtrip Omf_Patch
begin

text \<open>
  Patches against an open map (\<open>crates/map-format/src/patch.rs\<close>): which layers a patch may replace, and
  \<open>apply\<close>, which appends the new payloads, a new metadata block when one is needed, the new directory
  and a new footer to the base image, and rewrites the header to point at them. The lemmas show that the
  image is sealed, so that it opens when the base header has the minor version the footer is written
  with; that no byte of the base that a record points at has moved; and what each key reads as.
\<close>

section \<open>Which layers a patch may touch\<close>

definition check_patchable :: "omf_map \<Rightarrow> layer_id \<Rightarrow> unit result" where
  "check_patchable m layer_id =
     (if is_derived layer_id then Inl (PatchDerivedLayer layer_id)
      else rmap (\<lambda>_. ()) (ok_or (LayerNotFound layer_id) (map_layer_desc m layer_id)))"

fun check_replacements :: "omf_map \<Rightarrow> chunk_replacement list \<Rightarrow> unit result" where
  "check_replacements m [] = Inr ()"
| "check_replacements m (r # rs) =
     rbind (check_patchable m (rp_layer_id r)) (\<lambda>_. check_replacements m rs)"

definition patch_for_map :: "omf_map \<Rightarrow> chunk_replacement list \<Rightarrow> patch result" where
  "patch_for_map base replacements =
     rbind (check_replacements base replacements) (\<lambda>_.
       Inr \<lparr>pt_base_hash = hash64 (f_file_hash (om_footer base)), pt_replacements = replacements,
            pt_meta_patch = []\<rparr>)"

definition file_hash64 :: "(bytes \<Rightarrow> 128 word) \<Rightarrow> bytes \<Rightarrow> u64" where
  "file_hash64 xxh128 img = hash64 (compute_file_hash xxh128 img)"

section \<open>Applying a patch\<close>

text \<open>The loop over the replacements: the payload goes to the end of the image, its record into the directory.\<close>

definition apply_replacement ::
  "(bytes \<Rightarrow> u32) \<Rightarrow> chunk_replacement \<Rightarrow> bytes \<times> chunk_directory \<Rightarrow> bytes \<times> chunk_directory" where
  "apply_replacement crc32 r = (\<lambda>(out, d).
     let offset = word_of_nat (length out)
     in (out @ rp_payload r,
         directory_upsert (chunk_record_new (rp_layer_id r) (rp_level r) (rp_chunk_id r) (rp_codec r) offset
           (word_of_nat (length (rp_payload r))) (rp_raw_len r) (replacement_crc32 crc32 r)) d))"

definition apply_replacements ::
  "(bytes \<Rightarrow> u32) \<Rightarrow> chunk_replacement list \<Rightarrow> bytes \<Rightarrow> chunk_directory \<Rightarrow> bytes \<times> chunk_directory" where
  "apply_replacements crc32 rs out d = fold (apply_replacement crc32) rs (out, d)"

text \<open>\<open>Vec::resize\<close> with zeros.\<close>

definition vec_resize :: "nat \<Rightarrow> bytes \<Rightarrow> bytes" where
  "vec_resize n out = take n out @ replicate (n - length out) 0"

definition base_ext_area :: "header \<Rightarrow> bytes \<Rightarrow> bytes" where
  "base_ext_area h base =
     (let end = unat (h_ext_meta_offset h) + unat (h_ext_meta_len h)
      in if end < 2 ^ 64 \<and> end \<le> length base
         then take (unat (h_ext_meta_len h)) (drop (unat (h_ext_meta_offset h)) base) else [])"

text \<open>The metadata: the base's, or a new block with the extension area and the skeleton behind it.\<close>

definition apply_meta ::
  "ext_crates \<Rightarrow> patch \<Rightarrow> omf_map \<Rightarrow> bytes \<Rightarrow> bytes \<Rightarrow> (bytes \<times> u64 \<times> u32 \<times> u64) result" where
  "apply_meta E p m base out =
     (if pt_meta_patch p = []
      then Inr (out, h_meta_offset (om_header m), h_meta_len (om_header m), h_ext_meta_offset (om_header m))
      else
        let block = fold tlv_set (pt_meta_patch p) (om_meta m)
        in rbind (zstd_compress E (tlv_to_bytes block) None) (\<lambda>compressed.
           let offset = word_of_nat (length out);
               out = out @ compressed;
               ext_bytes = base_ext_area (om_header m) base;
               skeleton_at = unat (align8 (word_of_nat (length out) + word_of_nat (length ext_bytes)));
               new_ext_offset = word_of_nat (length out);
               out = vec_resize skeleton_at (out @ ext_bytes);
               out = fold (\<lambda>n out. out @ qnode_to_bytes n) (om_skeleton m) out
           in Inr (out, offset, word_of_nat (length compressed), new_ext_offset)))"

definition patched_header :: "omf_map \<Rightarrow> u64 \<Rightarrow> nat \<Rightarrow> u64 \<Rightarrow> u64 \<Rightarrow> u32 \<Rightarrow> u64 \<Rightarrow> header" where
  "patched_header m dir_offset dir_len footer_offset meta_offset meta_len ext_meta_offset =
     om_header m\<lparr>h_dir_offset := dir_offset, h_dir_len := word_of_nat dir_len, h_footer_offset := footer_offset,
       h_meta_offset := meta_offset, h_meta_len := meta_len, h_ext_meta_offset := ext_meta_offset,
       h_layer_count := word_of_nat (min (length (om_layers m)) 65535)\<rparr>"

definition patched_footer :: "omf_map \<Rightarrow> chunk_directory \<Rightarrow> u64 \<Rightarrow> nat \<Rightarrow> u64 \<Rightarrow> footer" where
  "patched_footer m d dir_offset dir_len file_len =
     \<lparr>f_version_major = VERSION_MAJOR, f_version_minor = VERSION_MINOR, f_flags = h_flags (om_header m),
      f_dir_len = word_of_nat dir_len, f_dir_offset = dir_offset, f_dir_record_count = word_of_nat (length d),
      f_chunk_count = word_of_nat (length d), f_node_count = f_node_count (om_footer m),
      f_layer_count = word_of_nat (length (om_layers m)), f_file_len = file_len, f_file_hash = replicate 16 0\<rparr>"

definition patch_seal ::
  "(bytes \<Rightarrow> u32) \<Rightarrow> (bytes \<Rightarrow> 128 word) \<Rightarrow> omf_map \<Rightarrow> chunk_directory \<Rightarrow> bytes \<times> u64 \<times> u32 \<times> u64 \<Rightarrow> bytes" where
  "patch_seal crc32 xxh128 m d = (\<lambda>(out, meta_offset, meta_len, ext_meta_offset).
     let dir_offset = word_of_nat (length out);
         dir_bytes = directory_to_bytes d;
         out = out @ dir_bytes;
         footer_offset = word_of_nat (length out);
         file_len = footer_offset + 64;
         header_bytes = header_to_bytes crc32
           (patched_header m dir_offset (length dir_bytes) footer_offset meta_offset meta_len ext_meta_offset);
         footer = patched_footer m d dir_offset (length dir_bytes) file_len;
         out = out @ take 48 (footer_to_bytes footer);
         body_digest = body_digest_from xxh128 out 128;
         file_hash = compose_file_hash xxh128 header_bytes body_digest;
         footer_bytes = footer_to_bytes (footer\<lparr>f_file_hash := file_hash\<rparr>);
         out = out @ drop 48 footer_bytes
     in header_bytes @ drop 128 out)"

definition patch_apply ::
  "ext_crates \<Rightarrow> (bytes \<Rightarrow> u32) \<Rightarrow> (bytes \<Rightarrow> 128 word) \<Rightarrow> xxh64_fn \<Rightarrow> patch \<Rightarrow> bytes \<Rightarrow> bytes result" where
  "patch_apply E crc32 xxh128 xxh64 p base =
     rbind (map_from_bytes E crc32 xxh128 xxh64 base) (\<lambda>m.
     let base_hash = hash64 (f_file_hash (om_footer m))
     in if pt_base_hash p \<noteq> base_hash then Inl (PatchBaseMismatch (pt_base_hash p) base_hash)
        else
          rbind (check_replacements m (pt_replacements p)) (\<lambda>_.
          let (out, d) = apply_replacements crc32 (pt_replacements p) (take (length base - 64) base) (om_directory m)
          in rbind (apply_meta E p m base out) (\<lambda>parts.
             Inr (patch_seal crc32 xxh128 m d parts))))"

section \<open>What a patch appends\<close>

definition replacement_key :: "chunk_replacement \<Rightarrow> dir_key" where
  "replacement_key r = (rp_layer_id r, rp_level r, rp_chunk_id r)"

lemma apply_replacements_Nil [simp]: "apply_replacements crc32 [] out d = (out, d)"
  by (simp add: apply_replacements_def)

lemma apply_replacements_Cons [simp]:
  "apply_replacements crc32 (r # rs) out d =
     apply_replacements crc32 rs (out @ rp_payload r)
       (directory_upsert (chunk_record_new (rp_layer_id r) (rp_level r) (rp_chunk_id r) (rp_codec r) (word_of_nat (length out))
         (word_of_nat (length (rp_payload r))) (rp_raw_len r) (replacement_crc32 crc32 r)) d)"
  by (simp add: apply_replacements_def apply_replacement_def)

lemma apply_replacements_append:
  "apply_replacements crc32 (rs @ rs') out d = (let (out, d) = apply_replacements crc32 rs out d in apply_replacements crc32 rs' out d)"
  by (simp add: apply_replacements_def split: prod.split)

lemma applied_out: "fst (apply_replacements crc32 rs out d) = out @ concat (map rp_payload rs)"
  by (induction rs arbitrary: out d) simp_all

lemma applied_ok: "directory_ok d \<Longrightarrow> directory_ok (snd (apply_replacements crc32 rs out d))"
  by (induction rs arbitrary: out d) (simp_all add: directory.wf_upsert)

section \<open>The patched image is sealed\<close>

lemma footer_take_48:
  "length (f_file_hash f) = 16 \<Longrightarrow> length h = 16 \<Longrightarrow>
     take 48 (footer_to_bytes (f\<lparr>f_file_hash := h\<rparr>)) = take 48 (footer_to_bytes f)
     \<and> drop 48 (footer_to_bytes (f\<lparr>f_file_hash := h\<rparr>)) = h"
  by (simp add: footer_layout layout_def FOOTER_MAGIC_def)

lemma patch_seal_sealed:
  fixes out :: bytes and mo eo :: u64 and ml :: u32 and m d crc32 xxh128
  defines "h \<equiv> patched_header m (word_of_nat (length out)) (length (directory_to_bytes d))
      (word_of_nat (length (out @ directory_to_bytes d))) mo ml eo"
    and "f \<equiv> patched_footer m d (word_of_nat (length out)) (length (directory_to_bytes d))
      (word_of_nat (length (out @ directory_to_bytes d)) + 64)"
    and "img \<equiv> patch_seal crc32 xxh128 m d (out, mo, ml, eo)"
  assumes "128 \<le> length out" and "directory_ok d" and "32 * length d < 2 ^ 32"
    and "length out + 32 * length d + 64 < 2 ^ 64"
    and "h_version_major (om_header m) = VERSION_MAJOR" and "h_version_minor (om_header m) = VERSION_MINOR"
  shows "sealed crc32 xxh128 h (f\<lparr>f_file_hash := compute_file_hash xxh128 img\<rparr>) (drop 128 out) d img"
proof -
  let ?hdr = "header_to_bytes crc32 h" and ?body = "drop 128 out @ directory_to_bytes d @ take 48 (footer_to_bytes f)"
  let ?hash = "compose_file_hash xxh128 ?hdr (le_bytes 16 (xxh128 ?body))"
  have f16: "length (f_file_hash f) = 16" by (simp add: f_def patched_footer_def)
  have h16: "length ?hash = 16" by (simp add: compose_file_hash_def)
  note foot = footer_take_48 [OF f16 h16]
  have parts: "img = ?hdr @ ?body @ ?hash"
    unfolding img_def patch_seal_def Let_def prod.case h_def [symmetric] f_def [symmetric]
    using assms(4) foot by (simp add: body_digest_from_def min_def)
  have "compute_file_hash xxh128 (?hdr @ ?body @ ?hash) = ?hash"
    unfolding compute_file_hash_parts [OF header_record.to_bytes_length h16] by (simp only: compose_file_hash_def)
  then have "compute_file_hash xxh128 img = ?hash" by (simp only: parts)
  moreover have "take 48 (footer_to_bytes f) @ ?hash = footer_to_bytes (f\<lparr>f_file_hash := ?hash\<rparr>)"
    using foot append_take_drop_id [of 48 "footer_to_bytes (f\<lparr>f_file_hash := ?hash\<rparr>)"] by simp
  ultimately have img: "img = ?hdr @ drop 128 out @ directory_to_bytes d
      @ footer_to_bytes (f\<lparr>f_file_hash := compute_file_hash xxh128 img\<rparr>)"
    using parts by simp
  have len: "length img = length out + 32 * length d + 64"
    using arg_cong [OF img, of length] assms(4)
    by (simp add: header_record.to_bytes_length footer_record.to_bytes_length dir_bytes_length)
  show ?thesis
    unfolding sealed_def using img assms(4-9)
    by (intro conjI) (simp_all add: len h_def f_def patched_header_def patched_footer_def dir_bytes_length)
qed

section \<open>What a map stores\<close>

text \<open>The stored chunks as the finite map they stand for: codec, raw length, checksum, flags and the stored bytes.\<close>

type_synonym stored_chunk = "u8 \<times> u32 \<times> u32 \<times> u32 \<times> bytes result"

definition stored_in :: "bytes \<Rightarrow> chunk_directory \<Rightarrow> dir_key \<Rightarrow> stored_chunk option" where
  "stored_in img d k =
     (case directory_map d k of
        None \<Rightarrow> None
      | Some r \<Rightarrow> Some (cr_codec r, cr_raw_len r, cr_crc32 r, cr_flags r,
          read_region img (cr_offset r) (unat (cr_comp_len r)) ''chunk payload''))"

abbreviation stored_chunks :: "omf_map \<Rightarrow> dir_key \<Rightarrow> stored_chunk option" where
  "stored_chunks m \<equiv> stored_in (om_source m) (om_directory m)"

text \<open>What applying a patch means for them.\<close>

definition replaced :: "(bytes \<Rightarrow> u32) \<Rightarrow> chunk_replacement list \<Rightarrow> (dir_key \<Rightarrow> stored_chunk option) \<Rightarrow> dir_key \<Rightarrow> stored_chunk option" where
  "replaced crc32 rs =
     fold (\<lambda>r c. c(replacement_key r \<mapsto> (rp_codec r, rp_raw_len r, crc32 (rp_payload r), 0, Inr (rp_payload r)))) rs"

lemma stored_in_upsert:
  assumes "directory_ok d"
  shows "stored_in img (directory_upsert r d) =
    (stored_in img d)(record_key r \<mapsto> (cr_codec r, cr_raw_len r, cr_crc32 r, cr_flags r,
       read_region img (cr_offset r) (unat (cr_comp_len r)) ''chunk payload''))"
  by (rule HOL.ext) (simp add: stored_in_def directory.lookup_upsert [OF assms])

lemma stored_in_cong:
  assumes "\<And>k r. directory_map d k = Some r \<Longrightarrow>
    read_region img (cr_offset r) (unat (cr_comp_len r)) ''chunk payload''
      = read_region img' (cr_offset r) (unat (cr_comp_len r)) ''chunk payload''"
  shows "stored_in img d = stored_in img' d"
  using assms by (intro HOL.ext) (simp add: stored_in_def split: option.split)

lemma applied_stored:
  assumes "directory_ok d" and "list_all (\<lambda>r. length (rp_payload r) < 2 ^ 32) rs"
    and "\<And>rs1 r rs2. rs = rs1 @ r # rs2 \<Longrightarrow>
      read_region img (word_of_nat (length (out @ concat (map rp_payload rs1)))) (length (rp_payload r)) ''chunk payload''
        = Inr (rp_payload r)"
  shows "stored_in img (snd (apply_replacements crc32 rs out d)) = replaced crc32 rs (stored_in img d)"
  using assms
proof (induction rs arbitrary: out d)
  case (Cons r rs)
  let ?rec = "chunk_record_new (rp_layer_id r) (rp_level r) (rp_chunk_id r) (rp_codec r) (word_of_nat (length out))
      (word_of_nat (length (rp_payload r))) (rp_raw_len r) (replacement_crc32 crc32 r)"
  have "unat (word_of_nat (length (rp_payload r)) :: u32) = length (rp_payload r)"
    using Cons.prems(2) by (simp add: unat_of_nat_u32)
  moreover have "read_region img (word_of_nat (length out)) (length (rp_payload r)) ''chunk payload'' = Inr (rp_payload r)"
    using Cons.prems(3) [of "[]" r rs] by simp
  ultimately have new: "stored_in img (directory_upsert ?rec d) =
      (stored_in img d)(replacement_key r \<mapsto> (rp_codec r, rp_raw_len r, crc32 (rp_payload r), 0, Inr (rp_payload r)))"
    unfolding stored_in_upsert [OF Cons.prems(1)] record_key_new
    by (simp add: chunk_record_new_def replacement_key_def replacement_crc32_def)
  have "stored_in img (snd (apply_replacements crc32 rs (out @ rp_payload r) (directory_upsert ?rec d)))
      = replaced crc32 rs (stored_in img (directory_upsert ?rec d))"
  proof (rule Cons.IH)
    show "directory_ok (directory_upsert ?rec d)" by (rule directory.wf_upsert [OF Cons.prems(1)])
    fix rs1 r' rs2 assume "rs = rs1 @ r' # rs2"
    then show "read_region img (word_of_nat (length ((out @ rp_payload r) @ concat (map rp_payload rs1)))) (length (rp_payload r'))
        ''chunk payload'' = Inr (rp_payload r')"
      using Cons.prems(3) [of "r # rs1" r' rs2] by simp
  qed (use Cons.prems(2) in simp)
  then show ?case unfolding new by (simp add: replaced_def)
qed (simp add: replaced_def)

section \<open>The base\<close>

definition in_body :: "bytes \<Rightarrow> u64 \<Rightarrow> nat \<Rightarrow> bool" where
  "in_body base offset n \<longleftrightarrow> 128 \<le> unat offset \<and> unat offset + n \<le> length base - 64"

definition skeleton_start :: "header \<Rightarrow> u64" where
  "skeleton_start h = align8 (h_meta_offset h + ucast (h_meta_len h) + ucast (h_ext_meta_len h))"

text \<open>A base whose records, metadata, extension area and skeleton all lie between its header and its footer.\<close>

definition well_placed :: "omf_map \<Rightarrow> bool" where
  "well_placed m \<longleftrightarrow>
     header_wf (om_header m) \<and> h_version_minor (om_header m) = VERSION_MINOR \<and> directory_ok (om_directory m)
     \<and> list_all (\<lambda>r. in_body (om_source m) (cr_offset r) (unat (cr_comp_len r))) (om_directory m)
     \<and> in_body (om_source m) (h_meta_offset (om_header m)) (unat (h_meta_len (om_header m)))
     \<and> in_body (om_source m) (skeleton_start (om_header m)) (unat (f_node_count (om_footer m)) * 16)
     \<and> unat (h_ext_meta_offset (om_header m)) + unat (h_ext_meta_len (om_header m)) \<le> length (om_source m)"

lemma opened_parts:
  assumes "with_source E crc32 xxh128 xxh64 src verify = Inr m"
  shows "\<exists>meta_bytes meta_raw. read_region src (h_meta_offset (om_header m)) (unat (h_meta_len (om_header m))) ''meta block'' = Inr meta_bytes
      \<and> zstd_decompress_all E meta_bytes = Inr meta_raw \<and> tlv_from_bytes meta_raw = Inr (om_meta m)"
    and "\<exists>table. tlv_get_as layer_table_decode (om_meta m) TAG_LAYER_TABLE = Inr table
      \<and> om_layers m = (case table of Some t \<Rightarrow> t | None \<Rightarrow> [])"
    and "read_skeleton src (om_header m) (om_footer m) = Inr (om_skeleton m)"
    and "grid_validate (grid_new (h_bounds (om_header m)) (header_base_res_m (om_header m)) (ucast (h_chunk_size (om_header m)))
      (h_lod_count (om_header m))) = Inr ()"
    and "om_source m = src" and "\<not> mem_len src < 192"
  using assms by (auto simp: with_source_def Let_def rbind_Inr_iff split: if_splits)

lemma opened_grid_of:
  assumes "with_source E crc32 xxh128 xxh64 src verify = Inr m"
  shows "om_grid m = grid_new (h_bounds (om_header m)) (header_base_res_m (om_header m)) (ucast (h_chunk_size (om_header m)))
    (h_lod_count (om_header m))"
  using assms by (auto simp: with_source_def Let_def rbind_Inr_iff split: if_splits)

lemma sealed_read:
  assumes "sealed crc32 xxh128 h f body d img" and "128 \<le> unat offset" and "unat offset + n \<le> 128 + length body"
  shows "read_region img offset n what = Inr (take n (drop (unat offset - 128) body))"
proof -
  let ?k = "unat offset - 128"
  have "body = take ?k body @ take n (drop ?k body) @ drop n (drop ?k body)" by (metis append_take_drop_id)
  then show ?thesis by (rule sealed_region [OF assms(1)]) (use assms(2,3) in simp_all)
qed

text \<open>What lay in the base's body is read from the patched image as it was.\<close>

lemma base_region_kept:
  assumes "sealed crc32 xxh128 h f (drop 128 (take (length base - 64) base @ extra)) d img"
    and "in_body base offset n" and "length base < 2 ^ 64"
  shows "read_region img offset n what = read_region base offset n what"
proof -
  have b: "128 \<le> unat offset" "unat offset + n \<le> length base - 64" using assms(2) by (simp_all add: in_body_def)
  have "read_region img offset n what
      = Inr (take n (drop (unat offset - 128) (drop 128 (take (length base - 64) base @ extra))))"
    by (rule sealed_read [OF assms(1)]) (use b in simp_all)
  also have "drop (unat offset - 128) (drop 128 (take (length base - 64) base @ extra))
      = drop (unat offset) (take (length base - 64) base @ extra)"
    using b(1) by (simp only: drop_drop le_add_diff_inverse2)
  also have "take n (drop (unat offset) (take (length base - 64) base @ extra)) = take n (drop (unat offset) base)"
    using b by (simp add: drop_take min_def)
  also have "Inr (take n (drop (unat offset) base)) = read_region base offset n what"
    using b assms(3) by (simp add: read_region_ok)
  finally show ?thesis .
qed

section \<open>The skeleton and the metadata of the patched image\<close>

lemma read_region_length: "read_region src offset n what = Inr bs \<Longrightarrow> n < 2 ^ 64 \<Longrightarrow> length bs = n"
  by (auto simp: read_region_def mem_read_at_def min_def Let_def split: if_splits)

lemma skeleton_build_again:
  assumes "skeleton_build nodes = Inr s"
  shows "skeleton_build s = Inr s" and "length s = length nodes"
proof -
  note s = skeleton_build_Inr [OF assms]
  then have "distinct (map qn_morton s)" by (simp add: skeleton_ok_def sorted_by_def)
  then obtain t where "skeleton_build s = Inr t" using skeleton_build_ok_iff [of s] by (auto simp: is_ok_iff)
  then show "skeleton_build s = Inr s"
    using skeleton_build_Inr(1) sort_key_sorted_by s(2) by (fastforce simp: skeleton_ok_def)
  show "length s = length nodes" by (simp add: s(1))
qed

lemma read_skeleton_Inr:
  assumes "read_skeleton src h f = Inr s"
  shows "skeleton_build s = Inr s" and "length s = unat (f_node_count f)"
proof -
  have "skeleton_build s = Inr s \<and> length s = unat (f_node_count f)"
  proof (cases "f_node_count f > 0")
    case True
    then obtain bs nodes where r: "read_region src (skeleton_start h) (unat (f_node_count f) * 16) ''quadtree skeleton'' = Inr bs"
        and "rmapM qnode_from_bytes (chunks_exact 16 bs) = Inr nodes" and b: "skeleton_build nodes = Inr s"
      using assms
      by (auto simp: read_skeleton_def skeleton_offset_def skeleton_start_def skeleton_from_bytes_def rbind_Inr_iff split: if_splits)
    moreover have "unat (f_node_count f) < 2 ^ 32" using unsigned_less [of "f_node_count f"] by simp
    ultimately have "length nodes = unat (f_node_count f)"
      using read_region_length [OF r] rmapM_length by (fastforce simp: length_chunks_exact)
    then show ?thesis using skeleton_build_again [OF b] by simp
  next
    case False
    then show ?thesis
      using assms by (simp add: read_skeleton_def skeleton_empty_def skeleton_build_def word_gt_0)
  qed
  then show "skeleton_build s = Inr s" "length s = unat (f_node_count f)" by simp_all
qed

text \<open>A reader whose skeleton region holds the nodes of \<open>s\<close> builds \<open>s\<close> from them.\<close>

lemma read_skeleton_of:
  assumes "skeleton_build s = Inr s" and "length s = unat (f_node_count f)"
    and "s \<noteq> [] \<Longrightarrow> read_region src (skeleton_start h) (length s * 16) ''quadtree skeleton'' = Inr (concat (map qnode_to_bytes s))"
  shows "read_skeleton src h f = Inr s"
proof (cases "s = []")
  case True
  then have "\<not> f_node_count f > 0" using assms(2) by (simp add: word_gt_0 unat_eq_0)
  then show ?thesis using True by (simp add: read_skeleton_def skeleton_empty_def)
next
  case False
  moreover have "f_node_count f > 0" using False assms(2) by (metis length_0_conv unat_0 word_neq_0_conv)
  moreover have "skeleton_from_bytes (concat (map qnode_to_bytes s)) = Inr s"
    using skeleton_from_to_bytes [of s] assms(1) by (simp add: skeleton_to_bytes_def fold_append_map)
  ultimately show ?thesis
    using assms(2,3) by (simp add: read_skeleton_def skeleton_offset_def skeleton_start_def)
qed

definition patched_meta :: "patch \<Rightarrow> omf_map \<Rightarrow> tlv_block" where
  "patched_meta p m = fold tlv_set (pt_meta_patch p) (om_meta m)"

definition meta_fits :: "ext_crates \<Rightarrow> patch \<Rightarrow> omf_map \<Rightarrow> bool" where
  "meta_fits E p m \<longleftrightarrow>
     (pt_meta_patch p \<noteq> [] \<longrightarrow> length (tlv_to_bytes (patched_meta p m)) \<le> MAX_META_BYTES
        \<and> (case zstd_compress E (tlv_to_bytes (patched_meta p m)) None of Inl _ \<Rightarrow> True | Inr c \<Rightarrow> length c < 2 ^ 32))
     \<and> is_ok (tlv_get_as layer_table_decode (patched_meta p m) TAG_LAYER_TABLE)
     \<and> is_ok (tlv_get_as derived_layers_decode (patched_meta p m) TAG_DERIVED_LAYERS)"

lemma ext_area_length: "well_placed m \<Longrightarrow> om_source m = base \<Longrightarrow> length base < 2 ^ 62 \<Longrightarrow>
    length (base_ext_area (om_header m) base) = unat (h_ext_meta_len (om_header m))"
  by (auto simp: well_placed_def base_ext_area_def Let_def min_def)

text \<open>The metadata stays where it was, or a new block, the extension area and the skeleton follow the payloads.\<close>

lemma apply_meta_moved:
  assumes "apply_meta E p m base out = Inr (out', mo, ml, eo)" and "pt_meta_patch p \<noteq> []" and "meta_fits E p m"
    and "well_placed m" and "om_source m = base" and "length base < 2 ^ 62" and "length out < 2 ^ 62"
  obtains c pre where "zstd_compress E (tlv_to_bytes (patched_meta p m)) None = Inr c" and "length c < 2 ^ 32"
    and "mo = word_of_nat (length out)" and "ml = word_of_nat (length c)"
    and "out' = out @ c @ pre @ concat (map qnode_to_bytes (om_skeleton m))"
    and "length (out @ c @ pre) = unat (align8 (mo + ucast ml + ucast (h_ext_meta_len (om_header m))))"
    and "length pre < 2 ^ 32 + 8"
proof -
  let ?ext = "base_ext_area (om_header m) base"
  obtain c where c: "zstd_compress E (tlv_to_bytes (patched_meta p m)) None = Inr c" "mo = word_of_nat (length out)"
      "ml = word_of_nat (length c)" "out' = vec_resize (unat (align8 (word_of_nat (length (out @ c)) + word_of_nat (length ?ext))))
         ((out @ c) @ ?ext) @ concat (map qnode_to_bytes (om_skeleton m))"
    using assms(1,2)
    by (auto simp: apply_meta_def patched_meta_def [symmetric] rbind_Inr_iff Let_def fold_append_map)
  have c32: "length c < 2 ^ 32" using assms(2,3) c(1) by (simp add: meta_fits_def)
  have ext: "length ?ext = unat (h_ext_meta_len (om_header m))" by (rule ext_area_length [OF assms(4-6)])
  have ext32: "length ?ext < 2 ^ 32" using unsigned_less [of "h_ext_meta_len (om_header m)"] by (simp add: ext)
  let ?n = "length (out @ c @ ?ext)"
  have small: "?n + 7 < 2 ^ 64" using c32 ext32 assms(7) by simp
  then have n: "unat (word_of_nat ?n :: u64) = ?n" by (intro unat_of_nat_u64) simp
  have addr: "mo + ucast ml + ucast (h_ext_meta_len (om_header m)) = word_of_nat ?n"
    using ext by (simp add: c(2,3) ucast_of_nat_u32 [OF c32])
  have al: "?n \<le> unat (align8 (word_of_nat ?n))" "unat (align8 (word_of_nat ?n)) \<le> ?n + 7"
    using unat_align8 [of "word_of_nat ?n"] small by (simp_all only: n)
  define pre where "pre = ?ext @ replicate (unat (align8 (word_of_nat ?n)) - ?n) 0"
  have "word_of_nat (length (out @ c)) + word_of_nat (length ?ext) = (word_of_nat ?n :: u64)" by simp
  then have "out' = out @ c @ pre @ concat (map qnode_to_bytes (om_skeleton m))"
    using al(1) unfolding c(4) vec_resize_def pre_def by (simp del: of_nat_add)
  moreover have "length (out @ c @ pre) = unat (align8 (mo + ucast ml + ucast (h_ext_meta_len (om_header m))))"
    unfolding addr using al(1) by (simp add: pre_def)
  moreover have "length pre < 2 ^ 32 + 8" using al ext32 by (simp add: pre_def)
  ultimately show ?thesis by (intro that [of c pre]) (simp_all only: c(1-3) c32)
qed

lemma apply_meta_kept:
  "apply_meta E p m base out = Inr (out', mo, ml, eo) \<Longrightarrow> pt_meta_patch p = [] \<Longrightarrow>
     out' = out \<and> mo = h_meta_offset (om_header m) \<and> ml = h_meta_len (om_header m) \<and> patched_meta p m = om_meta m"
  by (simp add: apply_meta_def patched_meta_def)

text \<open>The metadata and the skeleton of a patched image, for an image known to be sealed.\<close>

lemma apply_meta_served:
  assumes base: "with_source E crc32 xxh128 xxh64 base True = Inr m" and ok: "ext_ok E" "well_placed m" "meta_fits E p m"
    and len: "length base < 2 ^ 62" "length out < 2 ^ 62" and out: "out = take (length base - 64) base @ payloads"
    and ap: "apply_meta E p m base out = Inr (out', mo, ml, eo)"
    and seal: "sealed crc32 xxh128 h f (drop 128 out') d img"
    and h: "h_meta_offset h = mo" "h_meta_len h = ml" "h_ext_meta_len h = h_ext_meta_len (om_header m)"
    and f: "f_node_count f = f_node_count (om_footer m)"
  shows "\<exists>bs raw. read_region img (h_meta_offset h) (unat (h_meta_len h)) ''meta block'' = Inr bs
      \<and> zstd_decompress_all E bs = Inr raw \<and> tlv_from_bytes raw = Inr (patched_meta p m)" (is ?meta)
    and "read_skeleton img h f = Inr (om_skeleton m)" (is ?skel)
    and "prefix out out'" (is ?prefix)
proof -
  note parts = opened_parts [OF base]
  note sk = read_skeleton_Inr [OF parts(3)]
  have "?meta \<and> ?skel \<and> ?prefix"
  proof (cases "pt_meta_patch p = []")
    case True
    note kept = apply_meta_kept [OF ap True]
    have seal': "sealed crc32 xxh128 h f (drop 128 (take (length base - 64) base @ payloads)) d img"
      using seal kept out by simp
    have same: "read_region img offset n what = read_region base offset n what" if "in_body base offset n" for offset n what
      by (rule base_region_kept [OF seal' that]) (use len in simp)
    have "skeleton_start h = skeleton_start (om_header m)" using h kept by (simp add: skeleton_start_def)
    then have "read_skeleton img h f = read_skeleton base (om_header m) (om_footer m)"
      using same ok(2) f parts(5)
      by (simp add: read_skeleton_def skeleton_offset_def skeleton_start_def well_placed_def)
    moreover have "read_region img (h_meta_offset h) (unat (h_meta_len h)) what
        = read_region base (h_meta_offset (om_header m)) (unat (h_meta_len (om_header m))) what" for what
      using same [of mo "unat ml" what] ok(2) h kept parts(5) by (simp add: well_placed_def)
    ultimately show ?thesis using parts(1,3) kept by simp
  next
    case False
    obtain c pre where c: "zstd_compress E (tlv_to_bytes (patched_meta p m)) None = Inr c" "length c < 2 ^ 32"
        "mo = word_of_nat (length out)" "ml = word_of_nat (length c)"
        "out' = out @ c @ pre @ concat (map qnode_to_bytes (om_skeleton m))"
        "length (out @ c @ pre) = unat (align8 (mo + ucast ml + ucast (h_ext_meta_len (om_header m))))"
      by (rule apply_meta_moved [OF ap False ok(3,2) parts(5) len]) blast
    have long: "128 \<le> length out" using parts(6) len(1) by (simp add: out word_less_nat_alt mem_len_unat)
    have "length (tlv_to_bytes (patched_meta p m)) \<le> MAX_META_BYTES" using ok(3) False by (simp add: meta_fits_def)
    note block = meta_block_back [OF ok(1) c(1) this]
    have "read_region img (h_meta_offset h) (unat (h_meta_len h)) ''meta block'' = Inr c"
    proof (rule sealed_region [OF seal])
      show "drop 128 out' = drop 128 out @ c @ pre @ concat (map qnode_to_bytes (om_skeleton m))"
        using long by (simp add: c(5))
      show "unat (h_meta_offset h) = 128 + length (drop 128 out)" using long len(2) by (simp add: h(1) c(3) unat_of_nat_u64)
      show "unat (h_meta_len h) = length c" using c(2) by (simp add: h(2) c(4) unat_of_nat_u32)
    qed
    moreover have "read_skeleton img h f = Inr (om_skeleton m)"
    proof (rule read_skeleton_of)
      show "read_region img (skeleton_start h) (length (om_skeleton m) * 16) ''quadtree skeleton''
          = Inr (concat (map qnode_to_bytes (om_skeleton m)))"
      proof (rule sealed_region [OF seal])
        show "drop 128 out' = drop 128 (out @ c @ pre) @ concat (map qnode_to_bytes (om_skeleton m)) @ []"
          using long by (simp add: c(5))
        show "unat (skeleton_start h) = 128 + length (drop 128 (out @ c @ pre))"
          using long c(6) by (simp add: skeleton_start_def h)
      qed (simp add: qnode_record.array_length mult.commute)
    qed (use sk f in simp_all)
    ultimately show ?thesis using block c(5) by auto
  qed
  then show ?meta ?skel ?prefix by blast+
qed

section \<open>The patched image opens\<close>

lemma directory_upsert_length: "length (directory_upsert r d) \<le> Suc (length d)"
  by (auto simp: directory_upsert_def sorted_upsert_def insert_at_def split: sum.split)

lemma applied_length: "length (snd (apply_replacements crc32 rs out d)) \<le> length d + length rs"
proof (induction rs arbitrary: out d)
  case (Cons r rs)
  show ?case
    unfolding apply_replacements_Cons
    by (rule order.trans [OF Cons.IH]) (use directory_upsert_length in \<open>simp add: add.commute\<close>)
qed simp

lemma payloads_length: "length (concat (map rp_payload (pt_replacements p))) = payload_bytes p"
  by (simp add: payload_bytes_def length_concat o_def)

lemma apply_meta_length:
  assumes "apply_meta E p m base out = Inr (out', mo, ml, eo)" and "meta_fits E p m"
    and "well_placed m" and "om_source m = base" and "length base < 2 ^ 62" and "length out < 2 ^ 62"
    and "read_skeleton base (om_header m) (om_footer m) = Inr (om_skeleton m)"
  shows "length out \<le> length out'" and "length out' < 2 ^ 63"
proof -
  have "length out \<le> length out' \<and> length out' < 2 ^ 63"
  proof (cases "pt_meta_patch p = []")
    case True
    then show ?thesis using apply_meta_kept [OF assms(1)] assms(6) by simp
  next
    case False
    have n: "length (om_skeleton m) < 2 ^ 32"
      using read_skeleton_Inr(2) [OF assms(7)] unsigned_less [of "f_node_count (om_footer m)"] by simp
    obtain c pre where "length c < 2 ^ 32" "out' = out @ c @ pre @ concat (map qnode_to_bytes (om_skeleton m))"
        "length pre < 2 ^ 32 + 8"
      by (rule apply_meta_moved [OF assms(1) False assms(2-6)]) blast
    then show ?thesis using n assms(6) by (simp add: qnode_record.array_length)
  qed
  then show "length out \<le> length out'" "length out' < 2 ^ 63" by simp_all
qed

text \<open>A patch within the limits of the fields it writes.\<close>

definition patch_fits :: "ext_crates \<Rightarrow> patch \<Rightarrow> omf_map \<Rightarrow> bool" where
  "patch_fits E p m \<longleftrightarrow> meta_fits E p m
     \<and> list_all (\<lambda>r. length (rp_payload r) < 2 ^ 32) (pt_replacements p)
     \<and> length (om_source m) + payload_bytes p < 2 ^ 62
     \<and> 32 * (length (om_directory m) + length (pt_replacements p)) < 2 ^ 32"

lemma patch_apply_Inr:
  assumes "patch_apply E crc32 xxh128 xxh64 p base = Inr img" and "map_from_bytes E crc32 xxh128 xxh64 base = Inr m"
  obtains out d out' mo ml eo where "apply_replacements crc32 (pt_replacements p) (take (length base - 64) base) (om_directory m) = (out, d)"
    and "apply_meta E p m base out = Inr (out', mo, ml, eo)" and "img = patch_seal crc32 xxh128 m d (out', mo, ml, eo)"
    and "pt_base_hash p = hash64 (f_file_hash (om_footer m))" and "check_replacements m (pt_replacements p) = Inr ()"
proof -
  obtain out d where o: "apply_replacements crc32 (pt_replacements p) (take (length base - 64) base) (om_directory m) = (out, d)"
    by fastforce
  then show ?thesis
    using that [OF o] assms by (auto simp: patch_apply_def rbind_Inr_iff Let_def split: if_splits)
qed

text \<open>The sealed image a patch makes of its base.\<close>

lemma patched_sealed:
  assumes "patch_apply E crc32 xxh128 xxh64 p base = Inr img" and base: "map_from_bytes E crc32 xxh128 xxh64 base = Inr m"
    and "ext_ok E" and wp: "well_placed m" and fits: "patch_fits E p m"
  obtains h f out d mo ml eo out' where "sealed crc32 xxh128 h f (drop 128 out') d img"
    and "apply_replacements crc32 (pt_replacements p) (take (length base - 64) base) (om_directory m) = (out, d)"
    and "apply_meta E p m base out = Inr (out', mo, ml, eo)" and "length out < 2 ^ 62" and "128 \<le> length base - 64"
    and "h_meta_offset h = mo" and "h_meta_len h = ml" and "h_ext_meta_len h = h_ext_meta_len (om_header m)"
    and "f_node_count f = f_node_count (om_footer m)" and "h_bounds h = h_bounds (om_header m)"
    and "header_base_res_m h = header_base_res_m (om_header m)" and "h_chunk_size h = h_chunk_size (om_header m)"
    and "h_lod_count h = h_lod_count (om_header m)"
proof -
  obtain out d out' mo ml eo where o: "apply_replacements crc32 (pt_replacements p) (take (length base - 64) base) (om_directory m) = (out, d)"
      "apply_meta E p m base out = Inr (out', mo, ml, eo)" "img = patch_seal crc32 xxh128 m d (out', mo, ml, eo)"
    by (rule patch_apply_Inr [OF assms(1) base])
  have opened: "with_source E crc32 xxh128 xxh64 base True = Inr m" using base by (simp add: map_from_bytes_def)
  note parts = opened_parts [OF opened]
  have small: "length base < 2 ^ 62" "length base + payload_bytes p < 2 ^ 62" using fits parts(5) by (simp_all add: patch_fits_def)
  have long: "128 \<le> length base - 64" using parts(6) small(1) by (simp add: word_less_nat_alt mem_len_unat)
  have "out = take (length base - 64) base @ concat (map rp_payload (pt_replacements p))"
    using applied_out [of crc32 "pt_replacements p" "take (length base - 64) base" "om_directory m"] o(1) by simp
  then have out: "length out < 2 ^ 62" "128 \<le> length out" using long small(2) by (simp_all add: payloads_length)
  have d: "directory_ok d" "32 * length d < 2 ^ 32"
    using applied_ok [of "om_directory m" crc32 "pt_replacements p" "take (length base - 64) base"] wp
      applied_length [of crc32 "pt_replacements p" "take (length base - 64) base" "om_directory m"] fits o(1)
    by (simp_all add: well_placed_def patch_fits_def)
  have meta: "meta_fits E p m" using fits by (simp add: patch_fits_def)
  note len = apply_meta_length [OF o(2) meta wp parts(5) small(1) out(1) parts(3)]
  have h: "h_version_major (om_header m) = VERSION_MAJOR" "h_version_minor (om_header m) = VERSION_MINOR"
    using wp by (simp_all add: well_placed_def header_wf_def)
  have "length out' + 32 * length d + 64 < 2 ^ 64" using len(2) d(2) by simp
  with patch_seal_sealed [OF order.trans [OF out(2) len(1)] d _ h, of crc32 xxh128 mo ml eo] show ?thesis
    using that [OF _ o(1,2) out(1) long] by (auto simp: o(3) patched_header_def patched_footer_def header_base_res_m_def)
qed

lemma applied_reads:
  assumes seal: "sealed crc32 xxh128 h f (drop 128 out') d img" and "prefix out out'" and "length out < 2 ^ 62"
    and "out = take (length base - 64) base @ concat (map rp_payload rs)" and "128 \<le> length base - 64"
    and "rs = rs1 @ r # rs2"
  shows "read_region img (word_of_nat (length (take (length base - 64) base @ concat (map rp_payload rs1)))) (length (rp_payload r)) what
    = Inr (rp_payload r)"
proof -
  let ?pre = "take (length base - 64) base @ concat (map rp_payload rs1)"
  obtain rest where "out' = out @ rest" using assms(2) by (auto simp: prefix_def)
  then have "out' = ?pre @ rp_payload r @ (concat (map rp_payload rs2) @ rest)" using assms(4,6) by simp
  moreover have "128 \<le> length ?pre" using assms(5) by simp
  ultimately have "drop 128 out' = drop 128 ?pre @ rp_payload r @ (concat (map rp_payload rs2) @ rest)"
    by (simp only: drop_append diff_is_0_eq [THEN iffD2] drop_0)
  moreover have "length ?pre < 2 ^ 64" using assms(3) by (simp add: assms(4,6))
  then have "unat (word_of_nat (length ?pre) :: u64) = 128 + length (drop 128 ?pre)"
    using \<open>128 \<le> length ?pre\<close> by (simp only: unat_of_nat_u64 length_drop le_add_diff_inverse)
  ultimately show ?thesis by (rule sealed_region [OF seal]) (rule HOL.refl)
qed

lemma sealed_stored:
  assumes seal: "sealed crc32 xxh128 h f (drop 128 out') d img" and "prefix out out'" and "length out < 2 ^ 62"
    and out: "out = take (length base - 64) base @ concat (map rp_payload rs)" and "128 \<le> length base - 64"
    and o: "apply_replacements crc32 rs (take (length base - 64) base) (om_directory m) = (out, d)"
    and m: "well_placed m" "om_source m = base"
    and fits: "list_all (\<lambda>r. length (rp_payload r) < 2 ^ 32) rs" "length base < 2 ^ 62"
  shows "stored_in img d = replaced crc32 rs (stored_chunks m)"
proof -
  obtain rest where rest: "out' = out @ rest" using assms(2) by (auto simp: prefix_def)
  have seal': "sealed crc32 xxh128 h f (drop 128 (take (length base - 64) base @ (concat (map rp_payload rs) @ rest))) d img"
    using seal by (simp only: rest out append_assoc)
  have dir: "directory_ok (om_directory m)" using m(1) by (simp add: well_placed_def)
  have "stored_in img d = replaced crc32 rs (stored_in img (om_directory m))"
    using applied_stored [of "om_directory m" rs img "take (length base - 64) base" crc32]
      applied_reads [OF seal assms(2,3) out assms(5)] dir fits(1) o by simp
  moreover have "stored_in img (om_directory m) = stored_in base (om_directory m)"
  proof (rule stored_in_cong)
    fix k r assume "directory_map (om_directory m) k = Some r"
    then have "r \<in> set (om_directory m)" using dir by (simp add: directory_map_def directory_find_Some_iff)
    then have "in_body base (cr_offset r) (unat (cr_comp_len r))"
      using m by (simp add: well_placed_def list_all_iff)
    then show "read_region img (cr_offset r) (unat (cr_comp_len r)) ''chunk payload''
        = read_region base (cr_offset r) (unat (cr_comp_len r)) ''chunk payload''"
      by (rule base_region_kept [OF seal']) (use fits(2) in simp)
  qed
  ultimately show ?thesis using m(2) by simp
qed

lemma apply_opens:
  assumes ap: "patch_apply E crc32 xxh128 xxh64 p base = Inr img" and base: "map_from_bytes E crc32 xxh128 xxh64 base = Inr m"
    and ok: "ext_ok E" "well_placed m" "patch_fits E p m"
  shows "\<exists>m'. map_from_bytes E crc32 xxh128 xxh64 img = Inr m' \<and> om_meta m' = patched_meta p m \<and> om_grid m' = om_grid m
    \<and> om_skeleton m' = om_skeleton m \<and> stored_chunks m' = replaced crc32 (pt_replacements p) (stored_chunks m)"
proof -
  obtain h f out d mo ml eo out' where seal: "sealed crc32 xxh128 h f (drop 128 out') d img"
      and o: "apply_replacements crc32 (pt_replacements p) (take (length base - 64) base) (om_directory m) = (out, d)"
        "apply_meta E p m base out = Inr (out', mo, ml, eo)" "length out < 2 ^ 62" "128 \<le> length base - 64"
      and h: "h_meta_offset h = mo" "h_meta_len h = ml" "h_ext_meta_len h = h_ext_meta_len (om_header m)"
        "f_node_count f = f_node_count (om_footer m)" "h_bounds h = h_bounds (om_header m)"
        "header_base_res_m h = header_base_res_m (om_header m)" "h_chunk_size h = h_chunk_size (om_header m)"
        "h_lod_count h = h_lod_count (om_header m)"
    by (rule patched_sealed [OF ap base ok])
  have opened: "with_source E crc32 xxh128 xxh64 base True = Inr m" using base by (simp add: map_from_bytes_def)
  note parts = opened_parts [OF opened]
  have fits: "meta_fits E p m" "list_all (\<lambda>r. length (rp_payload r) < 2 ^ 32) (pt_replacements p)" "length base < 2 ^ 62"
    using ok(3) parts(5) by (simp_all add: patch_fits_def)
  have out: "out = take (length base - 64) base @ concat (map rp_payload (pt_replacements p))"
    using applied_out [of crc32 "pt_replacements p" "take (length base - 64) base" "om_directory m"] o(1) by simp
  have bounds: "h\<lparr>h_bounds := stored_bounds (h_bounds h)\<rparr> = h"
    using ok(2) h(5) by (simp add: well_placed_def header_wf_def)
  note served = apply_meta_served [OF opened ok(1,2) fits(1,3) o(3) out o(2) seal h(1-4)]
  obtain meta_bytes raw where meta: "read_region img (h_meta_offset h) (unat (h_meta_len h)) ''meta block'' = Inr meta_bytes"
      "zstd_decompress_all E meta_bytes = Inr raw" "tlv_from_bytes raw = Inr (patched_meta p m)" using served(1) by blast
  obtain table dl where table: "tlv_get_as layer_table_decode (patched_meta p m) TAG_LAYER_TABLE = Inr table"
      "tlv_get_as derived_layers_decode (patched_meta p m) TAG_DERIVED_LAYERS = Inr dl"
    using fits(1) by (auto simp: meta_fits_def is_ok_iff)
  obtain dict where dict: "tlv_get_as zstd_dict_decode (patched_meta p m) TAG_ZSTD_DICT = Inr dict"
    using opened_dict_total by blast
  define m' where "m' = \<lparr>om_source = img, om_header = h, om_footer = f, om_meta = patched_meta p m,
      om_layers = (case table of Some t \<Rightarrow> t | None \<Rightarrow> []), om_grid = om_grid m, om_directory = d,
      om_skeleton = om_skeleton m, om_zstd_dict = (if dict = Some [] then None else dict),
      om_cache = cache_new 256, om_stale = []\<rparr>"
  have grid: "om_grid m = grid_new (h_bounds h) (header_base_res_m h) (ucast (h_chunk_size h)) (h_lod_count h)"
    using opened_grid_of [OF opened] by (simp add: h)
  obtain st where st: "find_stale_derived xxh64 m' = Inr st"
    using find_stale_total [of m' dl] table(2) by (auto simp: map_derived_layers_def m'_def)
  have "map_from_bytes E crc32 xxh128 xxh64 img = Inr (m'\<lparr>om_stale := st\<rparr>)"
    unfolding map_from_bytes_def sealed_opens [OF seal] bounds
    using meta table(1) served(2) dict parts(4) st grid
    by (simp add: sealed_map_def Let_def h m'_def)
  moreover have "stored_in img d = replaced crc32 (pt_replacements p) (stored_chunks m)"
    using sealed_stored [OF seal served(3) o(3) out o(4,1) ok(2) parts(5) fits(2,3)] by simp
  ultimately show ?thesis by (auto simp: m'_def)
qed

section \<open>When a patch is accepted\<close>

lemma check_replacements_Inr:
  "check_replacements m rs = Inr () \<longleftrightarrow>
     list_all (\<lambda>r. \<not> is_derived (rp_layer_id r) \<and> map_layer_desc m (rp_layer_id r) \<noteq> None) rs"
  by (induction rs) (auto simp: check_patchable_def rbind_Inr_iff rmap_def ok_or_Inr_iff)

lemma patch_accepted_iff:
  assumes "map_from_bytes E crc32 xxh128 xxh64 base = Inr m" and "pt_meta_patch p = []"
  shows "is_ok (patch_apply E crc32 xxh128 xxh64 p base) \<longleftrightarrow>
    pt_base_hash p = hash64 (f_file_hash (om_footer m))
    \<and> list_all (\<lambda>r. \<not> is_derived (rp_layer_id r) \<and> map_layer_desc m (rp_layer_id r) \<noteq> None) (pt_replacements p)"
proof -
  have "check_replacements m (pt_replacements p) = Inr () \<or> (\<exists>e. check_replacements m (pt_replacements p) = Inl e)"
    by (cases "check_replacements m (pt_replacements p)") simp_all
  then show ?thesis
    using assms check_replacements_Inr [of m "pt_replacements p"]
    by (auto simp: patch_apply_def apply_meta_def Let_def is_ok_iff split: prod.split)
qed

lemma patch_for_map_Inr:
  assumes "patch_for_map m rs = Inr p"
  shows "p = \<lparr>pt_base_hash = hash64 (f_file_hash (om_footer m)), pt_replacements = rs, pt_meta_patch = []\<rparr>"
    and "list_all (\<lambda>r. \<not> is_derived (rp_layer_id r) \<and> map_layer_desc m (rp_layer_id r) \<noteq> None) rs"
  using assms by (simp_all add: patch_for_map_def rbind_Inr_iff check_replacements_Inr flip: ex_simps)

section \<open>A small base\<close>

abbreviation crc7 :: "bytes \<Rightarrow> u32" where "crc7 \<equiv> (\<lambda>_. 7)"

abbreviation len128 :: "bytes \<Rightarrow> 128 word" where "len128 \<equiv> (\<lambda>bs. word_of_nat (length bs))"

definition small_replacement :: chunk_replacement where
  "small_replacement = chunk_replacement_new 0x1000 0 0 RAW [1, 2, 3, 4] 4"

lemma small_base:
  obtains base m where "map_from_bytes stored_crates crc7 len128 length_hash base = Inr m" and "well_placed m"
    and "length base = 232" and "om_source m = base" and "om_directory m = []" and "om_layers m = [small_layer]"
    and "om_meta m = layered_meta small_layer"
proof -
  obtain w where w: "ensure_prologue stored_crates (layered_writer small_layer) = (Inr (), w)" "mw_meta w = layered_meta small_layer"
      "length (mw_hashed w) = 40" "mw_directory w = []" by (rule layered_prologue)
  note fr = ensure_prologue_frame [OF w(1)]
  have ok0: "writer_ok stored_crates (layered_writer small_layer)"
    using writer_run_extends [OF layered_run [of small_layer crc7] writer_new_ok [OF small_new]] by (simp add: extends_def)
  have ok: "writer_ok stored_crates w" "mw_prologue w \<noteq> None"
    using ensure_prologue_success [OF ok0 w(1)] by auto
  have fields: "mw_layers w = [small_layer]" "mw_skeleton w = []" "mw_ext_meta w = []" "mw_spec w = small_spec"
    using fr by (simp_all add: layered_writer_def small_writer_def)
  have "opened_grid small_spec = header_spec_grid small_spec"
    using stored_small_bounds by (simp add: opened_grid_def header_spec_grid_def small_spec_def small_bounds)
  then have op: "openable stored_crates w"
    using small_grid_valid
    by (simp add: openable_def field_limits_def compressed_ok_def stored_compress fields w layered_meta_length ext_area_def
        MAX_META_BYTES_def skeleton_build_def)
      (simp add: tlv_get_as_def tlv_get_def layered_meta_def tlv_record_encode_def TAG_LAYER_TABLE_def TAG_DERIVED_LAYERS_def)
  obtain base where base: "writer_finish stored_crates crc7 len128 w = Inr base"
    using stored_finishes [OF ok(1)] by blast
  obtain m where fin: "is_finished stored_crates crc7 len128 w base"
      and m: "map_from_bytes stored_crates crc7 len128 length_hash base = Inr m" "om_source m = base"
        "om_header m = opened_header w" "om_meta m = mw_meta w" "om_layers m = mw_layers w" "om_directory m = mw_directory w"
    by (rule finished_map [OF stored_crates_ok ok op base])
  have len: "length base = 232" using finished_sizes(1) [OF fin] w by (simp add: dir_bytes_length)
  obtain p where p: "mw_prologue w = Some p" "prologue_ok stored_crates w p" using ok by (auto simp: writer_ok_def)
  then have pr: "p = prologue_of (tlv_to_bytes (layered_meta small_layer)) []"
    by (auto simp: prologue_ok_def stored_compress w fields ext_area_def)
  have foot: "om_footer m = final_footer len128 w base"
    using m(1) sealed_map_fields(2) unfolding map_from_bytes_def sealed_opens [OF finished_sealed [OF fin]] by blast
  have head: "h_meta_offset (om_header m) = 128" "h_meta_len (om_header m) = 34" "h_ext_meta_offset (om_header m) = 0"
      "h_ext_meta_len (om_header m) = 0" "f_node_count (om_footer m) = 0"
    using pr p(1)
    by (simp_all add: m opened_header_def final_header_def writer_header_def prologue_of_def layered_meta_length foot
        final_footer_def writer_footer_def fields)
  have "header_wf (om_header m)" "h_version_minor (om_header m) = VERSION_MINOR"
    by (simp_all add: m header_wf_def opened_header_def final_header_fields fields small_spec_def small_bounds stored_small_bounds)
  moreover have "skeleton_start (om_header m) = 168" by (simp add: skeleton_start_def head align8_def)
  ultimately have "well_placed m"
    by (simp add: well_placed_def m(2,6) w(4) in_body_def head len)
  then show ?thesis using that [OF m(1)] len m fields w by simp
qed

section \<open>Properties\<close>

text \<open>C10: what a patch does to a map. The patched image opens, with the grid and the skeleton of the base
  and the base's metadata with the patch's records set in it, and the chunks it stores are those of the base
  with each replacement put over its key in turn: codec, raw length, checksum and stored bytes. Every
  other chunk keeps its record and its bytes, whether or not the metadata had to move. The base must have
  the minor version the footer is written with, and its parts must lie between its header and its footer.\<close>

theorem patch_refines_replacement:
  assumes "patch_apply E crc32 xxh128 xxh64 p base = Inr img" and "map_from_bytes E crc32 xxh128 xxh64 base = Inr m"
    and "ext_ok E" and "well_placed m" and "patch_fits E p m"
  shows "\<exists>m'. map_from_bytes E crc32 xxh128 xxh64 img = Inr m' \<and> om_meta m' = patched_meta p m \<and> om_grid m' = om_grid m
    \<and> om_skeleton m' = om_skeleton m \<and> stored_chunks m' = replaced crc32 (pt_replacements p) (stored_chunks m)"
  using assms by (rule apply_opens)

theorem patch_refines_replacement_witness:
  "\<exists>base m p img m'. map_from_bytes stored_crates crc7 len128 length_hash base = Inr m
     \<and> patch_for_map m [small_replacement] = Inr p \<and> patch_apply stored_crates crc7 len128 length_hash p base = Inr img
     \<and> map_from_bytes stored_crates crc7 len128 length_hash img = Inr m'
     \<and> stored_chunks m' (0x1000, 0, 0) = Some (RAW, 4, 7, 0, Inr [1, 2, 3, 4])"
proof -
  obtain base m where m: "map_from_bytes stored_crates crc7 len128 length_hash base = Inr m" "well_placed m" "length base = 232"
      "om_source m = base" "om_directory m = []" "om_layers m = [small_layer]" "om_meta m = layered_meta small_layer"
    by (rule small_base)
  define p where "p = \<lparr>pt_base_hash = hash64 (f_file_hash (om_footer m)), pt_replacements = [small_replacement], pt_meta_patch = []\<rparr>"
  have rep: "rp_layer_id small_replacement = 0x1000" "rp_payload small_replacement = [1, 2, 3, 4]" "rp_codec small_replacement = RAW"
      "rp_raw_len small_replacement = 4" "replacement_key small_replacement = (0x1000, 0, 0)"
    by (simp_all add: small_replacement_def chunk_replacement_new_def replacement_key_def)
  have guard: "list_all (\<lambda>r. \<not> is_derived (rp_layer_id r) \<and> map_layer_desc m (rp_layer_id r) \<noteq> None) [small_replacement]"
    by (simp add: rep is_derived_def word_le_nat_alt map_layer_desc_def m(6) small_layer_def layer_desc_new_def)
  then have fm: "patch_for_map m [small_replacement] = Inr p"
    using check_replacements_Inr [of m "[small_replacement]"] by (simp add: patch_for_map_def p_def del: check_replacements.simps)
  have "pt_meta_patch p = []" by (simp add: p_def)
  note acc = patch_accepted_iff [OF m(1) this]
  then obtain img where img: "patch_apply stored_crates crc7 len128 length_hash p base = Inr img"
    using guard by (auto simp: p_def is_ok_iff)
  have "tlv_get (layered_meta small_layer) TAG_DERIVED_LAYERS = None"
    by (simp add: tlv_get_def layered_meta_def tlv_record_encode_def TAG_LAYER_TABLE_def TAG_DERIVED_LAYERS_def)
  moreover obtain table where "tlv_get_as layer_table_decode (om_meta m) TAG_LAYER_TABLE = Inr table"
    using opened_parts(2) m(1) unfolding map_from_bytes_def by blast
  ultimately have "patch_fits stored_crates p m"
    by (simp add: patch_fits_def meta_fits_def p_def patched_meta_def m(4,5) payload_bytes_def rep m(3))
      (simp add: m(7) tlv_get_as_def)
  from patch_refines_replacement [OF img m(1) stored_crates_ok m(2) this] obtain m' where
      m': "map_from_bytes stored_crates crc7 len128 length_hash img = Inr m'"
      "stored_chunks m' = replaced crc7 (pt_replacements p) (stored_chunks m)" by blast
  then have "stored_chunks m' (0x1000, 0, 0) = Some (RAW, 4, 7, 0, Inr [1, 2, 3, 4])"
    by (simp add: replaced_def p_def rep)
  then show ?thesis using m(1) fm img m'(1) by blast
qed

text \<open>C20: when a patch is refused. A patch without metadata applies to a base exactly when it was made for
  that very file, by the low half of its hash, and every layer it replaces is registered there and is not
  a derived layer.\<close>

theorem patch_acceptance:
  assumes "map_from_bytes E crc32 xxh128 xxh64 base = Inr m" and "pt_meta_patch p = []"
  shows "is_ok (patch_apply E crc32 xxh128 xxh64 p base) \<longleftrightarrow>
    pt_base_hash p = hash64 (f_file_hash (om_footer m))
    \<and> list_all (\<lambda>r. \<not> is_derived (rp_layer_id r) \<and> map_layer_desc m (rp_layer_id r) \<noteq> None) (pt_replacements p)"
  using assms by (rule patch_accepted_iff)

theorem patch_acceptance_witness:
  "\<exists>base m. map_from_bytes stored_crates crc7 len128 length_hash base = Inr m
     \<and> \<not> is_ok (patch_apply stored_crates crc7 len128 length_hash
          \<lparr>pt_base_hash = hash64 (f_file_hash (om_footer m)),
           pt_replacements = [small_replacement\<lparr>rp_layer_id := SLOPE\<rparr>], pt_meta_patch = []\<rparr> base)"
proof -
  obtain base m where m: "map_from_bytes stored_crates crc7 len128 length_hash base = Inr m" by (rule small_base)
  let ?p = "\<lparr>pt_base_hash = hash64 (f_file_hash (om_footer m)),
      pt_replacements = [small_replacement\<lparr>rp_layer_id := SLOPE\<rparr>], pt_meta_patch = []\<rparr>"
  have "is_derived SLOPE" by (simp add: is_derived_def SLOPE_def word_le_nat_alt)
  then have "\<not> is_ok (patch_apply stored_crates crc7 len128 length_hash ?p base)"
    using patch_acceptance [OF m, of ?p] by simp
  then show ?thesis using m by blast
qed

end
