(* ===== verification/Svc_Error.thy ===== *)
theory Svc_Error
  imports Omf_Error
begin

text \<open>
  The failures of the service (\<open>crates/service/src/error.rs\<close>) and of the simulator
  (\<open>crates/core/src/error.rs\<close>), and how a failure is classified for the wire. The texts of the I/O,
  JSON and TOML errors the service wraps are kept as strings. The lemmas say which failures of a map
  container are put down to the request and which to the stored image.
\<close>

section \<open>Failures of the simulator\<close>

datatype core_error =
    Core_Map map_error
  | Unusable_Position f64 f64 string
  | No_Path f64 f64 f64 f64
  | Missing_Layer string
  | Dimension_Mismatch usize usize
  | Profile_Not_Converged string
  | Core_Config string
  | Sensor_Config string
  | Core_Backend string string
  | No_Adapter string
  | Core_Export string string

section \<open>Failures of the service\<close>

datatype error_kind =
  K_Invalid | K_Unprocessable | K_Not_Found | K_Conflict | K_Too_Large | K_Busy | K_Unsupported | K_Core | K_Internal

fun error_kind_str :: "error_kind \<Rightarrow> string" where
  "error_kind_str K_Invalid = ''invalid''"
| "error_kind_str K_Unprocessable = ''unprocessable''"
| "error_kind_str K_Not_Found = ''not_found''"
| "error_kind_str K_Conflict = ''conflict''"
| "error_kind_str K_Too_Large = ''too_large''"
| "error_kind_str K_Busy = ''busy''"
| "error_kind_str K_Unsupported = ''unsupported''"
| "error_kind_str K_Core = ''core''"
| "error_kind_str K_Internal = ''internal''"

datatype service_error =
    S_Config string
  | S_Invalid string
  | S_Unprocessable string
  | S_Not_Found string
  | S_Conflict string
  | S_Too_Large string
  | S_Busy string
  | S_Unsupported string
  | S_Core core_error
  | S_Map map_error
  | S_Stored_Map string string
  | S_Io string
  | S_Json string
  | S_Toml string
  | S_Internal string

type_synonym 'a sresult = "service_error + 'a"

definition not_found :: "string \<Rightarrow> service_error" where
  "not_found what = S_Not_Found (what @ '' not found'')"

text \<open>The texts of the variants that carry one; those of a simulator or container failure are an argument.\<close>

fun service_error_text :: "(core_error \<Rightarrow> string) \<Rightarrow> (map_error \<Rightarrow> string) \<Rightarrow> service_error \<Rightarrow> string" where
  "service_error_text core_text map_text (S_Core e) = core_text e"
| "service_error_text core_text map_text (S_Map e) = map_text e"
| "service_error_text core_text map_text (S_Stored_Map ident message) =
     ''map '' @ ident @ '' is stored but cannot be read: '' @ message"
| "service_error_text core_text map_text (S_Config m) = m"
| "service_error_text core_text map_text (S_Invalid m) = m"
| "service_error_text core_text map_text (S_Unprocessable m) = m"
| "service_error_text core_text map_text (S_Not_Found m) = m"
| "service_error_text core_text map_text (S_Conflict m) = m"
| "service_error_text core_text map_text (S_Too_Large m) = m"
| "service_error_text core_text map_text (S_Busy m) = m"
| "service_error_text core_text map_text (S_Unsupported m) = m"
| "service_error_text core_text map_text (S_Io m) = m"
| "service_error_text core_text map_text (S_Json m) = m"
| "service_error_text core_text map_text (S_Toml m) = m"
| "service_error_text core_text map_text (S_Internal m) = m"

section \<open>Classification\<close>

fun map_kind :: "map_error \<Rightarrow> error_kind" where
  "map_kind (Invalid _) = K_Invalid"
| "map_kind (NotACellLayer _ _) = K_Invalid"
| "map_kind (BadMagic _ _) = K_Invalid"
| "map_kind (UnsupportedVersion _ _) = K_Invalid"
| "map_kind (HeaderCrc _ _) = K_Invalid"
| "map_kind (ChunkCrc _ _ _ _ _) = K_Invalid"
| "map_kind (FileHash _ _) = K_Invalid"
| "map_kind (Truncated _ _ _) = K_Invalid"
| "map_kind (MissingTlv _ _) = K_Invalid"
| "map_kind (LayerNotFound _) = K_Invalid"
| "map_kind (UnsupportedCodec _ _ _ _) = K_Unsupported"
| "map_kind (StaleDerived _ _) = K_Unsupported"
| "map_kind (PatchBaseMismatch _ _) = K_Conflict"
| "map_kind (PatchDerivedLayer _) = K_Conflict"
| "map_kind _ = K_Core"

fun core_kind :: "core_error \<Rightarrow> error_kind" where
  "core_kind (Unusable_Position _ _ _) = K_Unprocessable"
| "core_kind (No_Path _ _ _ _) = K_Unprocessable"
| "core_kind (Profile_Not_Converged _) = K_Unprocessable"
| "core_kind (Missing_Layer _) = K_Invalid"
| "core_kind (Dimension_Mismatch _ _) = K_Invalid"
| "core_kind (Core_Config _) = K_Invalid"
| "core_kind (Sensor_Config _) = K_Invalid"
| "core_kind (Core_Map inner) = map_kind inner"
| "core_kind (Core_Backend _ _) = K_Internal"
| "core_kind (No_Adapter _) = K_Internal"
| "core_kind (Core_Export _ _) = K_Internal"

fun service_kind :: "service_error \<Rightarrow> error_kind" where
  "service_kind (S_Config _) = K_Invalid"
| "service_kind (S_Invalid _) = K_Invalid"
| "service_kind (S_Unprocessable _) = K_Unprocessable"
| "service_kind (S_Not_Found _) = K_Not_Found"
| "service_kind (S_Conflict _) = K_Conflict"
| "service_kind (S_Too_Large _) = K_Too_Large"
| "service_kind (S_Busy _) = K_Busy"
| "service_kind (S_Unsupported _) = K_Unsupported"
| "service_kind (S_Internal _) = K_Internal"
| "service_kind (S_Io _) = K_Internal"
| "service_kind (S_Json _) = K_Internal"
| "service_kind (S_Toml _) = K_Internal"
| "service_kind (S_Core e) = core_kind e"
| "service_kind (S_Map e) = map_kind e"
| "service_kind (S_Stored_Map _ _) = K_Internal"

fun is_core :: "service_error \<Rightarrow> bool" where
  "is_core (S_Core _) = True"
| "is_core (S_Map _) = True"
| "is_core (S_Stored_Map _ _) = True"
| "is_core _ = False"

fun is_request_fault :: "map_error \<Rightarrow> bool" where
  "is_request_fault (LayerNotFound _) = True"
| "is_request_fault (NotACellLayer _ _) = True"
| "is_request_fault (UnsupportedCodec _ _ _ _) = True"
| "is_request_fault (StaleDerived _ _) = True"
| "is_request_fault _ = False"

definition from_stored_map :: "(map_error \<Rightarrow> string) \<Rightarrow> string \<Rightarrow> map_error \<Rightarrow> service_error" where
  "from_stored_map map_text ident e =
     (if is_request_fault e then S_Map e else S_Stored_Map ident (map_text e))"

text \<open>Reading back a stored map never blames a conflicting patch, and blames the request only where the fault is its own.\<close>

lemma from_stored_map_kind:
  "service_kind (from_stored_map map_text ident e) = (if is_request_fault e then map_kind e else K_Internal)"
  by (simp add: from_stored_map_def)

lemma request_fault_kind: "is_request_fault e \<Longrightarrow> map_kind e = K_Invalid \<or> map_kind e = K_Unsupported"
  by (cases e) simp_all

end
