(* ===== verification/Svc_Base64.thy ===== *)
theory Svc_Base64
  imports Svc_Error
begin

text \<open>
  Base64 for the images that travel inside JSON (\<open>crates/service/src/api/base64.rs\<close>). A text is its bytes.
  The lemmas show that decoding inverts encoding whatever whitespace is put in, with or without the
  padding and in either alphabet, how long a decoded text is, and that the bits a last group carries
  beyond its bytes are dropped.
\<close>

section \<open>Encoding\<close>

definition ALPHABET :: bytes where
  "ALPHABET = map word_of_nat ([65..<91] @ [97..<123] @ [48..<58] @ [43, 47])"

abbreviation PAD :: u8 where "PAD \<equiv> 61"

text \<open>\<open>chunks(n)\<close>: groups of \<open>n\<close>, the last one possibly shorter.\<close>

function slice_chunks :: "nat \<Rightarrow> 'a list \<Rightarrow> 'a list list" where
  "slice_chunks n xs = (if n = 0 \<or> xs = [] then [] else take n xs # slice_chunks n (drop n xs))"
  by pat_completeness auto
termination by (relation "measure (\<lambda>(n, xs). length xs)") auto

declare slice_chunks.simps [simp del]

definition alphabet_at :: "u32 \<Rightarrow> nat \<Rightarrow> u8" where
  "alphabet_at triple k = ALPHABET ! unat (drop_bit k triple AND 0x3f)"

definition encode_chunk :: "bytes \<Rightarrow> bytes" where
  "encode_chunk chunk =
     (let g0 = chunk ! 0; g1 = (if 1 < length chunk then chunk ! 1 else 0); g2 = (if 2 < length chunk then chunk ! 2 else 0);
          triple = push_bit 16 (ucast g0) OR push_bit 8 (ucast g1) OR ucast g2
      in [alphabet_at triple 18, alphabet_at triple 12,
          (if length chunk > 1 then alphabet_at triple 6 else PAD),
          (if length chunk > 2 then alphabet_at triple 0 else PAD)])"

definition base64_encode :: "bytes \<Rightarrow> bytes" where
  "base64_encode bs = concat (map encode_chunk (slice_chunks 3 bs))"

section \<open>Decoding\<close>

definition base64_invalid :: "string \<Rightarrow> string \<Rightarrow> service_error" where
  "base64_invalid what reason = S_Invalid (what @ '' is not base64: '' @ reason)"

definition is_space :: "u8 \<Rightarrow> bool" where
  "is_space c \<longleftrightarrow> c = 32 \<or> c = 10 \<or> c = 13 \<or> c = 9"

definition digit_value :: "u8 \<Rightarrow> u8 option" where
  "digit_value c =
     (if 65 \<le> c \<and> c \<le> 90 then Some (c - 65)
      else if 97 \<le> c \<and> c \<le> 122 then Some (c - 97 + 26)
      else if 48 \<le> c \<and> c \<le> 57 then Some (c - 48 + 52)
      else if c = 43 \<or> c = 45 then Some 62
      else if c = 47 \<or> c = 95 then Some 63
      else None)"

text \<open>The loop over the bytes: the index, the digits so far, the padding seen.\<close>

fun decode_scan :: "string \<Rightarrow> nat \<Rightarrow> bytes \<Rightarrow> bytes \<Rightarrow> nat \<Rightarrow> bool \<Rightarrow> (bytes \<times> nat) sresult" where
  "decode_scan what i [] digits padding seen_padding = Inr (digits, padding)"
| "decode_scan what i (c # cs) digits padding seen_padding =
     (if c = PAD then
        (if padding + 1 > 2 then Inl (base64_invalid what (''more than two '' @ [CHR 0x27] @ ''='' @ [CHR 0x27] @ '' at byte '' @ show_nat i))
         else decode_scan what (i + 1) cs digits (padding + 1) True)
      else if is_space c then decode_scan what (i + 1) cs digits padding seen_padding
      else if seen_padding then Inl (base64_invalid what (''data after the padding, at byte '' @ show_nat i))
      else
        case digit_value c of
          Some v \<Rightarrow> decode_scan what (i + 1) cs (digits @ [v]) padding seen_padding
        | None \<Rightarrow> Inl (base64_invalid what (''byte '' @ show_hex_pad 4 (unat c) @ '' at position '' @ show_nat i
            @ '' is not base64'')))"

definition decode_group :: "bytes \<Rightarrow> bytes" where
  "decode_group grp =
     (let acc = fold (\<lambda>(offset, digit) a. a OR push_bit (18 - 6 * offset) (ucast digit)) (List.enumerate 0 grp) (0 :: u32)
      in map (\<lambda>offset. ucast (drop_bit (16 - 8 * offset) acc)) [0..<length grp - 1])"

definition expected_padding :: "nat \<Rightarrow> nat" where
  "expected_padding n = (if n mod 4 = 2 then 2 else if n mod 4 = 3 then 1 else 0)"

definition base64_decode :: "bytes \<Rightarrow> string \<Rightarrow> bytes sresult" where
  "base64_decode text what =
     rbind (decode_scan what 0 text [] 0 False) (\<lambda>(digits, padding).
     if length digits mod 4 = 1
     then Inl (base64_invalid what (show_nat (length digits) @ '' digit(s) is not a whole number of base64 groups''))
     else if padding \<noteq> 0 \<and> padding \<noteq> expected_padding (length digits)
     then Inl (base64_invalid what (show_nat padding @ '' padding character(s) for '' @ show_nat (length digits) @ '' digit(s)''))
     else Inr (concat (map decode_group (slice_chunks 4 digits))))"

section \<open>One group\<close>

lemma digit_value_alphabet: "v < 64 \<Longrightarrow> digit_value (ALPHABET ! v) = Some (word_of_nat v)"
proof -
  have "list_all (\<lambda>v. digit_value (ALPHABET ! v) = Some (word_of_nat v)) [0..<64]" by code_simp
  then show "v < 64 \<Longrightarrow> ?thesis" by (simp add: list_all_iff)
qed

lemma alphabet_plain: "v < 64 \<Longrightarrow> ALPHABET ! v \<noteq> PAD \<and> \<not> is_space (ALPHABET ! v)"
proof -
  have "list_all (\<lambda>v. ALPHABET ! v \<noteq> PAD \<and> \<not> is_space (ALPHABET ! v)) [0..<64]" by code_simp
  then show "v < 64 \<Longrightarrow> ?thesis" by (simp add: list_all_iff)
qed

text \<open>The six-bit digits of a group of one, two or three bytes.\<close>

definition sextet :: "u32 \<Rightarrow> nat \<Rightarrow> u8" where
  "sextet triple k = ucast (drop_bit k triple AND 0x3f)"

lemma low_six: "x AND 0x3f = take_bit 6 (x :: u32)"
proof -
  have "(0x3f :: u32) = mask 6" by (simp add: mask_eq_exp_minus_1)
  then show ?thesis by (simp only: take_bit_eq_mask)
qed

lemma sextet_bound: "unat (drop_bit k (triple :: u32) AND 0x3f) < 64"
  unfolding low_six unsigned_take_bit_eq using take_bit_nat_less_exp [of 6] by simp

lemma alphabet_at_digit:
  "digit_value (alphabet_at triple k) = Some (sextet triple k)" "alphabet_at triple k \<noteq> PAD" "\<not> is_space (alphabet_at triple k)"
  using digit_value_alphabet [OF sextet_bound [of k triple]] alphabet_plain [OF sextet_bound [of k triple]]
  by (simp_all add: alphabet_at_def sextet_def)

definition triple_of :: "bytes \<Rightarrow> u32" where
  "triple_of chunk =
     push_bit 16 (ucast (chunk ! 0)) OR push_bit 8 (ucast (if 1 < length chunk then chunk ! 1 else 0))
       OR ucast (if 2 < length chunk then chunk ! 2 else 0)"

definition chunk_digits :: "bytes \<Rightarrow> bytes" where
  "chunk_digits chunk = map (sextet (triple_of chunk)) (take (length chunk + 1) [18, 12, 6, 0])"

lemma byte_high_bit: "8 \<le> n \<Longrightarrow> \<not> bit (b :: u8) n"
  by (rule impossible_bit) simp

lemma decode_chunk_digits:
  assumes "chunk \<noteq> []" and "length chunk \<le> 3"
  shows "decode_group (chunk_digits chunk) = chunk"
proof -
  have eq: "n < LENGTH(8) \<Longrightarrow> n = 0 \<or> n = 1 \<or> n = 2 \<or> n = 3 \<or> n = 4 \<or> n = 5 \<or> n = 6 \<or> n = 7" for n
    by (simp, arith)
  consider a where "chunk = [a]" | a b where "chunk = [a, b]" | a b c where "chunk = [a, b, c]"
    using assms by (cases chunk rule: remdups_adj.cases; cases "tl (tl chunk)") auto
  then show ?thesis
  proof cases
    case 1
    then show ?thesis
      by (simp add: decode_group_def chunk_digits_def triple_of_def sextet_def low_six)
        (rule bit_word_eqI, drule eq, elim disjE; (simp add: bit_simps byte_high_bit)?; (simp add: eval_nat_numeral)?)
  next
    case 2
    then show ?thesis
      by (simp add: decode_group_def chunk_digits_def triple_of_def sextet_def low_six upt_rec)
        (intro conjI; rule bit_word_eqI, drule eq, elim disjE; (simp add: bit_simps byte_high_bit)?; (simp add: eval_nat_numeral)?)
  next
    case 3
    then show ?thesis
      by (simp add: decode_group_def chunk_digits_def triple_of_def sextet_def low_six upt_rec)
        (intro conjI; rule bit_word_eqI, drule eq, elim disjE; (simp add: bit_simps byte_high_bit)?; (simp add: eval_nat_numeral)?)
  qed
qed

section \<open>The text of an encoding\<close>

definition chunk_chars :: "bytes \<Rightarrow> bytes" where
  "chunk_chars chunk = map (alphabet_at (triple_of chunk)) (take (length chunk + 1) [18, 12, 6, 0])"

definition base64_unpadded :: "bytes \<Rightarrow> bytes" where
  "base64_unpadded bs = concat (map chunk_chars (slice_chunks 3 bs))"

text \<open>A text without its whitespace, in the standard alphabet.\<close>

abbreviation norm_char :: "u8 \<Rightarrow> u8" where
  "norm_char c \<equiv> (if c = 45 then 43 else if c = 95 then 47 else c)"

definition base64_strip :: "bytes \<Rightarrow> bytes" where
  "base64_strip text = map (\<lambda>c. norm_char c) (filter (\<lambda>c. \<not> is_space c) text)"

lemma slice_chunks_short: "0 < n \<Longrightarrow> xs \<noteq> [] \<Longrightarrow> length xs \<le> n \<Longrightarrow> slice_chunks n xs = [xs]"
  by (subst slice_chunks.simps) (simp add: slice_chunks.simps [of n "[]"])

lemma slice_chunks_Nil [simp]: "slice_chunks n [] = []"
  by (subst slice_chunks.simps) simp

lemma slice_chunks_append: "0 < n \<Longrightarrow> length a = n \<Longrightarrow> slice_chunks n (a @ xs) = a # slice_chunks n xs"
  by (subst slice_chunks.simps) auto

text \<open>Induction over the groups of three.\<close>

lemma groups_induct [case_names empty short full]:
  assumes "P []" and "\<And>bs. bs \<noteq> [] \<Longrightarrow> length bs < 3 \<Longrightarrow> P bs"
    and "\<And>a bs. length a = 3 \<Longrightarrow> P bs \<Longrightarrow> P (a @ bs)"
  shows "P (bs :: bytes)"
proof (induction bs rule: length_induct)
  case (1 bs)
  show ?case
  proof (cases "length bs < 3")
    case True
    then show ?thesis using assms(1,2) by (cases "bs = []") simp_all
  next
    case False
    then have "P (take 3 bs @ drop 3 bs)" using 1 by (intro assms(3)) simp_all
    then show ?thesis by simp
  qed
qed

definition pad_count :: "nat \<Rightarrow> nat" where
  "pad_count n = (3 - n mod 3) mod 3"

lemma encode_chunk_chars:
  assumes "chunk \<noteq> []" and "length chunk \<le> 3"
  shows "encode_chunk chunk = chunk_chars chunk @ replicate (3 - length chunk) PAD"
proof -
  consider a where "chunk = [a]" | a b where "chunk = [a, b]" | a b c where "chunk = [a, b, c]"
    using assms by (cases chunk rule: remdups_adj.cases; cases "tl (tl chunk)") auto
  then show ?thesis
    by cases (simp_all add: encode_chunk_def chunk_chars_def triple_of_def Let_def numeral_2_eq_2)
qed

lemma length_chunk_chars [simp]:
  "length chunk \<le> 3 \<Longrightarrow> length (chunk_chars chunk) = length chunk + 1"
  "length chunk \<le> 3 \<Longrightarrow> length (chunk_digits chunk) = length chunk + 1"
  by (simp_all add: chunk_chars_def chunk_digits_def)

lemma base64_encode_padded: "base64_encode bs = base64_unpadded bs @ replicate (pad_count (length bs)) PAD"
proof (induction bs rule: groups_induct)
  case (short bs)
  then have "length bs = 1 \<or> length bs = 2" by (cases bs rule: remdups_adj.cases) auto
  then show ?case
    using short by (auto simp: base64_encode_def base64_unpadded_def slice_chunks_short encode_chunk_chars pad_count_def)
next
  case (full a bs)
  have "a \<noteq> []" using full(1) by auto
  then show ?case
    using full by (simp add: base64_encode_def base64_unpadded_def slice_chunks_append encode_chunk_chars pad_count_def)
qed (simp add: base64_encode_def base64_unpadded_def pad_count_def)

text \<open>The digits a decoder reads off it.\<close>

definition unpadded_digits :: "bytes \<Rightarrow> bytes" where
  "unpadded_digits bs = concat (map chunk_digits (slice_chunks 3 bs))"

lemma digits_chunks:
  "slice_chunks 4 (unpadded_digits bs) = map chunk_digits (slice_chunks 3 bs)"
  "length (unpadded_digits bs) mod 4 \<noteq> 1" "pad_count (length bs) = expected_padding (length (unpadded_digits bs))"
  "concat (map decode_group (slice_chunks 4 (unpadded_digits bs))) = bs"
proof (induction bs rule: groups_induct)
  case empty
  {
    case 1 show ?case by (simp add: unpadded_digits_def)
  next
    case 2 show ?case by (simp add: unpadded_digits_def)
  next
    case 3 show ?case by (simp add: unpadded_digits_def pad_count_def expected_padding_def)
  next
    case 4 show ?case by (simp add: unpadded_digits_def)
  }
next
  case (short bs)
  then have d: "unpadded_digits bs = chunk_digits bs" "slice_chunks 3 bs = [bs]"
    by (simp_all add: unpadded_digits_def slice_chunks_short)
  have l: "length (chunk_digits bs) = length bs + 1" using short by simp
  have "chunk_digits bs \<noteq> []" using l by auto
  then have ch: "slice_chunks 4 (chunk_digits bs) = [chunk_digits bs]" using short l by (intro slice_chunks_short) auto
  have n: "length bs = 1 \<or> length bs = 2" using short by (cases bs rule: remdups_adj.cases) auto
  {
    case 1 show ?case by (simp add: d ch)
  next
    case 2 show ?case using n by (auto simp: d l)
  next
    case 3 show ?case using n by (auto simp: d l pad_count_def expected_padding_def)
  next
    case 4 show ?case using short by (simp add: d ch decode_chunk_digits)
  }
next
  case (full a bs)
  have d: "unpadded_digits (a @ bs) = chunk_digits a @ unpadded_digits bs" "slice_chunks 3 (a @ bs) = a # slice_chunks 3 bs"
    using full(1) by (simp_all add: unpadded_digits_def slice_chunks_append)
  have l: "length (chunk_digits a) = 4" using full(1) by simp
  have ne: "a \<noteq> []" using full(1) by auto
  {
    case 1 show ?case using full(2) l by (simp add: d slice_chunks_append)
  next
    case 2 show ?case using full(3) l by (simp add: d)
  next
    case 3 show ?case using full(1,4) l by (simp add: d pad_count_def expected_padding_def)
  next
    case 4 show ?case using full(1,5) l ne by (simp add: d slice_chunks_append decode_chunk_digits)
  }
qed

section \<open>The scan\<close>

lemma digit_value_norm: "digit_value (norm_char c) = digit_value c"
  by (auto simp: digit_value_def word_le_nat_alt)

lemma norm_plain:
  "norm_char c = PAD \<longleftrightarrow> c = PAD" "\<not> is_space c \<Longrightarrow> \<not> is_space (norm_char c)"
  by (auto simp: is_space_def)

text \<open>Whitespace and the choice of alphabet make no difference to what is read.\<close>

lemma scan_strip:
  "decode_scan what i t ds p s = Inr r \<longleftrightarrow> decode_scan what j (base64_strip t) ds p s = Inr r"
proof (induction t arbitrary: i j ds p s)
  case (Cons c cs)
  show ?case
  proof (cases "is_space c")
    case True
    then have "c \<noteq> PAD" by (auto simp: is_space_def)
    then show ?thesis using True Cons.IH [of "i + 1" ds p s j] by (simp add: base64_strip_def)
  next
    case False
    let ?c = "norm_char c"
    have strip: "base64_strip (c # cs) = ?c # base64_strip cs" using False by (simp add: base64_strip_def)
    show ?thesis
      unfolding strip decode_scan.simps norm_plain(1) digit_value_norm
      using False norm_plain(2) [OF False] Cons.IH [of "i + 1" _ _ _ "j + 1"]
      by (cases "digit_value c") simp_all
  qed
qed (simp add: base64_strip_def)

lemma scan_pads: "k \<le> 2 \<Longrightarrow> p + k \<le> 2 \<Longrightarrow> decode_scan what i (replicate k PAD) ds p s = Inr (ds, p + k)"
proof (induction k arbitrary: i p s)
  case (Suc k)
  then show ?case using Suc.IH [of "p + 1" "i + 1" True] by simp
qed simp

lemma scan_digits:
  assumes "k \<le> 2" and "list_all2 (\<lambda>c v. digit_value c = Some v \<and> c \<noteq> PAD \<and> \<not> is_space c) cs vs"
  shows "decode_scan what i (cs @ replicate k PAD) ds 0 False = Inr (ds @ vs, k)"
  using assms(2) by (induction arbitrary: i ds rule: list_all2_induct) (simp_all add: scan_pads assms(1))

lemma unpadded_scans:
  "list_all2 (\<lambda>c v. digit_value c = Some v \<and> c \<noteq> PAD \<and> \<not> is_space c) (base64_unpadded bs) (unpadded_digits bs)"
proof -
  have "list_all2 (\<lambda>c v. digit_value c = Some v \<and> c \<noteq> PAD \<and> \<not> is_space c) (chunk_chars ch) (chunk_digits ch)" for ch
    by (simp add: chunk_chars_def chunk_digits_def list_all2_map1 list_all2_map2 alphabet_at_digit list_all2_same)
  then have "list_all2 (\<lambda>c v. digit_value c = Some v \<and> c \<noteq> PAD \<and> \<not> is_space c)
      (concat (map chunk_chars xs)) (concat (map chunk_digits xs))" for xs
    by (induction xs) (simp_all add: list_all2_appendI)
  then show ?thesis by (simp add: base64_unpadded_def unpadded_digits_def)
qed

lemma decode_encoded:
  assumes "base64_strip text = base64_unpadded bs @ replicate k PAD" and "k = 0 \<or> k = pad_count (length bs)"
  shows "base64_decode text what = Inr bs"
proof -
  have k: "k \<le> 2" using assms(2) by (auto simp: pad_count_def)
  have "decode_scan what 0 (base64_strip text) [] 0 False = Inr (unpadded_digits bs, k)"
    unfolding assms(1) using scan_digits [OF k unpadded_scans] by simp
  then have "decode_scan what 0 text [] 0 False = Inr (unpadded_digits bs, k)" using scan_strip by blast
  then show ?thesis
    using digits_chunks(2-4) [of bs] assms(2) by (auto simp: base64_decode_def)
qed

lemma length_decode_group [simp]: "length (decode_group ds) = length ds - 1"
  by (simp add: decode_group_def)

lemma decode_length:
  assumes "base64_decode text what = Inr bs"
  obtains ds p where "decode_scan what 0 text [] 0 False = Inr (ds, p)" and "length ds mod 4 \<noteq> 1"
    and "length bs = 3 * (length ds div 4) + (length ds mod 4 - 1)"
proof -
  have "length (concat (map decode_group (slice_chunks 4 ds))) = 3 * (length ds div 4) + (length ds mod 4 - 1)" for ds
  proof (induction ds rule: length_induct)
    case (1 ds)
    show ?case
    proof (cases "length ds < 4")
      case True
      then show ?thesis by (cases "ds = []") (simp_all add: slice_chunks_short)
    next
      case False
      then have "slice_chunks 4 ds = take 4 ds # slice_chunks 4 (drop 4 ds)"
        using slice_chunks_append [of 4 "take 4 ds" "drop 4 ds"] by simp
      moreover have "length ds div 4 = Suc ((length ds - 4) div 4)" "length ds mod 4 = (length ds - 4) mod 4"
        using False by (simp_all add: le_div_geq le_mod_geq)
      ultimately show ?thesis using False 1 [rule_format, of "drop 4 ds"] by simp
    qed
  qed
  then show ?thesis
    using assms that by (auto simp: base64_decode_def rbind_Inr_iff split: if_splits)
qed

text \<open>A last group of two digits keeps eight of its twelve bits; the others are dropped without an error.\<close>

lemma tail_bits_dropped:
  "base64_decode [84, 82] what = Inr [77]" "base64_decode [84, 81] what = Inr [77]" "base64_encode [77] = [84, 81, PAD, PAD]"
proof -
  have scan: "decode_scan what 0 [84, c] [] 0 False = Inr ([19, v], 0)" if "digit_value c = Some v" "c \<noteq> PAD" "\<not> is_space c" for c v
    using that by (simp add: is_space_def digit_value_def word_le_nat_alt)
  have digits: "digit_value 82 = Some 17" "digit_value 81 = Some 16" by (simp_all add: digit_value_def word_le_nat_alt)
  have group: "decode_group [19, 17] = [77]" "decode_group [19, 16] = [77]" by code_simp+
  have short: "slice_chunks 4 [19 :: u8, v] = [[19, v]]" for v by (rule slice_chunks_short) simp_all
  show "base64_decode [84, 82] what = Inr [77]"
    using scan [OF digits(1)] by (simp add: base64_decode_def is_space_def short group)
  show "base64_decode [84, 81] what = Inr [77]"
    using scan [OF digits(2)] by (simp add: base64_decode_def is_space_def short group)
  show "base64_encode [77] = [84, 81, PAD, PAD]" by code_simp
qed

section \<open>Properties\<close>

text \<open>C37: base64 survives. A text that, whitespace and choice of alphabet apart, is the encoding of some
  bytes, with its padding or without it, decodes to exactly those bytes.\<close>

theorem base64_roundtrip:
  assumes "base64_strip t = base64_encode bs \<or> base64_strip t = base64_unpadded bs"
  shows "base64_decode t what = Inr bs"
  using assms decode_encoded [of t bs "pad_count (length bs)"] decode_encoded [of t bs 0]
  by (auto simp: base64_encode_padded)

theorem base64_roundtrip_witness:
  "base64_decode [10, 45, 95, 32, 45, 95, 84, 81, 61, 61] ''omf'' = Inr [0xfb, 0xff, 0xbf, 77]"
proof -
  have "base64_strip [10, 45, 95, 32, 45, 95, 84, 81, 61, 61] = base64_encode [0xfb, 0xff, 0xbf, 77]" by code_simp
  then show ?thesis by (intro base64_roundtrip) simp
qed

end
