(* ===== verification/Svc_Time.thy ===== *)
theory Svc_Time
  imports Omf_Prelude
begin

text \<open>
  Timestamps (\<open>crates/service/src/api/time.rs\<close>): Unix milliseconds to an RFC 3339 text, with the date
  computed in closed form. An \<open>i64\<close> is an integer: no intermediate value leaves its range, since the
  milliseconds are divided by 86,400,000 first. The lemmas show that the closed form is the Gregorian
  calendar.
\<close>

section \<open>Formatting\<close>

definition civil_from_days :: "int \<Rightarrow> int \<times> int \<times> int" where
  "civil_from_days days =
     (let shifted = days + 719468;
          era = shifted div 146097;
          day_of_era = shifted mod 146097;
          year_of_era = (day_of_era - day_of_era div 1460 + day_of_era div 36524 - day_of_era div 146096) div 365;
          year = year_of_era + era * 400;
          day_of_year = day_of_era - (365 * year_of_era + year_of_era div 4 - year_of_era div 100);
          month_index = (5 * day_of_year + 2) div 153;
          day = day_of_year - (153 * month_index + 2) div 5 + 1;
          month = (if month_index < 10 then month_index + 3 else month_index - 9)
      in (if month \<le> 2 then year + 1 else year, month, day))"

text \<open>\<open>{:0w}\<close>: at least \<open>w\<close> characters, the sign among them.\<close>

definition show_pad :: "nat \<Rightarrow> int \<Rightarrow> string" where
  "show_pad w n =
     (let ds = show_nat (nat \<bar>n\<bar>); sign = (if n < 0 then ''-'' else [])
      in sign @ replicate (w - length sign - length ds) CHR ''0'' @ ds)"

definition unix_ms_to_rfc3339 :: "int \<Rightarrow> string" where
  "unix_ms_to_rfc3339 millis =
     (let seconds = millis div 1000;
          days = seconds div 86400;
          second_of_day = seconds mod 86400;
          (year, month, day) = civil_from_days days;
          hour = second_of_day div 3600;
          minute = second_of_day mod 3600 div 60;
          second = second_of_day mod 60
      in show_pad 4 year @ ''-'' @ show_pad 2 month @ ''-'' @ show_pad 2 day @ ''T'' @ show_pad 2 hour @ '':''
         @ show_pad 2 minute @ '':'' @ show_pad 2 second @ ''Z'')"

section \<open>The Gregorian calendar\<close>

definition leap :: "int \<Rightarrow> bool" where
  "leap y \<longleftrightarrow> 4 dvd y \<and> (\<not> 100 dvd y \<or> 400 dvd y)"

definition days_in_month :: "int \<Rightarrow> int \<Rightarrow> int" where
  "days_in_month y m = (if m = 2 then (if leap y then 29 else 28) else if m \<in> {4, 6, 9, 11} then 30 else 31)"

definition valid_date :: "int \<times> int \<times> int \<Rightarrow> bool" where
  "valid_date = (\<lambda>(y, m, d). 1 \<le> m \<and> m \<le> 12 \<and> 1 \<le> d \<and> d \<le> days_in_month y m)"

definition next_date :: "int \<times> int \<times> int \<Rightarrow> int \<times> int \<times> int" where
  "next_date = (\<lambda>(y, m, d).
     if d < days_in_month y m then (y, m, d + 1) else if m < 12 then (y, m + 1, 1) else (y + 1, 1, 1))"

section \<open>Years that begin in March\<close>

text \<open>The day of an era on which its year \<open>y\<close> begins, and the length of that year.\<close>

definition year_start :: "int \<Rightarrow> int" where
  "year_start y = 365 * y + y div 4 - y div 100"

definition year_length :: "int \<Rightarrow> int" where
  "year_length y = (if leap (y + 1) then 366 else 365)"

definition era_year :: "int \<Rightarrow> int" where
  "era_year doe = (doe - doe div 1460 + doe div 36524 - doe div 146096) div 365"

lemma era_year_step: "era_year (int n) \<le> era_year (int (Suc n))"
proof -
  have "36524 dvd Suc n" if "146096 dvd Suc n" by (rule dvd_trans [OF _ that]) simp
  then have "Suc n mod 146096 = 0 \<Longrightarrow> Suc n mod 36524 = 0" by (simp add: mod_eq_0_iff_dvd)
  then have "int n - int (n div 1460) + int (n div 36524) - int (n div 146096)
      \<le> int (Suc n) - int (Suc n div 1460) + int (Suc n div 36524) - int (Suc n div 146096)"
    by (auto simp: div_Suc)
  then have "int n - int n div 1460 + int n div 36524 - int n div 146096
      \<le> int (Suc n) - int (Suc n) div 1460 + int (Suc n) div 36524 - int (Suc n) div 146096"
    by (simp only: zdiv_int of_nat_numeral)
  then show ?thesis unfolding era_year_def by (intro zdiv_mono1) simp_all
qed

lemma era_year_mono:
  assumes "0 \<le> a" and "a \<le> b"
  shows "era_year a \<le> era_year b"
  using lift_Suc_mono_le [of "\<lambda>n. era_year (int n)", OF era_year_step, of "nat a" "nat b"] assms by simp

fun years_agree :: "nat \<Rightarrow> int \<Rightarrow> bool" where
  "years_agree 0 y = True"
| "years_agree (Suc n) y =
     (era_year (year_start y) = y \<and> era_year (year_start y + year_length y - 1) = y \<and> years_agree n (y + 1))"

lemma years_agreeD:
  "years_agree n a \<Longrightarrow> a \<le> y \<Longrightarrow> y < a + int n \<Longrightarrow> era_year (year_start y) = y \<and> era_year (year_start y + year_length y - 1) = y"
proof (induction n arbitrary: a)
  case (Suc n)
  then show ?case using Suc.IH [of "a + 1"] by (cases "y = a") simp_all
qed simp

lemma years_agree_all: "years_agree 400 0"
  by code_simp

lemma year_length_bounds: "365 \<le> year_length y" "year_length y \<le> 366"
  by (simp_all add: year_length_def)

lemma era_year_within:
  assumes "0 \<le> y" and "y < 400" and "0 \<le> doy" and "doy < year_length y"
  shows "era_year (year_start y + doy) = y"
proof -
  have "y div 100 \<le> y" using zdiv_mono2 [of y 1 100] assms(1) by simp
  moreover have "0 \<le> y div 4" using assms(1) by simp
  ultimately have "0 \<le> year_start y" using assms(1) by (simp add: year_start_def)
  moreover have "era_year (year_start y) = y" "era_year (year_start y + year_length y - 1) = y"
    using years_agreeD [OF years_agree_all, of y] assms(1,2) by simp_all
  ultimately show ?thesis
    using era_year_mono [of "year_start y" "year_start y + doy"] era_year_mono [of "year_start y + doy" "year_start y + year_length y - 1"]
      assms(3,4) by simp
qed

lemma year_start_Suc:
  assumes "0 \<le> y" and "y < 399"
  shows "year_start (y + 1) = year_start y + year_length y"
proof -
  define n where "n = nat y"
  then have y: "y = int n" using assms(1) by simp
  have "(y + 1) div k = y div k + (if k dvd y + 1 then 1 else 0)" if "k = int m" "m \<noteq> 0" for k m
  proof -
    have "int (Suc n) div k = int (Suc n div m)" "int n div k = int (n div m)" "k dvd int (Suc n) \<longleftrightarrow> m dvd Suc n"
      unfolding that(1) by (simp_all only: of_nat_div of_nat_dvd_iff)
    then show ?thesis by (simp add: y add.commute div_Suc mod_eq_0_iff_dvd)
  qed
  from this [of 4 4] this [of 100 100] have "(y + 1) div 100 = y div 100 + (if 100 dvd y + 1 then 1 else 0)"
    "(y + 1) div 4 = y div 4 + (if 4 dvd y + 1 then 1 else 0)" by simp_all
  moreover have "100 dvd y + 1 \<Longrightarrow> 4 dvd y + 1" by (rule dvd_trans [of _ 100]) simp_all
  moreover have "\<not> 400 dvd y + 1" using assms by presburger
  ultimately show ?thesis by (auto simp: year_start_def year_length_def leap_def)
qed

text \<open>Every day of an era is a day of one of its years.\<close>

lemma day_of_era_split:
  assumes "0 \<le> doe" and "doe < 146097"
  obtains y doy where "0 \<le> y" and "y < 400" and "0 \<le> doy" and "doy < year_length y" and "doe = year_start y + doy"
proof -
  have "int n < 146097 \<Longrightarrow> \<exists>y doy. 0 \<le> y \<and> y < 400 \<and> 0 \<le> doy \<and> doy < year_length y \<and> int n = year_start y + doy" for n
  proof (induction n)
    case 0
    then show ?case by (intro exI [of _ 0]) (simp add: year_start_def year_length_def)
  next
    case (Suc n)
    then obtain y doy where d: "0 \<le> y" "y < 400" "0 \<le> doy" "doy < year_length y" "int n = year_start y + doy" by auto
    show ?case
    proof (cases "doy + 1 < year_length y")
      case True
      then show ?thesis using d by (intro exI [of _ y] exI [of _ "doy + 1"]) simp
    next
      case False
      then have last: "doy = year_length y - 1" using d(4) by simp
      have "y \<noteq> 399"
      proof
        assume "y = 399"
        then have "int n = 146096" using d(5) last by (simp add: year_start_def year_length_def leap_def)
        then show False using Suc.prems by simp
      qed
      then have "year_start (y + 1) = year_start y + year_length y" using d(1,2) by (intro year_start_Suc) simp_all
      then show ?thesis
        using d(1,2,5) last \<open>y \<noteq> 399\<close> year_length_bounds(1) [of "y + 1"]
        by (intro exI [of _ "y + 1"] exI [of _ 0]) simp
    qed
  qed
  from this [of "nat doe"] show ?thesis using assms that by auto
qed

section \<open>The closed form follows the calendar\<close>

definition month_day :: "int \<Rightarrow> int \<times> int" where
  "month_day doy =
     (let mi = (5 * doy + 2) div 153 in (if mi < 10 then mi + 3 else mi - 9, doy - (153 * mi + 2) div 5 + 1))"

definition date_in_year :: "int \<Rightarrow> int \<Rightarrow> int \<times> int \<times> int" where
  "date_in_year y doy = (let (m, d) = month_day doy in (if m \<le> 2 then y + 1 else y, m, d))"

lemma civil_of_split:
  assumes "0 \<le> y" and "y < 400" and "0 \<le> doy" and "doy < year_length y"
    and "days + 719468 = era * 146097 + (year_start y + doy)"
  shows "civil_from_days days = date_in_year (y + era * 400) doy"
proof -
  let ?doe = "year_start y + doy"
  have y: "era_year ?doe = y" by (rule era_year_within [OF assms(1-4)])
  have "0 \<le> ?doe" "?doe < 146097"
  proof -
    have "y div 100 \<le> y" "0 \<le> y div 4" using zdiv_mono2 [of y 1 100] assms(1) by simp_all
    then show "0 \<le> ?doe" using assms(1,3) by (simp add: year_start_def)
    have "year_start y \<le> 365 * y + y div 4 - y div 100" by (simp add: year_start_def)
    show "?doe < 146097"
    proof (cases "y = 399")
      case True
      then show ?thesis using assms(4) by (simp add: year_start_def year_length_def leap_def)
    next
      case False
      then have "y div 4 \<le> 99" "0 \<le> y div 100" using assms(1,2) zdiv_mono1 [of y 399 4] by simp_all
      then show ?thesis using assms(1,2,4) False year_length_bounds(2) [of y] by (simp add: year_start_def)
    qed
  qed
  then have small: "?doe div 146097 = 0" "?doe mod 146097 = ?doe"
    by (rule div_pos_pos_trivial, rule mod_pos_pos_trivial)
  have "(era * 146097 + ?doe) div 146097 = era + ?doe div 146097" by (rule div_mult_self3) simp
  moreover have "(era * 146097 + ?doe) mod 146097 = ?doe mod 146097" by (rule mod_mult_self3)
  ultimately have dm: "(days + 719468) div 146097 = era" "(days + 719468) mod 146097 = ?doe"
    by (simp_all only: assms(5) small add_0_right)
  have doy: "?doe - (365 * y + y div 4 - y div 100) = doy" unfolding year_start_def by (rule add_diff_cancel_left')
  show ?thesis
    unfolding civil_from_days_def Let_def dm era_year_def [symmetric] y doy date_in_year_def month_day_def prod.case
    by (rule HOL.refl)
qed

definition month_ok :: "int \<Rightarrow> bool" where
  "month_ok doy \<longleftrightarrow>
     (let (m, d) = month_day doy
      in 1 \<le> m \<and> m \<le> 12 \<and> 1 \<le> d \<and> d < days_in_month 1 m + (if m = 2 then 0 else 1)
         \<and> month_day (doy + 1) = (if d < days_in_month 1 m then (m, d + 1) else if m < 12 then (m + 1, 1) else (1, 1)))"

fun months_agree :: "nat \<Rightarrow> int \<Rightarrow> bool" where
  "months_agree 0 doy = True"
| "months_agree (Suc n) doy = (month_ok doy \<and> months_agree n (doy + 1))"

lemma months_agree_all: "months_agree 364 0"
  by code_simp

lemma months_agreeD: "months_agree n a \<Longrightarrow> a \<le> doy \<Longrightarrow> doy < a + int n \<Longrightarrow> month_ok doy"
proof (induction n arbitrary: a)
  case (Suc n)
  then show ?case using Suc.IH [of "a + 1"] by (cases "doy = a") simp_all
qed simp

lemma month_day_ends: "month_day 0 = (3, 1)" "month_day 364 = (2, 28)" "month_day 365 = (2, 29)"
  by (simp_all add: month_day_def)

lemma leap_era: "leap (y + era * 400 + 1) \<longleftrightarrow> leap (y + 1)"
proof -
  have "k dvd y + era * 400 + 1 \<longleftrightarrow> k dvd y + 1" if "k dvd 400" for k :: int
    using dvd_add_left_iff [of k "era * 400" "y + 1"] that by (simp add: algebra_simps)
  then show ?thesis by (simp add: leap_def)
qed

lemma date_in_year_valid:
  assumes "0 \<le> doy" and "doy < year_length y"
  shows "valid_date (date_in_year (y + era * 400) doy)"
proof -
  consider "doy < 364" | "doy = 364" | "doy = 365" "leap (y + 1)" using assms(2) by (force simp: year_length_def split: if_splits)
  then show ?thesis
  proof cases
    case 1
    obtain m d where md: "month_day doy = (m, d)" by fastforce
    have "1 \<le> m \<and> m \<le> 12 \<and> 1 \<le> d \<and> d < days_in_month 1 m + (if m = 2 then 0 else 1)"
      using months_agreeD [OF months_agree_all assms(1)] 1 by (simp add: month_ok_def md)
    then show ?thesis by (auto simp: date_in_year_def md valid_date_def days_in_month_def leap_def split: if_splits)
  qed (use leap_era in \<open>simp_all add: date_in_year_def month_day_ends valid_date_def days_in_month_def\<close>)
qed

lemma date_in_year_next:
  assumes "0 \<le> doy" and "doy + 1 < year_length y"
  shows "date_in_year (y + era * 400) (doy + 1) = next_date (date_in_year (y + era * 400) doy)"
proof (cases "doy = 364")
  case True
  then have "leap (y + era * 400 + 1)" using assms(2) leap_era by (simp add: year_length_def split: if_splits)
  then show ?thesis using True by (simp add: date_in_year_def month_day_ends next_date_def days_in_month_def)
next
  case False
  then have "doy < 364" using assms(2) year_length_bounds(2) [of y] by simp
  obtain m d where md: "month_day doy = (m, d)" by fastforce
  have "1 \<le> m \<and> m \<le> 12 \<and> 1 \<le> d \<and> d < days_in_month 1 m + (if m = 2 then 0 else 1)
     \<and> month_day (doy + 1) = (if d < days_in_month 1 m then (m, d + 1) else if m < 12 then (m + 1, 1) else (1, 1))"
    using months_agreeD [OF months_agree_all assms(1)] \<open>doy < 364\<close> by (simp add: month_ok_def md)
  then show ?thesis
    by (auto simp: date_in_year_def md next_date_def days_in_month_def leap_def split: if_splits)
qed

lemma date_in_year_turn:
  "next_date (date_in_year (y + era * 400) (year_length y - 1)) = date_in_year (y + era * 400 + 1) 0"
  using leap_era by (auto simp: date_in_year_def month_day_ends next_date_def days_in_month_def year_length_def)

lemma civil_steps:
  "valid_date (civil_from_days days)" "civil_from_days (days + 1) = next_date (civil_from_days days)"
proof -
  define era where "era = (days + 719468) div 146097"
  have "0 \<le> (days + 719468) mod 146097" "(days + 719468) mod 146097 < 146097" by simp_all
  then obtain y doy where s: "0 \<le> y" "y < 400" "0 \<le> doy" "doy < year_length y"
      and doe: "(days + 719468) mod 146097 = year_start y + doy"
    by (rule day_of_era_split)
  then have days: "days + 719468 = era * 146097 + (year_start y + doy)"
    unfolding era_def by (metis div_mult_mod_eq)
  note civil = civil_of_split [OF s days]
  show "valid_date (civil_from_days days)" unfolding civil by (rule date_in_year_valid [OF s(3,4)])
  show "civil_from_days (days + 1) = next_date (civil_from_days days)"
  proof (cases "doy + 1 < year_length y")
    case True
    have "days + 1 + 719468 = era * 146097 + (year_start y + (doy + 1))" using days by simp
    then have "civil_from_days (days + 1) = date_in_year (y + era * 400) (doy + 1)"
      using civil_of_split [OF s(1,2) _ True] s(3) by simp
    then show ?thesis unfolding civil using date_in_year_next [OF s(3) True] by simp
  next
    case False
    then have last: "doy = year_length y - 1" using s(4) by simp
    show ?thesis
    proof (cases "y = 399")
      case True
      have "year_start y + doy = 146096" using True last by (simp add: year_start_def year_length_def leap_def)
      then have "days + 1 + 719468 = (era + 1) * 146097 + (year_start 0 + 0)" using days by (simp add: year_start_def)
      from civil_of_split [OF _ _ _ _ this] show ?thesis
        unfolding civil last using date_in_year_turn [of y era] True by (simp add: year_length_def algebra_simps)
    next
      case False
      then have "days + 1 + 719468 = era * 146097 + (year_start (y + 1) + 0)"
        using days last year_start_Suc [of y] s(1,2) by simp
      from civil_of_split [OF _ _ _ _ this] show ?thesis
        unfolding civil last
        using date_in_year_turn [of y era] s(1,2) False year_length_bounds(1) [of "y + 1"] by (simp add: algebra_simps)
    qed
  qed
qed

section \<open>Properties\<close>

text \<open>C39: dates are those of the Gregorian calendar. Day 0 is the first of January 1970, the date of the
  next day is the next date of the calendar (months of their lengths, a 29th of February in leap years),
  and every date is one the calendar has, before 1970 as well.\<close>

theorem civil_from_days_gregorian:
  "civil_from_days 0 = (1970, 1, 1)
   \<and> (\<forall>days. valid_date (civil_from_days days) \<and> civil_from_days (days + 1) = next_date (civil_from_days days))"
proof -
  have "civil_from_days 0 = (1970, 1, 1)" by code_simp
  then show ?thesis using civil_steps by blast
qed

end
