(* ===== verification/Svc_Task.thy ===== *)
theory Svc_Task
  imports Svc_Error Svc_Time Omf_Arith
begin

text \<open>
  One background task (\<open>crates/service/src/task/mod.rs\<close>, \<open>task/events.rs\<close>) with the shapes it reports
  (\<open>api/dto/task.rs\<close>, \<open>api/dto/result.rs\<close>, the request parts of \<open>api/dto/simulation.rs\<close>, the stages of
  \<open>crates/core/src/sim/observer.rs\<close>). A method that changes its task returns it; a call that reads the
  clock takes the readings as a function of their number. The events are those published so far, in order.
  What a task does not look at is a type parameter: \<open>'q\<close> for the settings and generator specifications of a
  submission, \<open>'d\<close> for the data of a result. The lemmas describe every transition by its effect on the state,
  the published events and the fields that go with them.
\<close>

section \<open>Submissions\<close>

datatype task_kind = Kind_Simulation | Kind_Route_Preview | Kind_Route_Plan | Kind_Synthetic_Map

definition kind_is_simulation :: "task_kind \<Rightarrow> bool" where
  "kind_is_simulation k \<longleftrightarrow> k = Kind_Simulation"

datatype 'q map_ref =
    Map_Id string
  | Map_Synthetic 'q
  | Map_Inline bytes "string option"

datatype 'q route_spec = Route_Standard 'q | Route_Loop 'q | Route_Dynamic 'q

fun mode_name :: "'q route_spec \<Rightarrow> string" where
  "mode_name (Route_Standard _) = ''standard''"
| "mode_name (Route_Loop _) = ''loop''"
| "mode_name (Route_Dynamic _) = ''dynamic''"

record 'q sim_request =
  sq_name :: "string option"
  sq_map :: "'q map_ref option"
  sq_route :: "'q route_spec"
  sq_rest :: 'q

definition request_mode_name :: "'q sim_request \<Rightarrow> string" where
  "request_mode_name r = mode_name (sq_route r)"

fun release_map :: "'q map_ref \<Rightarrow> 'q map_ref" where
  "release_map (Map_Inline omf_base64 name) = Map_Inline [] name"
| "release_map (Map_Id ident) = Map_Id ident"
| "release_map (Map_Synthetic spec) = Map_Synthetic spec"

definition request_release :: "'q sim_request \<Rightarrow> 'q sim_request" where
  "request_release r = r\<lparr>sq_map := map_option release_map (sq_map r)\<rparr>"

datatype 'q task_payload =
    Payload_Simulation "'q sim_request"
  | Payload_Planning "'q sim_request" bool
  | Payload_Synthetic 'q "string option"

fun payload_kind :: "'q task_payload \<Rightarrow> task_kind" where
  "payload_kind (Payload_Simulation _) = Kind_Simulation"
| "payload_kind (Payload_Planning _ with_profile) = (if with_profile then Kind_Route_Plan else Kind_Route_Preview)"
| "payload_kind (Payload_Synthetic _ _) = Kind_Synthetic_Map"

fun payload_release :: "'q task_payload \<Rightarrow> 'q task_payload" where
  "payload_release (Payload_Simulation r) = Payload_Simulation (request_release r)"
| "payload_release (Payload_Planning r with_profile) = Payload_Planning (request_release r) with_profile"
| "payload_release (Payload_Synthetic spec name) = Payload_Synthetic spec name"

fun payload_name :: "'q task_payload \<Rightarrow> string option" where
  "payload_name (Payload_Simulation r) = sq_name r"
| "payload_name (Payload_Planning r _) = sq_name r"
| "payload_name (Payload_Synthetic _ name) = name"

fun payload_request :: "'q task_payload \<Rightarrow> 'q sim_request option" where
  "payload_request (Payload_Simulation r) = Some r"
| "payload_request (Payload_Planning r _) = Some r"
| "payload_request (Payload_Synthetic _ _) = None"

section \<open>Results\<close>

datatype 'd task_outcome = Outcome_Simulation 'd | Outcome_Route 'd | Outcome_Map 'd

fun outcome_simulation :: "'d task_outcome \<Rightarrow> 'd option" where
  "outcome_simulation (Outcome_Simulation x) = Some x"
| "outcome_simulation _ = None"

section \<open>States\<close>

datatype task_state = Queued | Running | Succeeded | Failed | Cancelled

fun state_is_terminal :: "task_state \<Rightarrow> bool" where
  "state_is_terminal Succeeded = True"
| "state_is_terminal Failed = True"
| "state_is_terminal Cancelled = True"
| "state_is_terminal _ = False"

fun state_name :: "task_state \<Rightarrow> string" where
  "state_name Queued = ''queued''"
| "state_name Running = ''running''"
| "state_name Succeeded = ''succeeded''"
| "state_name Failed = ''failed''"
| "state_name Cancelled = ''cancelled''"

fun state_byte :: "task_state \<Rightarrow> u8" where
  "state_byte Queued = 0"
| "state_byte Running = 1"
| "state_byte Succeeded = 2"
| "state_byte Failed = 3"
| "state_byte Cancelled = 4"

definition state_from_byte :: "u8 \<Rightarrow> task_state" where
  "state_from_byte b = (if b = 1 then Running else if b = 2 then Succeeded else if b = 3 then Failed
     else if b = 4 then Cancelled else Queued)"

definition STAGE_QUEUED :: string where "STAGE_QUEUED = ''queued''"
definition STAGE_RUNNING :: string where "STAGE_RUNNING = ''running''"
definition STAGE_DONE :: string where "STAGE_DONE = ''done''"
definition STAGE_FAILED :: string where "STAGE_FAILED = ''failed''"
definition STAGE_CANCELLED :: string where "STAGE_CANCELLED = ''cancelled''"

datatype run_stage = Stage_Map | Stage_Fields | Stage_Plan | Stage_Motion | Stage_Sensors | Stage_Metrics | Stage_Done

definition stage_order :: "run_stage list" where
  "stage_order = [Stage_Map, Stage_Fields, Stage_Plan, Stage_Motion, Stage_Sensors, Stage_Metrics, Stage_Done]"

fun stage_name :: "run_stage \<Rightarrow> string" where
  "stage_name Stage_Map = ''map''"
| "stage_name Stage_Fields = ''fields''"
| "stage_name Stage_Plan = ''plan''"
| "stage_name Stage_Motion = ''motion''"
| "stage_name Stage_Sensors = ''sensors''"
| "stage_name Stage_Metrics = ''metrics''"
| "stage_name Stage_Done = ''done''"

fun stage_index :: "run_stage \<Rightarrow> nat" where
  "stage_index Stage_Map = 0"
| "stage_index Stage_Fields = 1"
| "stage_index Stage_Plan = 2"
| "stage_index Stage_Motion = 3"
| "stage_index Stage_Sensors = 4"
| "stage_index Stage_Metrics = 5"
| "stage_index Stage_Done = 6"

definition stage_fraction :: "run_stage \<Rightarrow> f64" where
  "stage_fraction s = f64_div (f64_of_nat (stage_index s)) (f64_of_nat (length stage_order - 1))"

section \<open>Events\<close>

datatype event_dto =
    Event_State string string "f64 option" f64
  | Event_Stage string "f64 option" f64
  | Event_Log string string f64
  | Event_Done string string
  | Event_Error string string

fun event_name :: "event_dto \<Rightarrow> string" where
  "event_name (Event_State _ _ _ _) = ''state''"
| "event_name (Event_Stage _ _ _) = ''stage''"
| "event_name (Event_Log _ _ _) = ''log''"
| "event_name (Event_Done _ _) = ''done''"
| "event_name (Event_Error _ _) = ''error''"

record event_envelope =
  ev_at_ms :: int
  ev_event :: event_dto

fun event_is_terminal :: "event_dto \<Rightarrow> bool" where
  "event_is_terminal (Event_Done _ _) = True"
| "event_is_terminal (Event_Error _ _) = True"
| "event_is_terminal _ = False"

definition envelope_is_terminal :: "event_envelope \<Rightarrow> bool" where
  "envelope_is_terminal e = event_is_terminal (ev_event e)"

definition accepts :: "string list \<Rightarrow> event_dto \<Rightarrow> bool" where
  "accepts topics e \<longleftrightarrow> topics = [] \<or> list_ex (\<lambda>t. t = event_name e) topics"

definition sse_frame :: "(event_envelope \<Rightarrow> string option) \<Rightarrow> event_envelope \<Rightarrow> string" where
  "sse_frame to_json e = ''event: '' @ event_name (ev_event e) @ [CHR 0x0A] @ ''data: ''
     @ (case to_json e of None \<Rightarrow> ''{}'' | Some data \<Rightarrow> data) @ [CHR 0x0A, CHR 0x0A]"

section \<open>The task\<close>

record ('q, 'd) task =
  tk_id :: string
  tk_name :: "string option"
  tk_map_id :: string
  tk_mode :: string
  tk_kind :: task_kind
  tk_payload :: "'q task_payload"
  tk_created_at_ms :: int
  tk_started_at_ms :: int
  tk_finished_at_ms :: int
  tk_state :: u8
  tk_stage :: string
  tk_progress :: u64
  tk_error :: "(string \<times> string) option"
  tk_cancelled :: bool
  tk_events :: "event_envelope list"
  tk_outcome :: "'d task_outcome option"

definition NO_PROGRESS :: u64 where "NO_PROGRESS = - 1"

definition task_new :: "int \<Rightarrow> string \<Rightarrow> 'q task_payload \<Rightarrow> string \<Rightarrow> string \<Rightarrow> ('q, 'd) task" where
  "task_new now ident payload map_id mode =
     \<lparr>tk_id = ident, tk_name = payload_name payload, tk_map_id = map_id, tk_mode = mode, tk_kind = payload_kind payload,
      tk_payload = payload, tk_created_at_ms = now, tk_started_at_ms = 0, tk_finished_at_ms = 0,
      tk_state = state_byte Queued, tk_stage = STAGE_QUEUED, tk_progress = 0, tk_error = None, tk_cancelled = False,
      tk_events = [], tk_outcome = None\<rparr>"

definition task_state :: "('q, 'd) task \<Rightarrow> task_state" where
  "task_state t = state_from_byte (tk_state t)"

definition task_progress :: "('q, 'd) task \<Rightarrow> f64 option" where
  "task_progress t = (if tk_progress t = NO_PROGRESS then None else Some (tk_progress t))"

definition elapsed_from :: "int \<Rightarrow> int \<Rightarrow> int \<Rightarrow> f64 option" where
  "elapsed_from now started finished =
     (if started = 0 then None
      else (let end_ms = (if finished = 0 then now else finished)
            in Some (f64_div (f64_of_nat (nat (max (end_ms - started) 0))) (f64_of_nat 1000))))"

definition elapsed_s :: "int \<Rightarrow> ('q, 'd) task \<Rightarrow> f64 option" where
  "elapsed_s now t = elapsed_from now (tk_started_at_ms t) (tk_finished_at_ms t)"

definition simulation_result :: "('q, 'd) task \<Rightarrow> 'd option" where
  "simulation_result t = (case tk_outcome t of Some (Outcome_Simulation x) \<Rightarrow> Some x | _ \<Rightarrow> None)"

definition route_result :: "('q, 'd) task \<Rightarrow> 'd option" where
  "route_result t = (case tk_outcome t of Some (Outcome_Route x) \<Rightarrow> Some x | _ \<Rightarrow> None)"

definition map_result :: "('q, 'd) task \<Rightarrow> 'd option" where
  "map_result t = (case tk_outcome t of Some (Outcome_Map x) \<Rightarrow> Some x | _ \<Rightarrow> None)"

definition task_release :: "('q, 'd) task \<Rightarrow> ('q, 'd) task" where
  "task_release t = t\<lparr>tk_payload := payload_release (tk_payload t)\<rparr>"

definition emit :: "int \<Rightarrow> event_dto \<Rightarrow> ('q, 'd) task \<Rightarrow> ('q, 'd) task" where
  "emit now e t = t\<lparr>tk_events := tk_events t @ [\<lparr>ev_at_ms = now, ev_event = e\<rparr>]\<rparr>"

text \<open>The stores of \<open>commit\<close> one by one, in the order of the code; every reader sees the task after some of them.\<close>

definition commit_stores :: "int \<Rightarrow> task_state \<Rightarrow> string \<Rightarrow> f64 option \<Rightarrow> (('q, 'd) task \<Rightarrow> ('q, 'd) task) list" where
  "commit_stores now st stage progress =
     [\<lambda>t. t\<lparr>tk_stage := stage\<rparr>,
      \<lambda>t. t\<lparr>tk_progress := (case progress of Some p \<Rightarrow> p | None \<Rightarrow> NO_PROGRESS)\<rparr>]
     @ (if state_is_terminal st then [\<lambda>t. t\<lparr>tk_finished_at_ms := now\<rparr>] else [])
     @ [\<lambda>t. t\<lparr>tk_state := state_byte st\<rparr>]"

definition commit :: "int \<Rightarrow> task_state \<Rightarrow> string \<Rightarrow> f64 option \<Rightarrow> ('q, 'd) task \<Rightarrow> ('q, 'd) task" where
  "commit now st stage progress t = fold (\<lambda>store t. store t) (commit_stores now st stage progress) t"

definition emit_state :: "(nat \<Rightarrow> int) \<Rightarrow> ('q, 'd) task \<Rightarrow> ('q, 'd) task" where
  "emit_state clk t = emit (clk 1)
     (Event_State (state_name (task_state t)) (tk_stage t) (task_progress t) (case elapsed_s (clk 0) t of None \<Rightarrow> 0 | Some e \<Rightarrow> e)) t"

definition task_log :: "(nat \<Rightarrow> int) \<Rightarrow> string \<Rightarrow> string \<Rightarrow> ('q, 'd) task \<Rightarrow> ('q, 'd) task" where
  "task_log clk level message t =
     emit (clk 1) (Event_Log level message (case elapsed_s (clk 0) t of None \<Rightarrow> 0 | Some e \<Rightarrow> e)) t"

definition result_url :: "('q, 'd) task \<Rightarrow> string" where
  "result_url t = (if tk_kind t = Kind_Simulation then ''/api/v1/simulations/'' @ tk_id t @ ''/summary''
     else ''/api/v1/tasks/'' @ tk_id t @ ''/result'')"

definition mark_running :: "(nat \<Rightarrow> int) \<Rightarrow> ('q, 'd) task \<Rightarrow> ('q, 'd) task" where
  "mark_running clk t =
     (let t = t\<lparr>tk_started_at_ms := clk 0\<rparr>; t = commit (clk 1) Running STAGE_RUNNING None t
      in emit_state (\<lambda>n. clk (n + 2)) t)"

text \<open>\<open>1.0\<close> as the bits of an \<open>f64\<close>.\<close>

definition ONE :: f64 where "ONE = 0x3FF0000000000000"

definition mark_succeeded :: "(nat \<Rightarrow> int) \<Rightarrow> 'd task_outcome \<Rightarrow> ('q, 'd) task \<Rightarrow> ('q, 'd) task" where
  "mark_succeeded clk outcome t =
     (let t = task_release t; t = t\<lparr>tk_outcome := Some outcome\<rparr>;
          t = commit (clk 0) Succeeded STAGE_DONE (Some ONE) t; t = emit_state (\<lambda>n. clk (n + 1)) t
      in emit (clk 3) (Event_Done ''succeeded'' (result_url t)) t)"

definition mark_failed :: "(nat \<Rightarrow> int) \<Rightarrow> string \<Rightarrow> string \<Rightarrow> ('q, 'd) task \<Rightarrow> ('q, 'd) task" where
  "mark_failed clk kind message t =
     (let t = task_release t; t = t\<lparr>tk_error := Some (kind, message)\<rparr>;
          t = commit (clk 0) Failed STAGE_FAILED None t; t = emit_state (\<lambda>n. clk (n + 1)) t
      in emit (clk 3) (Event_Error kind message) t)"

definition mark_cancelled :: "(nat \<Rightarrow> int) \<Rightarrow> ('q, 'd) task \<Rightarrow> ('q, 'd) task" where
  "mark_cancelled clk t =
     (let t = commit (clk 0) Cancelled STAGE_CANCELLED None t; t = emit_state (\<lambda>n. clk (n + 1)) t
      in emit (clk 3) (Event_Error ''cancelled'' ''the task was cancelled'') t)"

text \<open>\<open>cancel\<close> loads the state and, when the task is live, stores the flag; the two are separate, and other threads may
  come between them.\<close>

definition may_cancel :: "('q, 'd) task \<Rightarrow> bool" where
  "may_cancel t \<longleftrightarrow> \<not> state_is_terminal (task_state t)"

definition store_cancelled :: "('q, 'd) task \<Rightarrow> ('q, 'd) task" where
  "store_cancelled t = t\<lparr>tk_cancelled := True\<rparr>"

definition observe :: "(nat \<Rightarrow> int) \<Rightarrow> run_stage \<Rightarrow> string \<Rightarrow> ('q, 'd) task \<Rightarrow> ('q, 'd) task" where
  "observe clk stage note t =
     (let name = stage_name stage; t = t\<lparr>tk_stage := name\<rparr>; t = t\<lparr>tk_progress := stage_fraction stage\<rparr>;
          t = emit (clk 1) (Event_Stage name (Some (stage_fraction stage))
                (case elapsed_s (clk 0) t of None \<Rightarrow> 0 | Some e \<Rightarrow> e)) t
      in if note \<noteq> [] then task_log (\<lambda>n. clk (n + 2)) ''info'' (name @ '': '' @ note) t else t)"

record task_state_dto =
  dto_id :: string
  dto_kind :: task_kind
  dto_state :: task_state
  dto_stage :: string
  dto_progress :: "f64 option"
  dto_elapsed_s :: "f64 option"
  dto_name :: "string option"
  dto_map_id :: string
  dto_mode :: string
  dto_error :: "string option"
  dto_error_kind :: "string option"
  dto_created_at :: string
  dto_started_at :: "string option"
  dto_finished_at :: "string option"

text \<open>The loads of \<open>to_dto\<close> in the order of the code: the \<open>n\<close>-th sees the task as it is then, since other
  threads may change it between two loads.\<close>

definition to_dto_loads :: "int \<Rightarrow> (nat \<Rightarrow> ('q, 'd) task) \<Rightarrow> task_state_dto" where
  "to_dto_loads now seen =
     (let error = tk_error (seen 0); started = tk_started_at_ms (seen 1); finished = tk_finished_at_ms (seen 2)
      in \<lparr>dto_id = tk_id (seen 0), dto_kind = tk_kind (seen 0), dto_state = task_state (seen 3), dto_stage = tk_stage (seen 4),
          dto_progress = task_progress (seen 5), dto_elapsed_s = elapsed_from now (tk_started_at_ms (seen 6)) (tk_finished_at_ms (seen 7)),
          dto_name = tk_name (seen 0), dto_map_id = tk_map_id (seen 0), dto_mode = tk_mode (seen 0),
          dto_error = map_option snd error, dto_error_kind = map_option fst error,
          dto_created_at = unix_ms_to_rfc3339 (tk_created_at_ms (seen 0)),
          dto_started_at = (if started \<noteq> 0 then Some (unix_ms_to_rfc3339 started) else None),
          dto_finished_at = (if finished \<noteq> 0 then Some (unix_ms_to_rfc3339 finished) else None)\<rparr>)"

definition to_dto :: "int \<Rightarrow> ('q, 'd) task \<Rightarrow> task_state_dto" where
  "to_dto now t = to_dto_loads now (\<lambda>n. t)"

text \<open>The result of a task as the interfaces report it (\<open>api/tasks.rs\<close>).\<close>

datatype 'd task_result_dto = Result_Route 'd | Result_Map 'd

definition result_dto :: "int \<Rightarrow> ('q, 'd) task \<Rightarrow> 'd task_result_dto sresult" where
  "result_dto now t =
     (if task_state t \<noteq> Succeeded
      then Inl (S_Conflict (''task '' @ tk_id t @ '' is '' @ state_name (task_state t)
             @ (case dto_error (to_dto now t) of None \<Rightarrow> [] | Some message \<Rightarrow> '': '' @ message)))
      else case tk_outcome t of
        Some (Outcome_Route preview) \<Rightarrow> Inr (Result_Route preview)
      | Some (Outcome_Map summary) \<Rightarrow> Inr (Result_Map summary)
      | Some (Outcome_Simulation _) \<Rightarrow> Inl (S_Unsupported (''task '' @ tk_id t @ '' is a run: read it through /simulations/'' @ tk_id t))
      | None \<Rightarrow> Inl (S_Conflict (''the result of task '' @ tk_id t @ '' was evicted from memory; submit it again'')))"

section \<open>What a transition changes\<close>

lemma state_from_byte [simp]: "state_from_byte (state_byte st) = st"
  by (cases st) (simp_all add: state_from_byte_def)

lemma from_bytes [simp]:
  "state_from_byte 0 = Queued" "state_from_byte 1 = Running" "state_from_byte 2 = Succeeded"
  "state_from_byte 3 = Failed" "state_from_byte 4 = Cancelled"
  by (simp_all add: state_from_byte_def)

lemma state_byte_inject [simp]: "state_byte a = state_byte b \<longleftrightarrow> a = b"
  using state_from_byte [of a] state_from_byte [of b] by (metis state_from_byte)

lemma payload_kind_release [simp]: "payload_kind (payload_release p) = payload_kind p"
  by (cases p) simp_all

lemma release_map_twice [simp]: "release_map (release_map m) = release_map m"
  by (cases m) simp_all

lemma request_release_twice [simp]: "request_release (request_release r) = request_release r"
  by (cases "sq_map r") (simp_all add: request_release_def)

lemma payload_release_twice [simp]: "payload_release (payload_release p) = payload_release p"
  by (cases p) simp_all

definition terminal_events :: "('q, 'd) task \<Rightarrow> event_envelope list" where
  "terminal_events t = filter envelope_is_terminal (tk_events t)"

lemma commit_eq:
  "commit now st stage progress t =
     t\<lparr>tk_stage := stage, tk_progress := (case progress of Some p \<Rightarrow> p | None \<Rightarrow> NO_PROGRESS),
       tk_finished_at_ms := (if state_is_terminal st then now else tk_finished_at_ms t), tk_state := state_byte st\<rparr>"
  by (cases t) (simp add: commit_def commit_stores_def)

lemma ONE_progress [simp]: "ONE \<noteq> NO_PROGRESS" and zero_progress [simp]: "0 \<noteq> NO_PROGRESS"
  by (simp_all add: ONE_def NO_PROGRESS_def)

lemmas task_ops = commit_eq emit_state_def emit_def task_log_def task_release_def task_state_def terminal_events_def
  envelope_is_terminal_def task_progress_def Let_def

lemma task_new_fields:
  "task_state (task_new now ident p m mode) = Queued" "terminal_events (task_new now ident p m mode) = []"
  "tk_state (task_new now ident p m mode) = state_byte Queued" "tk_stage (task_new now ident p m mode) = STAGE_QUEUED"
  "task_progress (task_new now ident p m mode) = Some 0" "tk_error (task_new now ident p m mode) = None"
  "tk_outcome (task_new now ident p m mode) = None" "tk_kind (task_new now ident p m mode) = payload_kind p"
  "tk_payload (task_new now ident p m mode) = p" "tk_cancelled (task_new now ident p m mode) = False"
  by (simp_all add: task_new_def task_ops)

lemma task_log_fields:
  "task_state (task_log clk l m t) = task_state t" "terminal_events (task_log clk l m t) = terminal_events t"
  "tk_state (task_log clk l m t) = tk_state t" "tk_stage (task_log clk l m t) = tk_stage t"
  "task_progress (task_log clk l m t) = task_progress t" "tk_error (task_log clk l m t) = tk_error t"
  "tk_outcome (task_log clk l m t) = tk_outcome t" "tk_kind (task_log clk l m t) = tk_kind t"
  "tk_payload (task_log clk l m t) = tk_payload t" "tk_cancelled (task_log clk l m t) = tk_cancelled t"
  by (simp_all add: task_ops)

lemma mark_running_fields:
  "task_state (mark_running clk t) = Running" "terminal_events (mark_running clk t) = terminal_events t"
  "tk_state (mark_running clk t) = state_byte Running" "tk_stage (mark_running clk t) = STAGE_RUNNING"
  "task_progress (mark_running clk t) = None" "tk_error (mark_running clk t) = tk_error t"
  "tk_outcome (mark_running clk t) = tk_outcome t" "tk_kind (mark_running clk t) = tk_kind t"
  "tk_payload (mark_running clk t) = tk_payload t" "tk_cancelled (mark_running clk t) = tk_cancelled t"
  by (simp_all add: mark_running_def task_ops)

lemma mark_succeeded_fields:
  "task_state (mark_succeeded clk r t) = Succeeded"
  "terminal_events (mark_succeeded clk r t) = terminal_events t @ [last (tk_events (mark_succeeded clk r t))]"
  "ev_event (last (tk_events (mark_succeeded clk r t))) = Event_Done ''succeeded'' (result_url t)"
  "tk_state (mark_succeeded clk r t) = state_byte Succeeded" "tk_stage (mark_succeeded clk r t) = STAGE_DONE"
  "task_progress (mark_succeeded clk r t) = Some ONE" "tk_error (mark_succeeded clk r t) = tk_error t"
  "tk_outcome (mark_succeeded clk r t) = Some r" "tk_kind (mark_succeeded clk r t) = tk_kind t"
  "tk_payload (mark_succeeded clk r t) = payload_release (tk_payload t)" "tk_id (mark_succeeded clk r t) = tk_id t"
  by (simp_all add: mark_succeeded_def task_ops result_url_def)

lemma mark_failed_fields:
  "task_state (mark_failed clk k m t) = Failed"
  "terminal_events (mark_failed clk k m t) = terminal_events t @ [last (tk_events (mark_failed clk k m t))]"
  "ev_event (last (tk_events (mark_failed clk k m t))) = Event_Error k m"
  "tk_state (mark_failed clk k m t) = state_byte Failed" "tk_stage (mark_failed clk k m t) = STAGE_FAILED"
  "task_progress (mark_failed clk k m t) = None" "tk_error (mark_failed clk k m t) = Some (k, m)"
  "tk_outcome (mark_failed clk k m t) = tk_outcome t" "tk_kind (mark_failed clk k m t) = tk_kind t"
  "tk_payload (mark_failed clk k m t) = payload_release (tk_payload t)" "tk_id (mark_failed clk k m t) = tk_id t"
  by (simp_all add: mark_failed_def task_ops)

lemma mark_cancelled_fields:
  "task_state (mark_cancelled clk t) = Cancelled"
  "terminal_events (mark_cancelled clk t) = terminal_events t @ [last (tk_events (mark_cancelled clk t))]"
  "ev_event (last (tk_events (mark_cancelled clk t))) = Event_Error ''cancelled'' ''the task was cancelled''"
  "tk_state (mark_cancelled clk t) = state_byte Cancelled" "tk_stage (mark_cancelled clk t) = STAGE_CANCELLED"
  "task_progress (mark_cancelled clk t) = None" "tk_error (mark_cancelled clk t) = tk_error t"
  "tk_outcome (mark_cancelled clk t) = tk_outcome t" "tk_kind (mark_cancelled clk t) = tk_kind t"
  "tk_payload (mark_cancelled clk t) = tk_payload t" "tk_id (mark_cancelled clk t) = tk_id t"
  by (simp_all add: mark_cancelled_def task_ops)

lemma observe_fields:
  "task_state (observe clk s n t) = task_state t" "terminal_events (observe clk s n t) = terminal_events t"
  "tk_state (observe clk s n t) = tk_state t" "tk_stage (observe clk s n t) = stage_name s"
  "tk_error (observe clk s n t) = tk_error t"
  "tk_outcome (observe clk s n t) = tk_outcome t" "tk_kind (observe clk s n t) = tk_kind t"
  "tk_payload (observe clk s n t) = tk_payload t" "tk_cancelled (observe clk s n t) = tk_cancelled t"
  by (simp_all add: observe_def task_ops)

lemma store_cancelled_fields:
  "task_state (store_cancelled t) = task_state t" "terminal_events (store_cancelled t) = terminal_events t"
  "tk_state (store_cancelled t) = tk_state t" "tk_stage (store_cancelled t) = tk_stage t"
  "task_progress (store_cancelled t) = task_progress t" "tk_error (store_cancelled t) = tk_error t"
  "tk_outcome (store_cancelled t) = tk_outcome t" "tk_kind (store_cancelled t) = tk_kind t"
  "tk_payload (store_cancelled t) = tk_payload t" "tk_events (store_cancelled t) = tk_events t"
  by (simp_all add: store_cancelled_def task_ops)

lemmas task_fields = task_new_fields task_log_fields mark_running_fields mark_succeeded_fields mark_failed_fields
  mark_cancelled_fields observe_fields store_cancelled_fields

section \<open>Properties\<close>

text \<open>C35: a task read while it changes is reported torn. The error and the finish time are loaded before the
  state, so a reader of a live task that \<open>mark_failed\<close> overtakes between these loads reports a failed task with
  no message, no failure category and no finish time, whatever the failure was.\<close>

theorem snapshot_torn:
  assumes "tk_error t = None" and "tk_finished_at_ms t = 0"
  shows "let dto = to_dto_loads now (\<lambda>n. if n < 3 then t else mark_failed clk kind message t)
         in dto_state dto = Failed \<and> dto_stage dto = STAGE_FAILED \<and> dto_error dto = None
           \<and> dto_error_kind dto = None \<and> dto_finished_at dto = None"
  using assms by (simp add: to_dto_loads_def Let_def task_fields)

theorem snapshot_torn_witness:
  "dto_error (to_dto_loads 9 (\<lambda>n. if n < 3 then task_new 5 ''r'' (Payload_Synthetic () None) ''m'' ''x''
     else mark_failed (\<lambda>n. 8) ''core'' ''no path'' (task_new 5 ''r'' (Payload_Synthetic () None) ''m'' ''x'' :: (unit, unit) task))) = None"
  using snapshot_torn [of "task_new 5 ''r'' (Payload_Synthetic () None) ''m'' ''x'' :: (unit, unit) task" 9 "\<lambda>n. 8" "''core''" "''no path''"]
  by (simp add: Let_def task_new_def)

text \<open>The bytes of an inline map that a task still holds.\<close>

definition retained_image :: "'q task_payload \<Rightarrow> bytes" where
  "retained_image p = (case payload_request p of None \<Rightarrow> []
     | Some r \<Rightarrow> (case sq_map r of Some (Map_Inline omf_base64 _) \<Rightarrow> omf_base64 | _ \<Rightarrow> []))"

lemma retained_image_release: "retained_image (payload_release p) = []"
  by (cases p) (auto simp: retained_image_def request_release_def split: option.splits map_ref.splits elim: release_map.elims)

text \<open>C36: what a finished task keeps of an inline map. After success and after failure nothing is left of it;
  after a cancellation all of it stays.\<close>

theorem inline_image_released:
  "retained_image (tk_payload (mark_succeeded clk outcome t)) = []
   \<and> retained_image (tk_payload (mark_failed clk kind message t)) = []
   \<and> retained_image (tk_payload (mark_cancelled clk t)) = retained_image (tk_payload t)"
  by (simp add: task_fields retained_image_release)

end
