(* ===== verification/Svc_Store.thy ===== *)
theory Svc_Store
  imports Svc_Error Omf_Reader
begin

text \<open>
  The map library (\<open>crates/service/src/store/mod.rs\<close>, \<open>store/memory.rs\<close>): entries, identifiers and the
  in-memory store, behind the locale \<open>map_library\<close> that stands for the trait \<open>MapStore\<close>. An entry's
  summary is a type of its own. Random identifiers (\<open>uuid\<close>) are a sequence the operations draw from.
  The lemmas show the store as a bounded queue of distinct identifiers, that a generated identifier is
  one the service accepts, and when drawing a fresh one returns.
\<close>

section \<open>Entries and identifiers\<close>

record 'm map_entry =
  me_id :: string
  me_name :: string
  me_source :: string
  me_created_at_ms :: int
  me_summary :: 'm
  me_bytes :: bytes

definition entry_open ::
  "ext_crates \<Rightarrow> (bytes \<Rightarrow> u32) \<Rightarrow> (bytes \<Rightarrow> 128 word) \<Rightarrow> xxh64_fn \<Rightarrow> 'm map_entry \<Rightarrow> omf_map sresult" where
  "entry_open E crc32 xxh128 xxh64 e = map_err S_Map (map_from_bytes E crc32 xxh128 xxh64 (me_bytes e))"

text \<open>A name is its characters as code points; what an identifier keeps of them is ASCII.\<close>

definition ascii_alnum :: "nat \<Rightarrow> bool" where
  "ascii_alnum c \<longleftrightarrow> 48 \<le> c \<and> c \<le> 57 \<or> 65 \<le> c \<and> c \<le> 90 \<or> 97 \<le> c \<and> c \<le> 122"

definition ascii_lower :: "nat \<Rightarrow> nat" where
  "ascii_lower c = (if 65 \<le> c \<and> c \<le> 90 then c + 32 else c)"

definition trim_end :: "char \<Rightarrow> string \<Rightarrow> string" where
  "trim_end c s = rev (dropWhile (\<lambda>x. x = c) (rev s))"

definition trim_matches :: "char \<Rightarrow> string \<Rightarrow> string" where
  "trim_matches c s = trim_end c (dropWhile (\<lambda>x. x = c) s)"

definition slug_of :: "nat list \<Rightarrow> string" where
  "slug_of name =
     (let slug = map (\<lambda>c. if ascii_alnum c then char_of (ascii_lower c) else CHR ''-'') name;
          slug = trim_matches CHR ''-'' slug;
          slug = (if length slug > 32 then trim_end CHR ''-'' (take 32 slug) else slug)
      in if slug = [] then ''map'' else slug)"

definition make_identifier :: "nat list \<Rightarrow> string \<Rightarrow> string" where
  "make_identifier name uuid = slug_of name @ ''-'' @ take 8 uuid"

definition validate_id :: "(string \<Rightarrow> string) \<Rightarrow> string \<Rightarrow> unit sresult" where
  "validate_id debug ident =
     (let acceptable = ident \<noteq> [] \<and> length ident \<le> 96
          \<and> list_all (\<lambda>c. ascii_alnum (of_char c) \<or> c = CHR ''-'' \<or> c = CHR ''_'') ident
      in if acceptable then Inr ()
         else Inl (S_Invalid (debug ident @ '' is not a usable map identifier; identifiers are built from letters, digits, ''
                @ [CHR 0x27] @ ''-'' @ [CHR 0x27] @ '' and '' @ [CHR 0x27] @ ''_'' @ [CHR 0x27])))"

definition age_of :: "int \<Rightarrow> int \<Rightarrow> int" where
  "age_of now created_at_ms = max 0 (max (- (2 ^ 63)) (min (2 ^ 63 - 1) (now - created_at_ms)))"

section \<open>The in-memory store\<close>

record 'm mem_store =
  st_entries :: "'m map_entry list"
  st_keep :: usize

definition mem_store_new :: "usize \<Rightarrow> 'm mem_store" where
  "mem_store_new keep = \<lparr>st_entries = [], st_keep = max keep 1\<rparr>"

text \<open>The loop that pops the front while there are too many.\<close>

fun pop_excess :: "usize \<Rightarrow> 'a list \<Rightarrow> 'a list" where
  "pop_excess keep [] = []"
| "pop_excess keep (x # xs) = (if length (x # xs) > keep then pop_excess keep xs else x # xs)"

definition mem_insert :: "'m map_entry \<Rightarrow> 'm mem_store \<Rightarrow> 'm mem_store sresult" where
  "mem_insert e s =
     (if list_ex (\<lambda>x. me_id x = me_id e) (st_entries s)
      then Inl (S_Conflict (''map '' @ me_id e @ '' is already in the library''))
      else Inr (s\<lparr>st_entries := pop_excess (st_keep s) (st_entries s @ [e])\<rparr>))"

definition mem_list :: "'m mem_store \<Rightarrow> 'm list" where
  "mem_list s = map me_summary (st_entries s)"

definition mem_get :: "'m mem_store \<Rightarrow> string \<Rightarrow> 'm map_entry sresult" where
  "mem_get s ident = ok_or (not_found (''map '' @ ident)) (find (\<lambda>x. me_id x = ident) (st_entries s))"

definition mem_remove :: "string \<Rightarrow> 'm mem_store \<Rightarrow> 'm mem_store sresult" where
  "mem_remove ident s =
     (let after = filter (\<lambda>x. me_id x \<noteq> ident) (st_entries s)
      in if length after = length (st_entries s) then Inl (not_found (''map '' @ ident))
         else Inr (s\<lparr>st_entries := after\<rparr>))"

definition mem_contains :: "'m mem_store \<Rightarrow> string \<Rightarrow> bool" where
  "mem_contains s ident = is_ok (mem_get s ident)"

text \<open>The loop draws identifiers until one is free; it need not end.\<close>

partial_function (option) fresh_from ::
  "(nat \<Rightarrow> string) \<Rightarrow> nat list \<Rightarrow> string list \<Rightarrow> nat \<Rightarrow> string option" where
  "fresh_from uuids name existing n =
     (let candidate = make_identifier name (uuids n)
      in if candidate \<in> set existing then fresh_from uuids name existing (n + 1) else Some candidate)"

definition mem_next_id :: "(nat \<Rightarrow> string) \<Rightarrow> nat list \<Rightarrow> 'm mem_store \<Rightarrow> string option" where
  "mem_next_id uuids name s = fresh_from uuids name (map me_id (st_entries s)) 0"

section \<open>The interface\<close>

text \<open>What the service relies on a library for, whatever keeps it: the trait \<open>MapStore\<close>.\<close>

locale map_library =
  fixes lookup :: "'st \<Rightarrow> string \<Rightarrow> 'e option" and put :: "'e \<Rightarrow> 'st \<Rightarrow> 'st sresult"
    and delete :: "string \<Rightarrow> 'st \<Rightarrow> 'st sresult" and key :: "'e \<Rightarrow> string" and ok :: "'st \<Rightarrow> bool"
  assumes put_taken: "ok s \<Longrightarrow> lookup s (key e) \<noteq> None \<Longrightarrow> \<exists>m. put e s = Inl (S_Conflict m)"
    and put_free: "ok s \<Longrightarrow> lookup s (key e) = None \<Longrightarrow> \<exists>s'. put e s = Inr s' \<and> ok s' \<and> lookup s' (key e) = Some e
      \<and> lookup s' \<subseteq>\<^sub>m (lookup s)(key e \<mapsto> e)"
    and delete_missing: "ok s \<Longrightarrow> lookup s k = None \<Longrightarrow> \<exists>m. delete k s = Inl (S_Not_Found m)"
    and delete_present: "ok s \<Longrightarrow> lookup s k \<noteq> None \<Longrightarrow> \<exists>s'. delete k s = Inr s' \<and> ok s' \<and> lookup s' = (lookup s)(k := None)"
begin

lemma put_Inr: "ok s \<Longrightarrow> put e s = Inr s' \<Longrightarrow> ok s' \<and> lookup s (key e) = None \<and> lookup s' (key e) = Some e"
  using put_taken [of s e] put_free [of s e] by (cases "lookup s (key e)") auto

lemma put_twice: "ok s \<Longrightarrow> put e s = Inr s' \<Longrightarrow> key e' = key e \<Longrightarrow> \<exists>m. put e' s' = Inl (S_Conflict m)"
  using put_Inr [of s e s'] put_taken [of s' e'] by auto

lemma delete_then_put:
  assumes "ok s" and "put e s = Inr s'" and "delete (key e) s' = Inr s''" and "key e' = key e"
  shows "\<exists>t. put e' s'' = Inr t \<and> lookup t (key e) = Some e'"
proof -
  have "ok s'" "lookup s' (key e) = Some e" using put_Inr [OF assms(1,2)] by simp_all
  then have "ok s''" "lookup s'' (key e) = None" using delete_present [of s' "key e"] assms(3) by auto
  then show ?thesis using put_free [of s'' e'] assms(4) by auto
qed

end

section \<open>The in-memory store keeps the contract\<close>

definition mem_ok :: "'m mem_store \<Rightarrow> bool" where
  "mem_ok s \<longleftrightarrow> 1 \<le> st_keep s \<and> length (st_entries s) \<le> st_keep s \<and> distinct (map me_id (st_entries s))"

definition mem_lookup :: "'m mem_store \<Rightarrow> string \<Rightarrow> 'm map_entry option" where
  "mem_lookup s ident = find (\<lambda>x. me_id x = ident) (st_entries s)"

lemma pop_excess_drop: "pop_excess keep xs = drop (length xs - keep) xs"
  by (induction keep xs rule: pop_excess.induct) (auto simp: Suc_diff_le)

lemma find_id_iff:
  "distinct (map me_id xs) \<Longrightarrow> find (\<lambda>x. me_id x = k) xs = Some e \<longleftrightarrow> e \<in> set xs \<and> me_id e = k"
proof (induction xs)
  case (Cons x xs)
  then show ?case by (auto simp: image_iff)
qed simp

lemma mem_lookup_iff: "mem_ok s \<Longrightarrow> mem_lookup s k = Some e \<longleftrightarrow> e \<in> set (st_entries s) \<and> me_id e = k"
  by (simp add: mem_lookup_def mem_ok_def find_id_iff)

lemma mem_lookup_None: "mem_lookup s k = None \<longleftrightarrow> k \<notin> me_id ` set (st_entries s)"
  by (auto simp: mem_lookup_def find_None_iff)

lemma id_taken: "list_ex (\<lambda>x. me_id x = k) (st_entries s) \<longleftrightarrow> mem_lookup s k \<noteq> None"
  by (auto simp: mem_lookup_def find_None_iff list_ex_iff)

lemma mem_insert_Inr:
  "mem_insert e s = Inr s' \<longleftrightarrow> mem_lookup s (me_id e) = None
     \<and> s' = s\<lparr>st_entries := drop (Suc (length (st_entries s)) - st_keep s) (st_entries s @ [e])\<rparr>"
  by (auto simp: mem_insert_def id_taken pop_excess_drop split: if_splits)

lemma mem_insert_ok:
  assumes "mem_ok s" and "mem_insert e s = Inr s'"
  shows "mem_ok s'" and "mem_lookup s' (me_id e) = Some e" and "mem_lookup s' \<subseteq>\<^sub>m (mem_lookup s)(me_id e \<mapsto> e)"
proof -
  let ?n = "Suc (length (st_entries s)) - st_keep s"
  have s': "st_entries s' = drop ?n (st_entries s) @ [e]" "st_keep s' = st_keep s" "mem_lookup s (me_id e) = None"
    using assms by (auto simp: mem_insert_Inr mem_ok_def)
  have "distinct (map me_id (drop ?n (st_entries s)))" using assms(1) by (simp add: mem_ok_def drop_map [symmetric])
  moreover have "me_id e \<notin> me_id ` set (drop ?n (st_entries s))"
    using s'(3) set_drop_subset [of ?n "st_entries s"] by (auto simp: mem_lookup_None)
  ultimately show ok: "mem_ok s'" using assms(1) s'(1,2) by (auto simp: mem_ok_def)
  show "mem_lookup s' (me_id e) = Some e" using mem_lookup_iff [OF ok] s'(1) by simp
  show "mem_lookup s' \<subseteq>\<^sub>m (mem_lookup s)(me_id e \<mapsto> e)"
    unfolding map_le_def
  proof
    fix k
    assume "k \<in> dom (mem_lookup s')"
    then obtain x where x: "mem_lookup s' k = Some x" by blast
    then have "me_id x = k" "x = e \<or> x \<in> set (drop ?n (st_entries s))"
      using mem_lookup_iff [OF ok, of k x] s'(1) by auto
    then have "x = e \<and> k = me_id e \<or> mem_lookup s k = Some x"
      using mem_lookup_iff [OF assms(1), of k x] in_set_dropD [of x ?n "st_entries s"] by blast
    then show "mem_lookup s' k = ((mem_lookup s)(me_id e \<mapsto> e)) k"
      using x s'(3) by (metis fun_upd_apply option.discI)
  qed
qed

lemma mem_remove_cases:
  assumes "mem_ok s"
  shows "mem_lookup s k = None \<Longrightarrow> mem_remove k s = Inl (not_found (''map '' @ k))"
    and "mem_lookup s k \<noteq> None \<Longrightarrow> \<exists>s'. mem_remove k s = Inr s' \<and> mem_ok s' \<and> mem_lookup s' = (mem_lookup s)(k := None)"
proof -
  let ?after = "filter (\<lambda>x. me_id x \<noteq> k) (st_entries s)"
  show "mem_lookup s k = None \<Longrightarrow> mem_remove k s = Inl (not_found (''map '' @ k))"
  proof -
    assume "mem_lookup s k = None"
    then have "\<forall>x \<in> set (st_entries s). me_id x \<noteq> k" by (auto simp: mem_lookup_None)
    then have "?after = st_entries s" by (simp add: filter_id_conv)
    then show ?thesis by (simp add: mem_remove_def)
  qed
  show "\<exists>s'. mem_remove k s = Inr s' \<and> mem_ok s' \<and> mem_lookup s' = (mem_lookup s)(k := None)" if "mem_lookup s k \<noteq> None"
  proof -
    have "k \<in> me_id ` set (st_entries s)" using that [unfolded mem_lookup_None] by simp
    then obtain x where "x \<in> set (st_entries s)" "me_id x = k" by blast
    then have "length ?after < length (st_entries s)" using length_filter_less [of x "st_entries s" "\<lambda>x. me_id x \<noteq> k"] by simp
    then have r: "mem_remove k s = Inr (s\<lparr>st_entries := ?after\<rparr>)" by (simp add: mem_remove_def)
    have ok: "mem_ok (s\<lparr>st_entries := ?after\<rparr>)"
      using assms
      by (auto simp: mem_ok_def distinct_map_filter intro: order.trans [OF length_filter_le])
    have "mem_lookup (s\<lparr>st_entries := ?after\<rparr>) x = Some e \<longleftrightarrow> ((mem_lookup s)(k := None)) x = Some e" for x e
      using mem_lookup_iff [OF ok, of x e] mem_lookup_iff [OF assms, of x e] by auto
    then have "mem_lookup (s\<lparr>st_entries := ?after\<rparr>) x = ((mem_lookup s)(k := None)) x" for x
      by (metis option.exhaust)
    then show ?thesis using r ok by blast
  qed
qed

interpretation mem_library: map_library mem_lookup mem_insert mem_remove me_id mem_ok
proof unfold_locales
  fix s :: "'m mem_store" and e :: "'m map_entry" and k
  assume ok: "mem_ok s"
  show "mem_lookup s (me_id e) \<noteq> None \<Longrightarrow> \<exists>m. mem_insert e s = Inl (S_Conflict m)"
    by (simp add: mem_insert_def id_taken)
  show "\<exists>s'. mem_insert e s = Inr s' \<and> mem_ok s' \<and> mem_lookup s' (me_id e) = Some e
      \<and> mem_lookup s' \<subseteq>\<^sub>m (mem_lookup s)(me_id e \<mapsto> e)" if free: "mem_lookup s (me_id e) = None"
  proof -
    obtain s' where i: "mem_insert e s = Inr s'" using mem_insert_Inr [of e s] free by blast
    show ?thesis using mem_insert_ok [OF ok i] i by blast
  qed
  show "mem_lookup s k = None \<Longrightarrow> \<exists>m. mem_remove k s = Inl (S_Not_Found m)"
    using mem_remove_cases(1) [OF ok] by (simp add: not_found_def)
  show "mem_lookup s k \<noteq> None \<Longrightarrow> \<exists>s'. mem_remove k s = Inr s' \<and> mem_ok s' \<and> mem_lookup s' = (mem_lookup s)(k := None)"
    by (rule mem_remove_cases(2) [OF ok])
qed

section \<open>Identifiers\<close>

definition id_char :: "char \<Rightarrow> bool" where
  "id_char c \<longleftrightarrow> ascii_alnum (of_char c) \<or> c = CHR ''-'' \<or> c = CHR ''_''"

lemma validate_id_iff:
  "validate_id debug ident = Inr () \<longleftrightarrow> ident \<noteq> [] \<and> length ident \<le> 96 \<and> list_all id_char ident"
  by (auto simp: validate_id_def id_char_def [abs_def] Let_def)

lemma trim_end_set: "set (trim_end c s) \<subseteq> set s" and trim_end_length: "length (trim_end c s) \<le> length s"
  using set_dropWhileD [of _ "\<lambda>x. x = c" "rev s"] length_dropWhile_le [of "\<lambda>x. x = c" "rev s"]
  by (auto simp: trim_end_def)

lemma trim_matches_set: "set (trim_matches c s) \<subseteq> set s"
  using trim_end_set [of c "dropWhile (\<lambda>x. x = c) s"] set_dropWhileD [of _ "\<lambda>x. x = c" s] by (auto simp: trim_matches_def)

lemma slug_char: "id_char (if ascii_alnum c then char_of (ascii_lower c) else CHR ''-'')"
proof (cases "ascii_alnum c")
  case True
  then have "ascii_lower c < 256" "ascii_alnum (ascii_lower c)" by (auto simp: ascii_alnum_def ascii_lower_def)
  then show ?thesis using True by (simp add: id_char_def)
qed (simp add: id_char_def)

lemma slug_of_chars: "list_all id_char (slug_of name)" and slug_of_length: "length (slug_of name) \<le> 32"
  and slug_of_nonempty: "slug_of name \<noteq> []"
proof -
  define raw where "raw = trim_matches CHR ''-'' (map (\<lambda>c. if ascii_alnum c then char_of (ascii_lower c) else CHR ''-'') name)"
  define cut where "cut = (if length raw > 32 then trim_end CHR ''-'' (take 32 raw) else raw)"
  have slug: "slug_of name = (if cut = [] then ''map'' else cut)" by (simp add: slug_of_def raw_def cut_def Let_def)
  have "id_char c" if "c \<in> set raw" for c
  proof -
    have "c \<in> set (map (\<lambda>c. if ascii_alnum c then char_of (ascii_lower c) else CHR ''-'') name)"
      using subsetD [OF trim_matches_set] that unfolding raw_def by blast
    then show ?thesis unfolding set_map by (rule imageE) (simp only: slug_char)
  qed
  moreover have "set cut \<subseteq> set raw" using trim_end_set [of "CHR ''-''" "take 32 raw"] set_take_subset [of 32 raw]
    by (auto simp: cut_def)
  ultimately show "list_all id_char (slug_of name)" by (auto simp: slug list_all_iff id_char_def ascii_alnum_def)
  have "length cut \<le> 32" using trim_end_length [of "CHR ''-''" "take 32 raw"] by (auto simp: cut_def)
  then show "length (slug_of name) \<le> 32" by (simp add: slug)
  show "slug_of name \<noteq> []" by (simp add: slug)
qed

lemma make_identifier_ok:
  assumes "list_all id_char uuid"
  shows "validate_id debug (make_identifier name uuid) = Inr ()" and "length (make_identifier name uuid) \<le> 41"
  using assms slug_of_chars [of name] slug_of_length [of name]
  by (auto simp: validate_id_iff make_identifier_def list_all_iff id_char_def dest: in_set_takeD)

section \<open>Drawing a fresh identifier\<close>

lemma fresh_from_free:
  assumes "make_identifier name (uuids m) \<notin> set existing" and "n \<le> m"
  shows "\<exists>k\<ge>n. fresh_from uuids name existing n = Some (make_identifier name (uuids k))
    \<and> make_identifier name (uuids k) \<notin> set existing"
  using assms(2)
proof (induction "m - n" arbitrary: n)
  case 0
  then have "n = m" by simp
  then show ?case using assms(1) by (subst fresh_from.simps) auto
next
  case (Suc d)
  show ?case
  proof (cases "make_identifier name (uuids n) \<in> set existing")
    case True
    have "\<exists>k\<ge>n + 1. fresh_from uuids name existing (n + 1) = Some (make_identifier name (uuids k))
      \<and> make_identifier name (uuids k) \<notin> set existing" using Suc.hyps(2) Suc.prems by (intro Suc.hyps(1)) auto
    then obtain k where "k \<ge> n + 1" "fresh_from uuids name existing (n + 1) = Some (make_identifier name (uuids k))"
      "make_identifier name (uuids k) \<notin> set existing" by blast
    then show ?thesis using True by (subst fresh_from.simps) (auto simp: Let_def intro!: exI [of _ k])
  next
    case False
    then show ?thesis by (subst fresh_from.simps) auto
  qed
qed

lemma fresh_from_Some:
  assumes "fresh_from uuids name existing n = Some r"
  shows "r \<notin> set existing \<and> (\<exists>m. r = make_identifier name (uuids m))"
  by (rule fresh_from.raw_induct [where P = "\<lambda>uuids name existing n r. r \<notin> set existing
      \<and> (\<exists>m. r = make_identifier name (uuids m))", OF _ assms])
    (auto simp: Let_def split: if_splits)

lemma mem_next_id_iff:
  "mem_next_id uuids name s = Some r \<Longrightarrow> mem_lookup s r = None"
  "(\<exists>r. mem_next_id uuids name s = Some r) \<longleftrightarrow> (\<exists>m. mem_lookup s (make_identifier name (uuids m)) = None)"
  using fresh_from_Some [of uuids name "map me_id (st_entries s)" 0] fresh_from_free [of name uuids _ "map me_id (st_entries s)" 0]
  by (fastforce simp: mem_next_id_def mem_lookup_None)+

text \<open>Enough draws with different leading digits: one of them is not in a library of \<open>n\<close> maps.\<close>

lemma draws_exceed:
  assumes "inj_on (\<lambda>n. take 8 (uuids n)) {..length existing}"
  shows "\<exists>m. make_identifier name (uuids m) \<notin> set existing"
proof (rule ccontr)
  assume "\<nexists>m. make_identifier name (uuids m) \<notin> set existing"
  then have "(\<lambda>n. make_identifier name (uuids n)) ` {..length existing} \<subseteq> set existing" by auto
  moreover have "inj_on (\<lambda>n. make_identifier name (uuids n)) {..length existing}"
    using assms by (auto simp: inj_on_def make_identifier_def)
  ultimately have "card {..length existing} \<le> card (set existing)" by (intro card_inj_on_le [of _ _ "set existing"]) auto
  then show False using card_length [of existing] by simp
qed

lemma mem_get_lookup: "mem_get s k = ok_or (not_found (''map '' @ k)) (mem_lookup s k)"
  by (simp add: mem_get_def mem_lookup_def)

section \<open>Properties\<close>

text \<open>The states of a library that starts empty.\<close>

inductive mem_reach :: "usize \<Rightarrow> 'm mem_store \<Rightarrow> bool" for keep where
  Reach_New: "mem_reach keep (mem_store_new keep)"
| Reach_Insert: "mem_reach keep s \<Longrightarrow> mem_insert e s = Inr s' \<Longrightarrow> mem_reach keep s'"
| Reach_Remove: "mem_reach keep s \<Longrightarrow> mem_remove k s = Inr s' \<Longrightarrow> mem_reach keep s'"

lemma mem_insert_keep: "mem_insert e s = Inr s' \<Longrightarrow> st_keep s' = st_keep s"
  by (auto simp: mem_insert_Inr)

lemma mem_remove_keep: "mem_remove k s = Inr s' \<Longrightarrow> st_keep s' = st_keep s"
  by (auto simp: mem_remove_def Let_def split: if_splits)

lemma mem_remove_ok: "mem_ok s \<Longrightarrow> mem_remove k s = Inr s' \<Longrightarrow> mem_ok s'"
  using mem_remove_cases [of s k] by (cases "mem_lookup s k") auto

lemma mem_reach_ok: "mem_reach keep s \<Longrightarrow> mem_ok s \<and> st_keep s = max keep 1"
proof (induction rule: mem_reach.induct)
  case Reach_New
  show ?case by (simp add: mem_ok_def mem_store_new_def)
next
  case (Reach_Insert s e s')
  then show ?case using mem_insert_ok(1) mem_insert_keep by metis
next
  case (Reach_Remove s k s')
  then show ?case using mem_remove_ok mem_remove_keep by metis
qed

text \<open>C38: whatever was inserted and removed, the library holds at most \<open>max keep 1\<close> maps with different
  identifiers. An insert is refused as a conflict exactly when its identifier is held; otherwise the map is
  found under it and only the oldest maps beyond the bound are gone, in order. A removed identifier is gone
  and every other one finds what it found.\<close>

theorem library_bounded_queue:
  assumes "mem_reach keep s"
  shows "length (st_entries s) \<le> max keep 1 \<and> distinct (map me_id (st_entries s))
    \<and> (case mem_lookup s (me_id e) of
         Some _ \<Rightarrow> \<exists>m. mem_insert e s = Inl (S_Conflict m)
       | None \<Rightarrow> \<exists>s'. mem_insert e s = Inr s' \<and> mem_get s' (me_id e) = Inr e
           \<and> st_entries s' = drop (Suc (length (st_entries s)) - max keep 1) (st_entries s @ [e]))
    \<and> (case mem_lookup s k of
         None \<Rightarrow> \<exists>m. mem_remove k s = Inl (S_Not_Found m)
       | Some _ \<Rightarrow> \<exists>s'. mem_remove k s = Inr s' \<and> mem_lookup s' = (mem_lookup s)(k := None))"
proof (intro conjI)
  have ok: "mem_ok s" and keep: "st_keep s = max keep 1" using mem_reach_ok [OF assms] by simp_all
  show "length (st_entries s) \<le> max keep 1" "distinct (map me_id (st_entries s))"
    using ok keep by (simp_all add: mem_ok_def)
  show "case mem_lookup s (me_id e) of Some _ \<Rightarrow> \<exists>m. mem_insert e s = Inl (S_Conflict m)
      | None \<Rightarrow> \<exists>s'. mem_insert e s = Inr s' \<and> mem_get s' (me_id e) = Inr e
           \<and> st_entries s' = drop (Suc (length (st_entries s)) - max keep 1) (st_entries s @ [e])"
  proof (cases "mem_lookup s (me_id e)")
    case None
    obtain s' where s': "mem_insert e s = Inr s'" using mem_library.put_free [OF ok None] by blast
    then have "mem_lookup s' (me_id e) = Some e" using mem_library.put_Inr [OF ok] by blast
    moreover have "st_entries s' = drop (Suc (length (st_entries s)) - max keep 1) (st_entries s @ [e])"
      using s' [unfolded mem_insert_Inr] keep by simp
    ultimately show ?thesis using s' None by (simp add: mem_get_lookup)
  next
    case (Some x)
    then show ?thesis using mem_library.put_taken [OF ok, of e] by simp
  qed
  show "case mem_lookup s k of None \<Rightarrow> \<exists>m. mem_remove k s = Inl (S_Not_Found m)
      | Some _ \<Rightarrow> \<exists>s'. mem_remove k s = Inr s' \<and> mem_lookup s' = (mem_lookup s)(k := None)"
    using mem_library.delete_missing [OF ok, of k] mem_library.delete_present [OF ok, of k]
    by (cases "mem_lookup s k") auto
qed

theorem library_bounded_queue_witness:
  "\<exists>s :: unit mem_store. mem_reach 1 s \<and> map me_id (st_entries s) = [''b'']
     \<and> (\<exists>m. mem_insert \<lparr>me_id = ''b'', me_name = ''m'', me_source = [], me_created_at_ms = 2, me_summary = (), me_bytes = []\<rparr> s
          = Inl (S_Conflict m))
     \<and> (\<exists>s'. mem_remove ''b'' s = Inr s' \<and> mem_lookup s' ''b'' = None)"
proof -
  let ?e = "\<lambda>k n. \<lparr>me_id = k, me_name = ''m'', me_source = [], me_created_at_ms = n, me_summary = (), me_bytes = []\<rparr>"
  have full: "mem_reach 1 s \<and> \<not> list_ex (\<lambda>x. me_id x = k) (st_entries s) \<Longrightarrow>
      \<exists>s'. mem_insert (?e k n) s = Inr s' \<and> mem_reach 1 s' \<and> map me_id (st_entries s') = [k]" for k n and s :: "unit mem_store"
  proof -
    assume s: "mem_reach 1 s \<and> \<not> list_ex (\<lambda>x. me_id x = k) (st_entries s)"
    then obtain s' where s': "mem_insert (?e k n) s = Inr s'" by (simp add: mem_insert_def)
    have "mem_lookup s k = None" using s by (auto simp: mem_lookup_def find_None_iff list_ex_iff)
    then have "st_entries s' = drop (length (st_entries s)) (st_entries s @ [?e k n])"
      using library_bounded_queue [OF conjunct1 [OF s], of "?e k n"] s' by simp
    then show ?thesis using s' s Reach_Insert by fastforce
  qed
  have "mem_reach 1 (mem_store_new 1) \<and> \<not> list_ex (\<lambda>x. me_id x = ''a'') (st_entries (mem_store_new 1 :: unit mem_store))"
    by (intro conjI Reach_New) (simp add: mem_store_new_def)
  from full [OF this, of 1] obtain s1 :: "unit mem_store" where s1: "mem_reach 1 s1" "map me_id (st_entries s1) = [''a'']"
    by (elim exE conjE) (rule that)
  have "mem_reach 1 s1 \<and> \<not> list_ex (\<lambda>x. me_id x = ''b'') (st_entries s1)" using s1 by (auto simp: map_eq_Cons_conv)
  from full [OF this, of 2] obtain s :: "unit mem_store" where s: "mem_reach 1 s" "map me_id (st_entries s) = [''b'']"
    by (elim exE conjE) (rule that)
  have "mem_lookup s ''b'' \<noteq> None" using s(2) by (auto simp: mem_lookup_def find_None_iff)
  then show ?thesis using library_bounded_queue [OF s(1), of "?e ''b'' 2" "''b''"] s by (auto split: option.splits)
qed

text \<open>Every identifier the service makes from a name, whatever the name holds, is one its own endpoints
  accept, and is at most 41 characters long; it needs only that the random suffix is made of characters an
  identifier may have.\<close>

theorem identifier_accepted:
  assumes "list_all id_char uuid"
  shows "validate_id debug (make_identifier name uuid) = Inr () \<and> length (make_identifier name uuid) \<le> 41"
  using make_identifier_ok [OF assms] by blast

theorem identifier_accepted_witness:
  "validate_id (\<lambda>s. s) (make_identifier [47, 46, 46, 77] ''0123456789abcdef'') = Inr ()
    \<and> make_identifier [47, 46, 46, 77] ''0123456789abcdef'' = ''m-01234567''"
proof -
  have "list_all id_char ''0123456789abcdef''" by (simp add: id_char_def ascii_alnum_def)
  moreover have "make_identifier [47, 46, 46, 77] ''0123456789abcdef'' = ''m-01234567''" by code_simp
  ultimately show ?thesis using identifier_accepted by blast
qed

text \<open>C40: drawing an identifier for a new map returns exactly when some draw is free, what it returns is free,
  and it does return once as many draws as the library holds maps, and one more, differ in their first eight
  digits.\<close>

theorem next_id_returns:
  "((\<exists>r. mem_next_id uuids name s = Some r) \<longleftrightarrow> (\<exists>m. mem_lookup s (make_identifier name (uuids m)) = None))
   \<and> (\<forall>r. mem_next_id uuids name s = Some r \<longrightarrow> mem_lookup s r = None)
   \<and> (inj_on (\<lambda>n. take 8 (uuids n)) {..length (st_entries s)} \<longrightarrow> (\<exists>r. mem_next_id uuids name s = Some r))"
proof (intro conjI allI impI)
  show returns: "(\<exists>r. mem_next_id uuids name s = Some r)
      \<longleftrightarrow> (\<exists>m. mem_lookup s (make_identifier name (uuids m)) = None)"
    by (rule mem_next_id_iff(2))
  show "mem_lookup s r = None" if "mem_next_id uuids name s = Some r" for r using that by (rule mem_next_id_iff(1))
  show "\<exists>r. mem_next_id uuids name s = Some r" if "inj_on (\<lambda>n. take 8 (uuids n)) {..length (st_entries s)}"
    using that draws_exceed [of uuids "map me_id (st_entries s)" name] by (simp add: returns mem_lookup_None)
qed

theorem next_id_returns_witness:
  "\<exists>r. mem_next_id (\<lambda>n. replicate 32 (char_of (48 + n))) [97] (mem_store_new 3 :: unit mem_store) = Some r"
  by (rule next_id_returns [THEN conjunct2, THEN conjunct2, THEN mp]) (simp add: mem_store_new_def)

end
