(* ===== verification/Svc_Runner.thy ===== *)
theory Svc_Runner
  imports Svc_Task Svc_Store
begin

text \<open>
  The registry of tasks and their execution (\<open>crates/service/src/task/mod.rs\<close>, \<open>task/queue.rs\<close>). Tasks are
  shared between the registry, their worker and every client, so they live in a heap, a list of tasks that only
  grows, and everyone holds addresses. The async functions become a step relation: a step is one call that
  touches shared state (a cancellation is two, its load and its store), and the steps of all workers and clients interleave
  freely; \<open>Svc_Stores\<close> takes the calls of a worker apart. The semaphore is its number
  of free permits. The theorems are about every state such steps can reach.
\<close>

section \<open>The registry\<close>

record registry =
  rg_tasks :: "nat list"
  rg_keep_results :: usize
  rg_keep_tasks :: usize

type_synonym ('q, 'd) task_heap = "('q, 'd) task list"

definition registry_new :: "usize \<Rightarrow> registry" where
  "registry_new keep_results =
     (let keep_results = max keep_results 1
      in \<lparr>rg_tasks = [], rg_keep_results = keep_results, rg_keep_tasks = max (min (keep_results * 8) (2 ^ 64 - 1)) 64\<rparr>)"

definition is_live :: "('q, 'd) task_heap \<Rightarrow> nat \<Rightarrow> bool" where
  "is_live h a \<longleftrightarrow> \<not> state_is_terminal (task_state (h ! a))"

definition has_outcome :: "('q, 'd) task_heap \<Rightarrow> nat \<Rightarrow> bool" where
  "has_outcome h a \<longleftrightarrow> tk_outcome (h ! a) \<noteq> None"

definition registry_active :: "('q, 'd) task_heap \<Rightarrow> registry \<Rightarrow> nat" where
  "registry_active h reg = length (filter (is_live h) (rg_tasks reg))"

text \<open>The loop of \<open>prune_results\<close>: the oldest outcomes go until no excess is left.\<close>

fun evict_results :: "nat \<Rightarrow> nat list \<Rightarrow> ('q, 'd) task_heap \<Rightarrow> ('q, 'd) task_heap" where
  "evict_results excess [] h = h"
| "evict_results excess (a # as) h =
     (if excess = 0 then h
      else if has_outcome h a then evict_results (excess - 1) as (h[a := (h ! a)\<lparr>tk_outcome := None\<rparr>])
      else evict_results excess as h)"

definition prune_results :: "usize \<Rightarrow> nat list \<Rightarrow> ('q, 'd) task_heap \<Rightarrow> ('q, 'd) task_heap" where
  "prune_results keep_results tasks h =
     (let held = length (filter (has_outcome h) tasks)
      in if held \<le> keep_results then h else evict_results (held - keep_results) tasks h)"

text \<open>The closure of \<open>retain\<close> with its counter.\<close>

fun retain_tasks :: "('q, 'd) task_heap \<Rightarrow> nat \<Rightarrow> nat \<Rightarrow> nat list \<Rightarrow> nat list" where
  "retain_tasks h removed excess [] = []"
| "retain_tasks h removed excess (a # as) =
     (if removed < excess \<and> \<not> is_live h a then retain_tasks h (removed + 1) excess as
      else a # retain_tasks h removed excess as)"

definition registry_prune :: "('q, 'd) task_heap \<Rightarrow> registry \<Rightarrow> ('q, 'd) task_heap \<times> registry" where
  "registry_prune h reg =
     (let h = prune_results (rg_keep_results reg) (rg_tasks reg) h;
          excess = length (rg_tasks reg) - rg_keep_tasks reg
      in if excess = 0 then (h, reg) else (h, reg\<lparr>rg_tasks := retain_tasks h 0 excess (rg_tasks reg)\<rparr>))"

definition try_admit :: "nat \<Rightarrow> usize \<Rightarrow> ('q, 'd) task_heap \<Rightarrow> registry \<Rightarrow> (('q, 'd) task_heap \<times> registry) sresult" where
  "try_admit a capacity h reg =
     (let in_flight = registry_active h reg
      in if in_flight \<ge> capacity
         then Inl (S_Busy (''the queue is full: '' @ show_nat in_flight @ '' task(s) in flight, capacity '' @ show_nat capacity))
         else Inr (registry_prune h (reg\<lparr>rg_tasks := rg_tasks reg @ [a]\<rparr>)))"

definition registry_get :: "('q, 'd) task_heap \<Rightarrow> registry \<Rightarrow> string \<Rightarrow> nat sresult" where
  "registry_get h reg ident = ok_or (not_found (''task '' @ ident)) (find (\<lambda>a. tk_id (h ! a) = ident) (rg_tasks reg))"

definition registry_list :: "registry \<Rightarrow> nat list" where
  "registry_list reg = rev (rg_tasks reg)"

definition registry_list_kind :: "('q, 'd) task_heap \<Rightarrow> registry \<Rightarrow> task_kind \<Rightarrow> nat list" where
  "registry_list_kind h reg kind = filter (\<lambda>a. tk_kind (h ! a) = kind) (registry_list reg)"

section \<open>The runner\<close>

text \<open>The context of the runner: its limits, the texts of failures and of a finished run, what the store
  answers to a run summary (a warning, when it could not be kept), and whether the semaphore was closed.\<close>

record 'd runner_context =
  cx_max_concurrent :: usize
  cx_queue_capacity :: usize
  cx_error_text :: "service_error \<Rightarrow> string"
  cx_run_text :: "'d \<Rightarrow> string"
  cx_summary_warning :: "'d \<Rightarrow> string option"
  cx_gate_closed :: bool

datatype 'd body_end =
    Body_Returned "'d task_outcome sresult"
  | Body_Panicked
  | Body_Aborted string

text \<open>Where a worker is in \<open>execute\<close>. The body still has the given number of reports to make.\<close>

datatype 'd worker_phase =
    At_Gate | Has_Permit | Dropped_Permit | May_Start | In_Body nat | Body_Over "'d body_end" | Logged "'d body_end" | Marked | Finished

record ('q, 'd) runner =
  rn_heap :: "('q, 'd) task_heap"
  rn_registry :: registry
  rn_permits :: nat
  rn_phases :: "'d worker_phase list"
  rn_cancels :: "nat list"

definition runner_new :: "'d runner_context \<Rightarrow> registry \<Rightarrow> ('q, 'd) runner" where
  "runner_new cx reg = \<lparr>rn_heap = [], rn_registry = reg, rn_permits = max (cx_max_concurrent cx) 1, rn_phases = [], rn_cancels = []\<rparr>"

definition in_flight :: "('q, 'd) runner \<Rightarrow> nat" where
  "in_flight s = registry_active (rn_heap s) (rn_registry s)"

definition resolve_map :: "('m \<Rightarrow> string) \<Rightarrow> 'm mem_store \<Rightarrow> 'q sim_request \<Rightarrow> string sresult" where
  "resolve_map summary_id maps r =
     (case sq_map r of
        Some (Map_Id ident) \<Rightarrow> rbind (mem_get maps ident) (\<lambda>_. Inr ident)
      | Some (Map_Synthetic _) \<Rightarrow> Inr ''inline''
      | Some (Map_Inline _ _) \<Rightarrow> Inr ''inline''
      | None \<Rightarrow>
          (let listed = mem_list maps
           in if length listed = 0
              then Inl (S_Invalid ''no map was given and the library is empty; add a map or name one'')
              else if length listed = 1 then Inr (summary_id (listed ! 0))
              else Inl (S_Invalid (''no map was given and the library holds '' @ show_nat (length listed) @ '' maps; name one''))))"

definition admit ::
  "'d runner_context \<Rightarrow> (nat \<Rightarrow> int) \<Rightarrow> string \<Rightarrow> 'q task_payload \<Rightarrow> string \<Rightarrow> string \<Rightarrow> string
   \<Rightarrow> ('q, 'd) runner \<Rightarrow> (('q, 'd) runner \<times> nat) sresult" where
  "admit cx clk ident payload map_id mode what s =
     (let capacity = cx_max_concurrent cx + cx_queue_capacity cx;
          a = length (rn_heap s);
          h = rn_heap s @ [task_new (clk 0) ident payload map_id mode]
      in rbind (try_admit a capacity h (rn_registry s)) (\<lambda>(h, reg).
         Inr (s\<lparr>rn_heap := h[a := task_log (\<lambda>n. clk (n + 1)) ''info'' (what @ '' queued for map '' @ map_id) (h ! a)],
                rn_registry := reg, rn_phases := rn_phases s @ [At_Gate]\<rparr>, a)))"

definition submit_simulation where
  "submit_simulation cx clk summary_id maps ident r s =
     rbind (resolve_map summary_id maps r) (\<lambda>map_id.
     admit cx clk ident (Payload_Simulation r) map_id (request_mode_name r) ''run'' s)"

definition submit_planning where
  "submit_planning cx clk summary_id maps ident r with_profile s =
     rbind (resolve_map summary_id maps r) (\<lambda>map_id.
     let mode = request_mode_name r; label = (if with_profile then ''plan'' else ''preview'')
     in admit cx clk ident (Payload_Planning r with_profile) map_id mode label s)"

definition submit_synthetic_map where
  "submit_synthetic_map cx clk resolution_text ident spec name s =
     admit cx clk ident (Payload_Synthetic spec name) ''synthetic'' (''synthetic@'' @ resolution_text spec) ''map'' s"

text \<open>One body per kind, whatever it does; only the kind of its result is fixed here.\<close>

definition run_task ::
  "('q sim_request \<Rightarrow> 'd sresult) \<Rightarrow> ('q sim_request \<Rightarrow> bool \<Rightarrow> 'd sresult) \<Rightarrow> ('q \<Rightarrow> string option \<Rightarrow> 'd sresult)
   \<Rightarrow> 'q task_payload \<Rightarrow> 'd task_outcome sresult" where
  "run_task run_simulation run_planning run_synthetic_map payload =
     (case payload of
        Payload_Simulation r \<Rightarrow> rmap Outcome_Simulation (run_simulation r)
      | Payload_Planning r with_profile \<Rightarrow> rmap Outcome_Route (run_planning r with_profile)
      | Payload_Synthetic spec name \<Rightarrow> rmap Outcome_Map (run_synthetic_map spec name))"

definition PANIC_TEXT :: string where
  "PANIC_TEXT = ''the worker panicked; the request may have hit a defect''"

text \<open>What \<open>execute\<close> logs when the body is over, and how it then marks the task.\<close>

definition log_end :: "'d runner_context \<Rightarrow> (nat \<Rightarrow> int) \<Rightarrow> 'd body_end \<Rightarrow> ('q, 'd) task \<Rightarrow> ('q, 'd) task" where
  "log_end cx clk e t =
     (case e of
        Body_Returned (Inr outcome) \<Rightarrow>
          (case outcome_simulation outcome of
             None \<Rightarrow> t
           | Some output \<Rightarrow>
               (let t = task_log clk ''info'' (cx_run_text cx output) t
                in case cx_summary_warning cx output of None \<Rightarrow> t | Some warning \<Rightarrow> task_log (\<lambda>n. clk (n + 2)) ''warn'' warning t))
      | Body_Returned (Inl error) \<Rightarrow> task_log clk ''error'' (cx_error_text cx error) t
      | Body_Panicked \<Rightarrow> task_log clk ''error'' PANIC_TEXT t
      | Body_Aborted message \<Rightarrow> task_log clk ''error'' (''the worker was cancelled: '' @ message) t)"

definition mark_end :: "'d runner_context \<Rightarrow> (nat \<Rightarrow> int) \<Rightarrow> 'd body_end \<Rightarrow> ('q, 'd) task \<Rightarrow> ('q, 'd) task" where
  "mark_end cx clk e t =
     (case e of
        Body_Returned (Inr outcome) \<Rightarrow> mark_succeeded clk outcome t
      | Body_Returned (Inl error) \<Rightarrow> mark_failed clk (error_kind_str (service_kind error)) (cx_error_text cx error) t
      | Body_Panicked \<Rightarrow> mark_failed clk ''internal'' PANIC_TEXT t
      | Body_Aborted message \<Rightarrow> mark_failed clk ''internal'' (''the worker was cancelled: '' @ message) t)"

definition at_phase :: "('q, 'd) runner \<Rightarrow> nat \<Rightarrow> 'd worker_phase \<Rightarrow> bool" where
  "at_phase s i ph \<longleftrightarrow> i < length (rn_phases s) \<and> rn_phases s ! i = ph"

text \<open>Worker \<open>i\<close> moves to a phase, changing its task and the number of free permits.\<close>

definition advance :: "nat \<Rightarrow> 'd worker_phase \<Rightarrow> nat \<Rightarrow> (('q, 'd) task \<Rightarrow> ('q, 'd) task) \<Rightarrow> ('q, 'd) runner \<Rightarrow> ('q, 'd) runner" where
  "advance i ph permits f s =
     s\<lparr>rn_heap := (rn_heap s)[i := f (rn_heap s ! i)], rn_permits := permits, rn_phases := (rn_phases s)[i := ph]\<rparr>"

inductive worker_step :: "'d runner_context \<Rightarrow> nat \<Rightarrow> ('q, 'd) runner \<Rightarrow> ('q, 'd) runner \<Rightarrow> bool" for cx i where
  Gate_Closed: "at_phase s i At_Gate \<Longrightarrow> cx_gate_closed cx \<Longrightarrow>
    worker_step cx i s (advance i Finished (rn_permits s) (mark_failed clk ''internal'' ''the task gate was closed'') s)"
| Acquire: "at_phase s i At_Gate \<Longrightarrow> \<not> cx_gate_closed cx \<Longrightarrow> 0 < rn_permits s \<Longrightarrow>
    worker_step cx i s (advance i Has_Permit (rn_permits s - 1) id s)"
| Skip: "at_phase s i Has_Permit \<Longrightarrow> tk_cancelled (rn_heap s ! i) \<Longrightarrow>
    worker_step cx i s (advance i Dropped_Permit (rn_permits s + 1) id s)"
| Cancel_Queued: "at_phase s i Dropped_Permit \<Longrightarrow>
    worker_step cx i s (advance i Finished (rn_permits s) (mark_cancelled clk) s)"
| Go_On: "at_phase s i Has_Permit \<Longrightarrow> \<not> tk_cancelled (rn_heap s ! i) \<Longrightarrow>
    worker_step cx i s (advance i May_Start (rn_permits s) id s)"
| Start: "at_phase s i May_Start \<Longrightarrow> worker_step cx i s (advance i (In_Body reports) (rn_permits s) (mark_running clk) s)"
| Report_Stage: "at_phase s i (In_Body (Suc n)) \<Longrightarrow>
    worker_step cx i s (advance i (In_Body n) (rn_permits s) (observe clk stage note) s)"
| Report_Log: "at_phase s i (In_Body (Suc n)) \<Longrightarrow>
    worker_step cx i s (advance i (In_Body n) (rn_permits s) (task_log clk ''info'' message) s)"
| Return: "at_phase s i (In_Body 0) \<Longrightarrow> result = run_task sim plan synth (tk_payload (rn_heap s ! i)) \<Longrightarrow>
    worker_step cx i s (advance i (Body_Over (Body_Returned result)) (rn_permits s) id s)"
| Panic: "at_phase s i (In_Body n) \<Longrightarrow> worker_step cx i s (advance i (Body_Over Body_Panicked) (rn_permits s) id s)"
| Abort: "at_phase s i (In_Body n) \<Longrightarrow> worker_step cx i s (advance i (Body_Over (Body_Aborted message)) (rn_permits s) id s)"
| Log_End: "at_phase s i (Body_Over e) \<Longrightarrow> worker_step cx i s (advance i (Logged e) (rn_permits s) (log_end cx clk e) s)"
| Mark: "at_phase s i (Logged e) \<Longrightarrow> worker_step cx i s (advance i Marked (rn_permits s) (mark_end cx clk e) s)"
| Release: "at_phase s i Marked \<Longrightarrow> worker_step cx i s (advance i Finished (rn_permits s + 1) id s)"

text \<open>What clients do that changes the state: submit, and request a cancellation, in two steps: \<open>rn_cancels\<close> holds
  the tasks whose state a client has found live and whose flag it has yet to store.\<close>

inductive client_step :: "'d runner_context \<Rightarrow> ('q, 'd) runner \<Rightarrow> ('q, 'd) runner \<Rightarrow> bool" for cx where
  Submit: "admit cx clk ident payload map_id mode what s = Inr (s', a) \<Longrightarrow> client_step cx s s'"
| Cancel_Check: "registry_get (rn_heap s) (rn_registry s) ident = Inr a \<Longrightarrow> may_cancel (rn_heap s ! a) \<Longrightarrow>
    client_step cx s (s\<lparr>rn_cancels := a # rn_cancels s\<rparr>)"
| Cancel_Store: "a \<in> set (rn_cancels s) \<Longrightarrow>
    client_step cx s (s\<lparr>rn_heap := (rn_heap s)[a := store_cancelled (rn_heap s ! a)], rn_cancels := remove1 a (rn_cancels s)\<rparr>)"

inductive runner_step :: "'d runner_context \<Rightarrow> ('q, 'd) runner \<Rightarrow> ('q, 'd) runner \<Rightarrow> bool" for cx where
  Of_Worker: "worker_step cx i s s' \<Longrightarrow> runner_step cx s s'"
| Of_Client: "client_step cx s s' \<Longrightarrow> runner_step cx s s'"

definition reachable :: "'d runner_context \<Rightarrow> usize \<Rightarrow> ('q, 'd) runner \<Rightarrow> bool" where
  "reachable cx keep_results s \<longleftrightarrow> (runner_step cx)\<^sup>*\<^sup>* (runner_new cx (registry_new keep_results)) s"

end
