(* ===== verification/Svc_Invariant.thy ===== *)
theory Svc_Invariant
  imports Svc_Runner
begin

text \<open>
  What every reachable state of the runner satisfies: tasks whose fields agree with their state and with the
  place of their worker, permits that are neither lost nor invented, and a registry within its bounds that
  never loses a live task. The invariant is kept by every step of a worker and of a client.
\<close>

section \<open>Consistent tasks\<close>

fun outcome_fits :: "task_kind \<Rightarrow> 'd task_outcome \<Rightarrow> bool" where
  "outcome_fits k (Outcome_Simulation _) \<longleftrightarrow> k = Kind_Simulation"
| "outcome_fits k (Outcome_Route _) \<longleftrightarrow> k = Kind_Route_Preview \<or> k = Kind_Route_Plan"
| "outcome_fits k (Outcome_Map _) \<longleftrightarrow> k = Kind_Synthetic_Map"

lemma run_task_fits: "run_task sim plan synth p = Inr r \<Longrightarrow> outcome_fits (payload_kind p) r"
  by (auto simp: run_task_def rmap_def rbind_Inr_iff split: task_payload.splits)

definition ends_with :: "('q, 'd) task \<Rightarrow> event_dto \<Rightarrow> bool" where
  "ends_with t e \<longleftrightarrow> tk_events t \<noteq> [] \<and> ev_event (last (tk_events t)) = e \<and> terminal_events t = [last (tk_events t)]"

definition task_ok :: "('q, 'd) task \<Rightarrow> bool" where
  "task_ok t \<longleftrightarrow> tk_state t = state_byte (task_state t) \<and> payload_kind (tk_payload t) = tk_kind t
     \<and> (case task_state t of
          Queued \<Rightarrow> tk_stage t = STAGE_QUEUED \<and> task_progress t = Some 0 \<and> tk_error t = None \<and> tk_outcome t = None
            \<and> terminal_events t = []
        | Running \<Rightarrow> tk_stage t \<in> insert STAGE_RUNNING (range stage_name) \<and> tk_error t = None \<and> tk_outcome t = None
            \<and> terminal_events t = []
        | Succeeded \<Rightarrow> tk_stage t = STAGE_DONE \<and> task_progress t = Some ONE \<and> tk_error t = None
            \<and> (\<forall>r. tk_outcome t = Some r \<longrightarrow> outcome_fits (tk_kind t) r)
            \<and> ends_with t (Event_Done ''succeeded'' (result_url t))
        | Failed \<Rightarrow> tk_stage t = STAGE_FAILED \<and> task_progress t = None \<and> tk_outcome t = None
            \<and> (\<exists>k m. tk_error t = Some (k, m) \<and> ends_with t (Event_Error k m))
        | Cancelled \<Rightarrow> tk_stage t = STAGE_CANCELLED \<and> task_progress t = None \<and> tk_error t = None \<and> tk_outcome t = None
            \<and> ends_with t (Event_Error ''cancelled'' ''the task was cancelled''))"

lemma terminal_events_last: "terminal_events t = ts @ [last (tk_events t)] \<Longrightarrow> tk_events t \<noteq> []"
  by (auto simp: terminal_events_def)

lemma result_url_cong: "tk_kind t = tk_kind t' \<Longrightarrow> tk_id t = tk_id t' \<Longrightarrow> result_url t = result_url t'"
  by (simp add: result_url_def)

lemma task_new_ok: "task_ok (task_new now ident p m mode)"
  by (simp add: task_ok_def task_fields)

lemma task_log_live_ok: "task_ok t \<Longrightarrow> \<not> state_is_terminal (task_state t) \<Longrightarrow> task_ok (task_log clk l m t)"
  by (cases "task_state t") (simp_all add: task_ok_def task_fields)

lemma mark_running_ok: "task_ok t \<Longrightarrow> task_state t = Queued \<Longrightarrow> task_ok (mark_running clk t)"
  by (simp add: task_ok_def task_fields)

lemma observe_ok: "task_ok t \<Longrightarrow> task_state t = Running \<Longrightarrow> task_ok (observe clk stage note t)"
  by (simp add: task_ok_def task_fields)

lemma mark_succeeded_ok:
  assumes "task_ok t" and "task_state t = Running" and "outcome_fits (tk_kind t) r"
  shows "task_ok (mark_succeeded clk r t)"
proof -
  have "terminal_events (mark_succeeded clk r t) = [last (tk_events (mark_succeeded clk r t))]"
    using assms(1,2) by (simp add: task_ok_def mark_succeeded_fields(2))
  moreover from this have "tk_events (mark_succeeded clk r t) \<noteq> []" using terminal_events_last [of _ "[]"] by force
  moreover have "result_url (mark_succeeded clk r t) = result_url t" by (rule result_url_cong) (simp_all add: task_fields)
  ultimately show ?thesis using assms by (simp add: task_ok_def ends_with_def task_fields)
qed

lemma mark_failed_ok:
  assumes "task_ok t" and "\<not> state_is_terminal (task_state t)"
  shows "task_ok (mark_failed clk k m t)"
proof -
  have "terminal_events t = []" "tk_outcome t = None" "tk_state t = state_byte (task_state t)" "payload_kind (tk_payload t) = tk_kind t"
    using assms by (cases "task_state t"; simp add: task_ok_def)+
  moreover from this have "terminal_events (mark_failed clk k m t) = [last (tk_events (mark_failed clk k m t))]"
    by (simp add: mark_failed_fields(2))
  moreover from this have "tk_events (mark_failed clk k m t) \<noteq> []" using terminal_events_last [of _ "[]"] by force
  ultimately show ?thesis by (simp add: task_ok_def ends_with_def task_fields)
qed

lemma mark_cancelled_ok:
  assumes "task_ok t" and "task_state t = Queued"
  shows "task_ok (mark_cancelled clk t)"
proof -
  have "terminal_events (mark_cancelled clk t) = [last (tk_events (mark_cancelled clk t))]"
    using assms by (simp add: task_ok_def mark_cancelled_fields(2))
  moreover from this have "tk_events (mark_cancelled clk t) \<noteq> []" using terminal_events_last [of _ "[]"] by force
  ultimately show ?thesis using assms by (simp add: task_ok_def ends_with_def task_fields)
qed

lemma store_cancelled_ok: "task_ok t \<Longrightarrow> task_ok (store_cancelled t)"
proof -
  have "tk_id (store_cancelled t) = tk_id t" by (simp add: store_cancelled_def)
  then have "result_url (store_cancelled t) = result_url t" by (intro result_url_cong) (simp_all add: task_fields)
  moreover have "ends_with (store_cancelled t) e = ends_with t e" for e by (simp add: ends_with_def task_fields)
  ultimately show "task_ok t \<Longrightarrow> ?thesis" by (cases "task_state t") (simp_all add: task_ok_def task_fields)
qed

lemma evict_ok: "task_ok t \<Longrightarrow> task_ok (t\<lparr>tk_outcome := None\<rparr>)"
proof -
  have "result_url (t\<lparr>tk_outcome := None\<rparr>) = result_url t" by (rule result_url_cong) simp_all
  moreover have "ends_with (t\<lparr>tk_outcome := None\<rparr>) e = ends_with t e" for e by (simp add: ends_with_def terminal_events_def)
  moreover have "task_state (t\<lparr>tk_outcome := None\<rparr>) = task_state t" "terminal_events (t\<lparr>tk_outcome := None\<rparr>) = terminal_events t"
    "task_progress (t\<lparr>tk_outcome := None\<rparr>) = task_progress t"
    by (simp_all add: task_state_def terminal_events_def task_progress_def)
  ultimately show "task_ok t \<Longrightarrow> ?thesis" by (cases "task_state t") (simp_all add: task_ok_def)
qed

lemma log_end_fields:
  "task_state (log_end cx clk e t) = task_state t" "tk_kind (log_end cx clk e t) = tk_kind t"
  "tk_outcome (log_end cx clk e t) = tk_outcome t" "tk_cancelled (log_end cx clk e t) = tk_cancelled t"
  by (simp_all add: log_end_def Let_def task_fields split: body_end.splits sum.splits option.splits)

lemma log_end_ok: "task_ok t \<Longrightarrow> \<not> state_is_terminal (task_state t) \<Longrightarrow> task_ok (log_end cx clk e t)"
  by (auto simp: log_end_def Let_def task_log_live_ok task_fields split: body_end.splits sum.splits option.splits)

fun end_fits :: "task_kind \<Rightarrow> 'd body_end \<Rightarrow> bool" where
  "end_fits k (Body_Returned (Inr r)) = outcome_fits k r"
| "end_fits k _ = True"

lemma mark_end_ok: "task_ok t \<Longrightarrow> task_state t = Running \<Longrightarrow> end_fits (tk_kind t) e \<Longrightarrow> task_ok (mark_end cx clk e t)"
  by (auto simp: mark_end_def mark_succeeded_ok mark_failed_ok split: body_end.splits sum.splits)

lemma mark_end_terminal: "state_is_terminal (task_state (mark_end cx clk e t))"
  by (auto simp: mark_end_def task_fields split: body_end.splits sum.splits)

lemma mark_end_states: "task_state (mark_end cx clk e t) \<in> {Succeeded, Failed}"
  by (auto simp: mark_end_def task_fields split: body_end.splits sum.splits)

section \<open>The place of a worker\<close>

fun phase_ok :: "'d worker_phase \<Rightarrow> ('q, 'd) task \<Rightarrow> bool" where
  "phase_ok At_Gate t = (task_state t = Queued)"
| "phase_ok Has_Permit t = (task_state t = Queued)"
| "phase_ok Dropped_Permit t = (task_state t = Queued \<and> tk_cancelled t)"
| "phase_ok May_Start t = (task_state t = Queued)"
| "phase_ok (In_Body _) t = (task_state t = Running)"
| "phase_ok (Body_Over e) t = (task_state t = Running \<and> end_fits (tk_kind t) e)"
| "phase_ok (Logged e) t = (task_state t = Running \<and> end_fits (tk_kind t) e)"
| "phase_ok Marked t = state_is_terminal (task_state t)"
| "phase_ok Finished t = state_is_terminal (task_state t)"

lemma phase_ok_cancel: "phase_ok ph t \<Longrightarrow> phase_ok ph (store_cancelled t)"
proof -
  have "tk_cancelled (store_cancelled t)" by (simp add: store_cancelled_def)
  then show "phase_ok ph t \<Longrightarrow> ?thesis" by (cases ph) (simp_all add: task_fields)
qed

fun holds_permit :: "'d worker_phase \<Rightarrow> bool" where
  "holds_permit At_Gate = False"
| "holds_permit Dropped_Permit = False"
| "holds_permit Finished = False"
| "holds_permit _ = True"

definition tasks_ok :: "('q, 'd) runner \<Rightarrow> bool" where
  "tasks_ok s \<longleftrightarrow> length (rn_phases s) = length (rn_heap s)
     \<and> (\<forall>i < length (rn_heap s). task_ok (rn_heap s ! i) \<and> phase_ok (rn_phases s ! i) (rn_heap s ! i))"

definition permits_ok :: "'d runner_context \<Rightarrow> ('q, 'd) runner \<Rightarrow> bool" where
  "permits_ok cx s \<longleftrightarrow> rn_permits s + length (filter holds_permit (rn_phases s)) = max (cx_max_concurrent cx) 1"

section \<open>Counting\<close>

definition task_weight :: "('q, 'd) task \<Rightarrow> nat" where
  "task_weight t = of_bool (\<not> state_is_terminal (task_state t)) + of_bool (tk_outcome t \<noteq> None)"

lemma task_weight_live: "\<not> state_is_terminal (task_state t) \<Longrightarrow> 1 \<le> task_weight t"
  by (simp add: task_weight_def)

lemma task_weight_ok: "task_ok t \<Longrightarrow> task_weight t \<le> 1"
  by (cases "task_state t") (auto simp: task_ok_def task_weight_def)

lemma length_filter_sum: "length (filter P xs) = (\<Sum>x\<leftarrow>xs. of_bool (P x))"
  by (induction xs) auto

definition held :: "('q, 'd) task_heap \<Rightarrow> registry \<Rightarrow> nat" where
  "held h reg = length (filter (has_outcome h) (rg_tasks reg))"

lemma active_held: "registry_active h reg + held h reg = (\<Sum>a\<leftarrow>rg_tasks reg. task_weight (h ! a))"
  by (simp add: registry_active_def held_def length_filter_sum task_weight_def sum_list_addf is_live_def has_outcome_def
      flip: sum_list_addf)

definition registry_ok :: "'d runner_context \<Rightarrow> usize \<Rightarrow> ('q, 'd) runner \<Rightarrow> bool" where
  "registry_ok cx keep s \<longleftrightarrow>
     (let h = rn_heap s; reg = rn_registry s; capacity = cx_max_concurrent cx + cx_queue_capacity cx
      in rg_keep_results reg = rg_keep_results (registry_new keep) \<and> rg_keep_tasks reg = rg_keep_tasks (registry_new keep)
        \<and> distinct (rg_tasks reg) \<and> set (rg_tasks reg) \<subseteq> {..<length h}
        \<and> (\<forall>a < length h. is_live h a \<longrightarrow> a \<in> set (rg_tasks reg))
        \<and> registry_active h reg \<le> capacity \<and> held h reg + registry_active h reg \<le> rg_keep_results reg + capacity
        \<and> length (rg_tasks reg) \<le> max (rg_keep_tasks reg) capacity)"

definition runner_ok :: "'d runner_context \<Rightarrow> usize \<Rightarrow> ('q, 'd) runner \<Rightarrow> bool" where
  "runner_ok cx keep s \<longleftrightarrow> tasks_ok s \<and> permits_ok cx s \<and> registry_ok cx keep s"

text \<open>A change of the heap that ends tasks but revives none, and takes no more memory.\<close>

definition heap_settles :: "('q, 'd) task_heap \<Rightarrow> ('q, 'd) task_heap \<Rightarrow> bool" where
  "heap_settles h h' \<longleftrightarrow> length h' = length h
     \<and> (\<forall>a < length h. (is_live h' a \<longrightarrow> is_live h a) \<and> task_weight (h' ! a) \<le> task_weight (h ! a))"

lemma heap_settles_registry:
  assumes "heap_settles (rn_heap s) h'" and "registry_ok cx keep s"
  shows "registry_ok cx keep (s\<lparr>rn_heap := h'\<rparr>)"
proof -
  let ?h = "rn_heap s" and ?reg = "rn_registry s"
  have in_heap: "set (rg_tasks ?reg) \<subseteq> {..<length ?h}" using assms(2) by (simp add: registry_ok_def Let_def)
  have "(\<Sum>a\<leftarrow>rg_tasks ?reg. task_weight (h' ! a)) \<le> (\<Sum>a\<leftarrow>rg_tasks ?reg. task_weight (?h ! a))"
    using in_heap assms(1) by (intro sum_list_mono) (auto simp: heap_settles_def)
  moreover have "registry_active h' ?reg \<le> registry_active ?h ?reg"
    unfolding registry_active_def length_filter_sum using in_heap assms(1) by (intro sum_list_mono) (auto simp: heap_settles_def)
  ultimately show ?thesis
    using assms active_held [of h' ?reg] active_held [of ?h ?reg] by (auto simp: registry_ok_def Let_def heap_settles_def)
qed

section \<open>Steps of workers\<close>

lemma holders_update:
  "at_phase s i ph \<Longrightarrow> length (filter holds_permit ((rn_phases s)[i := ph'])) + of_bool (holds_permit ph)
     = length (filter holds_permit (rn_phases s)) + of_bool (holds_permit ph')"
proof -
  assume "at_phase s i ph"
  then have "i < length (rn_phases s)" "rn_phases s ! i = ph" by (simp_all add: at_phase_def)
  then have split: "rn_phases s = take i (rn_phases s) @ ph # drop (Suc i) (rn_phases s)"
    using id_take_nth_drop [of i "rn_phases s"] by simp
  have "(rn_phases s)[i := ph'] = take i (rn_phases s) @ ph' # drop (Suc i) (rn_phases s)"
    using \<open>i < length (rn_phases s)\<close> by (rule upd_conv_take_nth_drop)
  then show ?thesis by (subst (2) split) simp
qed

lemma advance_ok:
  assumes "runner_ok cx keep s" and "at_phase s i ph"
    and "task_ok (f (rn_heap s ! i))" and "phase_ok ph' (f (rn_heap s ! i))"
    and "f (rn_heap s ! i) = rn_heap s ! i \<or> \<not> state_is_terminal (task_state (rn_heap s ! i))"
    and "p + of_bool (holds_permit ph') = rn_permits s + of_bool (holds_permit ph)"
  shows "runner_ok cx keep (advance i ph' p f s)"
proof -
  let ?h = "rn_heap s" and ?h' = "(rn_heap s)[i := f (rn_heap s ! i)]"
  have i: "i < length ?h" "i < length (rn_phases s)" and ph: "rn_phases s ! i = ph"
    using assms(1,2) by (auto simp: at_phase_def runner_ok_def tasks_ok_def)
  have "tasks_ok (advance i ph' p f s)"
    using assms(1,3,4) i by (auto simp: runner_ok_def tasks_ok_def advance_def nth_list_update)
  moreover have "permits_ok cx (advance i ph' p f s)"
    using assms(1,6) holders_update [OF assms(2), of ph'] by (simp add: runner_ok_def permits_ok_def advance_def)
  moreover have "heap_settles ?h ?h'"
    using assms(5) i task_weight_ok [OF assms(3)] task_weight_live [of "?h ! i"]
    by (auto simp: heap_settles_def nth_list_update is_live_def intro: order.trans)
  then have "registry_ok cx keep (s\<lparr>rn_heap := ?h'\<rparr>)" using assms(1) by (simp add: runner_ok_def heap_settles_registry)
  then have "registry_ok cx keep (advance i ph' p f s)" by (simp add: registry_ok_def advance_def)
  ultimately show ?thesis by (simp add: runner_ok_def)
qed

lemma at_phase_task:
  assumes "runner_ok cx keep s" and "at_phase s i ph"
  shows "task_ok (rn_heap s ! i)" and "phase_ok ph (rn_heap s ! i)" and "i < length (rn_heap s)"
    and "holds_permit ph \<Longrightarrow> rn_permits s < max (cx_max_concurrent cx) 1"
proof -
  show "task_ok (rn_heap s ! i)" "phase_ok ph (rn_heap s ! i)" "i < length (rn_heap s)"
    using assms by (auto simp: runner_ok_def tasks_ok_def at_phase_def)
  have "ph \<in> set (rn_phases s)" using assms(2) by (auto simp: at_phase_def)
  then have "length (filter holds_permit (rn_phases s)) > 0" if "holds_permit ph"
    using that \<open>ph \<in> set (rn_phases s)\<close> by (auto simp: filter_empty_conv)
  then show "holds_permit ph \<Longrightarrow> rn_permits s < max (cx_max_concurrent cx) 1"
    using assms(1) unfolding runner_ok_def permits_ok_def by (metis less_add_same_cancel1)
qed

lemma task_ok_kind: "task_ok t \<Longrightarrow> payload_kind (tk_payload t) = tk_kind t"
  by (simp add: task_ok_def)

lemma worker_step_ok:
  assumes "worker_step cx i s s'" and "runner_ok cx keep s"
  shows "runner_ok cx keep s'"
  using assms(1)
proof cases
  case (Gate_Closed clk)
  with at_phase_task [OF assms(2) Gate_Closed(2)] show ?thesis
    by (auto intro!: advance_ok [OF assms(2) Gate_Closed(2)] mark_failed_ok simp: task_fields)
next
  case Acquire
  with at_phase_task [OF assms(2) Acquire(2)] show ?thesis by (auto intro!: advance_ok [OF assms(2) Acquire(2)])
next
  case Skip
  with at_phase_task [OF assms(2) Skip(2)] show ?thesis by (auto intro!: advance_ok [OF assms(2) Skip(2)])
next
  case (Cancel_Queued clk)
  with at_phase_task [OF assms(2) Cancel_Queued(2)] show ?thesis
    by (auto intro!: advance_ok [OF assms(2) Cancel_Queued(2)] mark_cancelled_ok simp: task_fields)
next
  case Go_On
  with at_phase_task [OF assms(2) Go_On(2)] show ?thesis by (auto intro!: advance_ok [OF assms(2) Go_On(2)])
next
  case (Start reports clk)
  with at_phase_task [OF assms(2) Start(2)] show ?thesis
    by (auto intro!: advance_ok [OF assms(2) Start(2)] mark_running_ok simp: task_fields)
next
  case (Report_Stage n clk stage msg)
  with at_phase_task [OF assms(2) Report_Stage(2)] show ?thesis
    by (auto intro!: advance_ok [OF assms(2) Report_Stage(2)] observe_ok simp: task_fields)
next
  case (Report_Log n clk message)
  with at_phase_task [OF assms(2) Report_Log(2)] show ?thesis
    by (auto intro!: advance_ok [OF assms(2) Report_Log(2)] task_log_live_ok simp: task_fields)
next
  case (Return result sim plan synth)
  note t = at_phase_task [OF assms(2) Return(2)]
  have "end_fits (tk_kind (rn_heap s ! i)) (Body_Returned result)"
  proof (cases "run_task sim plan synth (tk_payload (rn_heap s ! i))")
    case (Inr r)
    then show ?thesis using run_task_fits [OF Inr] Return(3) task_ok_kind [OF t(1)] by simp
  qed (simp add: Return(3))
  with t Return show ?thesis by (auto intro!: advance_ok [OF assms(2) Return(2)])
next
  case (Panic n)
  with at_phase_task [OF assms(2) Panic(2)] show ?thesis by (auto intro!: advance_ok [OF assms(2) Panic(2)])
next
  case (Abort n message)
  with at_phase_task [OF assms(2) Abort(2)] show ?thesis by (auto intro!: advance_ok [OF assms(2) Abort(2)])
next
  case (Log_End e clk)
  with at_phase_task [OF assms(2) Log_End(2)] show ?thesis
    by (auto intro!: advance_ok [OF assms(2) Log_End(2)] log_end_ok simp: log_end_fields)
next
  case (Mark e clk)
  with at_phase_task [OF assms(2) Mark(2)] show ?thesis
    by (auto intro!: advance_ok [OF assms(2) Mark(2)] mark_end_ok simp: mark_end_terminal)
next
  case Release
  with at_phase_task [OF assms(2) Release(2)] show ?thesis by (auto intro!: advance_ok [OF assms(2) Release(2)])
qed

section \<open>Eviction and retention\<close>

definition evicted :: "('q, 'd) task_heap \<Rightarrow> ('q, 'd) task_heap \<Rightarrow> bool" where
  "evicted h h' \<longleftrightarrow> length h' = length h \<and> (\<forall>a. h' ! a = h ! a \<or> h' ! a = (h ! a)\<lparr>tk_outcome := None\<rparr>)"

lemma evicted_refl: "evicted h h"
  by (simp add: evicted_def)

lemma evicted_trans: "evicted h h' \<Longrightarrow> evicted h' h'' \<Longrightarrow> evicted h h''"
  unfolding evicted_def by (metis task.select_convs(16) task.surjective task.update_convs(16))

lemma evicted_one: "evicted h (h[a := (h ! a)\<lparr>tk_outcome := None\<rparr>])"
proof (cases "a < length h")
  case True
  then show ?thesis by (auto simp: evicted_def nth_list_update)
next
  case False
  then show ?thesis by (simp add: evicted_def list_update_beyond)
qed

lemma evict_results_evicted: "evicted h (evict_results excess as h)"
proof (induction excess as h rule: evict_results.induct)
  case (2 excess a as h)
  then show ?case using evicted_trans [OF evicted_one [of h a]] by (simp add: evicted_refl)
qed (simp add: evicted_refl)

lemma evicted_live: "evicted h h' \<Longrightarrow> is_live h' a = is_live h a"
  unfolding evicted_def is_live_def task_state_def by (metis task.surjective task.update_convs(16) task.select_convs(10))

lemma evict_results_held:
  assumes "distinct as" and "set as \<subseteq> {..<length h}"
  shows "length (filter (has_outcome (evict_results excess as h)) as) = length (filter (has_outcome h) as) - excess"
  using assms
proof (induction excess as h rule: evict_results.induct)
  case (2 excess a as h)
  have frame: "evict_results e as h' ! a = h' ! a" for e and h' :: "('a, 'b) task_heap"
  proof -
    have "a \<notin> set as" using 2(3) by simp
    then show ?thesis
    proof (induction e as h' rule: evict_results.induct)
      case (2 e b as h')
      then show ?case by simp
    qed simp
  qed
  let ?h = "h[a := (h ! a)\<lparr>tk_outcome := None\<rparr>]"
  show ?case
  proof (cases "excess = 0 \<or> \<not> has_outcome h a")
    case True
    then show ?thesis using 2 frame by (auto simp: has_outcome_def)
  next
    case False
    have "?h ! x = h ! x" if "x \<in> set as" for x using 2(3) that by (cases "x = a") simp_all
    then have "filter (has_outcome ?h) as = filter (has_outcome h) as"
      by (intro filter_cong) (simp_all add: has_outcome_def)
    moreover have "\<not> has_outcome (evict_results (excess - 1) as ?h) a"
      using frame 2(4) by (simp add: has_outcome_def)
    ultimately show ?thesis using False 2 by simp
  qed
qed simp

lemma retain_tasks_set: "set (retain_tasks h removed excess as) \<subseteq> set as"
  by (induction h removed excess as rule: retain_tasks.induct) auto

lemma retain_tasks_distinct: "distinct as \<Longrightarrow> distinct (retain_tasks h removed excess as)"
  by (induction h removed excess as rule: retain_tasks.induct) (auto dest: subsetD [OF retain_tasks_set])

lemma retain_tasks_live: "filter (is_live h) (retain_tasks h removed excess as) = filter (is_live h) as"
  by (induction h removed excess as rule: retain_tasks.induct) auto

lemma retain_tasks_filter: "length (filter P (retain_tasks h removed excess as)) \<le> length (filter P as)"
  by (induction h removed excess as rule: retain_tasks.induct) auto

lemma retain_tasks_length:
  "length (retain_tasks h removed excess as) = length as - min (excess - removed) (length (filter (\<lambda>a. \<not> is_live h a) as))"
proof (induction h removed excess as rule: retain_tasks.induct)
  case (2 h removed excess a as)
  have "min e (length (filter (\<lambda>a. \<not> is_live h a) as)) \<le> length as" for e
    by (rule order.trans [OF min.cobounded2 length_filter_le])
  then have "Suc (length as - min e (length (filter (\<lambda>a. \<not> is_live h a) as)))
      = Suc (length as) - min e (length (filter (\<lambda>a. \<not> is_live h a) as))" for e by (simp add: Suc_diff_le)
  then show ?case using 2 by (cases "removed < excess \<and> \<not> is_live h a"; cases "is_live h a") auto
qed simp

lemma live_or_not: "length (filter P as) + length (filter (\<lambda>a. \<not> P a) as) = length as"
  by (rule sum_length_filter_compl)

section \<open>Steps of clients\<close>

text \<open>A registry after pruning: no live task lost, the bounds kept.\<close>

lemma prune_bounds:
  assumes "registry_prune h reg = (h', reg')" and "distinct (rg_tasks reg)" and "set (rg_tasks reg) \<subseteq> {..<length h}"
  shows "evicted h h'" and "rg_keep_results reg' = rg_keep_results reg" and "rg_keep_tasks reg' = rg_keep_tasks reg"
    and "distinct (rg_tasks reg')" and "set (rg_tasks reg') \<subseteq> set (rg_tasks reg)"
    and "registry_active h' reg' = registry_active h reg" and "held h' reg' \<le> rg_keep_results reg"
    and "a \<in> set (rg_tasks reg) \<Longrightarrow> is_live h a \<Longrightarrow> a \<in> set (rg_tasks reg')"
    and "length (rg_tasks reg') \<le> max (rg_keep_tasks reg) (registry_active h reg)"
proof -
  let ?tasks = "rg_tasks reg" and ?excess = "length (rg_tasks reg) - rg_keep_tasks reg"
  have h': "h' = prune_results (rg_keep_results reg) ?tasks h" using assms(1) by (auto simp: registry_prune_def Let_def split: if_splits)
  have tasks': "rg_tasks reg' = retain_tasks h' 0 ?excess ?tasks"
  proof (cases "?excess = 0")
    case True
    have "retain_tasks g 0 0 as = as" for g :: "('a, 'b) task_heap" and as by (induction as) auto
    then show ?thesis using assms(1) True by (simp add: registry_prune_def Let_def)
  next
    case False
    then show ?thesis using assms(1) h' by (auto simp: registry_prune_def Let_def)
  qed
  show ev: "evicted h h'" unfolding h' prune_results_def by (simp add: Let_def evicted_refl evict_results_evicted)
  have live: "is_live h' = is_live h" by (simp add: fun_eq_iff evicted_live [OF ev])
  show "rg_keep_results reg' = rg_keep_results reg" "rg_keep_tasks reg' = rg_keep_tasks reg"
    using assms(1) by (auto simp: registry_prune_def Let_def split: if_splits)
  show "distinct (rg_tasks reg')" unfolding tasks' by (rule retain_tasks_distinct [OF assms(2)])
  show "set (rg_tasks reg') \<subseteq> set ?tasks" unfolding tasks' by (rule retain_tasks_set)
  show act: "registry_active h' reg' = registry_active h reg"
    using retain_tasks_live [of h' 0 ?excess ?tasks] live by (simp add: registry_active_def tasks')
  have "length (filter (has_outcome h') ?tasks) \<le> rg_keep_results reg"
    using evict_results_held [OF assms(2,3)] by (auto simp: h' prune_results_def Let_def)
  then show "held h' reg' \<le> rg_keep_results reg"
    unfolding held_def tasks' using retain_tasks_filter [of "has_outcome h'" h' 0 ?excess ?tasks] by linarith
  have "filter (is_live h) (rg_tasks reg') = filter (is_live h) ?tasks"
    using retain_tasks_live [of h' 0 ?excess ?tasks] live by (simp add: tasks')
  then have "set (filter (is_live h) (rg_tasks reg')) = set (filter (is_live h) ?tasks)" by simp
  then show "a \<in> set ?tasks \<Longrightarrow> is_live h a \<Longrightarrow> a \<in> set (rg_tasks reg')" by auto
  show "length (rg_tasks reg') \<le> max (rg_keep_tasks reg) (registry_active h reg)"
    using retain_tasks_length [of h' 0 ?excess ?tasks] live_or_not [of "is_live h" ?tasks]
    by (auto simp: tasks' live registry_active_def min_def max_def split: if_splits)
qed

lemma admit_cases:
  assumes "admit cx clk ident payload map_id mode what s = Inr (s', a)"
  obtains h reg where "a = length (rn_heap s)"
    and "registry_active (rn_heap s @ [task_new (clk 0) ident payload map_id mode]) (rn_registry s)
      < cx_max_concurrent cx + cx_queue_capacity cx"
    and "registry_prune (rn_heap s @ [task_new (clk 0) ident payload map_id mode])
      ((rn_registry s)\<lparr>rg_tasks := rg_tasks (rn_registry s) @ [a]\<rparr>) = (h, reg)"
    and "s' = s\<lparr>rn_heap := h[a := task_log (\<lambda>n. clk (n + 1)) ''info'' (what @ '' queued for map '' @ map_id) (h ! a)],
                rn_registry := reg, rn_phases := rn_phases s @ [At_Gate]\<rparr>"
  using assms by (auto simp: admit_def try_admit_def Let_def rbind_Inr_iff split: if_splits prod.splits)

lemma phase_ok_evict: "phase_ok ph t \<Longrightarrow> phase_ok ph (t\<lparr>tk_outcome := None\<rparr>)"
  by (cases ph) (simp_all add: task_state_def)

lemma evicted_tasks_ok:
  assumes "evicted h h'" and "task_ok (h ! i)"
  shows "task_ok (h' ! i)" and "phase_ok ph (h ! i) \<Longrightarrow> phase_ok ph (h' ! i)"
  using assms evict_ok [OF assms(2)] phase_ok_evict [of ph "h ! i"] unfolding evicted_def by metis+

lemma settles_log: "heap_settles h (h[a := task_log clk l m (h ! a)])"
  unfolding heap_settles_def
proof (intro conjI allI impI)
  fix b
  have "task_state (h[a := task_log clk l m (h ! a)] ! b) = task_state (h ! b)
      \<and> tk_outcome (h[a := task_log clk l m (h ! a)] ! b) = tk_outcome (h ! b)" if "b < length h"
    using that by (cases "a = b") (simp_all add: task_fields)
  then show "b < length h \<Longrightarrow> is_live (h[a := task_log clk l m (h ! a)]) b \<Longrightarrow> is_live h b"
    and "b < length h \<Longrightarrow> task_weight (h[a := task_log clk l m (h ! a)] ! b) \<le> task_weight (h ! b)"
    by (simp_all add: is_live_def task_weight_def)
qed simp

lemma admit_ok:
  assumes "admit cx clk ident payload map_id mode what s = Inr (s', a)" and "runner_ok cx keep s"
  shows "runner_ok cx keep s'"
proof -
  let ?n = "length (rn_heap s)" and ?t = "task_new (clk 0) ident payload map_id mode :: ('a, 'b) task"
  let ?h = "rn_heap s @ [?t]" and ?reg = "rn_registry s" and ?capacity = "cx_max_concurrent cx + cx_queue_capacity cx"
  let ?reg1 = "?reg\<lparr>rg_tasks := rg_tasks ?reg @ [?n]\<rparr>"
  obtain h reg where a: "a = ?n" and room: "registry_active ?h ?reg < ?capacity"
    and prune: "registry_prune ?h ?reg1 = (h, reg)"
    and s': "s' = s\<lparr>rn_heap := h[a := task_log (\<lambda>n. clk (n + 1)) ''info'' (what @ '' queued for map '' @ map_id) (h ! a)],
                rn_registry := reg, rn_phases := rn_phases s @ [At_Gate]\<rparr>"
    using assms(1) by (rule admit_cases) blast
  have tasks: "length (rn_phases s) = ?n" "\<forall>i<?n. task_ok (rn_heap s ! i) \<and> phase_ok (rn_phases s ! i) (rn_heap s ! i)"
    and permits: "permits_ok cx s" and reg_ok: "registry_ok cx keep s"
    using assms(2) by (simp_all add: runner_ok_def tasks_ok_def)
  have dist: "distinct (rg_tasks ?reg1)" and sub: "set (rg_tasks ?reg1) \<subseteq> {..<length ?h}"
    using reg_ok by (auto simp: registry_ok_def Let_def)
  note pb = prune_bounds [OF prune dist sub]
  have len: "length h = Suc ?n" using pb(1) by (simp add: evicted_def)
  have h_ok: "task_ok (h ! i) \<and> phase_ok ((rn_phases s @ [At_Gate]) ! i) (h ! i)" if "i < Suc ?n" for i
  proof -
    have "task_ok (?h ! i) \<and> phase_ok ((rn_phases s @ [At_Gate]) ! i) (?h ! i)"
      using that tasks task_new_ok by (cases "i = ?n") (auto simp: nth_append task_fields)
    then show ?thesis using evicted_tasks_ok [OF pb(1)] by blast
  qed
  have new: "task_ok (h ! ?n)" "task_state (h ! ?n) = Queued" using h_ok [of ?n] tasks(1) by (simp_all add: nth_append)
  have "task_ok (rn_heap s' ! i) \<and> phase_ok (rn_phases s' ! i) (rn_heap s' ! i)" if "i < Suc ?n" for i
  proof (cases "i = ?n")
    case True
    then show ?thesis using new len tasks(1) a by (simp add: s' nth_append task_log_live_ok task_fields)
  next
    case False
    then show ?thesis using h_ok [of i] that a by (simp add: s')
  qed
  then have "tasks_ok s'" using len tasks(1) by (simp add: tasks_ok_def s')
  moreover have "permits_ok cx s'" using permits by (simp add: permits_ok_def s')
  moreover have "registry_ok cx keep s'"
  proof -
    let ?s = "s\<lparr>rn_heap := h, rn_registry := reg, rn_phases := rn_phases s @ [At_Gate]\<rparr>"
    have act: "registry_active ?h ?reg1 = Suc (registry_active ?h ?reg)"
      by (simp add: registry_active_def is_live_def task_fields)
    have "b \<in> set (rg_tasks reg)" if "b < Suc ?n" "is_live h b" for b
    proof -
      have "is_live ?h b" using that(2) evicted_live [OF pb(1)] by simp
      then have "b \<in> set (rg_tasks ?reg1)"
        using that(1) reg_ok by (cases "b = ?n") (auto simp: registry_ok_def Let_def is_live_def nth_append)
      then show ?thesis using pb(8) \<open>is_live ?h b\<close> by blast
    qed
    moreover have "set (rg_tasks reg) \<subseteq> {..<Suc ?n}" using pb(5) sub by auto
    ultimately have "registry_ok cx keep ?s"
      using pb(2,3,4,6,7,9) act room len reg_ok by (auto simp: registry_ok_def Let_def)
    then have "registry_ok cx keep (?s\<lparr>rn_heap := h[a := task_log (\<lambda>n. clk (n + 1)) ''info'' (what @ '' queued for map '' @ map_id) (h ! a)]\<rparr>)"
      by (intro heap_settles_registry) (simp_all add: settles_log)
    then show ?thesis by (simp add: s' registry_ok_def)
  qed
  ultimately show ?thesis by (simp add: runner_ok_def)
qed

lemma client_step_ok:
  assumes "client_step cx s s'" and "runner_ok cx keep s"
  shows "runner_ok cx keep s'"
  using assms(1)
proof cases
  case (Submit clk ident payload map_id mode what a)
  then show ?thesis using admit_ok assms(2) by blast
next
  case (Cancel_Check ident a)
  then show ?thesis using assms(2) by (simp add: runner_ok_def tasks_ok_def permits_ok_def registry_ok_def)
next
  case (Cancel_Store a)
  let ?h' = "(rn_heap s)[a := store_cancelled (rn_heap s ! a)]"
  have "task_state (?h' ! b) = task_state (rn_heap s ! b) \<and> tk_outcome (?h' ! b) = tk_outcome (rn_heap s ! b)"
    if "b < length (rn_heap s)" for b using that by (cases "a = b") (simp_all add: task_fields)
  then have "heap_settles (rn_heap s) ?h'" by (simp add: heap_settles_def is_live_def task_weight_def)
  then have "registry_ok cx keep (s\<lparr>rn_heap := ?h'\<rparr>)" using assms(2) by (simp add: runner_ok_def heap_settles_registry)
  then have "registry_ok cx keep s'" by (simp add: Cancel_Store(1) registry_ok_def)
  moreover have "task_ok (?h' ! i) \<and> phase_ok (rn_phases s ! i) (?h' ! i)" if "i < length (rn_heap s)" for i
    using that assms(2) by (cases "a = i") (simp_all add: runner_ok_def tasks_ok_def store_cancelled_ok phase_ok_cancel)
  then have "tasks_ok s'" using assms(2) by (simp add: runner_ok_def tasks_ok_def Cancel_Store(1))
  moreover have "permits_ok cx s'" using assms(2) by (simp add: runner_ok_def permits_ok_def Cancel_Store(1))
  ultimately show ?thesis by (simp add: runner_ok_def)
qed

lemma runner_step_ok: "runner_step cx s s' \<Longrightarrow> runner_ok cx keep s \<Longrightarrow> runner_ok cx keep s'"
  by (auto elim!: runner_step.cases intro: worker_step_ok client_step_ok)

lemma runner_new_ok: "runner_ok cx keep (runner_new cx (registry_new keep))"
  by (simp add: runner_ok_def tasks_ok_def permits_ok_def registry_ok_def runner_new_def registry_new_def Let_def
      registry_active_def held_def)

lemma steps_ok: "(runner_step cx)\<^sup>*\<^sup>* s s' \<Longrightarrow> runner_ok cx keep s \<Longrightarrow> runner_ok cx keep s'"
  by (induction rule: rtranclp_induct) (auto intro: runner_step_ok)

lemma reachable_ok: "reachable cx keep s \<Longrightarrow> runner_ok cx keep s"
  unfolding reachable_def using steps_ok runner_new_ok by blast

end
