(* ===== verification/Svc_Lifecycle.thy ===== *)
theory Svc_Lifecycle
  imports Svc_Invariant
begin

text \<open>
  The life of tasks under any interleaving of workers and clients: what a step may do to a task, what a
  terminal task keeps, what a cancellation prevents, and that the workers come to an end with every task
  finished and every permit back.
\<close>

section \<open>One step and one task\<close>

lemma worker_step_frame:
  assumes "worker_step cx j s s'" and "i \<noteq> j"
  shows "rn_heap s' ! i = rn_heap s ! i" and "rn_phases s' ! i = rn_phases s ! i"
  using assms by (auto elim!: worker_step.cases simp: advance_def)

lemma worker_step_length:
  assumes "worker_step cx j s s'"
  shows "length (rn_heap s') = length (rn_heap s)" and "length (rn_phases s') = length (rn_phases s)"
    and "j < length (rn_phases s)" and "rn_registry s' = rn_registry s"
  using assms by (auto elim!: worker_step.cases simp: advance_def at_phase_def)

text \<open>What worker \<open>i\<close> does to its own task and phase.\<close>

definition worker_moves ::
  "'d runner_context \<Rightarrow> 'd worker_phase \<Rightarrow> ('q, 'd) task \<Rightarrow> 'd worker_phase \<Rightarrow> ('q, 'd) task \<Rightarrow> bool" where
  "worker_moves cx ph t ph' t' \<longleftrightarrow>
     ph = At_Gate \<and> cx_gate_closed cx \<and> ph' = Finished \<and> task_state t' = Failed
   \<or> ph = At_Gate \<and> ph' = Has_Permit \<and> t' = t
   \<or> ph = Has_Permit \<and> tk_cancelled t \<and> ph' = Dropped_Permit \<and> t' = t
   \<or> ph = Dropped_Permit \<and> ph' = Finished \<and> task_state t' = Cancelled
   \<or> ph = Has_Permit \<and> \<not> tk_cancelled t \<and> ph' = May_Start \<and> t' = t
   \<or> ph = May_Start \<and> (\<exists>n. ph' = In_Body n) \<and> task_state t' = Running
   \<or> (\<exists>n. ph = In_Body (Suc n) \<and> ph' = In_Body n) \<and> task_state t' = task_state t
   \<or> (\<exists>n e. ph = In_Body n \<and> ph' = Body_Over e) \<and> t' = t
   \<or> (\<exists>e. ph = Body_Over e \<and> ph' = Logged e) \<and> task_state t' = task_state t
   \<or> (\<exists>e. ph = Logged e) \<and> ph' = Marked \<and> task_state t' \<in> {Succeeded, Failed}
   \<or> ph = Marked \<and> ph' = Finished \<and> t' = t"

lemma worker_step_moves:
  assumes "worker_step cx i s s'" and "runner_ok cx keep s"
  shows "worker_moves cx (rn_phases s ! i) (rn_heap s ! i) (rn_phases s' ! i) (rn_heap s' ! i)"
  using assms(1)
proof cases
  case (Mark e clk)
  then show ?thesis using at_phase_task(3) [OF assms(2) Mark(2)] mark_end_states [of cx clk e "rn_heap s ! i"]
    by (simp add: worker_moves_def advance_def at_phase_def)
qed (use assms(2) in \<open>auto simp: worker_moves_def advance_def at_phase_def task_fields log_end_fields runner_ok_def tasks_ok_def\<close>)

lemma client_step_task:
  assumes "client_step cx s s'" and "runner_ok cx keep s" and "i < length (rn_heap s)"
  shows "rn_phases s' ! i = rn_phases s ! i" and "i < length (rn_heap s')"
    and "rn_heap s' ! i \<in> {rn_heap s ! i, (rn_heap s ! i)\<lparr>tk_outcome := None\<rparr>, store_cancelled (rn_heap s ! i)}"
proof -
  have len: "length (rn_phases s) = length (rn_heap s)" using assms(2) by (simp add: runner_ok_def tasks_ok_def)
  have "rn_phases s' ! i = rn_phases s ! i \<and> i < length (rn_heap s')
    \<and> rn_heap s' ! i \<in> {rn_heap s ! i, (rn_heap s ! i)\<lparr>tk_outcome := None\<rparr>, store_cancelled (rn_heap s ! i)}"
    using assms(1)
  proof cases
    case (Submit clk ident payload map_id mode what a)
    then obtain h reg where a: "a = length (rn_heap s)"
      and prune: "registry_prune (rn_heap s @ [task_new (clk 0) ident payload map_id mode])
        ((rn_registry s)\<lparr>rg_tasks := rg_tasks (rn_registry s) @ [a]\<rparr>) = (h, reg)"
      and s': "s' = s\<lparr>rn_heap := h[a := task_log (\<lambda>n. clk (n + 1)) ''info'' (what @ '' queued for map '' @ map_id) (h ! a)],
                rn_registry := reg, rn_phases := rn_phases s @ [At_Gate]\<rparr>"
      by (rule admit_cases) blast
    have "distinct (rg_tasks (rn_registry s) @ [a])" "set (rg_tasks (rn_registry s) @ [a]) \<subseteq> {..<Suc (length (rn_heap s))}"
      using assms(2) a by (auto simp: runner_ok_def registry_ok_def Let_def)
    then have ev: "evicted (rn_heap s @ [task_new (clk 0) ident payload map_id mode]) h" using prune_bounds(1) [OF prune] by simp
    then have "h ! i \<in> {rn_heap s ! i, (rn_heap s ! i)\<lparr>tk_outcome := None\<rparr>}"
      using assms(3) unfolding evicted_def by (metis insert_iff nth_append)
    moreover have "length h = Suc (length (rn_heap s))" using ev by (simp add: evicted_def)
    ultimately show ?thesis using assms(3) len a by (auto simp: s' nth_append)
  next
    case (Cancel_Check ident a)
    then show ?thesis using assms(3) by simp
  next
    case (Cancel_Store a)
    then show ?thesis using assms(3) by (cases "a = i") auto
  qed
  then show "rn_phases s' ! i = rn_phases s ! i" "i < length (rn_heap s')"
    "rn_heap s' ! i \<in> {rn_heap s ! i, (rn_heap s ! i)\<lparr>tk_outcome := None\<rparr>, store_cancelled (rn_heap s ! i)}" by blast+
qed

lemma client_step_state:
  assumes "client_step cx s s'" and "runner_ok cx keep s" and "i < length (rn_heap s)"
  shows "task_state (rn_heap s' ! i) = task_state (rn_heap s ! i)"
  using client_step_task(3) [OF assms] by (auto simp: task_fields) (simp add: task_state_def)

section \<open>The life of a task\<close>

fun may_follow :: "bool \<Rightarrow> task_state \<Rightarrow> task_state \<Rightarrow> bool" where
  "may_follow gate_closed Queued st \<longleftrightarrow> st = Running \<or> st = Cancelled \<or> gate_closed \<and> st = Failed"
| "may_follow gate_closed Running st \<longleftrightarrow> st = Succeeded \<or> st = Failed"
| "may_follow gate_closed _ st \<longleftrightarrow> False"

lemma worker_moves_follow:
  assumes "worker_moves cx ph t ph' t'" and "phase_ok ph t"
  shows "task_state t' = task_state t \<or> may_follow (cx_gate_closed cx) (task_state t) (task_state t')"
  using assms unfolding worker_moves_def by (elim disjE conjE exE) auto

lemma ok_phase: "runner_ok cx keep s \<Longrightarrow> i < length (rn_heap s) \<Longrightarrow> phase_ok (rn_phases s ! i) (rn_heap s ! i)"
  and ok_task: "runner_ok cx keep s \<Longrightarrow> i < length (rn_heap s) \<Longrightarrow> task_ok (rn_heap s ! i)"
  and ok_length: "runner_ok cx keep s \<Longrightarrow> length (rn_phases s) = length (rn_heap s)"
  by (simp_all add: runner_ok_def tasks_ok_def)

lemma runner_step_follow:
  assumes "runner_step cx s s'" and "runner_ok cx keep s" and "i < length (rn_heap s)"
  shows "i < length (rn_heap s') \<and> (task_state (rn_heap s' ! i) = task_state (rn_heap s ! i)
    \<or> may_follow (cx_gate_closed cx) (task_state (rn_heap s ! i)) (task_state (rn_heap s' ! i)))"
  using assms(1)
proof cases
  case (Of_Worker j)
  show ?thesis
  proof (cases "i = j")
    case True
    then show ?thesis using assms(2,3) worker_step_length(1) [OF Of_Worker]
        worker_moves_follow [OF worker_step_moves [OF Of_Worker assms(2)]] ok_phase [OF assms(2)] by simp
  next
    case False
    then show ?thesis using assms(3) worker_step_length(1) [OF Of_Worker] worker_step_frame(1) [OF Of_Worker] by simp
  qed
next
  case Of_Client
  then show ?thesis using client_step_state [OF Of_Client assms(2,3)] client_step_task(2) [OF Of_Client assms(2,3)] by simp
qed

lemma steps_length: "(runner_step cx)\<^sup>*\<^sup>* s s' \<Longrightarrow> runner_ok cx keep s \<Longrightarrow> i < length (rn_heap s) \<Longrightarrow> i < length (rn_heap s')"
proof (induction rule: rtranclp_induct)
  case (step y z)
  then show ?case using runner_step_follow [OF step(2) steps_ok [OF step(1)]] by blast
qed

lemma added_queued:
  assumes "runner_step cx s s'" and "runner_ok cx keep s" and "length (rn_heap s) \<le> i" and "i < length (rn_heap s')"
  shows "task_state (rn_heap s' ! i) = Queued"
  using assms(1)
proof cases
  case (Of_Worker j)
  then show ?thesis using worker_step_length(1) [OF Of_Worker] assms(3,4) by simp
next
  case Of_Client
  have ok: "runner_ok cx keep s'" by (rule client_step_ok [OF Of_Client assms(2)])
  have "rn_phases s' = rn_phases s @ [At_Gate]" if "length (rn_heap s) \<noteq> length (rn_heap s')"
    using Of_Client that by cases (auto elim!: admit_cases)
  then have "rn_phases s' ! i = At_Gate"
    using assms(3,4) ok_length [OF assms(2)] ok_length [OF ok] by (cases "i = length (rn_heap s)") (auto simp: nth_append)
  then show ?thesis using ok_phase [OF ok assms(4)] by simp
qed

lemma running_stays:
  assumes "(runner_step cx)\<^sup>*\<^sup>* s s'" and "runner_ok cx keep s" and "i < length (rn_heap s)"
    and "task_state (rn_heap s ! i) = Running"
  shows "task_state (rn_heap s' ! i) \<in> {Running, Succeeded, Failed}"
  using assms(1)
proof (induction rule: rtranclp_induct)
  case (step y z)
  then show ?case
    using runner_step_follow [OF step(2) steps_ok [OF step(1) assms(2)] steps_length [OF step(1) assms(2,3)]] by auto
qed (simp add: assms(4))

section \<open>Cancellation before the start\<close>

definition skipped :: "('q, 'd) runner \<Rightarrow> nat \<Rightarrow> bool" where
  "skipped s i \<longleftrightarrow> i < length (rn_heap s)
     \<and> (rn_phases s ! i \<in> {At_Gate, Has_Permit, Dropped_Permit} \<and> tk_cancelled (rn_heap s ! i)
        \<or> rn_phases s ! i = Finished \<and> task_state (rn_heap s ! i) \<in> {Cancelled, Failed})"

lemma store_cancelled_flag: "tk_cancelled (store_cancelled t)"
  by (simp add: store_cancelled_def)

lemma skipped_step:
  assumes "runner_step cx s s'" and "runner_ok cx keep s" and "skipped s i"
  shows "skipped s' i"
  using assms(1)
proof cases
  case (Of_Worker j)
  show ?thesis
  proof (cases "i = j")
    case True
    then show ?thesis using assms(3) worker_step_moves [OF Of_Worker assms(2)] worker_step_length(1) [OF Of_Worker]
      unfolding skipped_def worker_moves_def by (elim disjE conjE exE) auto
  next
    case False
    then show ?thesis
      using assms(3) worker_step_length(1) [OF Of_Worker] worker_step_frame [OF Of_Worker False] by (simp add: skipped_def)
  qed
next
  case Of_Client
  have i: "i < length (rn_heap s)" using assms(3) by (simp add: skipped_def)
  then show ?thesis
    using assms(3) client_step_task [OF Of_Client assms(2) i] client_step_state [OF Of_Client assms(2) i]
    by (auto simp: skipped_def store_cancelled_flag)
qed

lemma skipped_steps: "(runner_step cx)\<^sup>*\<^sup>* s s' \<Longrightarrow> runner_ok cx keep s \<Longrightarrow> skipped s i \<Longrightarrow> skipped s' i"
proof (induction rule: rtranclp_induct)
  case (step y z)
  then show ?case using skipped_step [OF step(2) steps_ok [OF step(1)]] by blast
qed

section \<open>Progress\<close>

fun phase_weight :: "'d worker_phase \<Rightarrow> nat" where
  "phase_weight At_Gate = 3"
| "phase_weight Has_Permit = 2"
| "phase_weight Dropped_Permit = 1"
| "phase_weight May_Start = 1"
| "phase_weight (In_Body n) = n + 4"
| "phase_weight (Body_Over _) = 3"
| "phase_weight (Logged _) = 2"
| "phase_weight Marked = 1"
| "phase_weight Finished = 0"

fun unstarted :: "'d worker_phase \<Rightarrow> nat" where
  "unstarted At_Gate = 1"
| "unstarted Has_Permit = 1"
| "unstarted Dropped_Permit = 1"
| "unstarted May_Start = 1"
| "unstarted _ = 0"

lemma moves_decrease:
  "worker_moves cx ph t ph' t' \<Longrightarrow> unstarted ph' < unstarted ph \<or> unstarted ph' = unstarted ph \<and> phase_weight ph' < phase_weight ph"
  unfolding worker_moves_def by (elim disjE conjE exE) auto

lemma sum_update:
  fixes f :: "'a \<Rightarrow> nat"
  assumes "i < length xs"
  shows "(\<Sum>x\<leftarrow>xs[i := y]. f x) + f (xs ! i) = (\<Sum>x\<leftarrow>xs. f x) + f y"
proof -
  have "xs = take i xs @ xs ! i # drop (Suc i) xs" using assms by (rule id_take_nth_drop)
  then have "(\<Sum>x\<leftarrow>xs. f x) = (\<Sum>x\<leftarrow>take i xs. f x) + f (xs ! i) + (\<Sum>x\<leftarrow>drop (Suc i) xs. f x)"
    by (metis (no_types, lifting) add.assoc list.simps(9) map_append sum_list.Cons sum_list_append)
  then show ?thesis using assms by (simp add: upd_conv_take_nth_drop)
qed

lemma phases_update: "worker_step cx i s s' \<Longrightarrow> rn_phases s' = (rn_phases s)[i := rn_phases s' ! i]"
  by (rule nth_equalityI) (simp_all add: worker_step_length nth_list_update worker_step_frame)

lemma worker_step_decreases:
  assumes "worker_step cx i s s'" and "runner_ok cx keep s"
  shows "(s', s) \<in> measures [\<lambda>s. \<Sum>ph\<leftarrow>rn_phases s. unstarted ph, \<lambda>s. \<Sum>ph\<leftarrow>rn_phases s. phase_weight ph]"
proof -
  let ?ph = "rn_phases s ! i" and ?ph' = "rn_phases s' ! i"
  have sums: "(\<Sum>ph\<leftarrow>rn_phases s'. f ph) + f ?ph = (\<Sum>ph\<leftarrow>rn_phases s. f ph) + f ?ph'" for f :: "_ \<Rightarrow> nat"
    using sum_update [OF worker_step_length(3) [OF assms(1)]] phases_update [OF assms(1)] by metis
  show ?thesis using moves_decrease [OF worker_step_moves [OF assms]] sums [of unstarted] sums [of phase_weight] by auto
qed

definition workers_step :: "'d runner_context \<Rightarrow> ('q, 'd) runner \<Rightarrow> ('q, 'd) runner \<Rightarrow> bool" where
  "workers_step cx s s' \<longleftrightarrow> (\<exists>i. worker_step cx i s s')"

lemma workers_runner: "(workers_step cx)\<^sup>*\<^sup>* s s' \<Longrightarrow> (runner_step cx)\<^sup>*\<^sup>* s s'"
  by (erule rtranclp_mono [THEN predicate2D, rotated]) (auto simp: workers_step_def intro: Of_Worker)

lemma beyond_gate_moves:
  assumes "i < length (rn_phases s)" and "rn_phases s ! i \<noteq> At_Gate" and "rn_phases s ! i \<noteq> Finished"
  shows "\<exists>s'. worker_step cx i s s'"
proof (cases "rn_phases s ! i")
  case Has_Permit
  then show ?thesis using assms(1) worker_step.Skip [of s i cx] worker_step.Go_On [of s i cx] by (auto simp: at_phase_def)
next
  case Dropped_Permit
  then show ?thesis using assms(1) worker_step.Cancel_Queued [of s i cx] by (auto simp: at_phase_def)
next
  case May_Start
  then show ?thesis using assms(1) worker_step.Start [of s i cx] by (auto simp: at_phase_def)
next
  case (In_Body n)
  then show ?thesis using assms(1) worker_step.Panic [of s i n cx] by (auto simp: at_phase_def)
next
  case (Body_Over e)
  then show ?thesis using assms(1) worker_step.Log_End [of s i e cx] by (auto simp: at_phase_def)
next
  case (Logged e)
  then show ?thesis using assms(1) worker_step.Mark [of s i e cx] by (auto simp: at_phase_def)
next
  case Marked
  then show ?thesis using assms(1) worker_step.Release [of s i cx] by (auto simp: at_phase_def)
qed (use assms in simp_all)

lemma stuck_finished:
  assumes "runner_ok cx keep s" and "\<And>i s'. \<not> worker_step cx i s s'" and "i < length (rn_phases s)"
  shows "rn_phases s ! i = Finished"
proof (rule ccontr)
  assume "rn_phases s ! i \<noteq> Finished"
  then have "rn_phases s ! i = At_Gate" using assms(2,3) beyond_gate_moves by metis
  then have gate: "at_phase s i At_Gate" using assms(3) by (simp add: at_phase_def)
  have "rn_permits s = 0" using worker_step.Gate_Closed [OF gate] worker_step.Acquire [OF gate] assms(2) by blast
  then have "length (filter holds_permit (rn_phases s)) > 0" using assms(1) by (simp add: runner_ok_def permits_ok_def)
  then obtain j where "j < length (rn_phases s)" "holds_permit (rn_phases s ! j)"
    by (auto simp: filter_empty_conv in_set_conv_nth)
  then show False using beyond_gate_moves [of j s cx] assms(2) by (cases "rn_phases s ! j") auto
qed

lemma stuck_all_done:
  assumes "runner_ok cx keep s" and "\<And>i s'. \<not> worker_step cx i s s'"
  shows "(\<forall>t \<in> set (rn_heap s). state_is_terminal (task_state t)) \<and> rn_permits s = max (cx_max_concurrent cx) 1 \<and> in_flight s = 0"
proof -
  have finished: "rn_phases s ! i = Finished" if "i < length (rn_phases s)" for i using stuck_finished [OF assms that] .
  then have terminal: "state_is_terminal (task_state (rn_heap s ! i))" if "i < length (rn_heap s)" for i
    using ok_phase [OF assms(1) that] that ok_length [OF assms(1)] by simp
  have "filter holds_permit (rn_phases s) = []" using finished by (auto simp: filter_empty_conv in_set_conv_nth)
  then have "rn_permits s = max (cx_max_concurrent cx) 1" using assms(1) by (simp add: runner_ok_def permits_ok_def)
  moreover have "in_flight s = 0"
    using terminal assms(1) by (auto simp: in_flight_def registry_active_def is_live_def runner_ok_def registry_ok_def Let_def filter_empty_conv)
  ultimately show ?thesis using terminal by (auto simp: in_set_conv_nth)
qed

lemma workers_wf: "wf {(s', s). runner_ok cx keep s \<and> workers_step cx s s'}"
  by (rule wf_subset [OF wf_measures]) (auto simp: workers_step_def dest!: worker_step_decreases simp del: in_measures)

lemma workers_come_to_rest:
  "runner_ok cx keep s \<Longrightarrow> \<exists>s'. (workers_step cx)\<^sup>*\<^sup>* s s' \<and> (\<forall>i s''. \<not> worker_step cx i s' s'')"
proof (induction s rule: wf_induct_rule [OF workers_wf [of cx keep]])
  case (1 s)
  show ?case
  proof (cases "\<exists>s'. workers_step cx s s'")
    case True
    then obtain s' where s': "workers_step cx s s'" by blast
    then have "runner_ok cx keep s'" using 1(2) worker_step_ok by (auto simp: workers_step_def)
    then obtain s'' where "(workers_step cx)\<^sup>*\<^sup>* s' s''" "\<forall>i t. \<not> worker_step cx i s'' t" using 1(1) [of s'] 1(2) s' by auto
    then show ?thesis using s' by (meson converse_rtranclp_into_rtranclp)
  next
    case False
    then show ?thesis by (intro exI [of _ s]) (auto simp: workers_step_def)
  qed
qed

section \<open>A sample\<close>

definition sample_context :: "bool \<Rightarrow> unit runner_context" where
  "sample_context gate_closed = \<lparr>cx_max_concurrent = 1, cx_queue_capacity = 1, cx_error_text = (\<lambda>e. ''failed''),
     cx_run_text = (\<lambda>d. ''finished''), cx_summary_warning = (\<lambda>d. None), cx_gate_closed = gate_closed\<rparr>"

lemma sample_queued:
  "\<exists>s :: (unit, unit) runner. reachable (sample_context c) 1 s \<and> at_phase s 0 At_Gate \<and> length (rn_heap s) = 1
     \<and> registry_get (rn_heap s) (rn_registry s) ''t'' = Inr 0 \<and> \<not> tk_cancelled (rn_heap s ! 0) \<and> rn_permits s = 1"
proof -
  let ?s = "runner_new (sample_context c) (registry_new 1) :: (unit, unit) runner"
  obtain s where s: "admit (sample_context c) (\<lambda>n. 5) ''t'' (Payload_Synthetic () None) ''m'' ''x'' ''map'' ?s = Inr (s, 0)"
    and "at_phase s 0 At_Gate" "length (rn_heap s) = 1" "registry_get (rn_heap s) (rn_registry s) ''t'' = Inr 0"
      "\<not> tk_cancelled (rn_heap s ! 0)" "rn_permits s = 1"
    by (simp add: admit_def try_admit_def registry_prune_def prune_results_def registry_active_def runner_new_def
        registry_new_def sample_context_def Let_def has_outcome_def task_new_def at_phase_def registry_get_def task_log_def emit_def)
  moreover from s have "reachable (sample_context c) 1 s"
    unfolding reachable_def by (intro r_into_rtranclp Of_Client Submit) simp_all
  ultimately show ?thesis by blast
qed

section \<open>Properties\<close>

text \<open>C5: every task in every reachable state is well formed: its state byte is that of a state; its stage,
  progress, error and result are those that belong to the state; a live task has published no terminal event
  and a terminal one exactly one, its last, which says how it ended; and a result is of the kind of the task, so no
  accessor hands a route out as a run.\<close>

theorem tasks_consistent:
  assumes "reachable cx keep s" and "i < length (rn_heap s)"
  shows "task_ok (rn_heap s ! i)
    \<and> (simulation_result (rn_heap s ! i) \<noteq> None \<longrightarrow> tk_kind (rn_heap s ! i) = Kind_Simulation)
    \<and> (route_result (rn_heap s ! i) \<noteq> None \<longrightarrow> tk_kind (rn_heap s ! i) \<in> {Kind_Route_Preview, Kind_Route_Plan})
    \<and> (map_result (rn_heap s ! i) \<noteq> None \<longrightarrow> tk_kind (rn_heap s ! i) = Kind_Synthetic_Map)"
proof -
  have ok: "task_ok (rn_heap s ! i)" using ok_task [OF reachable_ok [OF assms(1)] assms(2)] .
  then have "tk_outcome (rn_heap s ! i) = Some r \<Longrightarrow> outcome_fits (tk_kind (rn_heap s ! i)) r" for r
    by (cases "task_state (rn_heap s ! i)") (auto simp: task_ok_def)
  then show ?thesis using ok
    by (auto simp: simulation_result_def route_result_def map_result_def split: option.splits task_outcome.splits)
qed

theorem tasks_consistent_witness:
  "\<exists>s :: (unit, unit) runner. reachable (sample_context False) 1 s \<and> task_ok (rn_heap s ! 0)"
proof -
  obtain s :: "(unit, unit) runner" where "reachable (sample_context False) 1 s" "length (rn_heap s) = 1"
    using sample_queued by blast
  then show ?thesis using tasks_consistent [of "sample_context False" 1 s 0] by auto
qed

text \<open>C32: the lifecycle the service implements. In any step a task keeps its state, or moves from
  queued to running or cancelled, or from running to succeeded or failed; from queued to failed only when
  the gate was closed. Tasks are never lost, and what a step adds is queued. A task once running is never cancelled: whatever
  happens, its flag raised or not, it is running, succeeded or failed ever after. (The documentation has the flag
  of a running task honoured at the next stage boundary.)\<close>

theorem lifecycle_refined:
  assumes "reachable cx keep s" and "runner_step cx s s'" and "i < length (rn_heap s')"
  shows "length (rn_heap s) \<le> length (rn_heap s')
    \<and> (if i < length (rn_heap s)
       then task_state (rn_heap s' ! i) = task_state (rn_heap s ! i)
         \<or> may_follow (cx_gate_closed cx) (task_state (rn_heap s ! i)) (task_state (rn_heap s' ! i))
       else task_state (rn_heap s' ! i) = Queued)
    \<and> (task_state (rn_heap s' ! i) = Running \<longrightarrow>
         (\<forall>s''. (runner_step cx)\<^sup>*\<^sup>* s' s'' \<longrightarrow> task_state (rn_heap s'' ! i) \<in> {Running, Succeeded, Failed}))"
proof -
  have ok: "runner_ok cx keep s" by (rule reachable_ok [OF assms(1)])
  have "length (rn_heap s) \<le> length (rn_heap s')"
    using runner_step_follow [OF assms(2) ok] by (meson leI less_irrefl)
  moreover have "task_state (rn_heap s' ! i) = Queued" if new: "\<not> i < length (rn_heap s)"
    using added_queued [OF assms(2) ok _ assms(3)] new by simp
  ultimately show ?thesis
    using runner_step_follow [OF assms(2) ok] running_stays [OF _ runner_step_ok [OF assms(2) ok] assms(3)] by auto
qed

theorem lifecycle_refined_witness:
  "\<exists>s s' :: (unit, unit) runner. runner_step (sample_context True) s s' \<and> length (rn_heap s) \<le> length (rn_heap s')
     \<and> task_state (rn_heap s' ! 0) \<in> {Queued, Failed}"
proof -
  obtain s :: "(unit, unit) runner" where s: "reachable (sample_context True) 1 s" "at_phase s 0 At_Gate" "length (rn_heap s) = 1"
    using sample_queued by blast
  let ?s = "advance 0 Finished (rn_permits s) (mark_failed (\<lambda>n. 7) ''internal'' ''the task gate was closed'') s"
  have "worker_step (sample_context True) 0 s ?s" by (rule Gate_Closed [OF s(2)]) (simp add: sample_context_def)
  then have step: "runner_step (sample_context True) s ?s" by (rule Of_Worker)
  moreover have "0 < length (rn_heap ?s)" "task_state (rn_heap ?s ! 0) = Failed" using s(3) by (simp_all add: advance_def task_fields)
  ultimately show ?thesis using lifecycle_refined [OF s(1) step] by (intro exI [of _ s] exI [of _ ?s]) auto
qed

text \<open>C6: the limits hold in every reachable state. At most \<open>max_concurrent\<close> tasks run (one, if it is zero) and every
  permit is free or held by exactly one worker; at most \<open>max_concurrent + queue_capacity\<close> tasks are in flight;
  the registry is bounded, holds every live task, and the results it holds are at most \<open>keep_results\<close> plus one for
  each task in flight when it was last pruned.\<close>

theorem limits_hold:
  assumes "reachable cx keep s"
  shows "rn_permits s + length (filter holds_permit (rn_phases s)) = max (cx_max_concurrent cx) 1
    \<and> length (filter (\<lambda>t. task_state t = Running) (rn_heap s)) \<le> max (cx_max_concurrent cx) 1
    \<and> in_flight s \<le> cx_max_concurrent cx + cx_queue_capacity cx
    \<and> length (rg_tasks (rn_registry s)) \<le> max (rg_keep_tasks (registry_new keep)) (cx_max_concurrent cx + cx_queue_capacity cx)
    \<and> held (rn_heap s) (rn_registry s) + in_flight s \<le> max keep 1 + cx_max_concurrent cx + cx_queue_capacity cx
    \<and> (\<forall>a < length (rn_heap s). is_live (rn_heap s) a \<longrightarrow> a \<in> set (rg_tasks (rn_registry s)))"
proof -
  have ok: "runner_ok cx keep s" by (rule reachable_ok [OF assms])
  have "{i. i < length (rn_heap s) \<and> task_state (rn_heap s ! i) = Running}
      \<subseteq> {i. i < length (rn_phases s) \<and> holds_permit (rn_phases s ! i)}"
  proof safe
    fix i
    assume i: "i < length (rn_heap s)" and running: "task_state (rn_heap s ! i) = Running"
    show "i < length (rn_phases s)" using i ok_length [OF ok] by simp
    show "holds_permit (rn_phases s ! i)" using ok_phase [OF ok i] running by (cases "rn_phases s ! i") simp_all
  qed
  then have "length (filter (\<lambda>t. task_state t = Running) (rn_heap s)) \<le> length (filter holds_permit (rn_phases s))"
    unfolding length_filter_conv_card by (intro card_mono) auto
  then show ?thesis
    using ok unfolding runner_ok_def permits_ok_def registry_ok_def Let_def in_flight_def by (auto simp: registry_new_def Let_def)
qed

text \<open>One task running on the only permit.\<close>

lemma sample_running:
  "\<exists>s :: (unit, unit) runner. reachable (sample_context False) 1 s \<and> length (rn_heap s) = 1 \<and> task_state (rn_heap s ! 0) = Running
     \<and> rn_permits s = 0"
proof -
  obtain s :: "(unit, unit) runner" where s: "reachable (sample_context False) 1 s" "at_phase s 0 At_Gate" "length (rn_heap s) = 1"
    "\<not> tk_cancelled (rn_heap s ! 0)" "rn_permits s = 1"
    using sample_queued by blast
  let ?a = "advance 0 Has_Permit (rn_permits s - 1) id s"
  let ?b = "advance 0 May_Start (rn_permits ?a) id ?a"
  let ?c = "advance 0 (In_Body 0) (rn_permits ?b) (mark_running (\<lambda>n. 7)) ?b"
  have len: "0 < length (rn_phases s)" using s(2) by (simp add: at_phase_def)
  have "worker_step (sample_context False) 0 s ?a" by (rule Acquire [OF s(2)]) (simp_all add: sample_context_def s(5))
  moreover have "worker_step (sample_context False) 0 ?a ?b" by (rule Go_On) (use s(3,4) len in \<open>simp_all add: at_phase_def advance_def\<close>)
  moreover have "worker_step (sample_context False) 0 ?b ?c" by (rule Start) (use len in \<open>simp add: at_phase_def advance_def\<close>)
  ultimately have "(runner_step (sample_context False))\<^sup>*\<^sup>* s ?c" by (meson Of_Worker converse_rtranclp_into_rtranclp rtranclp.rtrancl_refl)
  then have "reachable (sample_context False) 1 ?c" using s(1) unfolding reachable_def by (rule rtranclp_trans [rotated])
  moreover have "length (rn_heap ?c) = 1" "task_state (rn_heap ?c ! 0) = Running" "rn_permits ?c = 0"
    using s(3,5) by (simp_all add: advance_def task_fields)
  ultimately show ?thesis by blast
qed

theorem limits_hold_witness:
  "\<exists>s :: (unit, unit) runner. reachable (sample_context False) 1 s \<and> map task_state (rn_heap s) = [Running] \<and> rn_permits s = 0
     \<and> length (filter holds_permit (rn_phases s)) = 1 \<and> in_flight s \<le> 2 \<and> rg_tasks (rn_registry s) \<noteq> []"
proof -
  obtain s :: "(unit, unit) runner" where s: "reachable (sample_context False) 1 s" "length (rn_heap s) = 1"
    "task_state (rn_heap s ! 0) = Running" "rn_permits s = 0"
    using sample_running by blast
  have "is_live (rn_heap s) 0" by (simp add: is_live_def s(3))
  then have "rg_tasks (rn_registry s) \<noteq> []" using limits_hold [OF s(1)] s(2) by force
  moreover have "map task_state (rn_heap s) = [Running]" using s(2,3) by (simp add: length_Suc_conv) auto
  ultimately show ?thesis using limits_hold [OF s(1)] s(1,4) by (auto simp: sample_context_def)
qed

text \<open>C33: a task cancelled while it waits at the gate is never run: in whatever state the runner gets to, it is
  queued, cancelled, or failed because the gate was closed.\<close>

theorem cancelled_never_runs:
  assumes "reachable cx keep s" and "at_phase s i At_Gate" and "tk_cancelled (rn_heap s ! i)"
    and "(runner_step cx)\<^sup>*\<^sup>* s s'"
  shows "task_state (rn_heap s' ! i) \<in> {Queued, Cancelled, Failed}"
proof -
  have ok: "runner_ok cx keep s" by (rule reachable_ok [OF assms(1)])
  have "skipped s i" using assms(2,3) ok_length [OF ok] by (auto simp: skipped_def at_phase_def)
  then have sk: "skipped s' i" by (rule skipped_steps [OF assms(4) ok])
  then have "phase_ok (rn_phases s' ! i) (rn_heap s' ! i)"
    using ok_phase [OF steps_ok [OF assms(4) ok]] by (simp add: skipped_def)
  then show ?thesis using sk by (auto simp: skipped_def)
qed

theorem cancelled_never_runs_witness:
  "\<exists>s :: (unit, unit) runner. tk_cancelled (rn_heap s ! 0) \<and> task_state (rn_heap s ! 0) \<in> {Queued, Cancelled, Failed}"
proof -
  obtain s :: "(unit, unit) runner" where s: "reachable (sample_context False) 1 s" "at_phase s 0 At_Gate" "length (rn_heap s) = 1"
    "registry_get (rn_heap s) (rn_registry s) ''t'' = Inr 0"
    using sample_queued by blast
  have queued: "task_state (rn_heap s ! 0) = Queued"
    using ok_phase [OF reachable_ok [OF s(1)], of 0] s(2,3) by (simp add: at_phase_def)
  let ?c = "s\<lparr>rn_cancels := 0 # rn_cancels s\<rparr>"
  let ?s = "?c\<lparr>rn_heap := (rn_heap ?c)[0 := store_cancelled (rn_heap ?c ! 0)], rn_cancels := remove1 0 (rn_cancels ?c)\<rparr>"
  have "runner_step (sample_context False) s ?c" by (rule Of_Client [OF Cancel_Check [OF s(4)]]) (simp add: may_cancel_def queued)
  moreover have "runner_step (sample_context False) ?c ?s" by (rule Of_Client [OF Cancel_Store]) simp
  ultimately have r: "reachable (sample_context False) 1 ?s" using s(1) unfolding reachable_def by (meson rtranclp.rtrancl_into_rtrancl)
  have flag: "tk_cancelled (rn_heap ?s ! 0)" using s(3) by (simp add: store_cancelled_def)
  have "at_phase ?s 0 At_Gate" using s(2) by (simp add: at_phase_def)
  then show ?thesis using cancelled_never_runs [OF r _ flag rtranclp.rtrancl_refl] flag by blast
qed

text \<open>C4: every task is finished in the end. From any reachable state the workers come to rest, and wherever they
  come to rest every task is terminal, no task is in flight and every permit is free: no worker waits
  forever at the gate and no path through a worker loses its permit.\<close>

theorem all_tasks_finish:
  assumes "reachable cx keep s"
  shows "(\<exists>s'. (workers_step cx)\<^sup>*\<^sup>* s s' \<and> (\<forall>s''. \<not> workers_step cx s' s''))
    \<and> (\<forall>s'. (workers_step cx)\<^sup>*\<^sup>* s s' \<and> (\<forall>s''. \<not> workers_step cx s' s'') \<longrightarrow>
         (\<forall>t \<in> set (rn_heap s'). state_is_terminal (task_state t)) \<and> in_flight s' = 0
         \<and> rn_permits s' = max (cx_max_concurrent cx) 1)"
proof (intro conjI allI impI)
  have ok: "runner_ok cx keep s" by (rule reachable_ok [OF assms])
  show "\<exists>s'. (workers_step cx)\<^sup>*\<^sup>* s s' \<and> (\<forall>s''. \<not> workers_step cx s' s'')"
    using workers_come_to_rest [OF ok] by (auto simp: workers_step_def)
  fix s'
  assume rest: "(workers_step cx)\<^sup>*\<^sup>* s s' \<and> (\<forall>s''. \<not> workers_step cx s' s'')"
  then have "runner_ok cx keep s'" using steps_ok [OF workers_runner ok] by blast
  then have "(\<forall>t \<in> set (rn_heap s'). state_is_terminal (task_state t)) \<and> rn_permits s' = max (cx_max_concurrent cx) 1 \<and> in_flight s' = 0"
    using rest by (intro stuck_all_done) (auto simp: workers_step_def)
  then show "\<forall>t \<in> set (rn_heap s'). state_is_terminal (task_state t)" "in_flight s' = 0"
    "rn_permits s' = max (cx_max_concurrent cx) 1" by blast+
qed

theorem all_tasks_finish_witness:
  "\<exists>s s' :: (unit, unit) runner. reachable (sample_context False) 1 s \<and> length (rn_heap s) = 1
     \<and> (workers_step (sample_context False))\<^sup>*\<^sup>* s s' \<and> in_flight s' = 0 \<and> rn_permits s' = 1"
proof -
  obtain s :: "(unit, unit) runner" where s: "reachable (sample_context False) 1 s" "length (rn_heap s) = 1"
    using sample_queued by blast
  have "max (cx_max_concurrent (sample_context False)) 1 = 1" by (simp add: sample_context_def)
  then show ?thesis using all_tasks_finish [OF s(1)] s by metis
qed

end
