(* ===== verification/Svc_Stores.thy ===== *)
theory Svc_Stores
  imports Svc_Lifecycle
begin

text \<open>
  One task store by store (\<open>crates/service/src/task/mod.rs\<close>, \<open>task/queue.rs\<close>). \<open>Svc_Runner\<close> takes a call that marks a task
  as one step; here it is the list of its stores and publications, and between any two of them clients may find the
  task live, raise its cancellation flag, or evict its result. Every thread sees the stores in the order they
  are made. The lemmas show that the two views agree on what a call does in the end, and what is fixed from
  the moment the state is terminal.
\<close>

section \<open>The calls, taken apart\<close>

type_synonym ('q, 'd) store = "('q, 'd) task \<Rightarrow> ('q, 'd) task"

definition run_stores :: "('q, 'd) store list \<Rightarrow> ('q, 'd) task \<Rightarrow> ('q, 'd) task" where
  "run_stores fs t = fold (\<lambda>f t. f t) fs t"

definition mark_running_stores :: "(nat \<Rightarrow> int) \<Rightarrow> ('q, 'd) store list" where
  "mark_running_stores clk =
     [\<lambda>t. t\<lparr>tk_started_at_ms := clk 0\<rparr>] @ commit_stores (clk 1) Running STAGE_RUNNING None @ [emit_state (\<lambda>n. clk (n + 2))]"

definition mark_succeeded_stores :: "(nat \<Rightarrow> int) \<Rightarrow> 'd task_outcome \<Rightarrow> ('q, 'd) store list" where
  "mark_succeeded_stores clk outcome =
     [task_release, \<lambda>t. t\<lparr>tk_outcome := Some outcome\<rparr>] @ commit_stores (clk 0) Succeeded STAGE_DONE (Some ONE)
     @ [emit_state (\<lambda>n. clk (n + 1)), \<lambda>t. emit (clk 3) (Event_Done ''succeeded'' (result_url t)) t]"

definition mark_failed_stores :: "(nat \<Rightarrow> int) \<Rightarrow> string \<Rightarrow> string \<Rightarrow> ('q, 'd) store list" where
  "mark_failed_stores clk kind message =
     [task_release, \<lambda>t. t\<lparr>tk_error := Some (kind, message)\<rparr>] @ commit_stores (clk 0) Failed STAGE_FAILED None
     @ [emit_state (\<lambda>n. clk (n + 1)), emit (clk 3) (Event_Error kind message)]"

definition mark_cancelled_stores :: "(nat \<Rightarrow> int) \<Rightarrow> ('q, 'd) store list" where
  "mark_cancelled_stores clk =
     commit_stores (clk 0) Cancelled STAGE_CANCELLED None
     @ [emit_state (\<lambda>n. clk (n + 1)), emit (clk 3) (Event_Error ''cancelled'' ''the task was cancelled'')]"

definition observe_stores :: "(nat \<Rightarrow> int) \<Rightarrow> run_stage \<Rightarrow> string \<Rightarrow> ('q, 'd) store list" where
  "observe_stores clk stage msg =
     [\<lambda>t. t\<lparr>tk_stage := stage_name stage\<rparr>, \<lambda>t. t\<lparr>tk_progress := stage_fraction stage\<rparr>,
      \<lambda>t. emit (clk 1) (Event_Stage (stage_name stage) (Some (stage_fraction stage))
             (case elapsed_s (clk 0) t of None \<Rightarrow> 0 | Some e \<Rightarrow> e)) t]
     @ (if msg \<noteq> [] then [task_log (\<lambda>n. clk (n + 2)) ''info'' (stage_name stage @ '': '' @ msg)] else [])"

lemma stores_are_calls:
  "run_stores (mark_running_stores clk) t = mark_running clk t"
  "run_stores (mark_succeeded_stores clk outcome) t = mark_succeeded clk outcome t"
  "run_stores (mark_failed_stores clk kind message) t = mark_failed clk kind message t"
  "run_stores (mark_cancelled_stores clk) t = mark_cancelled clk t"
  "run_stores (observe_stores clk stage msg) t = observe clk stage msg t"
  by (simp_all add: run_stores_def mark_running_stores_def mark_succeeded_stores_def mark_failed_stores_def
      mark_cancelled_stores_def observe_stores_def mark_running_def mark_succeeded_def mark_failed_def mark_cancelled_def
      observe_def commit_def Let_def)

text \<open>How a worker marks its task when the body is over, and what it and the body log before.\<close>

inductive report :: "('q, 'd) store list \<Rightarrow> bool" where
  Report_None: "report []"
| Report_Observe: "report fs \<Longrightarrow> report (observe_stores clk stage msg @ fs)"
| Report_Message: "report fs \<Longrightarrow> report (task_log clk level message # fs)"

text \<open>Everything \<open>execute\<close> does to its task, on each of its paths: at a closed gate, cancelled before the start,
  succeeded, or failed by an error, a panic or an abort.\<close>

inductive worker_script :: "('q, 'd) store list \<Rightarrow> bool" where
  Script_Gate: "worker_script (mark_failed_stores clk ''internal'' ''the task gate was closed'')"
| Script_Cancelled: "worker_script (mark_cancelled_stores clk)"
| Script_Succeeded: "report fs \<Longrightarrow> worker_script (mark_running_stores clk @ fs @ mark_succeeded_stores clk' outcome)"
| Script_Failed: "report fs \<Longrightarrow> worker_script (mark_running_stores clk @ fs @ mark_failed_stores clk' kind message)"

section \<open>Any interleaving\<close>

text \<open>A task, the stores its worker has yet to make, and the clients that have found it live and have yet to
  raise its flag.\<close>

record ('q, 'd) task_run =
  tr_task :: "('q, 'd) task"
  tr_stores :: "('q, 'd) store list"
  tr_cancels :: nat

inductive task_step :: "('q, 'd) task_run \<Rightarrow> ('q, 'd) task_run \<Rightarrow> bool" where
  Store: "tr_stores r = f # fs \<Longrightarrow> task_step r (r\<lparr>tr_task := f (tr_task r), tr_stores := fs\<rparr>)"
| Find_Live: "may_cancel (tr_task r) \<Longrightarrow> task_step r (r\<lparr>tr_cancels := Suc (tr_cancels r)\<rparr>)"
| Raise_Flag: "tr_cancels r = Suc n \<Longrightarrow> task_step r (r\<lparr>tr_task := store_cancelled (tr_task r), tr_cancels := n\<rparr>)"
| Evict: "task_step r (r\<lparr>tr_task := (tr_task r)\<lparr>tk_outcome := None\<rparr>\<rparr>)"

inductive task_reachable :: "('q, 'd) task_run \<Rightarrow> bool" where
  Admitted: "worker_script fs \<Longrightarrow> task_reachable
    \<lparr>tr_task = task_log clk ''info'' message (task_new now ident payload map_id mode), tr_stores = fs, tr_cancels = 0\<rparr>"
| Stepped: "task_reachable r \<Longrightarrow> task_step r r' \<Longrightarrow> task_reachable r'"

section \<open>The shape of what is left to do\<close>

definition live_store :: "('q, 'd) store \<Rightarrow> bool" where
  "live_store f \<longleftrightarrow> (\<forall>t. \<not> state_is_terminal (task_state t) \<longrightarrow> \<not> state_is_terminal (task_state (f t)))
     \<and> (\<forall>t. terminal_events (f t) = terminal_events t \<and> length (tk_events t) \<le> length (tk_events (f t)))"

text \<open>An event that announces an end: the one published when a task ends so, or, for a cancelled task, the one a
  stream makes from its state.\<close>

fun announces :: "task_state \<Rightarrow> event_dto \<Rightarrow> bool" where
  "announces Succeeded (Event_Done s _) \<longleftrightarrow> s = ''succeeded''"
| "announces Failed (Event_Error _ _) \<longleftrightarrow> True"
| "announces Cancelled (Event_Error k _) \<longleftrightarrow> k = ''cancelled''"
| "announces Cancelled (Event_Done s _) \<longleftrightarrow> s = ''cancelled''"
| "announces _ _ \<longleftrightarrow> False"

lemma announces_terminal: "announces st e \<Longrightarrow> event_is_terminal e" "announces st e \<Longrightarrow> state_is_terminal st"
  by (cases st; cases e; simp)+

definition closing :: "('q, 'd) store list \<Rightarrow> bool" where
  "closing fs \<longleftrightarrow> (\<exists>st clk now e. fs = [\<lambda>t. t\<lparr>tk_state := state_byte st\<rparr>, emit_state clk, \<lambda>t. emit now (e t) t]
     \<and> (\<forall>t. announces st (e t)))"

lemma live_stores:
  "live_store task_release" "live_store (\<lambda>t. t\<lparr>tk_outcome := v\<rparr>)" "live_store (\<lambda>t. t\<lparr>tk_error := e\<rparr>)"
  "live_store (\<lambda>t. t\<lparr>tk_stage := s\<rparr>)" "live_store (\<lambda>t. t\<lparr>tk_progress := p\<rparr>)" "live_store (\<lambda>t. t\<lparr>tk_started_at_ms := n\<rparr>)"
  "live_store (\<lambda>t. t\<lparr>tk_finished_at_ms := n\<rparr>)" "live_store (\<lambda>t. t\<lparr>tk_state := state_byte Running\<rparr>)"
  "live_store (emit_state clk)" "live_store (task_log clk level message)"
  "live_store (\<lambda>t. emit now (Event_Stage (sn t) (pr t) (el t)) t)"
  by (simp_all add: live_store_def task_ops)

lemma live_lists:
  "list_all live_store (mark_running_stores clk)" "list_all live_store (observe_stores clk stage msg)"
  "report fs \<Longrightarrow> list_all live_store fs"
proof -
  show "list_all live_store (mark_running_stores clk)"
    by (simp add: mark_running_stores_def commit_stores_def live_stores del: state_byte.simps)
  show obs: "list_all live_store (observe_stores clk stage msg)" for clk stage msg
    by (simp add: observe_stores_def live_stores)
  show "report fs \<Longrightarrow> list_all live_store fs"
    by (induction rule: report.induct) (simp_all add: obs live_stores)
qed

lemma closing_stores:
  "(\<And>t. announces st (e t)) \<Longrightarrow> closing [\<lambda>t. t\<lparr>tk_state := state_byte st\<rparr>, emit_state clk, \<lambda>t. emit now (e t) t]"
  "announces st e' \<Longrightarrow> closing [\<lambda>t. t\<lparr>tk_state := state_byte st\<rparr>, emit_state clk, emit now e']"
proof -
  show "(\<And>t. announces st (e t)) \<Longrightarrow> closing [\<lambda>t. t\<lparr>tk_state := state_byte st\<rparr>, emit_state clk, \<lambda>t. emit now (e t) t]" for e
    unfolding closing_def by (rule exI [of _ st], rule exI [of _ clk], rule exI [of _ now], rule exI [of _ e]) blast
  from this [of "\<lambda>_. e'"] show "announces st e' \<Longrightarrow> closing [\<lambda>t. t\<lparr>tk_state := state_byte st\<rparr>, emit_state clk, emit now e']" by simp
qed

lemma marks_close:
  "\<exists>pre. mark_succeeded_stores clk outcome = fst pre @ snd pre \<and> list_all live_store (fst pre) \<and> closing (snd pre)"
  "\<exists>pre. mark_failed_stores clk kind message = fst pre @ snd pre \<and> list_all live_store (fst pre) \<and> closing (snd pre)"
  "\<exists>pre. mark_cancelled_stores clk = fst pre @ snd pre \<and> list_all live_store (fst pre) \<and> closing (snd pre)"
proof -
  let ?pre = "\<lambda>n stage p. [\<lambda>t. t\<lparr>tk_stage := stage\<rparr>, \<lambda>t. t\<lparr>tk_progress := (case p of Some p \<Rightarrow> p | None \<Rightarrow> NO_PROGRESS)\<rparr>,
    \<lambda>t. t\<lparr>tk_finished_at_ms := n\<rparr>]"
  have split: "commit_stores now st stage p = ?pre now stage p @ [\<lambda>t. t\<lparr>tk_state := state_byte st\<rparr>]" if "state_is_terminal st" for now st stage p
    using that by (simp add: commit_stores_def)
  show "\<exists>pre. mark_succeeded_stores clk outcome = fst pre @ snd pre \<and> list_all live_store (fst pre) \<and> closing (snd pre)"
    by (rule exI [of _ "([task_release, \<lambda>t. t\<lparr>tk_outcome := Some outcome\<rparr>] @ ?pre (clk 0) STAGE_DONE (Some ONE),
          [\<lambda>t. t\<lparr>tk_state := state_byte Succeeded\<rparr>, emit_state (\<lambda>n. clk (n + 1)),
           \<lambda>t. emit (clk 3) (Event_Done ''succeeded'' (result_url t)) t])"])
      (simp add: mark_succeeded_stores_def split live_stores closing_stores del: state_byte.simps)
  show "\<exists>pre. mark_failed_stores clk kind message = fst pre @ snd pre \<and> list_all live_store (fst pre) \<and> closing (snd pre)"
    by (rule exI [of _ "([task_release, \<lambda>t. t\<lparr>tk_error := Some (kind, message)\<rparr>] @ ?pre (clk 0) STAGE_FAILED None,
          [\<lambda>t. t\<lparr>tk_state := state_byte Failed\<rparr>, emit_state (\<lambda>n. clk (n + 1)),
           \<lambda>t. emit (clk 3) (Event_Error kind message) t])"])
      (simp add: mark_failed_stores_def split live_stores closing_stores del: state_byte.simps)
  show "\<exists>pre. mark_cancelled_stores clk = fst pre @ snd pre \<and> list_all live_store (fst pre) \<and> closing (snd pre)"
    by (rule exI [of _ "(?pre (clk 0) STAGE_CANCELLED None,
          [\<lambda>t. t\<lparr>tk_state := state_byte Cancelled\<rparr>, emit_state (\<lambda>n. clk (n + 1)),
           \<lambda>t. emit (clk 3) (Event_Error ''cancelled'' ''the task was cancelled'') t])"])
      (simp add: mark_cancelled_stores_def split live_stores closing_stores del: state_byte.simps)
qed

lemma script_shape:
  "worker_script fs \<Longrightarrow> \<exists>pre post. fs = pre @ post \<and> list_all live_store pre \<and> closing post"
proof (induction rule: worker_script.induct)
  case (Script_Gate clk)
  then show ?case using marks_close(2) by blast
next
  case (Script_Cancelled clk)
  then show ?case using marks_close(3) by blast
next
  case (Script_Succeeded fs clk clk' outcome)
  obtain p where "(mark_succeeded_stores clk' outcome :: ('a, 'b) store list) = fst p @ snd p" "list_all live_store (fst p)" "closing (snd p)"
    using marks_close(1) [of clk' outcome] by blast
  then show ?case using live_lists(1) live_lists(3) [OF Script_Succeeded]
    by (intro exI [of _ "mark_running_stores clk @ fs @ fst p"] exI [of _ "snd p"]) simp
next
  case (Script_Failed fs clk clk' kind message)
  obtain p where "(mark_failed_stores clk' kind message :: ('a, 'b) store list) = fst p @ snd p" "list_all live_store (fst p)" "closing (snd p)"
    using marks_close(2) [of clk' kind message] by blast
  then show ?case using live_lists(1) live_lists(3) [OF Script_Failed]
    by (intro exI [of _ "mark_running_stores clk @ fs @ fst p"] exI [of _ "snd p"]) simp
qed

text \<open>Where a task is between its admission and the last store of its worker.\<close>

definition in_progress :: "('q, 'd) task_run \<Rightarrow> bool" where
  "in_progress r \<longleftrightarrow> \<not> state_is_terminal (task_state (tr_task r)) \<and> terminal_events (tr_task r) = []
     \<and> (\<exists>pre post. tr_stores r = pre @ post \<and> list_all live_store pre \<and> closing post)"

definition terminal_unsaid :: "('q, 'd) task_run \<Rightarrow> bool" where
  "terminal_unsaid r \<longleftrightarrow> state_is_terminal (task_state (tr_task r)) \<and> terminal_events (tr_task r) = []
     \<and> (\<exists>clk now e. (tr_stores r = [emit_state clk, \<lambda>t. emit now (e t) t] \<or> tr_stores r = [\<lambda>t. emit now (e t) t])
          \<and> (\<forall>t. announces (task_state (tr_task r)) (e t)))"

definition terminal_said :: "('q, 'd) task_run \<Rightarrow> bool" where
  "terminal_said r \<longleftrightarrow> state_is_terminal (task_state (tr_task r)) \<and> tr_stores r = []
     \<and> tk_events (tr_task r) \<noteq> [] \<and> terminal_events (tr_task r) = [last (tk_events (tr_task r))]
     \<and> announces (task_state (tr_task r)) (ev_event (last (tk_events (tr_task r))))"

lemma flag_and_evict [simp]:
  "task_state (store_cancelled t) = task_state t" "terminal_events (store_cancelled t) = terminal_events t"
  "tk_events (store_cancelled t) = tk_events t"
  "task_state (t\<lparr>tk_outcome := v\<rparr>) = task_state t" "terminal_events (t\<lparr>tk_outcome := v\<rparr>) = terminal_events t"
  by (simp_all add: store_cancelled_def task_ops)

lemma emit_fields [simp]:
  "task_state (emit now e t) = task_state t" "task_state (emit_state clk t) = task_state t"
  "terminal_events (emit_state clk t) = terminal_events t"
  "tk_events (emit now e t) = tk_events t @ [\<lparr>ev_at_ms = now, ev_event = e\<rparr>]"
  by (simp_all add: task_ops)

lemma in_progress_store:
  assumes "in_progress r" and "tr_stores r = f # fs" and "r' = r\<lparr>tr_task := f (tr_task r), tr_stores := fs\<rparr>"
  shows "in_progress r' \<or> terminal_unsaid r'"
proof -
  obtain pre post where shape: "tr_stores r = pre @ post" "list_all live_store pre" "closing post"
    and live: "\<not> state_is_terminal (task_state (tr_task r))" "terminal_events (tr_task r) = []"
    using assms(1) by (auto simp: in_progress_def)
  show ?thesis
  proof (cases pre)
    case (Cons g gs)
    then have "f = g" "fs = gs @ post" "live_store g" "list_all live_store gs" using shape assms(2) by simp_all
    then have "in_progress r'" using live shape(3) by (auto simp: in_progress_def assms(3) live_store_def)
    then show ?thesis ..
  next
    case Nil
    then obtain st clk now e where "f = (\<lambda>t. t\<lparr>tk_state := state_byte st\<rparr>)" "fs = [emit_state clk, \<lambda>t. emit now (e t) t]"
      "\<forall>t. announces st (e t)"
      using shape assms(2) by (auto simp: closing_def)
    moreover from this have "state_is_terminal st" using announces_terminal(2) by blast
    ultimately have "terminal_unsaid r'"
      using live(2) by (auto simp: terminal_unsaid_def assms(3) task_state_def terminal_events_def state_from_byte del: state_byte.simps)
    then show ?thesis ..
  qed
qed

lemma terminal_unsaid_store:
  assumes "terminal_unsaid r" and "tr_stores r = f # fs" and "r' = r\<lparr>tr_task := f (tr_task r), tr_stores := fs\<rparr>"
  shows "terminal_unsaid r' \<or> terminal_said r'"
proof -
  obtain clk now e where e: "tr_stores r = [emit_state clk, \<lambda>t. emit now (e t) t] \<or> tr_stores r = [\<lambda>t. emit now (e t) t]"
      "\<forall>t. announces (task_state (tr_task r)) (e t)"
    and t: "state_is_terminal (task_state (tr_task r))" "terminal_events (tr_task r) = []"
    using assms(1) by (auto simp: terminal_unsaid_def)
  from e(1) show ?thesis
  proof
    assume "tr_stores r = [emit_state clk, \<lambda>t. emit now (e t) t]"
    then have "terminal_unsaid r'" using assms(2,3) e(2) t by (auto simp: terminal_unsaid_def)
    then show ?thesis ..
  next
    assume "tr_stores r = [\<lambda>t. emit now (e t) t]"
    moreover from e(2) have "event_is_terminal (e (tr_task r))" using announces_terminal(1) by blast
    ultimately have "terminal_said r'" using assms(2,3) e(2) t
      by (simp add: terminal_said_def terminal_events_def envelope_is_terminal_def)
    then show ?thesis ..
  qed
qed

lemma phases_shared:
  assumes "tr_stores r' = tr_stores r" and "task_state (tr_task r') = task_state (tr_task r)"
    and "tk_events (tr_task r') = tk_events (tr_task r)"
  shows "in_progress r' = in_progress r" "terminal_unsaid r' = terminal_unsaid r" "terminal_said r' = terminal_said r"
  using assms by (simp_all add: in_progress_def terminal_unsaid_def terminal_said_def terminal_events_def)

text \<open>A step keeps a task where it is or takes it to the next place.\<close>

lemma task_step_place:
  assumes "task_step r r'"
  shows "in_progress r \<Longrightarrow> in_progress r' \<or> terminal_unsaid r'" and "terminal_unsaid r \<Longrightarrow> terminal_unsaid r' \<or> terminal_said r'"
    and "terminal_said r \<Longrightarrow> terminal_said r'"
proof -
  have "(in_progress r \<longrightarrow> in_progress r' \<or> terminal_unsaid r') \<and> (terminal_unsaid r \<longrightarrow> terminal_unsaid r' \<or> terminal_said r')
      \<and> (terminal_said r \<longrightarrow> terminal_said r')"
    using assms
  proof cases
    case (Store f fs)
    then show ?thesis using in_progress_store [OF _ Store(2,1)] terminal_unsaid_store [OF _ Store(2,1)]
      by (auto simp: terminal_said_def)
  next
    case Find_Live
    then show ?thesis using phases_shared [of r' r] by simp
  next
    case (Raise_Flag n)
    then show ?thesis using phases_shared [of r' r] by simp
  next
    case Evict
    then show ?thesis using phases_shared [of r' r] by simp
  qed
  then show "in_progress r \<Longrightarrow> in_progress r' \<or> terminal_unsaid r'" "terminal_unsaid r \<Longrightarrow> terminal_unsaid r' \<or> terminal_said r'"
    "terminal_said r \<Longrightarrow> terminal_said r'" by blast+
qed

lemma task_reachable_place: "task_reachable r \<Longrightarrow> in_progress r \<or> terminal_unsaid r \<or> terminal_said r"
proof (induction rule: task_reachable.induct)
  case (Admitted fs clk message now ident payload map_id mode)
  then show ?case using script_shape [OF Admitted] by (simp add: in_progress_def task_fields)
next
  case (Stepped r r')
  then show ?case using task_step_place [OF Stepped(2)] by blast
qed

text \<open>What a terminal task has in common with what it was: everything but its result, which may be evicted, its
  flag, which may be raised, and its events.\<close>

definition same_end :: "('q, 'd) task \<Rightarrow> ('q, 'd) task \<Rightarrow> bool" where
  "same_end t t' \<longleftrightarrow> tk_state t' = tk_state t \<and> tk_stage t' = tk_stage t \<and> tk_progress t' = tk_progress t
     \<and> tk_error t' = tk_error t \<and> tk_started_at_ms t' = tk_started_at_ms t \<and> tk_finished_at_ms t' = tk_finished_at_ms t
     \<and> tk_payload t' = tk_payload t \<and> tk_kind t' = tk_kind t \<and> tk_id t' = tk_id t
     \<and> (tk_outcome t' = tk_outcome t \<or> tk_outcome t' = None)"

lemma same_end_simps [simp]:
  "same_end t t" "same_end t (store_cancelled t)" "same_end t (t\<lparr>tk_outcome := None\<rparr>)"
  "same_end t (emit now e t)" "same_end t (emit_state clk t)"
  by (simp_all add: same_end_def store_cancelled_def task_ops)

lemma same_end_trans: "same_end t u \<Longrightarrow> same_end u v \<Longrightarrow> same_end t v"
  by (auto simp: same_end_def)

lemma task_step_same_end:
  assumes "task_step r r'" and "terminal_unsaid r \<or> terminal_said r"
  shows "same_end (tr_task r) (tr_task r')"
    and "\<exists>new. tk_events (tr_task r') = tk_events (tr_task r) @ new \<and> length new + length (tr_stores r') = length (tr_stores r)"
proof -
  have "same_end (tr_task r) (tr_task r')
      \<and> (\<exists>new. tk_events (tr_task r') = tk_events (tr_task r) @ new \<and> length new + length (tr_stores r') = length (tr_stores r))"
    using assms(1)
  proof cases
    case (Store f fs)
    then have "terminal_unsaid r" using assms(2) by (auto simp: terminal_said_def)
    then obtain clk now e where "tr_stores r = [emit_state clk, \<lambda>t. emit now (e t) t] \<or> tr_stores r = [\<lambda>t. emit now (e t) t]"
      by (auto simp: terminal_unsaid_def)
    then show ?thesis using Store by (auto simp: emit_state_def emit_def same_end_def task_ops)
  qed simp_all
  then show "same_end (tr_task r) (tr_task r')"
    and "\<exists>new. tk_events (tr_task r') = tk_events (tr_task r) @ new \<and> length new + length (tr_stores r') = length (tr_stores r)"
    by blast+
qed

lemma task_step_grow:
  assumes "task_step r r'" and "in_progress r \<or> terminal_unsaid r \<or> terminal_said r"
  shows "length (tk_events (tr_task r)) \<le> length (tk_events (tr_task r'))"
    and "terminal_events (tr_task r) = [] \<Longrightarrow> terminal_events (tr_task r') \<noteq> []
      \<Longrightarrow> length (tk_events (tr_task r)) < length (tk_events (tr_task r'))"
proof -
  show "length (tk_events (tr_task r)) \<le> length (tk_events (tr_task r'))"
  proof (cases "in_progress r")
    case True
    then obtain pre post where "tr_stores r = pre @ post" "list_all live_store pre" "closing post" by (auto simp: in_progress_def)
    then show ?thesis using assms(1) by (cases pre) (auto elim!: task_step.cases simp: live_store_def closing_def)
  next
    case False
    then show ?thesis using task_step_same_end(2) [OF assms(1)] assms(2) by auto
  qed
  show "length (tk_events (tr_task r)) < length (tk_events (tr_task r'))"
    if "terminal_events (tr_task r) = []" "terminal_events (tr_task r') \<noteq> []"
  proof -
    have "\<not> in_progress r" using task_step_place(1) [OF assms(1)] that(2) by (auto simp: in_progress_def terminal_unsaid_def)
    then obtain new where new: "tk_events (tr_task r') = tk_events (tr_task r) @ new"
      using task_step_same_end(2) [OF assms(1)] assms(2) by blast
    with that have "new \<noteq> []" by (auto simp: terminal_events_def)
    with new show ?thesis by simp
  qed
qed

lemma task_steps_same_end:
  assumes "task_step\<^sup>*\<^sup>* r r'" and "terminal_unsaid r \<or> terminal_said r"
  shows "(terminal_unsaid r' \<or> terminal_said r') \<and> same_end (tr_task r) (tr_task r')
    \<and> (\<exists>new. tk_events (tr_task r') = tk_events (tr_task r) @ new \<and> length new + length (tr_stores r') = length (tr_stores r))"
  using assms(1)
proof (induction rule: rtranclp_induct)
  case base
  then show ?case using assms(2) by simp
next
  case (step y z)
  then have y: "terminal_unsaid y \<or> terminal_said y" by blast
  have "terminal_unsaid z \<or> terminal_said z" using task_step_place [OF step(2)] y by blast
  moreover have "same_end (tr_task r) (tr_task z)" using step(3) task_step_same_end(1) [OF step(2) y] same_end_trans by blast
  moreover obtain n1 n2 where "tk_events (tr_task y) = tk_events (tr_task r) @ n1" "length n1 + length (tr_stores y) = length (tr_stores r)"
    "tk_events (tr_task z) = tk_events (tr_task y) @ n2" "length n2 + length (tr_stores z) = length (tr_stores y)"
    using step(3) task_step_same_end(2) [OF step(2) y] by blast
  ultimately show ?case by (intro conjI exI [of _ "n1 @ n2"]) auto
qed

section \<open>Properties\<close>

text \<open>C7: a terminal task is final from the moment its state is stored. Whatever its worker has yet to publish and whatever
  clients do between two stores, its state, stage, progress, error and times never change again; its result can only
  be evicted. At most two events are still published, the terminal event last, announcing that state, and none after it. (The
  cancellation flag may still be raised by a client that found the task live before.)\<close>

theorem terminal_is_final:
  assumes "task_reachable r" and "state_is_terminal (task_state (tr_task r))" and "task_step\<^sup>*\<^sup>* r r'"
  shows "same_end (tr_task r) (tr_task r')
    \<and> (\<exists>new. tk_events (tr_task r') = tk_events (tr_task r) @ new \<and> length new \<le> 2)
    \<and> (if tr_stores r' = [] then tk_events (tr_task r') \<noteq> [] \<and> terminal_events (tr_task r') = [last (tk_events (tr_task r'))]
         \<and> announces (task_state (tr_task r')) (ev_event (last (tk_events (tr_task r'))))
       else terminal_events (tr_task r') = [])"
proof -
  have place: "terminal_unsaid r \<or> terminal_said r"
    using task_reachable_place [OF assms(1)] assms(2) by (auto simp: in_progress_def)
  note steps = task_steps_same_end [OF assms(3) place]
  have "length (tr_stores r) \<le> 2" using place by (auto simp: terminal_unsaid_def terminal_said_def)
  then show ?thesis using steps by (auto simp: terminal_unsaid_def terminal_said_def)
qed

text \<open>A synthetic build that fails at a closed gate, and a client that looked at it before and raises its flag after the
  state was stored.\<close>

lemma task_runs:
  "tr_stores r = gs @ hs \<Longrightarrow> task_step\<^sup>*\<^sup>* r (r\<lparr>tr_task := run_stores gs (tr_task r), tr_stores := hs\<rparr>)"
proof (induction gs arbitrary: r)
  case Nil
  then have "r\<lparr>tr_task := run_stores [] (tr_task r), tr_stores := hs\<rparr> = r" by (cases r) (simp add: run_stores_def)
  then show ?case by simp
next
  case (Cons g gs)
  let ?r = "r\<lparr>tr_task := g (tr_task r), tr_stores := gs @ hs\<rparr>"
  have "task_step r ?r" using Store [of r g "gs @ hs"] Cons(2) by simp
  moreover have "task_step\<^sup>*\<^sup>* ?r (r\<lparr>tr_task := run_stores (g # gs) (tr_task r), tr_stores := hs\<rparr>)"
    using Cons(1) [of ?r] by (simp add: run_stores_def)
  ultimately show ?case by (rule converse_rtranclp_into_rtranclp)
qed

lemma reachable_runs: "task_step\<^sup>*\<^sup>* r r' \<Longrightarrow> task_reachable r \<Longrightarrow> task_reachable r'"
  by (induction rule: rtranclp_induct) (auto intro: Stepped)

theorem terminal_is_final_witness:
  "\<exists>r r' :: (unit, unit) task_run. task_reachable r \<and> task_state (tr_task r) = Failed \<and> task_step\<^sup>*\<^sup>* r r' \<and> tr_stores r' = []
     \<and> \<not> tk_cancelled (tr_task r) \<and> tk_cancelled (tr_task r') \<and> same_end (tr_task r) (tr_task r')
     \<and> terminal_events (tr_task r) = [] \<and> terminal_events (tr_task r') = [last (tk_events (tr_task r'))]"
proof -
  let ?t = "task_log (\<lambda>_. 5) ''info'' ''queued'' (task_new 5 ''r'' (Payload_Synthetic () None) ''m'' ''x'') :: (unit, unit) task"
  let ?fs = "mark_failed_stores (\<lambda>_. 7) ''internal'' ''the task gate was closed'' :: (unit, unit) store list"
  let ?start = "\<lparr>tr_task = ?t, tr_stores = ?fs, tr_cancels = 0\<rparr>" and ?failed = "run_stores (take 6 ?fs) ?t"
  let ?r = "\<lparr>tr_task = ?failed, tr_stores = drop 6 ?fs, tr_cancels = 1\<rparr>"
  let ?f = "\<lparr>tr_task = store_cancelled ?failed, tr_stores = drop 6 ?fs, tr_cancels = 0\<rparr>"
  let ?r' = "\<lparr>tr_task = run_stores (drop 6 ?fs) (store_cancelled ?failed), tr_stores = [], tr_cancels = 0\<rparr>"
  have "task_step ?start (?start\<lparr>tr_cancels := 1\<rparr>)" using Find_Live [of ?start] by (simp add: may_cancel_def task_fields)
  moreover have "task_step\<^sup>*\<^sup>* (?start\<lparr>tr_cancels := 1\<rparr>) ?r"
    using task_runs [of "?start\<lparr>tr_cancels := 1\<rparr>" "take 6 ?fs" "drop 6 ?fs"] by simp
  ultimately have "task_step\<^sup>*\<^sup>* ?start ?r" by (rule converse_rtranclp_into_rtranclp)
  then have r: "task_reachable ?r" by (rule reachable_runs) (rule Admitted [OF Script_Gate])
  have "task_step ?r ?f" using Raise_Flag [of ?r 0] by simp
  moreover have "task_step\<^sup>*\<^sup>* ?f ?r'" using task_runs [of ?f "drop 6 ?fs" "[]"] by simp
  ultimately have steps: "task_step\<^sup>*\<^sup>* ?r ?r'" by (rule converse_rtranclp_into_rtranclp)
  have end6: "task_state ?failed = Failed" "\<not> tk_cancelled ?failed" "terminal_events ?failed = []"
    by (simp_all add: mark_failed_stores_def commit_stores_def run_stores_def task_state_def state_from_byte_def task_ops task_new_def)
  have "same_end (tr_task ?r) (tr_task ?r') \<and> terminal_events (tr_task ?r') = [last (tk_events (tr_task ?r'))]"
    using terminal_is_final [OF r _ steps] end6(1) by simp
  moreover have "tk_cancelled (tr_task ?r')"
    by (simp add: mark_failed_stores_def commit_stores_def run_stores_def store_cancelled_def task_ops)
  ultimately show ?thesis using r steps end6 by (intro exI [of _ ?r] exI [of _ ?r']) simp
qed

end
