(* ===== verification/Svc_Watch.thy ===== *)
theory Svc_Watch
  imports Svc_Stores
begin

text \<open>
  Watching a task: the loops that forward its events over server-sent events, WebSocket and gRPC
  (\<open>crates/service/src/facade/sse.rs\<close>, \<open>facade/ws.rs\<close>, \<open>facade/rpc.rs\<close>). A watcher's steps come between any two
  stores of the task (\<open>Svc_Stores\<close>); the loads one frame is made of are taken at once. The broadcast channel follows
  the documentation of \<open>tokio\<close>: a receiver sees what is sent after it subscribed, and one that falls behind by
  more than the backlog is told so and moved to the oldest event kept. The lemmas show which streams end, and with
  what.
\<close>

section \<open>Events made from a task\<close>

definition API_PREFIX :: string where "API_PREFIX = ''/api/v1''"

datatype transport = Sse | Web_Socket | Grpc

definition state_event :: "int \<Rightarrow> ('q, 'd) task \<Rightarrow> event_dto" where
  "state_event now t =
     (let dto = to_dto now t
      in Event_State (state_name (dto_state dto)) (dto_stage dto) (dto_progress dto)
           (case dto_elapsed_s dto of None \<Rightarrow> 0 | Some e \<Rightarrow> e))"

definition terminal_url :: "transport \<Rightarrow> ('q, 'd) task \<Rightarrow> string" where
  "terminal_url tr t = (if tr = Grpc then API_PREFIX @ result_url t
     else API_PREFIX @ ''/simulations/'' @ tk_id t @ ''/summary'')"

definition terminal_event :: "transport \<Rightarrow> int \<Rightarrow> ('q, 'd) task \<Rightarrow> event_dto" where
  "terminal_event tr now t =
     (let dto = to_dto now t
      in case dto_state dto of
           Failed \<Rightarrow> Event_Error (case dto_error_kind dto of None \<Rightarrow> ''internal'' | Some k \<Rightarrow> k)
             (case dto_error dto of None \<Rightarrow> ''the run failed without a message'' | Some m \<Rightarrow> m)
         | st \<Rightarrow> Event_Done (state_name st) (terminal_url tr t))"

definition snapshot :: "int \<Rightarrow> ('q, 'd) task \<Rightarrow> event_dto" where
  "snapshot now t = (if state_is_terminal (task_state t) then terminal_event Sse now t else state_event now t)"

section \<open>The channel\<close>

definition EVENT_BACKLOG :: nat where "EVENT_BACKLOG = 1024"

datatype 'e received = Received 'e | Lagged nat | Pending

definition channel_recv :: "'e list \<Rightarrow> nat \<Rightarrow> 'e received \<times> nat" where
  "channel_recv sent pos =
     (if pos + EVENT_BACKLOG < length sent
      then (Lagged (length sent - EVENT_BACKLOG - pos), length sent - EVENT_BACKLOG)
      else if pos < length sent then (Received (sent ! pos), pos + 1)
      else (Pending, pos))"

section \<open>The watcher\<close>

datatype watch_phase = Opening | Checking | Waiting | Lag_Checking | Over

record watcher =
  wt_phase :: watch_phase
  wt_pos :: nat
  wt_frames :: "event_dto list"
  wt_left :: bool

definition watcher_new :: "('q, 'd) task \<Rightarrow> watcher" where
  "watcher_new t = \<lparr>wt_phase = Opening, wt_pos = length (tk_events t), wt_frames = [], wt_left = False\<rparr>"

definition accepted :: "string list \<Rightarrow> event_dto \<Rightarrow> bool" where
  "accepted topics e \<longleftrightarrow> event_is_terminal e \<or> accepts topics e"

text \<open>What a transport sends when it opens or has fallen behind, when it then finds the task already terminal, and
  when it finds so after falling behind. Server-sent events send one snapshot for both cases of the first.\<close>

definition open_frame :: "transport \<Rightarrow> int \<Rightarrow> ('q, 'd) task \<Rightarrow> event_dto" where
  "open_frame tr now t = (if tr = Sse then snapshot now t else state_event now t)"

definition check_frames :: "transport \<Rightarrow> int \<Rightarrow> ('q, 'd) task \<Rightarrow> event_dto list" where
  "check_frames tr now t = (if tr = Sse then [] else [terminal_event tr now t])"

definition lag_frame :: "transport \<Rightarrow> int \<Rightarrow> ('q, 'd) task \<Rightarrow> event_dto" where
  "lag_frame tr now t = (if tr = Sse then snapshot now t else terminal_event tr now t)"

inductive watch_step :: "transport \<Rightarrow> ('q, 'd) task \<Rightarrow> watcher \<Rightarrow> watcher \<Rightarrow> bool" for tr t where
  Open: "wt_phase w = Opening \<Longrightarrow>
    watch_step tr t w (w\<lparr>wt_phase := Checking, wt_frames := wt_frames w @ [open_frame tr now t]\<rparr>)"
| Check_Over: "wt_phase w = Checking \<Longrightarrow> state_is_terminal (task_state t) \<Longrightarrow>
    watch_step tr t w (w\<lparr>wt_phase := Over, wt_frames := wt_frames w @ check_frames tr now t\<rparr>)"
| Check_On: "wt_phase w = Checking \<Longrightarrow> \<not> state_is_terminal (task_state t) \<Longrightarrow>
    watch_step tr t w (w\<lparr>wt_phase := Waiting\<rparr>)"
| Receive: "wt_phase w = Waiting \<Longrightarrow> channel_recv (tk_events t) (wt_pos w) = (Received e, p) \<Longrightarrow> (tr = Sse \<longrightarrow> topics = []) \<Longrightarrow>
    watch_step tr t w (w\<lparr>wt_phase := (if envelope_is_terminal e then Over else Waiting), wt_pos := p,
      wt_frames := wt_frames w @ (if accepted topics (ev_event e) then [ev_event e] else [])\<rparr>)"
| Fall_Behind: "wt_phase w = Waiting \<Longrightarrow> channel_recv (tk_events t) (wt_pos w) = (Lagged n, p) \<Longrightarrow>
    watch_step tr t w (w\<lparr>wt_phase := Lag_Checking, wt_pos := p, wt_frames := wt_frames w @ [open_frame tr now t]\<rparr>)"
| Lag_Over: "wt_phase w = Lag_Checking \<Longrightarrow> state_is_terminal (task_state t) \<Longrightarrow>
    watch_step tr t w (w\<lparr>wt_phase := Over, wt_frames := wt_frames w @ [lag_frame tr now t]\<rparr>)"
| Lag_On: "wt_phase w = Lag_Checking \<Longrightarrow> \<not> state_is_terminal (task_state t) \<Longrightarrow>
    watch_step tr t w (w\<lparr>wt_phase := Waiting\<rparr>)"
| Leave: "wt_phase w \<noteq> Over \<Longrightarrow> watch_step tr t w (w\<lparr>wt_phase := Over, wt_left := True\<rparr>)"

text \<open>A task and one of its watchers, in any interleaving.\<close>

inductive watched :: "transport \<Rightarrow> ('q, 'd) task_run \<Rightarrow> watcher \<Rightarrow> bool" for tr where
  Subscribe: "task_reachable r \<Longrightarrow> watched tr r (watcher_new (tr_task r))"
| Task_Moves: "watched tr r w \<Longrightarrow> task_step r r' \<Longrightarrow> watched tr r' w"
| Watcher_Moves: "watched tr r w \<Longrightarrow> watch_step tr (tr_task r) w w' \<Longrightarrow> watched tr r w'"

section \<open>The invariant of a watched task\<close>

definition quiet :: "event_dto list \<Rightarrow> bool" where
  "quiet fs \<longleftrightarrow> list_all (\<lambda>f. \<not> event_is_terminal f) fs"

text \<open>What a stream that ended has told: one terminal frame, the last, which announces how the task ended. A stream of
  server-sent events may end after one snapshot of a live task.\<close>

definition told :: "transport \<Rightarrow> ('q, 'd) task \<Rightarrow> event_dto list \<Rightarrow> bool" where
  "told tr t fs \<longleftrightarrow>
     (\<exists>gs f. fs = gs @ [f] \<and> announces (task_state t) f \<and> (tr \<noteq> Sse \<longrightarrow> quiet gs))
     \<or> tr = Sse \<and> length fs = 1 \<and> quiet fs \<and> state_is_terminal (task_state t)"

definition watch_ok :: "transport \<Rightarrow> ('q, 'd) task \<Rightarrow> watcher \<Rightarrow> bool" where
  "watch_ok tr t w \<longleftrightarrow> wt_pos w \<le> length (tk_events t)
     \<and> (wt_phase w \<noteq> Over \<longrightarrow> \<not> wt_left w \<and> (tr \<noteq> Sse \<longrightarrow> quiet (wt_frames w)))
     \<and> (wt_phase w = Checking \<longrightarrow> (\<exists>f. wt_frames w = [f] \<and> (event_is_terminal f \<longrightarrow> announces (task_state t) f)))
     \<and> (wt_phase w = Opening \<longrightarrow> wt_frames w = [])
     \<and> (wt_phase w = Waiting \<and> terminal_events t \<noteq> [] \<longrightarrow> wt_pos w < length (tk_events t))
     \<and> (wt_phase w = Over \<and> \<not> wt_left w \<longrightarrow> told tr t (wt_frames w))"

text \<open>What the places of a task (\<open>task_reachable_place\<close>) mean for its watchers.\<close>

definition watchable :: "('q, 'd) task \<Rightarrow> bool" where
  "watchable t \<longleftrightarrow> (\<not> state_is_terminal (task_state t) \<longrightarrow> terminal_events t = [])
     \<and> (terminal_events t \<noteq> [] \<longrightarrow> tk_events t \<noteq> [] \<and> terminal_events t = [last (tk_events t)]
          \<and> announces (task_state t) (ev_event (last (tk_events t))))"

lemma reachable_watchable: "task_reachable r \<Longrightarrow> watchable (tr_task r)"
  by (drule task_reachable_place) (auto simp: watchable_def in_progress_def terminal_unsaid_def terminal_said_def)

lemma state_event_quiet [simp]: "\<not> event_is_terminal (state_event now t)"
  by (simp add: state_event_def Let_def)

lemma terminal_event_announces [simp]: "state_is_terminal (task_state t) \<Longrightarrow> announces (task_state t) (terminal_event tr now t)"
  by (cases "task_state t") (simp_all add: terminal_event_def to_dto_def to_dto_loads_def Let_def)

lemma terminal_event_loud [simp]: "event_is_terminal (terminal_event tr now t)"
  by (auto simp: terminal_event_def Let_def split: task_state.splits)

lemma snapshot_announces [simp]: "event_is_terminal (snapshot now t) \<Longrightarrow> announces (task_state t) (snapshot now t)"
  by (auto simp: snapshot_def split: if_splits)

lemma open_frame_announces:
  "event_is_terminal (open_frame tr now t) \<Longrightarrow> announces (task_state t) (open_frame tr now t)"
  "tr \<noteq> Sse \<Longrightarrow> \<not> event_is_terminal (open_frame tr now t)"
  by (simp_all add: open_frame_def split: if_splits)

lemma watcher_new_ok: "watch_ok tr t (watcher_new t)"
  by (simp add: watch_ok_def watcher_new_def quiet_def)

lemma channel_recv_Received:
  "channel_recv sent pos = (Received e, p) \<longleftrightarrow> pos < length sent \<and> length sent \<le> pos + EVENT_BACKLOG \<and> e = sent ! pos \<and> p = pos + 1"
  by (auto simp: channel_recv_def)

lemma channel_recv_Lagged:
  "channel_recv sent pos = (Lagged n, p) \<Longrightarrow> pos < p \<and> p \<le> length sent"
  by (auto simp: channel_recv_def split: if_splits)

text \<open>The terminal event is the last one, so before it there is always one more to wait for.\<close>

lemma watchable_event:
  assumes "watchable t" and "p < length (tk_events t)"
  shows "envelope_is_terminal (tk_events t ! p) \<Longrightarrow> announces (task_state t) (ev_event (tk_events t ! p))"
    and "\<not> envelope_is_terminal (tk_events t ! p) \<Longrightarrow> terminal_events t \<noteq> [] \<Longrightarrow> p + 1 < length (tk_events t)"
proof -
  assume "envelope_is_terminal (tk_events t ! p)"
  then have "tk_events t ! p \<in> set (terminal_events t)" using assms(2) by (simp add: terminal_events_def)
  then show "announces (task_state t) (ev_event (tk_events t ! p))"
    using assms(1) by (cases "terminal_events t = []") (auto simp: watchable_def)
next
  assume "\<not> envelope_is_terminal (tk_events t ! p)" and said: "terminal_events t \<noteq> []"
  moreover have "last (tk_events t) \<in> set (terminal_events t)" "tk_events t \<noteq> []" using assms(1) said by (auto simp: watchable_def)
  then have "envelope_is_terminal (tk_events t ! (length (tk_events t) - 1))" by (simp add: terminal_events_def last_conv_nth)
  ultimately have "p \<noteq> length (tk_events t) - 1" by auto
  then show "p + 1 < length (tk_events t)" using assms(2) by simp
qed

lemma told_last: "announces (task_state t) f \<Longrightarrow> (tr \<noteq> Sse \<Longrightarrow> quiet fs) \<Longrightarrow> told tr t (fs @ [f])"
  by (auto simp: told_def)

lemma watch_step_ok:
  assumes "watch_step tr t w w'" and "watch_ok tr t w" and "watchable t"
  shows "watch_ok tr t w'"
  using assms(1)
proof cases
  case (Open now)
  then show ?thesis using assms(2) open_frame_announces [of tr now t] by (simp add: watch_ok_def quiet_def)
next
  case (Check_Over now)
  then obtain f where f: "wt_frames w = [f]" "event_is_terminal f \<longrightarrow> announces (task_state t) f" "tr \<noteq> Sse \<Longrightarrow> quiet [f]"
    using assms(2) by (auto simp: watch_ok_def)
  have "told tr t (f # check_frames tr now t)"
  proof (cases "tr = Sse")
    case True
    then show ?thesis using f(2) Check_Over(3) by (cases "event_is_terminal f") (auto simp: check_frames_def told_def quiet_def)
  next
    case False
    then show ?thesis using f(3) Check_Over(3) told_last [of t "terminal_event tr now t" tr "[f]"] by (simp add: check_frames_def)
  qed
  then show ?thesis using Check_Over(1) f(1) assms(2) by (simp add: watch_ok_def)
next
  case Check_On
  then show ?thesis using assms(2,3) by (auto simp: watch_ok_def watchable_def)
next
  case (Receive e p topics)
  have p: "wt_pos w < length (tk_events t)" "e = tk_events t ! wt_pos w" "p = wt_pos w + 1"
    using Receive(3) by (simp_all add: channel_recv_Received)
  note event = watchable_event [OF assms(3) p(1), folded p(2)]
  show ?thesis
  proof (cases "envelope_is_terminal e")
    case True
    then have "wt_frames w' = wt_frames w @ [ev_event e]"
      using Receive(1) by (simp add: accepted_def envelope_is_terminal_def)
    moreover have "told tr t (wt_frames w @ [ev_event e])"
      using event(1) [OF True] assms(2) Receive(2) by (intro told_last) (simp_all add: watch_ok_def)
    ultimately show ?thesis using True Receive(1) p assms(2) by (simp add: watch_ok_def)
  next
    case False
    have "quiet (wt_frames w')" if "tr \<noteq> Sse"
      using that False Receive(1,2) assms(2) by (auto simp: watch_ok_def quiet_def envelope_is_terminal_def)
    then show ?thesis using False Receive(1,2) p assms(2) event(2) by (simp add: watch_ok_def)
  qed
next
  case (Fall_Behind n p now)
  then show ?thesis using assms(2) channel_recv_Lagged [OF Fall_Behind(3)] open_frame_announces(2) [of tr now t]
    by (auto simp: watch_ok_def quiet_def)
next
  case (Lag_Over now)
  have "announces (task_state t) (lag_frame tr now t)" using Lag_Over(3) by (simp add: lag_frame_def snapshot_def)
  then have "told tr t (wt_frames w @ [lag_frame tr now t])"
    using assms(2) Lag_Over(2) by (intro told_last) (simp_all add: watch_ok_def)
  then show ?thesis using Lag_Over(1) assms(2) by (simp add: watch_ok_def)
next
  case Lag_On
  then show ?thesis using assms(2,3) by (auto simp: watch_ok_def watchable_def)
next
  case Leave
  then show ?thesis using assms(2) by (simp add: watch_ok_def)
qed

text \<open>A task's own steps only add events, and leave what a stream has told true.\<close>

lemma task_step_watch_ok:
  assumes "task_step r r'" and "task_reachable r" and "watch_ok tr (tr_task r) w"
  shows "watch_ok tr (tr_task r') w"
proof -
  let ?t = "tr_task r" and ?t' = "tr_task r'"
  note grow = task_step_grow [OF assms(1) task_reachable_place [OF assms(2)]]
  have same: "task_state ?t' = task_state ?t" if "state_is_terminal (task_state ?t)"
    using task_step_same_end(1) [OF assms(1)] task_reachable_place [OF assms(2)] that
    by (auto simp: in_progress_def same_end_def task_state_def)
  have "announces (task_state ?t') f" if "announces (task_state ?t) f" for f
    using that same announces_terminal(2) [OF that] by simp
  moreover from this have "told tr ?t' fs" if "told tr ?t fs" for fs using that same unfolding told_def by metis
  moreover have "wt_pos w < length (tk_events ?t')" if "wt_phase w = Waiting" "terminal_events ?t' \<noteq> []"
  proof (cases "terminal_events ?t = []")
    case True
    then show ?thesis using grow(2) that(2) assms(3) by (simp add: watch_ok_def)
  next
    case False
    then show ?thesis using grow(1) that(1) assms(3) by (auto simp: watch_ok_def)
  qed
  ultimately show ?thesis using assms(3) grow(1) by (auto simp: watch_ok_def)
qed

lemma watched_ok: "watched tr r w \<Longrightarrow> task_reachable r \<and> watch_ok tr (tr_task r) w"
proof (induction rule: watched.induct)
  case (Subscribe r)
  then show ?case using watcher_new_ok by blast
next
  case (Task_Moves r w r')
  then show ?case using Stepped task_step_watch_ok by blast
next
  case (Watcher_Moves r w w')
  then show ?case using watch_step_ok reachable_watchable by blast
qed

section \<open>Streams end\<close>

fun watch_weight :: "watch_phase \<Rightarrow> nat" where
  "watch_weight Opening = 4"
| "watch_weight Checking = 3"
| "watch_weight Lag_Checking = 2"
| "watch_weight Waiting = 1"
| "watch_weight Over = 0"

lemma watch_step_decreases:
  assumes "watch_step tr t w w'"
  shows "(w', w) \<in> measures [\<lambda>w. length (tk_events t) - wt_pos w, \<lambda>w. watch_weight (wt_phase w)]"
  using assms
proof cases
  case (Fall_Behind n p now)
  then show ?thesis using channel_recv_Lagged [OF Fall_Behind(3)] by auto
next
  case Leave
  then show ?thesis by (cases "wt_phase w") simp_all
qed (auto simp: channel_recv_Received)

lemma watch_step_wf: "wf {(w', w). watch_step tr t w w'}"
  by (rule wf_subset [OF wf_measures]) (auto dest: watch_step_decreases simp del: in_measures)

lemma watch_moves:
  assumes "watch_ok tr t w" and "terminal_events t \<noteq> []" and "wt_phase w \<noteq> Over"
  shows "\<exists>w'. watch_step tr t w w' \<and> wt_left w' = wt_left w"
proof (cases "wt_phase w")
  case Opening
  then show ?thesis using watch_step.Open [OF Opening, of tr t 0] by force
next
  case Checking
  then show ?thesis using watch_step.Check_Over [OF Checking, of t tr 0] watch_step.Check_On [OF Checking, of t tr] by force
next
  case Lag_Checking
  then show ?thesis using watch_step.Lag_Over [OF Lag_Checking, of t tr 0] watch_step.Lag_On [OF Lag_Checking, of t tr] by force
next
  case Waiting
  then have pos: "wt_pos w < length (tk_events t)" using assms(1,2) by (simp add: watch_ok_def)
  show ?thesis
  proof (cases "wt_pos w + EVENT_BACKLOG < length (tk_events t)")
    case True
    then have "channel_recv (tk_events t) (wt_pos w)
        = (Lagged (length (tk_events t) - EVENT_BACKLOG - wt_pos w), length (tk_events t) - EVENT_BACKLOG)"
      by (simp add: channel_recv_def)
    then show ?thesis using watch_step.Fall_Behind [OF Waiting, of t _ _ tr 0] by force
  next
    case False
    then have "channel_recv (tk_events t) (wt_pos w) = (Received (tk_events t ! wt_pos w), wt_pos w + 1)"
      using pos by (simp add: channel_recv_def)
    then show ?thesis using watch_step.Receive [OF Waiting, of t _ _ tr "[]"] by force
  qed
qed (use assms(3) in simp)

section \<open>What a stream can get wrong\<close>

text \<open>A server-sent event stream can end without saying how its task ended: when the task becomes terminal between
  the snapshot and the check that follows it.\<close>

lemma silent_end:
  assumes "watched Sse r w" and "wt_phase w = Opening" and "\<not> state_is_terminal (task_state (tr_task r))"
    and "task_step\<^sup>*\<^sup>* r r'" and "state_is_terminal (task_state (tr_task r'))"
  shows "watched Sse r' (w\<lparr>wt_phase := Over, wt_frames := wt_frames w @ [state_event now (tr_task r)]\<rparr>)"
proof -
  let ?w = "w\<lparr>wt_phase := Checking, wt_frames := wt_frames w @ [state_event now (tr_task r)]\<rparr>"
  have "watch_step Sse (tr_task r) w ?w"
    using watch_step.Open [OF assms(2), of Sse "tr_task r" now] assms(3) by (simp add: open_frame_def snapshot_def)
  then have "watched Sse r ?w" by (rule Watcher_Moves [OF assms(1)])
  with assms(4) have "watched Sse r' ?w" by (induction rule: rtranclp_induct) (auto intro: Task_Moves)
  moreover have "watch_step Sse (tr_task r') ?w (?w\<lparr>wt_phase := Over, wt_frames := wt_frames ?w @ check_frames Sse now (tr_task r')\<rparr>)"
    by (rule watch_step.Check_Over) (simp_all add: assms(5))
  ultimately show ?thesis by (auto simp: check_frames_def dest: Watcher_Moves)
qed

text \<open>The terminal event a late watcher is given names another resource than the one published: over gRPC the API prefix is
  doubled for every task, and over the other two the address is that of a simulation even for a plan or a map.\<close>

lemma late_watcher_misled:
  assumes "task_state t = Succeeded"
  shows "terminal_event Grpc now t \<noteq> Event_Done ''succeeded'' (result_url t)"
    and "terminal_event Sse now t = Event_Done ''succeeded'' (result_url t) \<longleftrightarrow> tk_kind t = Kind_Simulation"
    and "terminal_event Web_Socket now t = Event_Done ''succeeded'' (result_url t) \<longleftrightarrow> tk_kind t = Kind_Simulation"
  using assms by (simp_all add: terminal_event_def to_dto_def to_dto_loads_def terminal_url_def result_url_def API_PREFIX_def Let_def)

section \<open>Properties\<close>

text \<open>C8: every stream ends and says how its task ended. A stream that is over and whose client did not leave has sent a
  last frame that announces the task's terminal state; over WebSocket and gRPC it is the only terminal frame.
  (Server-sent events have one exception, a stream that ends after a single snapshot of the live task, though
  the task is terminal.) Once the worker is through with the task, a stream that is not over can go on
  without its client leaving, and it cannot go on forever; fallen behind or not, whatever it had seen before.\<close>

theorem streams_end:
  assumes "watched tr r w"
  shows "(wt_phase w = Over \<and> \<not> wt_left w \<longrightarrow>
        state_is_terminal (task_state (tr_task r)) \<and> wt_frames w \<noteq> []
        \<and> (announces (task_state (tr_task r)) (last (wt_frames w))
             \<and> (tr \<noteq> Sse \<longrightarrow> filter event_is_terminal (wt_frames w) = [last (wt_frames w)])
           \<or> tr = Sse \<and> length (wt_frames w) = 1 \<and> filter event_is_terminal (wt_frames w) = []))
    \<and> (tr_stores r = [] \<and> wt_phase w \<noteq> Over \<longrightarrow> (\<exists>w'. watch_step tr (tr_task r) w w' \<and> wt_left w' = wt_left w))
    \<and> wf {(w2, w1). watch_step tr (tr_task r) w1 w2}"
proof -
  have ok: "watch_ok tr (tr_task r) w" and place: "in_progress r \<or> terminal_unsaid r \<or> terminal_said r"
    using watched_ok [OF assms] task_reachable_place by blast+
  have "terminal_events (tr_task r) \<noteq> []" if "tr_stores r = []"
    using place that by (auto simp: in_progress_def terminal_unsaid_def terminal_said_def closing_def)
  moreover have "told tr (tr_task r) (wt_frames w)" if "wt_phase w = Over" "\<not> wt_left w" using ok that by (simp add: watch_ok_def)
  ultimately show ?thesis using watch_moves [OF ok] watch_step_wf announces_terminal
    by (auto simp: told_def quiet_def list_all_iff filter_empty_conv)
qed

text \<open>A task that fails at a closed gate while a client has just opened its gRPC stream.\<close>

lemma watched_steps: "task_step\<^sup>*\<^sup>* r r' \<Longrightarrow> watched tr r w \<Longrightarrow> watched tr r' w"
  by (induction rule: rtranclp_induct) (auto intro: Task_Moves)

theorem streams_end_witness:
  "\<exists>(r :: (unit, unit) task_run) w. watched Grpc r w \<and> wt_phase w = Over \<and> task_state (tr_task r) = Failed
     \<and> map event_name (wt_frames w) = [''state'', ''error''] \<and> announces Failed (last (wt_frames w))
     \<and> filter event_is_terminal (wt_frames w) = [last (wt_frames w)]"
proof -
  let ?t = "task_log (\<lambda>_. 5) ''info'' ''queued'' (task_new 5 ''r'' (Payload_Synthetic () None) ''m'' ''x'') :: (unit, unit) task"
  let ?fs = "mark_failed_stores (\<lambda>_. 7) ''internal'' ''the task gate was closed'' :: (unit, unit) store list"
  let ?start = "\<lparr>tr_task = ?t, tr_stores = ?fs, tr_cancels = 0\<rparr>"
  let ?r = "\<lparr>tr_task = run_stores ?fs ?t, tr_stores = [], tr_cancels = 0\<rparr>"
  let ?v = "(watcher_new ?t)\<lparr>wt_phase := Checking, wt_frames := [open_frame Grpc 6 ?t]\<rparr>"
  let ?w = "?v\<lparr>wt_phase := Over, wt_frames := wt_frames ?v @ check_frames Grpc 8 (tr_task ?r)\<rparr>"
  have "watched Grpc ?start (watcher_new (tr_task ?start))" by (rule Subscribe) (rule Admitted [OF Script_Gate])
  moreover have "watch_step Grpc (tr_task ?start) (watcher_new (tr_task ?start)) ?v"
    using watch_step.Open [of "watcher_new ?t" Grpc ?t 6] by (simp add: watcher_new_def)
  ultimately have "watched Grpc ?start ?v" by (rule Watcher_Moves)
  moreover have "task_step\<^sup>*\<^sup>* ?start ?r" using task_runs [of ?start ?fs "[]"] by simp
  ultimately have "watched Grpc ?r ?v" using watched_steps by blast
  moreover have failed: "task_state (tr_task ?r) = Failed" by (simp add: stores_are_calls task_fields)
  then have "watch_step Grpc (tr_task ?r) ?v ?w" by (intro watch_step.Check_Over) simp_all
  ultimately have w: "watched Grpc ?r ?w" by (rule Watcher_Moves)
  have frames: "wt_frames ?w = [state_event 6 ?t, terminal_event Grpc 8 (tr_task ?r)]" by (simp add: open_frame_def check_frames_def)
  have "map event_name (wt_frames ?w) = [''state'', ''error'']"
    unfolding frames using failed by (simp add: state_event_def terminal_event_def to_dto_def to_dto_loads_def Let_def)
  moreover have "announces Failed (last (wt_frames ?w)) \<and> filter event_is_terminal (wt_frames ?w) = [last (wt_frames ?w)]"
    using streams_end [OF w] failed by (simp add: watcher_new_def)
  ultimately show ?thesis using w failed by (intro exI [of _ ?r] exI [of _ ?w]) simp
qed

end
