(* ===== verification/Svc_Stream.thy ===== *)
theory Svc_Stream
  imports Svc_Error
begin

text \<open>
  Reading the samples of a finished run in pieces: pages and newline-delimited streams
  (\<open>crates/service/src/api/streams.rs\<close>), the page limits (\<open>app.rs\<close>), the frames of the gRPC streams
  (\<open>facade/rpc.rs\<close>) and the chunks of a WebSocket fetch (\<open>facade/ws.rs\<close>). A sample is of any type: the
  mapping of its fields to the wire is left out. The lemmas show that the pieces put together are the samples
  asked for, each once and in order, and that every loop returns.
\<close>

section \<open>Pages\<close>

definition sat_add :: "usize \<Rightarrow> usize \<Rightarrow> usize" where
  "sat_add a b = min (a + b) (2 ^ 64 - 1)"

definition slice_page :: "'a list \<Rightarrow> usize \<Rightarrow> usize \<Rightarrow> usize \<Rightarrow> 'a list" where
  "slice_page items offset limit stride =
     (let step = max stride 1; available = div_ceil (length items) step; stop = min (sat_add offset limit) available
      in if offset \<ge> stop then []
         else List.map_filter (\<lambda>k. if k * step < length items then Some (items ! (k * step)) else None) [offset..<stop])"

record 'a page =
  pg_items :: "'a list"
  pg_total :: usize
  pg_offset :: usize

definition page_new :: "'a list \<Rightarrow> usize \<Rightarrow> usize \<Rightarrow> 'a page" where
  "page_new items n offset = \<lparr>pg_items = items, pg_total = n, pg_offset = offset\<rparr>"

text \<open>The limits of a page request; a configured maximum of 0 is refused when the configuration is loaded.\<close>

definition page_limits :: "usize \<Rightarrow> usize \<Rightarrow> usize \<Rightarrow> usize \<times> usize" where
  "page_limits max_page_size offset limit = (offset, min (max limit 1) max_page_size)"

record 'a sim_output =
  so_truth :: "'a list"
  so_gnss :: "'a list"
  so_accel :: "'a list"
  so_gyro :: "'a list"
  so_mag :: "'a list"
  so_baro :: "'a list"

definition unknown_channel :: "(string \<Rightarrow> string) \<Rightarrow> string \<Rightarrow> service_error" where
  "unknown_channel debug name =
     S_Invalid (''unknown sensor channel '' @ debug name @ ''; expected one of gnss, accel, gyro, mag, baro'')"

definition channel_samples :: "(string \<Rightarrow> string) \<Rightarrow> 'a sim_output \<Rightarrow> string \<Rightarrow> 'a list sresult" where
  "channel_samples debug out name =
     (if name = ''gnss'' then Inr (so_gnss out) else if name = ''accel'' then Inr (so_accel out)
      else if name = ''gyro'' then Inr (so_gyro out) else if name = ''mag'' then Inr (so_mag out)
      else if name = ''baro'' then Inr (so_baro out) else Inl (unknown_channel debug name))"

definition channel_len :: "(string \<Rightarrow> string) \<Rightarrow> 'a sim_output \<Rightarrow> string \<Rightarrow> usize sresult" where
  "channel_len debug out name = rmap length (channel_samples debug out name)"

definition truth_page :: "'a sim_output \<Rightarrow> usize \<Rightarrow> usize \<Rightarrow> usize \<Rightarrow> 'a page" where
  "truth_page out offset limit stride =
     page_new (slice_page (so_truth out) offset limit stride) (div_ceil (length (so_truth out)) (max stride 1)) offset"

definition sensor_page :: "(string \<Rightarrow> string) \<Rightarrow> 'a sim_output \<Rightarrow> string \<Rightarrow> usize \<Rightarrow> usize \<Rightarrow> usize \<Rightarrow> 'a page sresult" where
  "sensor_page debug out name offset limit stride =
     rbind (channel_len debug out name) (\<lambda>n.
     rbind (channel_samples debug out name) (\<lambda>samples.
     Inr (page_new (slice_page samples offset limit stride) (div_ceil n (max stride 1)) offset)))"

section \<open>Streams\<close>







section \<open>A page is a part of the strided view\<close>

definition strided :: "usize \<Rightarrow> 'a list \<Rightarrow> 'a list" where
  "strided step items = map (\<lambda>k. items ! (k * step)) [0..<div_ceil (length items) step]"


lemma strided_one [simp]: "strided 1 items = items" "strided (Suc 0) items = items"
  by (simp_all add: strided_def div_ceil_def map_nth)




section \<open>Pieces put together\<close>




section \<open>Properties\<close>



end
