(* ===== verification/Spec2Isabelle.thy ===== *)
theory Spec2Isabelle
  imports Omf_Codec Omf_Footer Omf_Quadtree Omf_Fingerprint Omf_Prm Omf_Kpath Omf_Patch Omf_Raster Omf_Region
    Omf_Roundtrip Omf_Apply Svc_Base64 Svc_Watch Svc_Stream
begin

text \<open>
  Verification of the OMF map container of Ourealis (\<open>crates/map-format/src\<close>) and of parts of the service
  that serves the maps (\<open>crates/service/src\<close>).

  \<^bold>\<open>The program.\<close> An OMF file is a 128-byte header, a block of typed metadata, a quadtree skeleton,
  compressed chunks, a directory of the chunks and a footer with a whole-file hash. Chunks belong to
  layers; graph layers hold a roadmap (PRM), a library of candidate paths (KPath) or vectors; derived
  layers record a fingerprint of the layers they were computed from; a patch file replaces chunks. The
  file may come from anywhere, so every parser takes arbitrary bytes. The service keeps map files in a library
  and runs long operations on them as background tasks, which clients poll, watch and cancel.

  \<^bold>\<open>Theories and code.\<close>
  \<^item> \<open>Omf_Prelude\<close>: words and records of the model, \<open>Result\<close> (\<open>map_error + 'a\<close>, with \<open>rbind\<close> for the
    question mark operator), number printing for error texts, list lemmas.
  \<^item> \<open>Omf_Error\<close> (\<open>error.rs\<close>), \<open>Omf_Bytes\<close> (\<open>bytes.rs\<close>): the error type, the bounds-checked accessors,
    \<open>Reader\<close> and \<open>Writer\<close>, strings as UTF-8 bytes with truncation at a character boundary.
  \<^item> \<open>Omf_Wire\<close>: the calculus of \<open>reads\<close> (a reader consumes exactly these bytes) that the round trips
    rest on. \<open>Omf_Table\<close>: fixed-size records, tables, binary search as the standard library does it, and
    the locales \<open>fixed_record\<close>, \<open>record_store\<close> and \<open>record_store_del\<close>.
  \<^item> \<open>Omf_Float\<close>: IEEE classes, order and the \<open>f32\<close>/\<open>f64\<close> casts on bit patterns. \<open>Omf_Arith\<close>: IEEE
    arithmetic as rounded rationals, with monotonicity and exactness lemmas.
    \<open>Omf_Geometry\<close> (\<open>geometry.rs\<close>): boxes, Morton codes, node keys.
  \<^item> \<open>Omf_Header\<close> (\<open>header.rs\<close>), \<open>Omf_Footer\<close> (\<open>footer.rs\<close>), \<open>Omf_Directory\<close> (\<open>directory.rs\<close>),
    \<open>Omf_Layer\<close> (\<open>layer.rs\<close>, \<open>motion.rs\<close>), \<open>Omf_Quadtree\<close> (\<open>quadtree.rs\<close>).
  \<^item> \<open>Omf_Entropy\<close>, \<open>Omf_Delta\<close>, \<open>Omf_Sparse\<close>, \<open>Omf_Codec\<close> (\<open>codec/\<close>): the codecs and their dispatcher,
    with the locale \<open>payload_transform\<close>.
  \<^item> \<open>Omf_Tlv\<close> (\<open>tlv/mod.rs\<close>), \<open>Omf_Values\<close>, \<open>Omf_Metadata\<close> (\<open>tlv/value.rs\<close>): the metadata block, the
    locale \<open>tlv_value\<close> and every typed record as an interpretation of it.
  \<^item> \<open>Omf_Fingerprint\<close> (\<open>fingerprint.rs\<close>): fingerprints of layers and the status of derived layers.
  \<^item> \<open>Omf_Section\<close>, \<open>Omf_Kpath\<close>, \<open>Omf_Prm\<close> (\<open>graph/\<close>): section streams, vector layers, the path library
    and the roadmap. \<open>Omf_Patch\<close> (\<open>patch.rs\<close>): the patch format.
  \<^item> \<open>Omf_Grid\<close>, \<open>Omf_Raster\<close> (\<open>raster.rs\<close>): chunk grids, raster chunks and their packing.
    \<open>Omf_Widen\<close>: what an \<open>f32\<close> keeps when it becomes an \<open>f64\<close>, and the arithmetic of probabilities.
    \<open>Omf_Region\<close> (\<open>region.rs\<close>): region features, outlines, the bucket index and event decisions.
  \<^item> \<open>Omf_Writer\<close> (\<open>writer.rs\<close>): the streaming writer, its steps as an inductive relation and the
    invariant that ties the file image, the hashed bytes and the directory together. \<open>Omf_Reader\<close>
    (\<open>reader.rs\<close>): opening a map, the chunk cache, chunk access and the checks of derived layers. \<open>Omf_Image\<close>: what the
    reader finds in any image whose parts agree. \<open>Omf_Roundtrip\<close>: the writer against the reader.
    \<open>Omf_Apply\<close> (\<open>patch.rs\<close>): patches applied to a base image, against the reader.
  \<^item> \<open>Svc_Error\<close> (\<open>error.rs\<close> of the service and of the simulator): failures and their classification.
    \<open>Svc_Base64\<close>, \<open>Svc_Time\<close> (\<open>api/base64.rs\<close>, \<open>api/time.rs\<close>): inline images and dates on the wire.
    \<open>Svc_Store\<close> (\<open>store/mod.rs\<close>, \<open>store/memory.rs\<close>): the map library, behind the locale \<open>map_library\<close>.
  \<^item> \<open>Svc_Task\<close> (\<open>task/mod.rs\<close>, \<open>task/events.rs\<close>): a task, its transitions and its events. \<open>Svc_Runner\<close> (\<open>task/mod.rs\<close>,
    \<open>task/queue.rs\<close>): the registry and the workers, whose steps interleave in the relation \<open>runner_step\<close>.
    \<open>Svc_Invariant\<close>: the invariant of reachable states. \<open>Svc_Lifecycle\<close>: the life of a task, limits, and the end of
    all tasks. A step is one call that touches shared state, except that a cancellation is two: the load that finds the
    task live and the store of its flag.
  \<^item> \<open>Svc_Stores\<close>: one task with the calls that mark it taken apart into their single stores and publications,
    interleaved with cancellations and evictions; what is fixed once its state is terminal. \<open>Svc_Watch\<close>
    (\<open>facade/sse.rs\<close>, \<open>facade/ws.rs\<close>, \<open>facade/rpc.rs\<close>): the loops that forward its events to a client, in the same
    interleaving. In both, all threads see the stores in program order, which the code's relaxed accesses do not promise.
  \<^item> \<open>Svc_Stream\<close> (\<open>api/streams.rs\<close>, \<open>app.rs\<close>, \<open>facade/rpc.rs\<close>, \<open>facade/ws.rs\<close>): pages and streams of samples.

  \<^bold>\<open>State and errors.\<close> A Rust struct is a record with a two-letter prefix on its fields, an enum a
  datatype, \<open>u8\<close> to \<open>u64\<close> words of that width. \<open>usize\<close> is a natural number; where the code checks an
  addition or multiplication, the model checks it against \<open>2^64\<close>. A method that changes its object
  returns the new value. Every \<open>Err\<close> is a value of \<open>map_error\<close> with the text the code builds. An index
  that may panic is \<open>None\<close> where a theorem speaks of it (\<open>slice_range\<close>, \<open>prm_place\<close>). Floats are bit
  patterns; NaN and signed zeros compare as IEEE says, and arithmetic rounds the exact rational result
  to nearest even. \<open>sort_unstable\<close> is the
  stable sort, which agrees with it where keys differ; only \<open>from_bytes\<close> of a directory admits equal ones. The
  seconds and days of a time are integers without the bounds of \<open>i64\<close>, which its callers do not come near.

  \<^bold>\<open>Outside code.\<close> zstd and lz4 (\<open>ext_crates\<close>, with the documented round trip \<open>ext_ok\<close> as
  hypothesis and \<open>stored_crates\<close> as an instance), the broadcast channel of tokio (as documented), CRC32, XXH64 and XXH3-128 and the
  \<open>half\<close> conversions are parameters. Files are in-memory images: the sink and the source of the model
  are the \<open>Cursor\<close> and \<open>MemSource\<close> instances, whose operations do not fail.

  \<^bold>\<open>What the theorems show.\<close> Round trips of every format, through the exact bytes; acceptance
  conditions and errors of the parsers; the tables as finite maps; the path library's invariant and the
  roadmap's counting sort, with the absence of out-of-range indices in what a decoded roadmap is asked;
  the codecs' exact inverse and the bound on what a decoder returns; what hashes and fingerprints cover; the
  limits, the lifecycle and the end of every task and of every stream, under any interleaving.
  The loops are structural or have a measure, or are partial functions shown to return; none uses fuel.

  \<^bold>\<open>Not modelled.\<close> Tracing and capacity hints are left out, as
  are the map builder, the simulation core (numeric synthesis over floats), the import of geographic data, and of
  the service the bodies of the three kinds of task (any result, failure or panic after
  finitely many reports: that a body returns is assumed), the disk store, the configuration, and of the HTTP, gRPC and WebSocket
  interfaces all but the streams of events and samples.
\<close>

end
